(* ===== verification/Prelude.thy ===== *)
theory Prelude
  imports Main "HOL-Library.Word"
begin

text \<open>
  The prelude of the development: the widths of the machine integers the program uses, the
  result type that stands for Rust's \<open>Result<T, GlobAclError>\<close>, the early return \<open>?\<close>,
  bounds-checked indexing, and the collections of facts the component theories share.

  \<^item> \<open>u8\<close>, \<open>u16\<close>, \<open>u32\<close>, \<open>u64\<close> are words of HOL-Library.Word; \<open>+\<close> on them wraps, as
    release builds of the workspace do (no profile switches overflow checks on).
  \<^item> \<open>usize\<close> values that only count elements of a collection are \<open>nat\<close>.
  \<^item> \<open>gerror\<close> keeps the variants of \<open>GlobAclError\<close> the program branches on.  The text that
    \<open>Io\<close>, \<open>Parse\<close> and \<open>InvalidData\<close> carry is only ever printed, so it is dropped.
  \<^item> \<open>Panic\<close> is not a value of the Rust type: it is the outcome of an operation that would
    unwind (an index out of bounds).  The invariants show where it cannot occur.
\<close>

section \<open>Machine integers\<close>

type_synonym u8 = "8 word"
type_synonym u16 = "16 word"
type_synonym u32 = "32 word"
type_synonym u64 = "64 word"
type_synonym bytes = "8 word list"

section \<open>Results and early returns\<close>

datatype gerror =
    Io
  | Parse
  | InvalidData
  | Gap (gap_shard: u16) (gap_expected: u64) (gap_received: u64)
  | Panic

type_synonym 'a res = "gerror + 'a"

named_theorems result_simps \<open>rewriting of results and early returns\<close>
named_theorems wf_intros \<open>introduction of well-formedness invariants\<close>
named_theorems codec_simps \<open>round trips of the binary codec\<close>

text \<open>The \<open>?\<close> operator: an error ends the computation, a value is passed on.\<close>

definition rbind :: "'a res \<Rightarrow> ('a \<Rightarrow> 'b res) \<Rightarrow> 'b res" where
  "rbind m f = (case m of Inl e \<Rightarrow> Inl e | Inr x \<Rightarrow> f x)"

lemma rbind_Inl [simp, result_simps]: "rbind (Inl e) f = Inl e"
  by (simp add: rbind_def)

lemma rbind_Inr [simp, result_simps]: "rbind (Inr x) f = f x"
  by (simp add: rbind_def)

lemma rbind_eq_Inr [result_simps]:
  "rbind m f = Inr y \<longleftrightarrow> (\<exists>x. m = Inr x \<and> f x = Inr y)"
  by (cases m) auto

lemma rbind_eq_Inl [result_simps]:
  "rbind m f = Inl e \<longleftrightarrow> m = Inl e \<or> (\<exists>x. m = Inr x \<and> f x = Inl e)"
  by (cases m) auto

lemma rbind_assoc: "rbind (rbind m f) g = rbind m (\<lambda>x. rbind (f x) g)"
  by (cases m) auto

lemma rbind_cong [fundef_cong]:
  "m = m' \<Longrightarrow> (\<And>x. m' = Inr x \<Longrightarrow> f x = f' x) \<Longrightarrow> rbind m f = rbind m' f'"
  by (cases m') auto

definition is_ok :: "'a res \<Rightarrow> bool" where
  "is_ok r = (case r of Inl _ \<Rightarrow> False | Inr _ \<Rightarrow> True)"

lemma is_ok_simps [simp, result_simps]: "is_ok (Inr x)" "\<not> is_ok (Inl e)"
  by (simp_all add: is_ok_def)

lemma is_ok_iff: "is_ok r \<longleftrightarrow> (\<exists>x. r = Inr x)"
  by (cases r) auto

text \<open>\<open>Option::ok_or\<close>.\<close>

definition ok_or :: "gerror \<Rightarrow> 'a option \<Rightarrow> 'a res" where
  "ok_or e o' = (case o' of None \<Rightarrow> Inl e | Some x \<Rightarrow> Inr x)"

lemma ok_or_simps [simp, result_simps]: "ok_or e None = Inl e" "ok_or e (Some x) = Inr x"
  by (simp_all add: ok_or_def)

lemma ok_or_eq_Inr [result_simps]: "ok_or e o' = Inr x \<longleftrightarrow> o' = Some x"
  by (cases o') auto

text \<open>A \<open>for\<close> loop whose body uses \<open>?\<close>: the first error ends the loop.\<close>

fun rfold :: "('a \<Rightarrow> 's \<Rightarrow> 's res) \<Rightarrow> 'a list \<Rightarrow> 's \<Rightarrow> 's res" where
  "rfold f [] s = Inr s"
| "rfold f (x # xs) s = rbind (f x s) (rfold f xs)"

lemma rfold_append: "rfold f (xs @ ys) s = rbind (rfold f xs s) (rfold f ys)"
  by (induction xs arbitrary: s) (auto simp: rbind_assoc intro: rbind_cong)

lemma rfold_invariant:
  assumes "rfold f xs s = Inr s'" and "I s"
    and "\<And>x s s'. x \<in> set xs \<Longrightarrow> I s \<Longrightarrow> f x s = Inr s' \<Longrightarrow> I s'"
  shows "I s'"
  using assms
proof (induction xs arbitrary: s)
  case Nil
  then show ?case by simp
next
  case (Cons x xs)
  from Cons.prems(1) obtain t where t: "f x s = Inr t" and rest: "rfold f xs t = Inr s'"
    by (auto simp: rbind_eq_Inr)
  have "I t" by (rule Cons.prems(3) [OF _ Cons.prems(2) t]) simp
  with rest show ?case
    by (rule Cons.IH) (rule Cons.prems(3), auto)
qed

text \<open>Collecting a \<open>Result\<close> per element, as a loop that pushes \<open>f(x)?\<close> does.\<close>

fun rmap :: "('a \<Rightarrow> 'b res) \<Rightarrow> 'a list \<Rightarrow> 'b list res" where
  "rmap f [] = Inr []"
| "rmap f (x # xs) = rbind (f x) (\<lambda>y. rbind (rmap f xs) (\<lambda>ys. Inr (y # ys)))"

lemma rmap_eq_Inr: "rmap f xs = Inr ys \<longleftrightarrow> list_all2 (\<lambda>x y. f x = Inr y) xs ys"
proof (induction xs arbitrary: ys)
  case Nil
  then show ?case by auto
next
  case (Cons x xs)
  then show ?case by (cases ys) (auto simp: rbind_eq_Inr)
qed

section \<open>Vectors\<close>

text \<open>\<open>v[i]\<close> and \<open>v[i] = x\<close> panic outside the bounds.\<close>

definition vec_index :: "'a list \<Rightarrow> nat \<Rightarrow> 'a res" where
  "vec_index v i = (if i < length v then Inr (v ! i) else Inl Panic)"

lemma vec_index_simps [simp, result_simps]:
  "i < length v \<Longrightarrow> vec_index v i = Inr (v ! i)"
  "\<not> i < length v \<Longrightarrow> vec_index v i = Inl Panic"
  by (simp_all add: vec_index_def)

lemma vec_index_eq_Inr [result_simps]: "vec_index v i = Inr x \<longleftrightarrow> i < length v \<and> v ! i = x"
  by (auto simp: vec_index_def)

text \<open>\<open>v.get(i)\<close>.\<close>

definition vec_get :: "'a list \<Rightarrow> nat \<Rightarrow> 'a option" where
  "vec_get v i = (if i < length v then Some (v ! i) else None)"

definition vec_get_or :: "'a \<Rightarrow> 'a list \<Rightarrow> nat \<Rightarrow> 'a" where
  "vec_get_or d v i = (case vec_get v i of None \<Rightarrow> d | Some x \<Rightarrow> x)"

lemma vec_get_or_in [simp]: "i < length v \<Longrightarrow> vec_get_or d v i = v ! i"
  by (simp add: vec_get_or_def vec_get_def)

lemma vec_get_or_out [simp]: "\<not> i < length v \<Longrightarrow> vec_get_or d v i = d"
  by (simp add: vec_get_or_def vec_get_def)

text \<open>\<open>iter().copied().max().unwrap_or(0)\<close>.\<close>

fun max_or_zero :: "u64 list \<Rightarrow> u64" where
  "max_or_zero [] = 0"
| "max_or_zero (x # xs) = max x (max_or_zero xs)"

lemma max_or_zero_ge: "x \<in> set xs \<Longrightarrow> x \<le> max_or_zero xs"
  by (induction xs) (auto simp: le_max_iff_disj)

section \<open>Words\<close>

definition saturating_sub :: "u64 \<Rightarrow> u64 \<Rightarrow> u64" where
  "saturating_sub a b = (if b \<le> a then a - b else 0)"

text \<open>The next sequence number is larger unless the counter is exhausted.\<close>

lemma u64_succ_gt: "w \<noteq> - 1 \<Longrightarrow> (w::u64) < w + 1"
  by (meson inc_less_eq_triv_imp linorder_not_le)

lemma u64_succ_le: "(w::u64) < v \<Longrightarrow> w + 1 \<le> v"
  by (rule inc_le)

lemma unat_u64_bound: "unat (w::u64) < 18446744073709551616"
  by (rule order_less_le_trans [OF unsigned_less]) simp

lemma unat_u32_bound: "unat (w::u32) < 4294967296"
  by (rule order_less_le_trans [OF unsigned_less]) simp

lemma unat_u16_bound: "unat (w::u16) < 65536"
  by (rule order_less_le_trans [OF unsigned_less]) simp

lemma unat_u8_bound: "unat (w::u8) < 256"
  by (rule order_less_le_trans [OF unsigned_less]) simp

lemma unat_u64_succ:
  assumes "(w::u64) \<noteq> - 1"
  shows "unat (w + 1) = Suc (unat w)"
proof -
  from assms have "w < w + 1" by (rule u64_succ_gt)
  then show ?thesis by unat_arith
qed

end
