(* ===== verification/Rust_Collections.thy ===== *)
theory Rust_Collections
  imports Prelude "HOL-Library.AList" "HOL-Library.Multiset" "HOL-Library.Product_Lexorder"
    "HOL-Library.List_Lexorder" "HOL-Library.Char_ord"
begin

text \<open>
  The parts of Rust's standard collections the program uses.

  \<^item> \<open>HashMap\<close> is an association list with distinct keys (\<open>hm_ok\<close>).  The order of the list is
    the iteration order of the map, which the standard library leaves open: a statement about an
    arbitrary list with \<open>hm_ok\<close> is a statement about every iteration order, and results that
    only depend on \<open>hm_get\<close> do not depend on it.  The locale \<open>keyed_store\<close> is the interface the
    components rely on; \<open>hm\<close> interprets it on the association lists.
  \<^item> \<open>sort_by\<close> is the stable sort of slices over a comparison function into \<open>ordering\<close>; the
    locale \<open>comparator\<close> holds the laws a comparison has to satisfy for the result to be sorted.
\<close>

section \<open>HashMap\<close>

type_synonym ('k, 'v) hashmap = "('k \<times> 'v) list"

definition hm_new :: "('k, 'v) hashmap" where
  "hm_new = []"

definition hm_get :: "('k, 'v) hashmap \<Rightarrow> 'k \<Rightarrow> 'v option" where
  "hm_get m k = map_of m k"

definition hm_insert :: "'k \<Rightarrow> 'v \<Rightarrow> ('k, 'v) hashmap \<Rightarrow> ('k, 'v) hashmap" where
  "hm_insert k v m = AList.update k v m"

definition hm_remove :: "'k \<Rightarrow> ('k, 'v) hashmap \<Rightarrow> ('k, 'v) hashmap" where
  "hm_remove k m = AList.delete k m"

definition hm_contains :: "('k, 'v) hashmap \<Rightarrow> 'k \<Rightarrow> bool" where
  "hm_contains m k = (hm_get m k \<noteq> None)"

definition hm_keys :: "('k, 'v) hashmap \<Rightarrow> 'k list" where
  "hm_keys m = map fst m"

definition hm_values :: "('k, 'v) hashmap \<Rightarrow> 'v list" where
  "hm_values m = map snd m"

definition hm_len :: "('k, 'v) hashmap \<Rightarrow> nat" where
  "hm_len m = length m"

definition hm_ok :: "('k, 'v) hashmap \<Rightarrow> bool" where
  "hm_ok m = distinct (map fst m)"

lemma hm_ok_new [simp, wf_intros]: "hm_ok hm_new"
  by (simp add: hm_ok_def hm_new_def)

lemma hm_ok_insert [simp, wf_intros]: "hm_ok m \<Longrightarrow> hm_ok (hm_insert k v m)"
  by (simp add: hm_ok_def hm_insert_def distinct_update)

lemma hm_ok_remove [simp, wf_intros]: "hm_ok m \<Longrightarrow> hm_ok (hm_remove k m)"
  by (simp add: hm_ok_def hm_remove_def distinct_delete)

lemma hm_get_new [simp]: "hm_get hm_new k = None"
  by (simp add: hm_get_def hm_new_def)

lemma hm_get_insert [simp]: "hm_get (hm_insert k v m) k' = (if k' = k then Some v else hm_get m k')"
  by (simp add: hm_get_def hm_insert_def update_conv')

lemma hm_get_remove [simp]: "hm_get (hm_remove k m) k' = (if k' = k then None else hm_get m k')"
  by (simp add: hm_get_def hm_remove_def delete_conv')

lemma hm_keys_set: "set (hm_keys m) = {k. hm_get m k \<noteq> None}"
  by (force simp: hm_keys_def hm_get_def dom_map_of_conv_image_fst [symmetric])

lemma hm_contains_iff: "hm_contains m k \<longleftrightarrow> k \<in> set (hm_keys m)"
  by (simp add: hm_contains_def hm_keys_set)

lemma hm_pairs_set: "hm_ok m \<Longrightarrow> (k, v) \<in> set m \<longleftrightarrow> hm_get m k = Some v"
  by (auto simp: hm_ok_def hm_get_def intro: map_of_is_SomeI dest: map_of_SomeD)

lemma hm_values_set: "hm_ok m \<Longrightarrow> set (hm_values m) = {v. \<exists>k. hm_get m k = Some v}"
  by (force simp: hm_values_def hm_pairs_set [symmetric])

text \<open>The interface the components use, and what follows from it alone.\<close>

locale keyed_store =
  fixes empty :: "'m"
    and get :: "'m \<Rightarrow> 'k \<Rightarrow> 'v option"
    and insert :: "'k \<Rightarrow> 'v \<Rightarrow> 'm \<Rightarrow> 'm"
    and remove :: "'k \<Rightarrow> 'm \<Rightarrow> 'm"
  assumes get_empty: "get empty k = None"
    and get_insert: "get (insert k v m) k' = (if k' = k then Some v else get m k')"
    and get_remove: "get (remove k m) k' = (if k' = k then None else get m k')"
begin

text \<open>Inserting a sequence of entries under their own keys: the last one of a key stays.\<close>

lemma get_insert_all:
  "get (fold (\<lambda>x. insert (key x) (val x)) xs m)
     = get m ++ map_of (rev (map (\<lambda>x. (key x, val x)) xs))"
proof (induction xs arbitrary: m)
  case Nil
  then show ?case by simp
next
  case (Cons x xs)
  then show ?case
    by (auto simp: map_add_def get_insert fun_eq_iff split: option.splits)
qed

lemma get_insert_all_distinct:
  assumes "distinct (map key xs)" and "x \<in> set xs"
  shows "get (fold (\<lambda>x. insert (key x) (val x)) xs m) (key x) = Some (val x)"
proof -
  have "map_of (rev (map (\<lambda>x. (key x, val x)) xs)) (key x) = Some (val x)"
    using assms by (intro map_of_is_SomeI) (auto simp: rev_map [symmetric] o_def)
  then show ?thesis by (simp add: get_insert_all map_add_Some_iff)
qed

lemma get_insert_all_other:
  assumes "k \<notin> key ` set xs"
  shows "get (fold (\<lambda>x. insert (key x) (val x)) xs m) k = get m k"
proof -
  have "map_of (rev (map (\<lambda>x. (key x, val x)) xs)) k = None"
    using assms by (auto simp: map_of_eq_None_iff image_image)
  then show ?thesis by (simp add: get_insert_all map_add_def)
qed

lemma insert_remove_commute:
  "k \<noteq> k' \<Longrightarrow> get (insert k v (remove k' m)) = get (remove k' (insert k v m))"
  by (auto simp: fun_eq_iff get_insert get_remove)

end

interpretation hm: keyed_store hm_new hm_get hm_insert hm_remove
  by unfold_locales simp_all

lemma hm_ok_insert_all: "hm_ok m \<Longrightarrow> hm_ok (fold (\<lambda>x. hm_insert (key x) (val x)) xs m)"
  by (induction xs arbitrary: m) auto

lemma hm_values_nth_keys: "hm_ok m \<Longrightarrow> k \<in> set (hm_keys m) \<Longrightarrow> \<exists>v. hm_get m k = Some v"
  by (auto simp: hm_keys_set)

section \<open>Orderings and sorting\<close>

datatype ordering = Less | Equal | Greater

definition ord_cmp :: "'a::linorder \<Rightarrow> 'a \<Rightarrow> ordering" where
  "ord_cmp x y = (if x < y then Less else if x = y then Equal else Greater)"

text \<open>\<open>Ordering::then_with\<close>.\<close>

fun then_with :: "ordering \<Rightarrow> ordering \<Rightarrow> ordering" where
  "then_with Equal o' = o'"
| "then_with Less o' = Less"
| "then_with Greater o' = Greater"

fun insort_by :: "('a \<Rightarrow> 'a \<Rightarrow> ordering) \<Rightarrow> 'a \<Rightarrow> 'a list \<Rightarrow> 'a list" where
  "insort_by cmp x [] = [x]"
| "insort_by cmp x (y # ys) =
     (if cmp x y = Greater then y # insort_by cmp x ys else x # y # ys)"

text \<open>\<open>slice::sort_by\<close>: stable, elements that compare equal keep their order.\<close>

fun sort_by :: "('a \<Rightarrow> 'a \<Rightarrow> ordering) \<Rightarrow> 'a list \<Rightarrow> 'a list" where
  "sort_by cmp [] = []"
| "sort_by cmp (x # xs) = insort_by cmp x (sort_by cmp xs)"

lemma mset_insort_by: "mset (insort_by cmp x xs) = {#x#} + mset xs"
  by (induction xs) auto

lemma mset_sort_by [simp]: "mset (sort_by cmp xs) = mset xs"
  by (induction xs) (auto simp: mset_insort_by)

lemma set_insort_by [simp]: "set (insort_by cmp x xs) = insert x (set xs)"
  by (induction xs) auto

lemma set_sort_by [simp]: "set (sort_by cmp xs) = set xs"
  by (induction xs) auto

lemma length_sort_by [simp]: "length (sort_by cmp xs) = length xs"
  using mset_eq_length [OF mset_sort_by [of cmp xs]] .

locale comparator =
  fixes cmp :: "'a \<Rightarrow> 'a \<Rightarrow> ordering"
  assumes cmp_refl: "cmp x x = Equal"
    and cmp_swap: "cmp x y = Greater \<longleftrightarrow> cmp y x = Less"
    and cmp_trans: "cmp x y \<noteq> Greater \<Longrightarrow> cmp y z \<noteq> Greater \<Longrightarrow> cmp x z \<noteq> Greater"
begin

lemma cmp_Equal_swap: "cmp x y = Equal \<longleftrightarrow> cmp y x = Equal"
  using cmp_swap [of x y] cmp_swap [of y x] by (cases "cmp x y"; cases "cmp y x") auto

lemma cmp_not_Greater_iff: "cmp x y \<noteq> Greater \<longleftrightarrow> cmp y x \<noteq> Less"
  by (simp add: cmp_swap)

lemma cmp_Greater_total: "cmp x y = Greater \<Longrightarrow> cmp y x \<noteq> Greater"
  by (simp add: cmp_swap)

lemma sorted_insort:
  "sorted_wrt (\<lambda>x y. cmp x y \<noteq> Greater) xs
   \<Longrightarrow> sorted_wrt (\<lambda>x y. cmp x y \<noteq> Greater) (insort_by cmp x xs)"
proof (induction xs)
  case Nil
  then show ?case by simp
next
  case (Cons y ys)
  then show ?case by (auto dest: cmp_Greater_total cmp_trans)
qed

lemma sorted_sort_by: "sorted_wrt (\<lambda>x y. cmp x y \<noteq> Greater) (sort_by cmp xs)"
  by (induction xs) (auto intro: sorted_insort)

text \<open>Stability: elements that compare equal to \<open>a\<close> keep their order.\<close>

lemma cmp_Equal_trans: "cmp a x = Equal \<Longrightarrow> cmp a y = Equal \<Longrightarrow> cmp x y \<noteq> Greater"
  using cmp_Equal_swap [of a x] cmp_trans [of x a y] by simp

lemma filter_insort_by:
  "filter (\<lambda>y. cmp a y = Equal) (insort_by cmp x xs) =
     (if cmp a x = Equal then x # filter (\<lambda>y. cmp a y = Equal) xs
      else filter (\<lambda>y. cmp a y = Equal) xs)"
  by (induction xs) (auto dest: cmp_Equal_trans)

lemma filter_sort_by:
  "filter (\<lambda>y. cmp a y = Equal) (sort_by cmp xs) = filter (\<lambda>y. cmp a y = Equal) xs"
  by (induction xs) (simp_all add: filter_insort_by)

text \<open>The head of the sorted slice is a least element.\<close>

lemma hd_sort_by_least:
  assumes "sort_by cmp xs = y # ys" and "x \<in> set xs"
  shows "cmp y x \<noteq> Greater"
proof -
  have "x \<in> set (y # ys)" using assms set_sort_by [of cmp xs] by simp
  moreover have "sorted_wrt (\<lambda>x y. cmp x y \<noteq> Greater) (y # ys)"
    using sorted_sort_by [of xs] assms(1) by simp
  ultimately show ?thesis using cmp_refl [of y] by auto
qed

end

lemma comparator_ord: "comparator ord_cmp"
  by unfold_locales (auto simp: ord_cmp_def split: if_splits)

lemma comparator_key: "comparator cmp \<Longrightarrow> comparator (\<lambda>x y. cmp (f x) (f y))"
  by (auto simp: comparator_def)

lemma comparator_rev: "comparator cmp \<Longrightarrow> comparator (\<lambda>x y. cmp y x)"
  by (auto simp: comparator_def)

lemma then_with_Equal: "then_with o1 o2 = Equal \<longleftrightarrow> o1 = Equal \<and> o2 = Equal"
  by (cases o1) auto

lemma then_with_Greater: "then_with o1 o2 = Greater \<longleftrightarrow> o1 = Greater \<or> o1 = Equal \<and> o2 = Greater"
  by (cases o1) auto

lemma then_with_Less: "then_with o1 o2 = Less \<longleftrightarrow> o1 = Less \<or> o1 = Equal \<and> o2 = Less"
  by (cases o1) auto

lemma comparator_then:
  assumes a: "comparator c1" and b: "comparator c2"
  shows "comparator (\<lambda>x y. then_with (c1 x y) (c2 x y))"
proof (unfold_locales, goal_cases)
  case (1 x)
  then show ?case
    by (simp add: comparator.cmp_refl [OF a] comparator.cmp_refl [OF b])
next
  case (2 x y)
  then show ?case
    by (auto simp: then_with_Greater then_with_Less comparator.cmp_swap [OF a]
        comparator.cmp_swap [OF b] comparator.cmp_Equal_swap [OF a, of x y])
next
  case (3 x y z)
  note t1 = comparator.cmp_trans [OF a] and t2 = comparator.cmp_trans [OF b]
  from 3 have xy: "c1 x y \<noteq> Greater" and yz: "c1 y z \<noteq> Greater"
    by (auto simp: then_with_Greater)
  from t1 [OF xy yz] have xz: "c1 x z \<noteq> Greater" .
  have "c2 x z \<noteq> Greater" if eq: "c1 x z = Equal"
  proof -
    have "c1 z x \<noteq> Greater" using eq comparator.cmp_Equal_swap [OF a, of x z] by simp
    then have "c1 y x \<noteq> Greater" and "c1 z y \<noteq> Greater"
      using t1 [OF yz] t1 [OF _ xy] by auto
    then have "c1 x y = Equal" and "c1 y z = Equal"
      using xy yz comparator.cmp_swap [OF a, of y x] comparator.cmp_swap [OF a, of z y]
      by (cases "c1 x y"; cases "c1 y z"; auto)+
    with 3 have "c2 x y \<noteq> Greater" and "c2 y z \<noteq> Greater" by auto
    then show ?thesis by (rule t2)
  qed
  with xz show ?case by (auto simp: then_with_Greater)
qed

lemmas comparator_intros = comparator_then comparator_ord comparator_key [OF comparator_ord]
  comparator_rev [OF comparator_key [OF comparator_ord]]

interpretation ord_cmp: comparator ord_cmp
  by (rule comparator_ord)

lemma ord_cmp_simps:
  "ord_cmp x y = Less \<longleftrightarrow> x < y" "ord_cmp x y = Equal \<longleftrightarrow> x = y" "ord_cmp x y = Greater \<longleftrightarrow> y < x"
  by (auto simp: ord_cmp_def)

section \<open>Binary search\<close>

text \<open>\<open>slice::binary_search_by\<close>: the comparison puts the element relative to the target.\<close>

function bsearch :: "('a \<Rightarrow> ordering) \<Rightarrow> 'a list \<Rightarrow> nat \<Rightarrow> nat \<Rightarrow> nat option" where
  "bsearch f xs lo hi =
     (if hi \<le> lo \<or> length xs < hi then None
      else let mid = lo + (hi - lo) div 2 in
        case f (xs ! mid) of
          Equal \<Rightarrow> Some mid
        | Less \<Rightarrow> bsearch f xs (mid + 1) hi
        | Greater \<Rightarrow> bsearch f xs lo mid)"
  by pat_completeness auto
termination
  by (relation "measure (\<lambda>(f, xs, lo, hi). hi - lo)") auto

declare bsearch.simps [simp del]

definition binary_search_by :: "('a \<Rightarrow> ordering) \<Rightarrow> 'a list \<Rightarrow> nat option" where
  "binary_search_by f xs = bsearch f xs 0 (length xs)"

lemma bsearch_out: "hi \<le> lo \<or> length xs < hi \<Longrightarrow> bsearch f xs lo hi = None"
  by (subst bsearch.simps) simp

lemma bsearch_step:
  "\<not> (hi \<le> lo \<or> length xs < hi) \<Longrightarrow> mid = lo + (hi - lo) div 2 \<Longrightarrow>
   bsearch f xs lo hi = (case f (xs ! mid) of Equal \<Rightarrow> Some mid
      | Less \<Rightarrow> bsearch f xs (mid + 1) hi | Greater \<Rightarrow> bsearch f xs lo mid)"
  by (subst bsearch.simps) (simp only: Let_def if_False)

lemma bsearch_sound: "bsearch f xs lo hi = Some i \<Longrightarrow> lo \<le> i \<and> i < hi \<and> i < length xs \<and> f (xs ! i) = Equal"
proof (induction f xs lo hi rule: bsearch.induct)
  case (1 f xs lo hi)
  show ?case
  proof (cases "hi \<le> lo \<or> length xs < hi")
    case True
    with 1(3) show ?thesis by (simp add: bsearch_out)
  next
    case False
    define mid where "mid = lo + (hi - lo) div 2"
    then have mid: "lo \<le> mid" "mid < hi" using False by auto
    show ?thesis
      using 1(1) [OF False mid_def] 1(2) [OF False mid_def] 1(3) mid False
      unfolding bsearch_step [OF False mid_def]
      by (cases "f (xs ! mid)") auto
  qed
qed

text \<open>The elements left of a target compare \<open>Less\<close>, those right of it \<open>Greater\<close>.\<close>

definition partitioned :: "('a \<Rightarrow> ordering) \<Rightarrow> 'a list \<Rightarrow> bool" where
  "partitioned f xs \<longleftrightarrow> (\<forall>i j. i < j \<and> j < length xs \<longrightarrow>
     (f (xs ! j) \<noteq> Greater \<longrightarrow> f (xs ! i) = Less) \<and> (f (xs ! i) \<noteq> Less \<longrightarrow> f (xs ! j) = Greater))"

lemma bsearch_complete:
  "partitioned f xs \<Longrightarrow> lo \<le> i \<Longrightarrow> i < hi \<Longrightarrow> hi \<le> length xs \<Longrightarrow> f (xs ! i) = Equal \<Longrightarrow>
   bsearch f xs lo hi = Some i"
proof (induction f xs lo hi rule: bsearch.induct)
  case (1 f xs lo hi)
  define mid where "mid = lo + (hi - lo) div 2"
  have mid: "lo \<le> mid" "mid < hi" using 1 by (auto simp: mid_def)
  have step: "bsearch f xs lo hi = (case f (xs ! mid) of Equal \<Rightarrow> Some mid
      | Less \<Rightarrow> bsearch f xs (mid + 1) hi | Greater \<Rightarrow> bsearch f xs lo mid)"
    by (rule bsearch_step) (use 1 in \<open>auto simp: mid_def\<close>)
  note P = 1(3)[unfolded partitioned_def, rule_format]
  show ?case
  proof (cases "f (xs ! mid)")
    case Less
    have "i \<noteq> mid" using Less 1 by auto
    moreover have "\<not> i < mid" using P [of i mid] Less 1 mid by auto
    ultimately have "mid + 1 \<le> i" by simp
    then show ?thesis using 1 Less step by (simp add: mid_def)
  next
    case Equal
    have "\<not> i < mid" "\<not> mid < i" using P [of i mid] P [of mid i] Equal 1 mid by auto
    then show ?thesis using step Equal by simp
  next
    case Greater
    have "i \<noteq> mid" using Greater 1 by auto
    moreover have "\<not> mid < i" using P [of mid i] Greater 1 mid by auto
    ultimately have "i < mid" by simp
    then show ?thesis using 1 Greater step mid by (simp add: mid_def)
  qed
qed

lemma binary_search_by_spec:
  assumes "partitioned f xs"
  shows "(case binary_search_by f xs of
            Some i \<Rightarrow> i < length xs \<and> f (xs ! i) = Equal
          | None \<Rightarrow> \<forall>x \<in> set xs. f x \<noteq> Equal)"
proof (cases "binary_search_by f xs")
  case None
  then have "f (xs ! i) \<noteq> Equal" if "i < length xs" for i
    using bsearch_complete [OF assms, of 0 i "length xs"] that by (auto simp: binary_search_by_def)
  with None show ?thesis by (auto simp: in_set_conv_nth)
next
  case (Some i)
  then show ?thesis using bsearch_sound by (fastforce simp: binary_search_by_def)
qed

end
