(* ===== verification/Rust_Str.thy ===== *)
theory Rust_Str
  imports Rust_Collections "HOL-Library.Sublist"
begin

text \<open>
  Rust strings.  A \<open>String\<close> is its sequence of UTF-8 bytes, one \<open>char\<close> (a HOL character has
  eight bits) per byte, so \<open>length\<close> is \<open>str::len\<close> and the lexicographic order of the lists is
  the \<open>Ord\<close> of \<open>str\<close>.  The functions are those of \<open>core::str\<close> the program calls: \<open>as_bytes\<close>,
  \<open>String::from_utf8\<close>, \<open>trim\<close> (Unicode white space), \<open>to_ascii_lowercase\<close>, \<open>split\<close>,
  \<open>split_once\<close>, \<open>join\<close>, \<open>str::parse\<close> for unsigned integers, and the \<open>{}\<close> and \<open>{:0N}\<close> formats of
  numbers.  The lemmas are the round trips between formatting and parsing of numbers, between
  \<open>split\<close> and \<open>join\<close>, and the injectivity of the formats that name files and operations.
\<close>

section \<open>Bytes and UTF-8\<close>

definition byte_of_char :: "char \<Rightarrow> u8" where
  "byte_of_char c = word_of_nat (of_char c)"

definition char_of_byte :: "u8 \<Rightarrow> char" where
  "char_of_byte b = char_of (unat b)"

definition as_bytes :: "string \<Rightarrow> bytes" where
  "as_bytes s = map byte_of_char s"

definition str_of_bytes :: "bytes \<Rightarrow> string" where
  "str_of_bytes bs = map char_of_byte bs"

lemma of_char_bound: "(of_char c :: nat) < 256"
  using of_char_mod_256 [of c, where 'a = nat] mod_less_divisor [of 256 "of_char c"] by simp

lemma char_byte [simp]: "char_of_byte (byte_of_char c) = c"
  using of_char_bound [of c] by (simp add: char_of_byte_def byte_of_char_def unat_of_nat)

lemma byte_char [simp]: "byte_of_char (char_of_byte b) = b"
  using unat_u8_bound [of b]
  by (simp add: char_of_byte_def byte_of_char_def of_char_of)

lemma str_of_as_bytes [simp]: "str_of_bytes (as_bytes s) = s"
  by (induction s) (auto simp: as_bytes_def str_of_bytes_def)

lemma as_bytes_of_str [simp]: "as_bytes (str_of_bytes bs) = bs"
  by (induction bs) (auto simp: as_bytes_def str_of_bytes_def)

lemma length_as_bytes [simp]: "length (as_bytes s) = length s"
  by (simp add: as_bytes_def)

lemma as_bytes_append: "as_bytes (s @ t) = as_bytes s @ as_bytes t"
  by (simp add: as_bytes_def)

lemma as_bytes_inj: "as_bytes s = as_bytes t \<longleftrightarrow> s = t"
  by (metis str_of_as_bytes)

text \<open>The validation of \<open>core::str::from_utf8\<close>: the ranges of the second byte rule out overlong
  forms, surrogates and code points above U+10FFFF.\<close>

definition utf8_cont :: "u8 \<Rightarrow> bool" where
  "utf8_cont b \<longleftrightarrow> 0x80 \<le> b \<and> b \<le> 0xBF"

definition utf8_second3 :: "u8 \<Rightarrow> u8 \<Rightarrow> bool" where
  "utf8_second3 b0 b1 \<longleftrightarrow>
     (b0 = 0xE0 \<and> 0xA0 \<le> b1 \<and> b1 \<le> 0xBF) \<or>
     (0xE1 \<le> b0 \<and> b0 \<le> 0xEC \<and> utf8_cont b1) \<or>
     (b0 = 0xED \<and> 0x80 \<le> b1 \<and> b1 \<le> 0x9F) \<or>
     (0xEE \<le> b0 \<and> b0 \<le> 0xEF \<and> utf8_cont b1)"

definition utf8_second4 :: "u8 \<Rightarrow> u8 \<Rightarrow> bool" where
  "utf8_second4 b0 b1 \<longleftrightarrow>
     (b0 = 0xF0 \<and> 0x90 \<le> b1 \<and> b1 \<le> 0xBF) \<or>
     (0xF1 \<le> b0 \<and> b0 \<le> 0xF3 \<and> utf8_cont b1) \<or>
     (b0 = 0xF4 \<and> 0x80 \<le> b1 \<and> b1 \<le> 0x8F)"

text \<open>The number of bytes of the first character, 0 if the bytes do not start with one.\<close>

definition utf8_width :: "bytes \<Rightarrow> nat" where
  "utf8_width bs = (case bs of
     [] \<Rightarrow> 0
   | b0 # r \<Rightarrow>
       if b0 \<le> 0x7F then 1
       else if 0xC2 \<le> b0 \<and> b0 \<le> 0xDF then
         (case r of b1 # _ \<Rightarrow> if utf8_cont b1 then 2 else 0 | _ \<Rightarrow> 0)
       else if 0xE0 \<le> b0 \<and> b0 \<le> 0xEF then
         (case r of b1 # b2 # _ \<Rightarrow> if utf8_second3 b0 b1 \<and> utf8_cont b2 then 3 else 0 | _ \<Rightarrow> 0)
       else if 0xF0 \<le> b0 \<and> b0 \<le> 0xF4 then
         (case r of b1 # b2 # b3 # _ \<Rightarrow>
            if utf8_second4 b0 b1 \<and> utf8_cont b2 \<and> utf8_cont b3 then 4 else 0 | _ \<Rightarrow> 0)
       else 0)"

function utf8_valid :: "bytes \<Rightarrow> bool" where
  "utf8_valid bs =
     (if bs = [] then True
      else if utf8_width bs = 0 then False
      else utf8_valid (drop (utf8_width bs) bs))"
  by pat_completeness auto
termination
  by (relation "measure length") auto

declare utf8_valid.simps [simp del]

definition from_utf8 :: "bytes \<Rightarrow> string option" where
  "from_utf8 bs = (if utf8_valid bs then Some (str_of_bytes bs) else None)"

text \<open>What every Rust string satisfies.\<close>

definition str_ok :: "string \<Rightarrow> bool" where
  "str_ok s = utf8_valid (as_bytes s)"

lemma from_utf8_as_bytes [simp]: "str_ok s \<Longrightarrow> from_utf8 (as_bytes s) = Some s"
  by (simp add: from_utf8_def str_ok_def)

lemma from_utf8_str_ok: "from_utf8 bs = Some s \<Longrightarrow> str_ok s \<and> as_bytes s = bs"
  by (auto simp: from_utf8_def str_ok_def split: if_splits)

lemma str_ok_Nil [simp]: "str_ok []"
  by (simp add: str_ok_def as_bytes_def utf8_valid.simps)

lemma str_ok_ascii: "\<forall>c \<in> set s. of_char c < (128::nat) \<Longrightarrow> str_ok s"
proof (induction s)
  case Nil
  then show ?case by simp
next
  case (Cons c s)
  then have c: "of_char c < (128::nat)" by simp
  have "unat (byte_of_char c) = of_char c"
    using of_char_bound [of c] by (simp add: byte_of_char_def unat_of_nat)
  with c have "unat (byte_of_char c) \<le> unat (0x7F :: u8)" by simp
  then have "byte_of_char c \<le> 0x7F" by (simp only: word_le_nat_alt)
  then have w: "utf8_width (as_bytes (c # s)) = 1"
    by (simp add: utf8_width_def as_bytes_def)
  from Cons have "str_ok s" by simp
  then show ?case
    unfolding str_ok_def
    by (subst utf8_valid.simps) (simp only: w, simp add: as_bytes_def)
qed

section \<open>Trimming, case and splitting\<close>

text \<open>The UTF-8 encodings of the characters with the property White\_Space.\<close>

definition ws_chars :: "string list" where
  "ws_chars =
     map (\<lambda>n. [char_of (n::nat)]) [0x09, 0x0A, 0x0B, 0x0C, 0x0D, 0x20]
   @ map (map (\<lambda>n. char_of (n::nat)))
       [[0xC2, 0x85], [0xC2, 0xA0], [0xE1, 0x9A, 0x80],
        [0xE2, 0x80, 0x80], [0xE2, 0x80, 0x81], [0xE2, 0x80, 0x82], [0xE2, 0x80, 0x83],
        [0xE2, 0x80, 0x84], [0xE2, 0x80, 0x85], [0xE2, 0x80, 0x86], [0xE2, 0x80, 0x87],
        [0xE2, 0x80, 0x88], [0xE2, 0x80, 0x89], [0xE2, 0x80, 0x8A], [0xE2, 0x80, 0xA8],
        [0xE2, 0x80, 0xA9], [0xE2, 0x80, 0xAF], [0xE2, 0x81, 0x9F], [0xE3, 0x80, 0x80]]"

function strip_front :: "string list \<Rightarrow> string \<Rightarrow> string" where
  "strip_front ws s =
     (case find (\<lambda>w. w \<noteq> [] \<and> prefix w s) ws of
        None \<Rightarrow> s
      | Some w \<Rightarrow> strip_front ws (drop (length w) s))"
  by pat_completeness auto
termination
proof (relation "measure (\<lambda>(ws, s). length s)", goal_cases)
  case (2 ws s w)
  then have "w \<noteq> [] \<and> prefix w s" by (auto simp: find_Some_iff)
  then show ?case by (auto simp: prefix_def)
qed simp

declare strip_front.simps [simp del]

definition trim_start :: "string \<Rightarrow> string" where
  "trim_start s = strip_front ws_chars s"

definition trim_end :: "string \<Rightarrow> string" where
  "trim_end s = rev (strip_front (map rev ws_chars) (rev s))"

definition trim :: "string \<Rightarrow> string" where
  "trim s = trim_end (trim_start s)"

definition ascii_lower :: "char \<Rightarrow> char" where
  "ascii_lower c =
     (let n = of_char c :: nat in if 65 \<le> n \<and> n \<le> 90 then char_of (n + 32) else c)"

definition to_ascii_lowercase :: "string \<Rightarrow> string" where
  "to_ascii_lowercase s = map ascii_lower s"

lemma ascii_lower_idem: "ascii_lower (ascii_lower c) = ascii_lower c"
proof (cases "65 \<le> (of_char c :: nat) \<and> (of_char c :: nat) \<le> 90")
  case True
  then have "(of_char (char_of ((of_char c :: nat) + 32)) :: nat) = of_char c + 32"
    by (simp add: of_char_of)
  with True show ?thesis by (simp add: ascii_lower_def Let_def)
next
  case False
  then have "ascii_lower c = c" by (auto simp: ascii_lower_def Let_def)
  then show ?thesis by simp
qed

lemma to_ascii_lowercase_idem [simp]:
  "to_ascii_lowercase (to_ascii_lowercase s) = to_ascii_lowercase s"
  by (simp add: to_ascii_lowercase_def ascii_lower_idem)

lemma length_to_ascii_lowercase [simp]: "length (to_ascii_lowercase s) = length s"
  by (simp add: to_ascii_lowercase_def)

text \<open>\<open>str::split\<close> on a character: always at least one piece.\<close>

fun split_on :: "char \<Rightarrow> string \<Rightarrow> string list" where
  "split_on c [] = [[]]"
| "split_on c (x # xs) =
     (if x = c then [] # split_on c xs
      else (case split_on c xs of [] \<Rightarrow> [[x]] | p # ps \<Rightarrow> (x # p) # ps))"

fun join_with :: "char \<Rightarrow> string list \<Rightarrow> string" where
  "join_with c [] = []"
| "join_with c [p] = p"
| "join_with c (p # q # ps) = p @ c # join_with c (q # ps)"

lemma split_on_not_Nil [simp]: "split_on c s \<noteq> []"
  by (cases s) (auto split: list.splits)

lemma join_split [simp]: "join_with c (split_on c s) = s"
proof (induction s)
  case Nil
  then show ?case by simp
next
  case (Cons x xs)
  obtain p ps where eq: "split_on c xs = p # ps" by (cases "split_on c xs") auto
  with Cons show ?case by (cases ps) auto
qed

lemma split_on_pieces: "p \<in> set (split_on c s) \<Longrightarrow> c \<notin> set p"
  by (induction s arbitrary: p) (auto split: if_splits list.splits)

lemma split_on_piece: "c \<notin> set p \<Longrightarrow> split_on c p = [p]"
  by (induction p) auto

lemma split_on_append: "c \<notin> set p \<Longrightarrow> split_on c (p @ c # s) = p # split_on c s"
  by (induction p) auto

lemma split_join:
  "ps \<noteq> [] \<Longrightarrow> \<forall>p \<in> set ps. c \<notin> set p \<Longrightarrow> split_on c (join_with c ps) = ps"
  by (induction c ps rule: join_with.induct) (auto simp: split_on_piece split_on_append)

definition split_once :: "char \<Rightarrow> string \<Rightarrow> (string \<times> string) option" where
  "split_once c s =
     (if c \<in> set s then Some (takeWhile (\<lambda>x. x \<noteq> c) s, tl (dropWhile (\<lambda>x. x \<noteq> c) s)) else None)"

lemma split_once_Some:
  assumes "split_once c s = Some (a, b)"
  shows "s = a @ c # b \<and> c \<notin> set a"
proof -
  from assms have c: "c \<in> set s" and a: "a = takeWhile (\<lambda>x. x \<noteq> c) s"
    and b: "b = tl (dropWhile (\<lambda>x. x \<noteq> c) s)"
    by (auto simp: split_once_def split: if_splits)
  from c obtain z zs where z: "dropWhile (\<lambda>x. x \<noteq> c) s = z # zs"
    by (cases "dropWhile (\<lambda>x. x \<noteq> c) s") (auto simp: dropWhile_eq_Nil_conv)
  then have "z = c" using hd_dropWhile [of "\<lambda>x. x \<noteq> c" s] by simp
  with z a b have "s = a @ c # b" using takeWhile_dropWhile_id [of "\<lambda>x. x \<noteq> c" s] by simp
  moreover have "c \<notin> set a" using a set_takeWhileD by force
  ultimately show ?thesis by simp
qed

lemma split_once_append: "c \<notin> set a \<Longrightarrow> split_once c (a @ c # b) = Some (a, b)"
proof -
  assume "c \<notin> set a"
  then have "takeWhile (\<lambda>x. x \<noteq> c) (a @ c # b) = a \<and> dropWhile (\<lambda>x. x \<noteq> c) (a @ c # b) = c # b"
    by (induction a) auto
  then show ?thesis by (simp add: split_once_def)
qed

text \<open>\<open>trim_end_matches\<close> and \<open>trim_matches\<close> with one character.\<close>

definition trim_end_matches :: "char \<Rightarrow> string \<Rightarrow> string" where
  "trim_end_matches c s = rev (dropWhile (\<lambda>x. x = c) (rev s))"

definition trim_matches :: "char \<Rightarrow> string \<Rightarrow> string" where
  "trim_matches c s = trim_end_matches c (dropWhile (\<lambda>x. x = c) s)"

definition strip_prefix :: "string \<Rightarrow> string \<Rightarrow> string option" where
  "strip_prefix p s = (if prefix p s then Some (drop (length p) s) else None)"

section \<open>Numbers\<close>

definition is_ascii_digit :: "char \<Rightarrow> bool" where
  "is_ascii_digit c = (let n = of_char c :: nat in 48 \<le> n \<and> n \<le> 57)"

definition is_ascii_alphanumeric :: "char \<Rightarrow> bool" where
  "is_ascii_alphanumeric c =
     (let n = of_char c :: nat in (48 \<le> n \<and> n \<le> 57) \<or> (65 \<le> n \<and> n \<le> 90) \<or> (97 \<le> n \<and> n \<le> 122))"

definition is_ascii_hexdigit :: "char \<Rightarrow> bool" where
  "is_ascii_hexdigit c =
     (let n = of_char c :: nat in (48 \<le> n \<and> n \<le> 57) \<or> (65 \<le> n \<and> n \<le> 70) \<or> (97 \<le> n \<and> n \<le> 102))"

definition digit_char :: "nat \<Rightarrow> char" where
  "digit_char n = char_of (48 + n)"

fun digits_val :: "nat \<Rightarrow> string \<Rightarrow> nat option" where
  "digits_val acc [] = Some acc"
| "digits_val acc (c # cs) =
     (if is_ascii_digit c then digits_val (10 * acc + (of_char c - 48)) cs else None)"

text \<open>\<open>str::parse\<close> of an unsigned integer below \<open>bound\<close>: an optional \<open>+\<close>, then at least one
  decimal digit; overflow is an error.\<close>

definition parse_uint :: "nat \<Rightarrow> string \<Rightarrow> nat option" where
  "parse_uint bound s =
     (let d = (case s of [] \<Rightarrow> [] | c # cs \<Rightarrow> if c = CHR ''+'' then cs else s)
      in if d = [] then None
         else case digits_val 0 d of
                None \<Rightarrow> None
              | Some n \<Rightarrow> if n < bound then Some n else None)"

fun dec_string :: "nat \<Rightarrow> string" where
  "dec_string n = (if n < 10 then [digit_char n] else dec_string (n div 10) @ [digit_char (n mod 10)])"

declare dec_string.simps [simp del]

text \<open>The format \<open>{:0w}\<close>.\<close>

definition pad_dec :: "nat \<Rightarrow> nat \<Rightarrow> string" where
  "pad_dec w n = (let d = dec_string n in replicate (w - length d) (CHR ''0'') @ d)"

lemma of_char_digit: "n < 10 \<Longrightarrow> (of_char (digit_char n) :: nat) = 48 + n"
  by (simp add: digit_char_def of_char_of)

lemma is_digit_digit_char: "n < 10 \<Longrightarrow> is_ascii_digit (digit_char n)"
  by (simp add: is_ascii_digit_def of_char_digit)

lemma digits_val_append:
  "digits_val acc (s @ t) = (case digits_val acc s of None \<Rightarrow> None | Some v \<Rightarrow> digits_val v t)"
  by (induction acc s rule: digits_val.induct) auto

lemma dec_string_not_Nil [simp]: "dec_string n \<noteq> []"
  by (subst dec_string.simps) simp

lemma digits_val_dec: "digits_val 0 (dec_string n) = Some n"
proof (induction n rule: dec_string.induct)
  case (1 n)
  show ?case
  proof (cases "n < 10")
    case True
    then show ?thesis
      by (subst dec_string.simps) (simp add: is_digit_digit_char of_char_digit)
  next
    case False
    with 1 have "digits_val 0 (dec_string (n div 10)) = Some (n div 10)" by simp
    with False show ?thesis
      by (subst dec_string.simps) (simp add: digits_val_append is_digit_digit_char of_char_digit)
  qed
qed

lemma digits_val_zeros: "digits_val 0 (replicate k (CHR ''0'') @ s) = digits_val 0 s"
  by (induction k) (auto simp: is_ascii_digit_def)

lemma digits_val_pad: "digits_val 0 (pad_dec w n) = Some n"
  by (simp add: pad_dec_def Let_def digits_val_zeros digits_val_dec)

lemma dec_string_inj: "dec_string m = dec_string n \<longleftrightarrow> m = n"
  by (metis digits_val_dec option.inject)

lemma pad_dec_inj: "pad_dec w m = pad_dec w n \<longleftrightarrow> m = n"
  by (metis digits_val_pad option.inject)

lemma dec_string_digits: "c \<in> set (dec_string n) \<Longrightarrow> is_ascii_digit c"
proof (induction n rule: dec_string.induct)
  case (1 n)
  then show ?case
    by (subst (asm) dec_string.simps) (auto simp: is_digit_digit_char split: if_splits)
qed

lemma dec_string_hd: "dec_string n = c # cs \<Longrightarrow> c \<noteq> CHR ''+''"
  using dec_string_digits [of c n] by (auto simp: is_ascii_digit_def)

text \<open>Formatting and parsing agree on every value of the type.\<close>

lemma parse_dec_string: "n < bound \<Longrightarrow> parse_uint bound (dec_string n) = Some n"
  using digits_val_dec [of n] dec_string_hd [of n]
  by (cases "dec_string n") (auto simp: parse_uint_def Let_def)

lemma parse_uint_bound: "parse_uint bound s = Some n \<Longrightarrow> n < bound"
  by (auto simp: parse_uint_def Let_def split: option.splits if_splits)

text \<open>Trimming leaves strings without white space alone.\<close>

definition graphic :: "char \<Rightarrow> bool" where
  "graphic c \<longleftrightarrow> 33 \<le> (of_char c :: nat) \<and> (of_char c :: nat) < 128"

lemma ws_not_graphic: "w \<in> set ws_chars \<Longrightarrow> \<exists>c \<in> set w. \<not> graphic c"
proof -
  have "list_all (\<lambda>w. list_ex (\<lambda>c. \<not> graphic c) w) ws_chars"
    by (simp add: ws_chars_def graphic_def)
  then show "w \<in> set ws_chars \<Longrightarrow> \<exists>c \<in> set w. \<not> graphic c"
    by (auto simp: list_all_iff list_ex_iff)
qed

lemma strip_front_graphic:
  assumes "\<forall>c \<in> set s. graphic c" and "\<forall>w \<in> set ws. \<exists>c \<in> set w. \<not> graphic c"
  shows "strip_front ws s = s"
proof -
  have "find (\<lambda>w. w \<noteq> [] \<and> prefix w s) ws = None"
    using assms by (fastforce simp: find_None_iff dest: set_mono_prefix)
  then show ?thesis by (simp add: strip_front.simps)
qed

lemma trim_graphic: "\<forall>c \<in> set s. graphic c \<Longrightarrow> trim s = s"
  using ws_not_graphic
  by (simp add: trim_def trim_start_def trim_end_def strip_front_graphic)

lemma digit_graphic: "is_ascii_digit c \<Longrightarrow> graphic c"
  by (simp add: is_ascii_digit_def graphic_def Let_def)

lemma dec_string_graphic: "c \<in> set (dec_string n) \<Longrightarrow> graphic c"
  by (rule digit_graphic) (rule dec_string_digits)

lemma dec_string_no: "\<not> is_ascii_digit c \<Longrightarrow> c \<notin> set (dec_string n)"
  using dec_string_digits by blast

section \<open>Searching and splitting text\<close>

definition backslash :: char where
  "backslash = CHR 0x5C"

definition newline :: char where
  "newline = CHR 0x0A"

definition carriage_return :: char where
  "carriage_return = CHR 0x0D"

text \<open>\<open>str::contains\<close>.\<close>

definition str_contains :: "string \<Rightarrow> string \<Rightarrow> bool" where
  "str_contains p s = list_ex (\<lambda>i. prefix p (drop i s)) [0..<Suc (length s)]"

lemma str_contains_twice:
  assumes "count_list s c \<le> 1"
  shows "\<not> str_contains [c, c] s"
proof
  assume "str_contains [c, c] s"
  then obtain i t where "drop i s = [c, c] @ t" by (auto simp: str_contains_def list_ex_iff prefix_def)
  then have "count_list s c = count_list (take i s) c + count_list ([c, c] @ t) c"
    by (metis append_take_drop_id count_list_append)
  with assms show False by simp
qed

lemma digit_alnum: "is_ascii_digit c \<Longrightarrow> is_ascii_alphanumeric c"
  by (auto simp: is_ascii_digit_def is_ascii_alphanumeric_def Let_def)

lemma hexdigit_alnum: "is_ascii_hexdigit c \<Longrightarrow> is_ascii_alphanumeric c"
  by (auto simp: is_ascii_hexdigit_def is_ascii_alphanumeric_def Let_def)

lemma split_on_join: "split_on c (a @ c # b) = split_on c a @ split_on c b"
  by (induction a) (auto split: list.splits)

text \<open>\<open>str::lines\<close>: a line ends with a line feed, a carriage return before it goes with it, and there
  is no empty last line.\<close>

definition strip_cr :: "string \<Rightarrow> string" where
  "strip_cr s = (if suffix [carriage_return] s then butlast s else s)"

definition str_lines :: "string \<Rightarrow> string list" where
  "str_lines s = (let ps = split_on newline s
     in map strip_cr (butlast ps) @ (if last ps = [] then [] else [last ps]))"

text \<open>\<open>str::split_whitespace\<close>: \<open>word\<close> is what has been read of the current piece.\<close>

function split_ws :: "string \<Rightarrow> string \<Rightarrow> string list" where
  "split_ws word s =
     (if s = [] then (if word = [] then [] else [word])
      else case find (\<lambda>w. w \<noteq> [] \<and> prefix w s) ws_chars of
        None \<Rightarrow> split_ws (word @ [hd s]) (tl s)
      | Some w \<Rightarrow> (if word = [] then [] else [word]) @ split_ws [] (drop (length w) s))"
  by pat_completeness auto
termination
proof (relation "measure (\<lambda>(word, s). length s)", goal_cases)
  case (3 word s w)
  then have "w \<noteq> [] \<and> prefix w s" by (auto simp: find_Some_iff)
  then show ?case by (auto simp: prefix_def)
qed auto

declare split_ws.simps [simp del]

definition split_whitespace :: "string \<Rightarrow> string list" where
  "split_whitespace s = split_ws [] s"

end
