(* ===== verification/Domain.thy ===== *)
theory Domain
  imports Rust_Str
begin

text \<open>
  The domain model of \<open>globacl-core/src/lib/domain.rs\<close>: actions, delivery priorities, rule
  kinds and their names and tags; keys, requests, entries, mutations, decisions; and the
  construction of requests from the string fields of a JSON body (with the field parsers
  \<open>required\<close>, \<open>parse_u16\<close>, \<open>parse_u32\<close>, \<open>parse_u64\<close>, \<open>parse_usize\<close> of \<open>codec.rs\<close>).

  Structs are records (one prefix per struct, since field names share a name space), enums are
  datatypes with the constructors of the source.  The lemmas are the round trips between names
  and values and between tags and values, and the expiry arithmetic.
\<close>

section \<open>Enumerations\<close>

datatype action = Deny | AllowOverride | Delete

definition action_as_str :: "action \<Rightarrow> string" where
  "action_as_str a = (case a of
     Deny \<Rightarrow> ''deny'' | AllowOverride \<Rightarrow> ''allow_override'' | Delete \<Rightarrow> ''delete'')"

definition action_from_name :: "string \<Rightarrow> action res" where
  "action_from_name v =
     (let n = to_ascii_lowercase (trim v) in
      if n = ''deny'' then Inr Deny
      else if n = ''allow'' \<or> n = ''allow_override'' then Inr AllowOverride
      else if n = ''delete'' \<or> n = ''remove'' \<or> n = ''unblock'' then Inr Delete
      else Inl Parse)"

definition action_to_u8 :: "action \<Rightarrow> u8" where
  "action_to_u8 a = (case a of Deny \<Rightarrow> 1 | AllowOverride \<Rightarrow> 2 | Delete \<Rightarrow> 3)"

definition action_from_u8 :: "u8 \<Rightarrow> action res" where
  "action_from_u8 v =
     (if v = 1 then Inr Deny else if v = 2 then Inr AllowOverride
      else if v = 3 then Inr Delete else Inl InvalidData)"

datatype delivery_priority = P0 | P1 | P2

definition priority_as_str :: "delivery_priority \<Rightarrow> string" where
  "priority_as_str p = (case p of P0 \<Rightarrow> ''p0'' | P1 \<Rightarrow> ''p1'' | P2 \<Rightarrow> ''p2'')"

definition priority_from_name :: "string \<Rightarrow> delivery_priority res" where
  "priority_from_name v =
     (let n = to_ascii_lowercase (trim v) in
      if n = ''p0'' \<or> n = ''emergency'' \<or> n = ''emergency_deny'' then Inr P0
      else if n = ''p1'' \<or> n = ''normal'' \<or> n = ''mutation'' then Inr P1
      else if n = ''p2'' \<or> n = ''repair'' \<or> n = ''snapshot'' then Inr P2
      else Inl Parse)"

definition priority_to_u8 :: "delivery_priority \<Rightarrow> u8" where
  "priority_to_u8 p = (case p of P0 \<Rightarrow> 0 | P1 \<Rightarrow> 1 | P2 \<Rightarrow> 2)"

definition priority_from_u8 :: "u8 \<Rightarrow> delivery_priority res" where
  "priority_from_u8 v =
     (if v = 0 then Inr P0 else if v = 1 then Inr P1
      else if v = 2 then Inr P2 else Inl InvalidData)"

datatype rule_kind = Ipv4Cidr | DomainSuffix

definition kind_as_str :: "rule_kind \<Rightarrow> string" where
  "kind_as_str k = (case k of Ipv4Cidr \<Rightarrow> ''ipv4_cidr'' | DomainSuffix \<Rightarrow> ''domain_suffix'')"

definition kind_from_name :: "string \<Rightarrow> rule_kind res" where
  "kind_from_name v =
     (let n = to_ascii_lowercase (trim v) in
      if n = ''ip'' \<or> n = ''ipv4'' \<or> n = ''cidr'' \<or> n = ''ipv4_cidr'' then Inr Ipv4Cidr
      else if n = ''domain'' \<or> n = ''domain_suffix'' \<or> n = ''suffix'' then Inr DomainSuffix
      else Inl Parse)"

definition kind_to_u8 :: "rule_kind \<Rightarrow> u8" where
  "kind_to_u8 k = (case k of Ipv4Cidr \<Rightarrow> 1 | DomainSuffix \<Rightarrow> 2)"

definition kind_from_u8 :: "u8 \<Rightarrow> rule_kind res" where
  "kind_from_u8 v =
     (if v = 1 then Inr Ipv4Cidr else if v = 2 then Inr DomainSuffix else Inl InvalidData)"

text \<open>The order of kinds is the order of their names, which \<open>compare_rules_by_key\<close> uses.\<close>

instantiation rule_kind :: linorder
begin

definition less_eq_rule_kind :: "rule_kind \<Rightarrow> rule_kind \<Rightarrow> bool" where
  "k \<le> k' \<longleftrightarrow> kind_as_str k \<le> kind_as_str k'"

definition less_rule_kind :: "rule_kind \<Rightarrow> rule_kind \<Rightarrow> bool" where
  "k < k' \<longleftrightarrow> kind_as_str k < kind_as_str k'"

instance
proof
  fix x y z :: rule_kind
  show "x < y \<longleftrightarrow> x \<le> y \<and> \<not> y \<le> x"
    by (auto simp: less_eq_rule_kind_def less_rule_kind_def)
  show "x \<le> x"
    by (simp add: less_eq_rule_kind_def)
  show "x \<le> y \<Longrightarrow> y \<le> z \<Longrightarrow> x \<le> z"
    by (simp add: less_eq_rule_kind_def)
  show "x \<le> y \<Longrightarrow> y \<le> x \<Longrightarrow> x = y"
    by (cases x; cases y) (auto simp: less_eq_rule_kind_def kind_as_str_def)
  show "x \<le> y \<or> y \<le> x"
    by (auto simp: less_eq_rule_kind_def)
qed

end

lemma kind_as_str_inj: "kind_as_str k = kind_as_str k' \<longleftrightarrow> k = k'"
  by (cases k; cases k') (auto simp: kind_as_str_def)

lemma action_tag_roundtrip [simp, codec_simps]: "action_from_u8 (action_to_u8 a) = Inr a"
  by (cases a) (simp_all add: action_from_u8_def action_to_u8_def)

lemma priority_tag_roundtrip [simp, codec_simps]: "priority_from_u8 (priority_to_u8 p) = Inr p"
  by (cases p) (simp_all add: priority_from_u8_def priority_to_u8_def)

lemma kind_tag_roundtrip [simp, codec_simps]: "kind_from_u8 (kind_to_u8 k) = Inr k"
  by (cases k) (simp_all add: kind_from_u8_def kind_to_u8_def)

lemma action_from_u8_to: "action_from_u8 v = Inr a \<Longrightarrow> action_to_u8 a = v"
  by (auto simp: action_from_u8_def action_to_u8_def split: if_splits)

lemma priority_from_u8_to: "priority_from_u8 v = Inr p \<Longrightarrow> priority_to_u8 p = v"
  by (auto simp: priority_from_u8_def priority_to_u8_def split: if_splits)

lemma kind_from_u8_to: "kind_from_u8 v = Inr k \<Longrightarrow> kind_to_u8 k = v"
  by (auto simp: kind_from_u8_def kind_to_u8_def split: if_splits)

section \<open>Keys, requests, entries\<close>

record acl_key =
  ak_tenant_id :: string
  ak_namespace :: string
  ak_key_hash :: u64

record rule_key =
  rk_tenant_id :: string
  rk_kind :: rule_kind
  rk_rule_hash :: u64

record deny_request =
  dr_op_id :: string
  dr_tenant_id :: string
  dr_namespace :: string
  dr_key :: string
  dr_action :: action
  dr_priority :: u32
  dr_reason_code :: string
  dr_expires_at :: u64
  dr_created_by :: string
  dr_delivery_priority :: delivery_priority

record rule_request =
  rr_op_id :: string
  rr_tenant_id :: string
  rr_kind :: rule_kind
  rr_pattern :: string
  rr_action :: action
  rr_priority :: u32
  rr_reason_code :: string
  rr_expires_at :: u64
  rr_created_by :: string
  rr_delivery_priority :: delivery_priority

record deny_entry =
  de_tenant_id :: string
  de_namespace :: string
  de_key_hash :: u64
  de_action :: action
  de_priority :: u32
  de_reason_code :: string
  de_expires_at :: u64
  de_created_by :: string
  de_commit_seq :: u64
  de_shard_id :: u16

record rule_entry =
  re_tenant_id :: string
  re_kind :: rule_kind
  re_pattern :: string
  re_rule_hash :: u64
  re_action :: action
  re_priority :: u32
  re_reason_code :: string
  re_expires_at :: u64
  re_created_by :: string
  re_commit_seq :: u64
  re_shard_id :: u16
  re_ipv4_network :: u32
  re_ipv4_prefix_len :: u8
  re_domain_suffix :: string

record commit_id =
  ci_shard_id :: u16
  ci_seq :: u64
  ci_epoch :: u64
  ci_source_region :: string

record mutation =
  mu_op_id :: string
  mu_commit_id :: commit_id
  mu_entry :: deny_entry
  mu_rule :: "rule_entry option"
  mu_delivery_priority :: delivery_priority
  mu_committed_at_unix :: u64

record commit_outcome =
  co_mutation :: mutation
  co_duplicate :: bool

datatype decision =
    Allow
  | Denied (denied_reason: string) (denied_priority: u32) (denied_commit: commit_id)

datatype apply_status = Applied | DuplicateOrOld

abbreviation mu_shard :: "mutation \<Rightarrow> u16" where
  "mu_shard m \<equiv> ci_shard_id (mu_commit_id m)"

abbreviation mu_seq :: "mutation \<Rightarrow> u64" where
  "mu_seq m \<equiv> ci_seq (mu_commit_id m)"

abbreviation mu_epoch :: "mutation \<Rightarrow> u64" where
  "mu_epoch m \<equiv> ci_epoch (mu_commit_id m)"

definition acl_key_of :: "deny_entry \<Rightarrow> acl_key" where
  "acl_key_of e = \<lparr>ak_tenant_id = de_tenant_id e, ak_namespace = de_namespace e,
     ak_key_hash = de_key_hash e\<rparr>"

definition rule_key_of :: "rule_entry \<Rightarrow> rule_key" where
  "rule_key_of r = \<lparr>rk_tenant_id = re_tenant_id r, rk_kind = re_kind r,
     rk_rule_hash = re_rule_hash r\<rparr>"

definition entry_is_expired :: "deny_entry \<Rightarrow> u64 \<Rightarrow> bool" where
  "entry_is_expired e now = (de_expires_at e \<noteq> 0 \<and> de_expires_at e \<le> now)"

definition rule_is_expired :: "rule_entry \<Rightarrow> u64 \<Rightarrow> bool" where
  "rule_is_expired r now = (re_expires_at r \<noteq> 0 \<and> re_expires_at r \<le> now)"

definition decision_is_denied :: "decision \<Rightarrow> bool" where
  "decision_is_denied d = (case d of Allow \<Rightarrow> False | Denied _ _ _ \<Rightarrow> True)"

lemma decision_is_denied_simps [simp]:
  "\<not> decision_is_denied Allow" "decision_is_denied (Denied r p c)"
  by (simp_all add: decision_is_denied_def)

lemma entry_expired_mono: "entry_is_expired e t \<Longrightarrow> t \<le> t' \<Longrightarrow> entry_is_expired e t'"
  by (auto simp: entry_is_expired_def)

lemma rule_expired_mono: "rule_is_expired r t \<Longrightarrow> t \<le> t' \<Longrightarrow> rule_is_expired r t'"
  by (auto simp: rule_is_expired_def)

section \<open>Decisions for one entry\<close>

definition local_commit_id :: "u16 \<Rightarrow> u64 \<Rightarrow> commit_id" where
  "local_commit_id shard seq =
     \<lparr>ci_shard_id = shard, ci_seq = seq, ci_epoch = 1, ci_source_region = []\<rparr>"

definition decision_for_entry :: "deny_entry option \<Rightarrow> u64 \<Rightarrow> decision" where
  "decision_for_entry oe now = (case oe of
     None \<Rightarrow> Allow
   | Some e \<Rightarrow>
       if entry_is_expired e now then Allow
       else (case de_action e of
               Deny \<Rightarrow> Denied (de_reason_code e) (de_priority e)
                        (local_commit_id (de_shard_id e) (de_commit_seq e))
             | AllowOverride \<Rightarrow> Allow
             | Delete \<Rightarrow> Allow))"

lemma decision_for_entry_denied_iff:
  "decision_is_denied (decision_for_entry oe now) \<longleftrightarrow>
     (\<exists>e. oe = Some e \<and> de_action e = Deny \<and> \<not> entry_is_expired e now)"
  by (auto simp: decision_for_entry_def split: option.splits action.splits)

section \<open>Fields of a request body\<close>

type_synonym form = "(string, string) hashmap"

definition blank :: "string \<Rightarrow> bool" where
  "blank v = (trim v = [])"

definition required :: "form \<Rightarrow> string \<Rightarrow> string res" where
  "required f key = (case hm_get f key of
     None \<Rightarrow> Inl Parse
   | Some v \<Rightarrow> if blank v then Inl Parse else Inr v)"

definition parse_bounded :: "nat \<Rightarrow> string \<Rightarrow> nat res" where
  "parse_bounded bound v = ok_or Parse (parse_uint bound (trim v))"

definition parse_u64 :: "string option \<Rightarrow> u64 \<Rightarrow> u64 res" where
  "parse_u64 v dflt = (case v of
     None \<Rightarrow> Inr dflt
   | Some t \<Rightarrow> if blank t then Inr dflt
               else rbind (parse_bounded (2 ^ 64) t) (\<lambda>n. Inr (word_of_nat n)))"

definition parse_u32 :: "string option \<Rightarrow> u32 \<Rightarrow> u32 res" where
  "parse_u32 v dflt = (case v of
     None \<Rightarrow> Inr dflt
   | Some t \<Rightarrow> if blank t then Inr dflt
               else rbind (parse_bounded (2 ^ 32) t) (\<lambda>n. Inr (word_of_nat n)))"

definition parse_u16 :: "string option \<Rightarrow> u16 res" where
  "parse_u16 v = (case v of
     None \<Rightarrow> Inl Parse
   | Some t \<Rightarrow> if blank t then Inl Parse
               else rbind (parse_bounded (2 ^ 16) t) (\<lambda>n. Inr (word_of_nat n)))"

text \<open>\<open>usize\<close> has 64 bits on the targets of the program.\<close>

definition parse_usize :: "string option \<Rightarrow> nat \<Rightarrow> nat res" where
  "parse_usize v dflt = (case v of
     None \<Rightarrow> Inr dflt
   | Some t \<Rightarrow> if blank t then Inr dflt else parse_bounded (2 ^ 64) t)"

text \<open>\<open>get(k1).or_else(|| get(k2))...\<close>.\<close>

fun first_field :: "form \<Rightarrow> string list \<Rightarrow> string option" where
  "first_field f [] = None"
| "first_field f (k # ks) = (case hm_get f k of None \<Rightarrow> first_field f ks | Some v \<Rightarrow> Some v)"

definition field_or :: "form \<Rightarrow> string \<Rightarrow> string \<Rightarrow> string" where
  "field_or f k dflt = (case hm_get f k of None \<Rightarrow> dflt | Some v \<Rightarrow> v)"

definition form_delivery_priority :: "form \<Rightarrow> delivery_priority res" where
  "form_delivery_priority f =
     (case first_field f [''delivery_priority'', ''channel'', ''stream''] of
        None \<Rightarrow> Inr P1
      | Some v \<Rightarrow> priority_from_name v)"

definition deny_request_from_fields :: "form \<Rightarrow> deny_request res" where
  "deny_request_from_fields f =
     rbind (required f ''op_id'') (\<lambda>op_id.
     rbind (required f ''tenant_id'') (\<lambda>tenant_id.
     rbind (required f ''namespace'') (\<lambda>namespace.
     rbind (required f ''key'') (\<lambda>key.
     rbind (action_from_name (field_or f ''action'' ''deny'')) (\<lambda>action.
     rbind (parse_u32 (hm_get f ''priority'') 0) (\<lambda>priority.
     rbind (parse_u64 (hm_get f ''expires_at'') 0) (\<lambda>expires_at.
     rbind (form_delivery_priority f) (\<lambda>dp.
       Inr \<lparr>dr_op_id = op_id, dr_tenant_id = tenant_id, dr_namespace = namespace, dr_key = key,
            dr_action = action, dr_priority = priority,
            dr_reason_code = field_or f ''reason_code'' ''unspecified'',
            dr_expires_at = expires_at,
            dr_created_by = field_or f ''created_by'' ''unknown'',
            dr_delivery_priority = dp\<rparr>))))))))"

definition rule_request_from_fields :: "form \<Rightarrow> rule_request res" where
  "rule_request_from_fields f =
     rbind (required f ''op_id'') (\<lambda>op_id.
     rbind (required f ''tenant_id'') (\<lambda>tenant_id.
     rbind (kind_from_name (case first_field f [''kind'', ''rule_kind''] of
                              None \<Rightarrow> ''ipv4_cidr'' | Some v \<Rightarrow> v)) (\<lambda>kind.
     rbind (required f ''pattern'') (\<lambda>pattern.
     rbind (action_from_name (field_or f ''action'' ''deny'')) (\<lambda>action.
     rbind (parse_u32 (hm_get f ''priority'') 0) (\<lambda>priority.
     rbind (parse_u64 (hm_get f ''expires_at'') 0) (\<lambda>expires_at.
     rbind (form_delivery_priority f) (\<lambda>dp.
       Inr \<lparr>rr_op_id = op_id, rr_tenant_id = tenant_id, rr_kind = kind, rr_pattern = pattern,
            rr_action = action, rr_priority = priority,
            rr_reason_code = field_or f ''reason_code'' ''unspecified'',
            rr_expires_at = expires_at,
            rr_created_by = field_or f ''created_by'' ''unknown'',
            rr_delivery_priority = dp\<rparr>))))))))"

lemma required_ok: "required f k = Inr v \<longleftrightarrow> hm_get f k = Some v \<and> \<not> blank v"
  by (auto simp: required_def split: option.splits)

lemma deny_request_from_fields_ok:
  "deny_request_from_fields f = Inr r \<Longrightarrow>
     \<not> blank (dr_op_id r) \<and> \<not> blank (dr_tenant_id r) \<and> \<not> blank (dr_namespace r) \<and> \<not> blank (dr_key r)"
  by (auto simp: deny_request_from_fields_def rbind_eq_Inr required_ok)

lemma rule_request_from_fields_ok:
  "rule_request_from_fields f = Inr r \<Longrightarrow>
     \<not> blank (rr_op_id r) \<and> \<not> blank (rr_tenant_id r) \<and> \<not> blank (rr_pattern r)"
  by (auto simp: rule_request_from_fields_def rbind_eq_Inr required_ok)

end
