(* ===== verification/Byte_Codec.thy ===== *)
theory Byte_Codec
  imports Domain
begin

text \<open>
  The byte-level reader and writer of \<open>globacl-core/src/lib/codec.rs\<close>: little-endian integers,
  length-prefixed strings, \<open>read_exact\<close> on a cursor.  A cursor is the list of bytes that are
  still to be read, a reader returns its value and the rest; a writer returns the bytes it
  appends to \<open>out\<close>.  \<open>Cursor::read_exact\<close> past the end is \<open>Io\<close>.

  The locale \<open>codec\<close> is the interface between a writer and its reader: reading back what was
  written, in front of any rest, gives the value and that rest.  What follows for every such
  pair (injectivity, prefix-freeness, counted sequences) is proved once in it.  The locale
  \<open>canonical_codec\<close> adds that the reader accepts nothing but what the writer produces, from
  which it follows that a truncated encoding is refused.
\<close>

section \<open>Little-endian numbers\<close>

fun le_enc :: "nat \<Rightarrow> nat \<Rightarrow> bytes" where
  "le_enc 0 x = []"
| "le_enc (Suc n) x = word_of_nat (x mod 256) # le_enc n (x div 256)"

fun le_dec :: "bytes \<Rightarrow> nat" where
  "le_dec [] = 0"
| "le_dec (b # bs) = unat b + 256 * le_dec bs"

lemma length_le_enc [simp]: "length (le_enc n x) = n"
  by (induction n arbitrary: x) auto

lemma le_dec_enc: "le_dec (le_enc n x) = x mod 256 ^ n"
proof (induction n arbitrary: x)
  case 0
  then show ?case by simp
next
  case (Suc n)
  have "x mod (256 * 256 ^ n) = 256 * (x div 256 mod 256 ^ n) + x mod 256"
    by (rule mod_mult2_eq)
  with Suc show ?case by (simp add: unat_of_nat)
qed

lemma le_dec_bound: "le_dec bs < 256 ^ length bs"
proof (induction bs)
  case Nil
  then show ?case by simp
next
  case (Cons b bs)
  then have "le_dec bs + 1 \<le> 256 ^ length bs" by simp
  then have "256 * (le_dec bs + 1) \<le> 256 * 256 ^ length bs"
    by (rule mult_le_mono2)
  moreover have "unat b < 256" by (rule unat_u8_bound)
  ultimately have "unat b + 256 * le_dec bs < 256 * 256 ^ length bs"
    by (simp only: distrib_left)
  then show ?case by simp
qed

definition write_u8 :: "u8 \<Rightarrow> bytes" where
  "write_u8 v = [v]"

definition write_u16 :: "u16 \<Rightarrow> bytes" where
  "write_u16 v = le_enc 2 (unat v)"

definition write_u32 :: "u32 \<Rightarrow> bytes" where
  "write_u32 v = le_enc 4 (unat v)"

definition write_u64 :: "u64 \<Rightarrow> bytes" where
  "write_u64 v = le_enc 8 (unat v)"

text \<open>\<open>value.len() as u32\<close> truncates.\<close>

definition write_string :: "string \<Rightarrow> bytes" where
  "write_string s = write_u32 (word_of_nat (length s)) @ as_bytes s"

section \<open>Readers\<close>

type_synonym 'a reader = "bytes \<Rightarrow> ('a \<times> bytes) res"

definition read_exact_vec :: "nat \<Rightarrow> bytes reader" where
  "read_exact_vec n c = (if n \<le> length c then Inr (take n c, drop n c) else Inl Io)"

definition read_u8 :: "u8 reader" where
  "read_u8 c = rbind (read_exact_vec 1 c) (\<lambda>(b, c). Inr (b ! 0, c))"

definition read_u16 :: "u16 reader" where
  "read_u16 c = rbind (read_exact_vec 2 c) (\<lambda>(b, c). Inr (word_of_nat (le_dec b), c))"

definition read_u32 :: "u32 reader" where
  "read_u32 c = rbind (read_exact_vec 4 c) (\<lambda>(b, c). Inr (word_of_nat (le_dec b), c))"

definition read_u64 :: "u64 reader" where
  "read_u64 c = rbind (read_exact_vec 8 c) (\<lambda>(b, c). Inr (word_of_nat (le_dec b), c))"

definition read_string :: "string reader" where
  "read_string c =
     rbind (read_u32 c) (\<lambda>(len, c).
     rbind (read_exact_vec (unat len) c) (\<lambda>(b, c).
     rbind (ok_or InvalidData (from_utf8 b)) (\<lambda>s. Inr (s, c))))"

text \<open>A reader followed by a \<open>from_u8\<close> style conversion.\<close>

definition read_tag :: "(u8 \<Rightarrow> 'a res) \<Rightarrow> 'a reader" where
  "read_tag f c = rbind (read_u8 c) (\<lambda>(b, c). rbind (f b) (\<lambda>v. Inr (v, c)))"

definition expect_magic :: "string \<Rightarrow> unit reader" where
  "expect_magic expected c =
     rbind (read_exact_vec 4 c) (\<lambda>(b, c).
       if b = as_bytes expected then Inr ((), c) else Inl InvalidData)"

text \<open>\<open>for _ in 0..count { v.push(read(cursor)?) }\<close>.\<close>

fun read_n :: "'a reader \<Rightarrow> nat \<Rightarrow> 'a list reader" where
  "read_n rd 0 c = Inr ([], c)"
| "read_n rd (Suc n) c =
     rbind (rd c) (\<lambda>(x, c). rbind (read_n rd n c) (\<lambda>(xs, c). Inr (x # xs, c)))"

section \<open>The interface between writers and readers\<close>

locale codec =
  fixes enc :: "'a \<Rightarrow> bytes" and dec :: "'a reader" and ok :: "'a \<Rightarrow> bool"
  assumes roundtrip: "ok x \<Longrightarrow> dec (enc x @ rest) = Inr (x, rest)"
begin

lemma roundtrip_exact: "ok x \<Longrightarrow> dec (enc x) = Inr (x, [])"
  using roundtrip [of x "[]"] by simp

lemma prefix_free:
  assumes "ok x" and "ok y" and "enc x @ r = enc y @ r'"
  shows "x = y \<and> r = r'"
proof -
  have "Inr (x, r) = (Inr (y, r') :: ('a \<times> bytes) res)"
    using roundtrip [OF assms(1), of r] roundtrip [OF assms(2), of r'] unfolding assms(3)
    by (rule subst)
  then show ?thesis by simp
qed

lemma enc_inject: "ok x \<Longrightarrow> ok y \<Longrightarrow> enc x = enc y \<longleftrightarrow> x = y"
  by (auto dest: prefix_free [of x y "[]" "[]", simplified])

lemma read_n_roundtrip:
  "\<forall>x \<in> set xs. ok x \<Longrightarrow> read_n dec (length xs) (concat (map enc xs) @ rest) = Inr (xs, rest)"
  by (induction xs) (auto simp: roundtrip)

end

locale canonical_codec = codec +
  assumes canonical: "dec c = Inr (x, rest) \<Longrightarrow> ok x \<and> c = enc x @ rest"
begin

lemma dec_iff: "dec c = Inr (x, rest) \<longleftrightarrow> ok x \<and> c = enc x @ rest"
  using canonical roundtrip by blast

lemma truncated:
  assumes "ok x" and "enc x = p @ q" and "q \<noteq> []"
  shows "\<not> is_ok (dec p)"
proof
  assume "is_ok (dec p)"
  then obtain y r where "dec p = Inr (y, r)" by (auto simp: is_ok_iff)
  then have y: "ok y" and p: "p = enc y @ r" by (auto dest: canonical)
  have "enc x @ [] = enc y @ (r @ q)" using assms(2) p by simp
  from prefix_free [OF assms(1) y this] assms(3) show False by simp
qed

lemma read_n_canonical:
  "read_n dec n c = Inr (xs, rest)
   \<Longrightarrow> length xs = n \<and> (\<forall>x \<in> set xs. ok x) \<and> c = concat (map enc xs) @ rest"
proof (induction n arbitrary: c xs)
  case 0
  then show ?case by simp
next
  case (Suc n)
  then show ?case by (auto simp: rbind_eq_Inr dest!: canonical)
qed

end

section \<open>The primitive codecs\<close>

lemma le_enc_dec: "le_enc (length bs) (le_dec bs) = bs"
proof (induction bs)
  case Nil
  then show ?case by simp
next
  case (Cons b bs)
  have "(unat b + 256 * le_dec bs) mod 256 = unat b"
    and "(unat b + 256 * le_dec bs) div 256 = le_dec bs"
    using unat_u8_bound [of b] by auto
  with Cons show ?case by simp
qed

lemma read_exact_vec_append: "length b = n \<Longrightarrow> read_exact_vec n (b @ c) = Inr (b, c)"
  by (simp add: read_exact_vec_def)

lemma read_exact_vec_canonical:
  "read_exact_vec n c = Inr (b, c') \<longleftrightarrow> length b = n \<and> c = b @ c'"
  by (auto simp: read_exact_vec_def)

lemma write_lengths [simp]:
  "length (write_u8 a) = 1" "length (write_u16 b) = 2" "length (write_u32 c) = 4"
  "length (write_u64 d) = 8"
  by (simp_all add: write_u8_def write_u16_def write_u32_def write_u64_def)

lemma le_word_canonical:
  assumes "length bs = n" and "256 ^ n = (2::nat) ^ LENGTH('a::len)"
  shows "le_enc n (unat (word_of_nat (le_dec bs) :: 'a word)) = bs"
proof -
  have "le_dec bs < 2 ^ LENGTH('a)" using le_dec_bound [of bs] assms by simp
  then have "unat (word_of_nat (le_dec bs) :: 'a word) = le_dec bs"
    by (simp add: unat_of_nat)
  with assms(1) le_enc_dec [of bs] show ?thesis by simp
qed

lemma le_word_roundtrip:
  assumes "256 ^ n = (2::nat) ^ LENGTH('a::len)"
  shows "word_of_nat (le_dec (le_enc n (unat v))) = (v :: 'a word)"
proof -
  have "unat v < 256 ^ n" using unsigned_less [of v, where ?'a = nat] assms by simp
  then show ?thesis by (simp add: le_dec_enc)
qed

lemma le_word_codec:
  fixes enc :: "'a::len word \<Rightarrow> bytes"
  assumes size: "256 ^ n = (2::nat) ^ LENGTH('a)"
    and enc: "\<And>v. enc v = le_enc n (unat v)"
    and dec: "\<And>c. dec c = rbind (read_exact_vec n c) (\<lambda>(b, c). Inr (word_of_nat (le_dec b), c))"
  shows "canonical_codec enc dec (\<lambda>_. True)"
proof unfold_locales
  fix v :: "'a word" and c rest :: bytes
  show "dec (enc v @ rest) = Inr (v, rest)"
    by (simp add: enc dec read_exact_vec_append le_word_roundtrip [OF size])
  show "dec c = Inr (v, rest) \<Longrightarrow> True \<and> c = enc v @ rest"
    using size by (auto simp: enc dec rbind_eq_Inr read_exact_vec_canonical le_word_canonical)
qed

interpretation u8: canonical_codec write_u8 read_u8 "\<lambda>_. True"
  by unfold_locales
    (auto simp: write_u8_def read_u8_def read_exact_vec_append rbind_eq_Inr
      read_exact_vec_canonical length_Suc_conv)

interpretation u16: canonical_codec write_u16 read_u16 "\<lambda>_. True"
  by (rule le_word_codec [where n = 2]) (simp_all add: write_u16_def read_u16_def)

interpretation u32: canonical_codec write_u32 read_u32 "\<lambda>_. True"
  by (rule le_word_codec [where n = 4]) (simp_all add: write_u32_def read_u32_def)

interpretation u64: canonical_codec write_u64 read_u64 "\<lambda>_. True"
  by (rule le_word_codec [where n = 8]) (simp_all add: write_u64_def read_u64_def)

text \<open>A string is written faithfully when its length fits the prefix.\<close>

definition wire_str :: "string \<Rightarrow> bool" where
  "wire_str s \<longleftrightarrow> str_ok s \<and> length s < 2 ^ 32"

lemma unat_length_u32: "n < 2 ^ 32 \<Longrightarrow> unat (word_of_nat n :: u32) = n"
  by (simp add: unat_of_nat)

interpretation str: canonical_codec write_string read_string wire_str
proof unfold_locales
  fix s :: string and c rest :: bytes
  show "read_string (write_string s @ rest) = Inr (s, rest)" if "wire_str s"
  proof -
    from that have "unat (word_of_nat (length s) :: u32) = length s"
      by (intro unat_length_u32) (simp add: wire_str_def)
    with that show ?thesis
      by (simp add: read_string_def write_string_def u32.roundtrip read_exact_vec_append
          wire_str_def)
  qed
  show "wire_str s \<and> c = write_string s @ rest" if "read_string c = Inr (s, rest)"
  proof -
    from that obtain len c1 b where len: "read_u32 c = Inr (len, c1)"
      and b: "read_exact_vec (unat len) c1 = Inr (b, rest)" and s: "from_utf8 b = Some s"
      by (auto simp: read_string_def rbind_eq_Inr ok_or_eq_Inr)
    have sb: "str_ok s" "as_bytes s = b" using from_utf8_str_ok [OF s] by auto
    have "length s = unat len"
      using b sb(2) by (metis length_as_bytes read_exact_vec_canonical)
    then have "length s < 2 ^ 32" and "word_of_nat (length s) = len"
      using unat_u32_bound [of len] by auto
    moreover have "c = write_u32 len @ b @ rest"
      using len b by (auto simp: u32.dec_iff read_exact_vec_canonical)
    ultimately show ?thesis using sb by (simp add: wire_str_def write_string_def)
  qed
qed

text \<open>Enumerations by their tags.\<close>

lemma read_tag_codec:
  assumes "\<And>x. f (g x) = Inr x" and "\<And>v x. f v = Inr x \<Longrightarrow> g x = v"
  shows "canonical_codec (\<lambda>x. write_u8 (g x)) (read_tag f) (\<lambda>_. True)"
  by unfold_locales
    (auto simp: read_tag_def u8.roundtrip assms rbind_eq_Inr u8.dec_iff dest!: assms(2))

interpretation action_tag: canonical_codec "\<lambda>a. write_u8 (action_to_u8 a)"
    "read_tag action_from_u8" "\<lambda>_. True"
  by (rule read_tag_codec) (simp, rule action_from_u8_to)

interpretation kind_tag: canonical_codec "\<lambda>k. write_u8 (kind_to_u8 k)"
    "read_tag kind_from_u8" "\<lambda>_. True"
  by (rule read_tag_codec) (simp, rule kind_from_u8_to)

interpretation priority_tag: canonical_codec "\<lambda>p. write_u8 (priority_to_u8 p)"
    "read_tag priority_from_u8" "\<lambda>_. True"
  by (rule read_tag_codec) (simp, rule priority_from_u8_to)

lemmas primitive_roundtrips = u8.roundtrip u16.roundtrip u32.roundtrip u64.roundtrip
  str.roundtrip action_tag.roundtrip kind_tag.roundtrip priority_tag.roundtrip

lemmas primitive_iffs = u8.dec_iff u16.dec_iff u32.dec_iff u64.dec_iff
  str.dec_iff action_tag.dec_iff kind_tag.dec_iff priority_tag.dec_iff

lemma expect_magic_append:
  "length m = 4 \<Longrightarrow> expect_magic m (as_bytes m @ c) = Inr ((), c)"
  by (simp add: expect_magic_def read_exact_vec_append)

lemma expect_magic_eq:
  "length m = 4 \<Longrightarrow> expect_magic m c = Inr ((), c') \<longleftrightarrow> c = as_bytes m @ c'"
  by (auto simp: expect_magic_def rbind_eq_Inr read_exact_vec_canonical split: if_splits)

end
