(* ===== verification/Hashing.thy ===== *)
theory Hashing
  imports Byte_Codec
begin

unbundle bit_operations_syntax

text \<open>
  The hash functions of the core: the 64-bit FNV-1a variant \<open>stable_key_hash\<close> that addresses
  entries and rules, the fingerprint and the SplitMix64 finaliser behind the negative filter
  (\<open>globacl-core/src/lib/rules.rs\<close>), the assignment of hashes to shards (\<open>snapshots.rs\<close>), and
  the jitter of election timeouts (\<open>globacl-commitd/src/app/config.rs\<close>).  All arithmetic wraps at
  64 bits, as the \<open>wrapping_\<close> operations of the source say.
\<close>

definition fnv_offset :: u64 where
  "fnv_offset = 0xcbf29ce484222325"

definition fnv_prime :: u64 where
  "fnv_prime = 0x100000001b3"

definition fnv_step :: "u8 \<Rightarrow> u64 \<Rightarrow> u64" where
  "fnv_step b h = (h XOR ucast b) * fnv_prime"

definition fnv_bytes :: "bytes \<Rightarrow> u64 \<Rightarrow> u64" where
  "fnv_bytes bs h = fold fnv_step bs h"

text \<open>A chunk is closed by the separator \<open>0xff\<close>, which no UTF-8 byte equals.\<close>

definition fnv_chunk :: "bytes \<Rightarrow> u64 \<Rightarrow> u64" where
  "fnv_chunk bs h = fnv_step 0xff (fnv_bytes bs h)"

definition stable_key_hash :: "string \<Rightarrow> string \<Rightarrow> string \<Rightarrow> u64" where
  "stable_key_hash tenant_id namespace raw_key =
     fold fnv_chunk [as_bytes tenant_id, as_bytes namespace, as_bytes raw_key] fnv_offset"

definition fingerprint_acl_key_parts :: "string \<Rightarrow> string \<Rightarrow> u64 \<Rightarrow> u64" where
  "fingerprint_acl_key_parts tenant_id namespace key_hash =
     fold fnv_chunk [as_bytes tenant_id, as_bytes namespace, write_u64 key_hash] fnv_offset"

definition splitmix64 :: "u64 \<Rightarrow> u64" where
  "splitmix64 v0 =
     (let v = v0 + 0x9e3779b97f4a7c15;
          v = (v XOR drop_bit 30 v) * 0xbf58476d1ce4e5b9;
          v = (v XOR drop_bit 27 v) * 0x94d049bb133111eb
      in v XOR drop_bit 31 v)"

definition stable_node_jitter :: "string \<Rightarrow> u64" where
  "stable_node_jitter node_id = fnv_bytes (as_bytes node_id) fnv_offset"

text \<open>\<open>AclKey::from_raw\<close>.\<close>

definition acl_key_from_raw :: "string \<Rightarrow> string \<Rightarrow> string \<Rightarrow> acl_key" where
  "acl_key_from_raw tenant_id namespace raw_key =
     \<lparr>ak_tenant_id = tenant_id, ak_namespace = namespace,
      ak_key_hash = stable_key_hash tenant_id namespace raw_key\<rparr>"

definition shard_for_hash :: "u64 \<Rightarrow> u16 \<Rightarrow> u16" where
  "shard_for_hash key_hash shard_count = ucast (key_hash mod ucast (max shard_count 1))"

text \<open>A hash is always assigned to a shard that exists.\<close>

lemma unat_ucast_u16_u64: "unat (ucast (w::u16) :: u64) = unat w"
  using unat_u16_bound [of w] by (simp add: unsigned_ucast_eq take_bit_nat_eq_self)

lemma unat_shard_for_hash:
  "unat (shard_for_hash h n) = unat h mod unat (max n 1)"
proof -
  have "unat (max n 1) \<noteq> 0" by (auto simp: max_def unat_eq_zero)
  then have "unat h mod unat (max n 1) < unat (max n 1)" by simp
  also have "\<dots> < 65536" by (rule unat_u16_bound)
  finally have "unat h mod unat (max n 1) < 65536" .
  then have "take_bit 16 (unat h mod unat (max n 1)) = unat h mod unat (max n 1)"
    by (simp add: take_bit_nat_eq_self)
  moreover have "unat (h mod ucast (max n 1)) = unat h mod unat (max n 1)"
    by (simp only: unat_mod_distrib unat_ucast_u16_u64)
  ultimately show ?thesis
    by (simp add: shard_for_hash_def unsigned_ucast_eq)
qed

lemma shard_for_hash_less: "0 < n \<Longrightarrow> unat (shard_for_hash h n) < unat n"
proof -
  assume "0 < n"
  then have "max n 1 = n" by (simp add: max_def word_le_nat_alt) unat_arith
  moreover have "0 < unat n" using \<open>0 < n\<close> by (simp add: word_less_nat_alt)
  ultimately show ?thesis by (simp add: unat_shard_for_hash)
qed

lemma acl_key_of_from_raw:
  "acl_key_of e = acl_key_from_raw t ns k \<longleftrightarrow>
     de_tenant_id e = t \<and> de_namespace e = ns \<and> de_key_hash e = stable_key_hash t ns k"
  by (auto simp: acl_key_of_def acl_key_from_raw_def)

text \<open>The separator keeps the three parts apart: the step function is a bijection of the state
  for every byte, so only different byte sequences can differ.\<close>

lemma fnv_prime_odd: "fnv_prime * 0xce965057aff6957b = 1"
  by (simp add: fnv_prime_def)

lemma fnv_step_inj: "fnv_step b h = fnv_step b h' \<longleftrightarrow> h = h'"
proof
  assume "fnv_step b h = fnv_step b h'"
  then have "(h XOR ucast b) * (fnv_prime * 0xce965057aff6957b)
      = (h' XOR ucast b) * (fnv_prime * 0xce965057aff6957b)"
    by (simp add: fnv_step_def mult.assoc [symmetric] del: mult_cancel_right)
  then have "h XOR ucast b = h' XOR ucast b" by (simp only: fnv_prime_odd mult_1_right)
  then have "(h XOR ucast b) XOR ucast b = (h' XOR ucast b) XOR ucast b" by simp
  then show "h = h'" by (simp add: xor.assoc)
qed simp

lemma fnv_bytes_inj: "fnv_bytes bs h = fnv_bytes bs h' \<longleftrightarrow> h = h'"
  by (induction bs arbitrary: h h') (auto simp: fnv_bytes_def fnv_step_inj)

end
