(* ===== verification/Codec.thy ===== *)
theory Codec
  imports Hashing
begin

text \<open>
  The binary formats of \<open>globacl-core/src/lib/codec.rs\<close> and \<open>snapshots.rs\<close>: deny entries, rule
  entries, mutations, mutation streams and snapshots.  A writer returns the bytes it appends,
  a reader the value and what is left of the cursor.

  Results: entry and rule readers accept exactly what the writers produce (\<open>canonical_codec\<close>),
  mutations, streams and snapshots round trip, and the readers' compatibility branches (a
  mutation without its trailing fields, a snapshot without rules) give the documented defaults.
  Capacity reservations (\<open>Vec::with_capacity\<close>) have no counterpart in the model.
\<close>

definition FORMAT_VERSION :: u16 where
  "FORMAT_VERSION = 1"

definition SNAPSHOT_MAGIC :: string where
  "SNAPSHOT_MAGIC = ''GACL''"

definition MUTATION_MAGIC :: string where
  "MUTATION_MAGIC = ''GMUT''"

definition MUTATION_STREAM_MAGIC :: string where
  "MUTATION_STREAM_MAGIC = ''GLOG''"

lemma magic_lengths [simp]:
  "length SNAPSHOT_MAGIC = 4" "length MUTATION_MAGIC = 4" "length MUTATION_STREAM_MAGIC = 4"
  by (simp_all add: SNAPSHOT_MAGIC_def MUTATION_MAGIC_def MUTATION_STREAM_MAGIC_def)

record snapshot =
  sn_shard_count :: u16
  sn_watermarks :: "u64 list"
  sn_entries :: "deny_entry list"
  sn_rules :: "rule_entry list"

section \<open>Entries\<close>

definition encode_entry :: "deny_entry \<Rightarrow> bytes" where
  "encode_entry e =
     write_string (de_tenant_id e) @
     write_string (de_namespace e) @
     write_u64 (de_key_hash e) @
     write_u8 (action_to_u8 (de_action e)) @
     write_u32 (de_priority e) @
     write_string (de_reason_code e) @
     write_u64 (de_expires_at e) @
     write_string (de_created_by e) @
     write_u64 (de_commit_seq e) @
     write_u16 (de_shard_id e)"

definition decode_entry :: "deny_entry reader" where
  "decode_entry c =
     rbind (read_string c) (\<lambda>(tenant_id, c).
     rbind (read_string c) (\<lambda>(namespace, c).
     rbind (read_u64 c) (\<lambda>(key_hash, c).
     rbind (read_tag action_from_u8 c) (\<lambda>(action, c).
     rbind (read_u32 c) (\<lambda>(priority, c).
     rbind (read_string c) (\<lambda>(reason_code, c).
     rbind (read_u64 c) (\<lambda>(expires_at, c).
     rbind (read_string c) (\<lambda>(created_by, c).
     rbind (read_u64 c) (\<lambda>(commit_seq, c).
     rbind (read_u16 c) (\<lambda>(shard_id, c).
       Inr (\<lparr>de_tenant_id = tenant_id, de_namespace = namespace, de_key_hash = key_hash,
             de_action = action, de_priority = priority, de_reason_code = reason_code,
             de_expires_at = expires_at, de_created_by = created_by, de_commit_seq = commit_seq,
             de_shard_id = shard_id\<rparr>, c)))))))))))"

definition wire_entry :: "deny_entry \<Rightarrow> bool" where
  "wire_entry e \<longleftrightarrow> wire_str (de_tenant_id e) \<and> wire_str (de_namespace e) \<and>
     wire_str (de_reason_code e) \<and> wire_str (de_created_by e)"

interpretation entry: canonical_codec encode_entry decode_entry wire_entry
proof unfold_locales
  fix e :: deny_entry and c rest :: bytes
  show "decode_entry (encode_entry e @ rest) = Inr (e, rest)" if "wire_entry e"
    using that by (simp add: decode_entry_def encode_entry_def wire_entry_def primitive_roundtrips)
  show "wire_entry e \<and> c = encode_entry e @ rest" if "decode_entry c = Inr (e, rest)"
    using that
    by (auto simp: decode_entry_def encode_entry_def wire_entry_def rbind_eq_Inr primitive_iffs)
qed

section \<open>Rules\<close>

definition encode_rule_entry :: "rule_entry \<Rightarrow> bytes" where
  "encode_rule_entry r =
     write_string (re_tenant_id r) @
     write_u8 (kind_to_u8 (re_kind r)) @
     write_string (re_pattern r) @
     write_u64 (re_rule_hash r) @
     write_u8 (action_to_u8 (re_action r)) @
     write_u32 (re_priority r) @
     write_string (re_reason_code r) @
     write_u64 (re_expires_at r) @
     write_string (re_created_by r) @
     write_u64 (re_commit_seq r) @
     write_u16 (re_shard_id r) @
     write_u32 (re_ipv4_network r) @
     write_u8 (re_ipv4_prefix_len r) @
     write_string (re_domain_suffix r)"

definition decode_rule_entry :: "rule_entry reader" where
  "decode_rule_entry c =
     rbind (read_string c) (\<lambda>(tenant_id, c).
     rbind (read_tag kind_from_u8 c) (\<lambda>(kind, c).
     rbind (read_string c) (\<lambda>(pattern, c).
     rbind (read_u64 c) (\<lambda>(rule_hash, c).
     rbind (read_tag action_from_u8 c) (\<lambda>(action, c).
     rbind (read_u32 c) (\<lambda>(priority, c).
     rbind (read_string c) (\<lambda>(reason_code, c).
     rbind (read_u64 c) (\<lambda>(expires_at, c).
     rbind (read_string c) (\<lambda>(created_by, c).
     rbind (read_u64 c) (\<lambda>(commit_seq, c).
     rbind (read_u16 c) (\<lambda>(shard_id, c).
     rbind (read_u32 c) (\<lambda>(ipv4_network, c).
     rbind (read_u8 c) (\<lambda>(ipv4_prefix_len, c).
     rbind (read_string c) (\<lambda>(domain_suffix, c).
       Inr (\<lparr>re_tenant_id = tenant_id, re_kind = kind, re_pattern = pattern,
             re_rule_hash = rule_hash, re_action = action, re_priority = priority,
             re_reason_code = reason_code, re_expires_at = expires_at,
             re_created_by = created_by, re_commit_seq = commit_seq, re_shard_id = shard_id,
             re_ipv4_network = ipv4_network, re_ipv4_prefix_len = ipv4_prefix_len,
             re_domain_suffix = domain_suffix\<rparr>, c)))))))))))))))"

definition wire_rule :: "rule_entry \<Rightarrow> bool" where
  "wire_rule r \<longleftrightarrow> wire_str (re_tenant_id r) \<and> wire_str (re_pattern r) \<and>
     wire_str (re_reason_code r) \<and> wire_str (re_created_by r) \<and> wire_str (re_domain_suffix r)"

interpretation rule: canonical_codec encode_rule_entry decode_rule_entry wire_rule
proof unfold_locales
  fix r :: rule_entry and c rest :: bytes
  show "decode_rule_entry (encode_rule_entry r @ rest) = Inr (r, rest)" if "wire_rule r"
    using that
    by (simp add: decode_rule_entry_def encode_rule_entry_def wire_rule_def primitive_roundtrips)
  show "wire_rule r \<and> c = encode_rule_entry r @ rest" if "decode_rule_entry c = Inr (r, rest)"
    using that
    by (auto simp: decode_rule_entry_def encode_rule_entry_def wire_rule_def rbind_eq_Inr
        primitive_iffs)
qed

section \<open>Mutations\<close>

definition encode_mutation :: "mutation \<Rightarrow> bytes" where
  "encode_mutation m =
     as_bytes MUTATION_MAGIC @
     write_u16 FORMAT_VERSION @
     write_string (mu_op_id m) @
     write_u16 (mu_shard m) @
     write_u64 (mu_seq m) @
     write_u64 (mu_epoch m) @
     write_string (ci_source_region (mu_commit_id m)) @
     encode_entry (mu_entry m) @
     write_u8 (priority_to_u8 (mu_delivery_priority m)) @
     write_u64 (mu_committed_at_unix m) @
     (case mu_rule m of
        Some r \<Rightarrow> write_u8 1 @ encode_rule_entry r
      | None \<Rightarrow> write_u8 0)"

text \<open>The version word every format carries.\<close>

definition expect_version :: "unit reader" where
  "expect_version c =
     rbind (read_u16 c) (\<lambda>(version, c).
       if version \<noteq> FORMAT_VERSION then Inl InvalidData else Inr ((), c))"

text \<open>The three trailing fields are read only when enough bytes are left.\<close>

definition read_delivery_priority :: "delivery_priority reader" where
  "read_delivery_priority c =
     (if 1 \<le> length c then read_tag priority_from_u8 c else Inr (P1, c))"

definition read_committed_at :: "u64 reader" where
  "read_committed_at c = (if 8 \<le> length c then read_u64 c else Inr (0, c))"

definition read_mutation_rule :: "rule_entry option reader" where
  "read_mutation_rule c =
     (if 1 \<le> length c
      then rbind (read_u8 c) (\<lambda>(tag, c).
             if tag = 0 then Inr (None, c)
             else if tag = 1
             then rbind (decode_rule_entry c) (\<lambda>(r, c). Inr (Some r, c))
             else Inl InvalidData)
      else Inr (None, c))"

definition decode_mutation_from_cursor :: "mutation reader" where
  "decode_mutation_from_cursor c =
     rbind (expect_magic MUTATION_MAGIC c) (\<lambda>(_, c).
     rbind (expect_version c) (\<lambda>(_, c).
     rbind (read_string c) (\<lambda>(op_id, c).
     rbind (read_u16 c) (\<lambda>(shard_id, c).
     rbind (read_u64 c) (\<lambda>(seq, c).
     rbind (read_u64 c) (\<lambda>(epoch, c).
     rbind (read_string c) (\<lambda>(source_region, c).
     rbind (decode_entry c) (\<lambda>(entry, c).
     rbind (read_delivery_priority c) (\<lambda>(delivery_priority, c).
     rbind (read_committed_at c) (\<lambda>(committed_at_unix, c).
     rbind (read_mutation_rule c) (\<lambda>(rule, c).
       Inr (\<lparr>mu_op_id = op_id,
             mu_commit_id = \<lparr>ci_shard_id = shard_id, ci_seq = seq, ci_epoch = epoch,
                             ci_source_region = source_region\<rparr>,
             mu_entry = entry, mu_rule = rule, mu_delivery_priority = delivery_priority,
             mu_committed_at_unix = committed_at_unix\<rparr>, c))))))))))))"

definition decode_mutation :: "bytes \<Rightarrow> mutation res" where
  "decode_mutation b = rbind (decode_mutation_from_cursor b) (\<lambda>(m, _). Inr m)"

definition wire_mutation :: "mutation \<Rightarrow> bool" where
  "wire_mutation m \<longleftrightarrow> wire_str (mu_op_id m) \<and> wire_str (ci_source_region (mu_commit_id m)) \<and>
     wire_entry (mu_entry m) \<and> (\<forall>r. mu_rule m = Some r \<longrightarrow> wire_rule r)"

lemma expect_version_append: "expect_version (write_u16 FORMAT_VERSION @ c) = Inr ((), c)"
  by (simp add: expect_version_def u16.roundtrip)

lemma expect_version_eq:
  "expect_version c = Inr ((), c') \<longleftrightarrow> c = write_u16 FORMAT_VERSION @ c'"
  by (auto simp: expect_version_def rbind_eq_Inr u16.dec_iff split: if_splits)

lemma read_delivery_priority_append:
  "read_delivery_priority (write_u8 (priority_to_u8 p) @ c) = Inr (p, c)"
  by (simp add: read_delivery_priority_def priority_tag.roundtrip)

lemma read_committed_at_append: "read_committed_at (write_u64 t @ c) = Inr (t, c)"
  by (simp add: read_committed_at_def u64.roundtrip)

lemma read_mutation_rule_append:
  assumes "\<And>r. x = Some r \<Longrightarrow> wire_rule r"
  shows "read_mutation_rule
      ((case x of Some r \<Rightarrow> write_u8 1 @ encode_rule_entry r | None \<Rightarrow> write_u8 0) @ c) = Inr (x, c)"
  using assms
  by (cases x) (simp_all add: read_mutation_rule_def u8.roundtrip rule.roundtrip)

lemmas mutation_roundtrips = primitive_roundtrips entry.roundtrip rule.roundtrip
  expect_magic_append expect_version_append read_delivery_priority_append
  read_committed_at_append read_mutation_rule_append

interpretation mutation: codec encode_mutation decode_mutation_from_cursor wire_mutation
  by unfold_locales
    (simp add: decode_mutation_from_cursor_def encode_mutation_def wire_mutation_def
      mutation_roundtrips)

lemma decode_encode_mutation: "wire_mutation m \<Longrightarrow> decode_mutation (encode_mutation m) = Inr m"
  by (simp add: decode_mutation_def mutation.roundtrip_exact)

text \<open>What a node writes before the trailing fields existed: they take their defaults.\<close>

definition encode_mutation_v1 :: "mutation \<Rightarrow> bytes" where
  "encode_mutation_v1 m =
     as_bytes MUTATION_MAGIC @ write_u16 FORMAT_VERSION @ write_string (mu_op_id m) @
     write_u16 (mu_shard m) @ write_u64 (mu_seq m) @ write_u64 (mu_epoch m) @
     write_string (ci_source_region (mu_commit_id m)) @ encode_entry (mu_entry m)"

lemma decode_mutation_v1:
  "wire_mutation m \<Longrightarrow> decode_mutation (encode_mutation_v1 m) =
     Inr (m\<lparr>mu_delivery_priority := P1, mu_committed_at_unix := 0, mu_rule := None\<rparr>)"
  by (simp add: decode_mutation_def decode_mutation_from_cursor_def encode_mutation_v1_def
      wire_mutation_def mutation_roundtrips entry.roundtrip_exact read_delivery_priority_def
      read_committed_at_def read_mutation_rule_def)

section \<open>Length-framed records\<close>

text \<open>The framing shared by mutation streams and shard logs: a 32-bit length, then the bytes.\<close>

definition encode_record :: "mutation \<Rightarrow> bytes" where
  "encode_record m =
     write_u32 (word_of_nat (length (encode_mutation m))) @ encode_mutation m"

definition decode_record :: "mutation reader" where
  "decode_record c =
     rbind (read_u32 c) (\<lambda>(len, c).
     rbind (read_exact_vec (unat len) c) (\<lambda>(b, c).
     rbind (decode_mutation b) (\<lambda>m. Inr (m, c))))"

definition wire_record :: "mutation \<Rightarrow> bool" where
  "wire_record m \<longleftrightarrow> wire_mutation m \<and> length (encode_mutation m) < 2 ^ 32"

interpretation framed: codec encode_record decode_record wire_record
  by unfold_locales
    (simp add: decode_record_def encode_record_def wire_record_def u32.roundtrip
      read_exact_vec_append unat_length_u32 decode_encode_mutation)

definition encode_mutation_stream :: "mutation list \<Rightarrow> bytes" where
  "encode_mutation_stream ms =
     as_bytes MUTATION_STREAM_MAGIC @
     write_u16 FORMAT_VERSION @
     write_u64 (word_of_nat (length ms)) @
     concat (map encode_record ms)"

definition decode_mutation_stream :: "bytes \<Rightarrow> mutation list res" where
  "decode_mutation_stream b =
     rbind (expect_magic MUTATION_STREAM_MAGIC b) (\<lambda>(_, c).
     rbind (expect_version c) (\<lambda>(_, c).
     rbind (read_u64 c) (\<lambda>(count, c).
     rbind (read_n decode_record (unat count) c) (\<lambda>(ms, _).
       Inr ms))))"

lemma unat_length_u64: "n < 2 ^ 64 \<Longrightarrow> unat (word_of_nat n :: u64) = n"
  by (simp add: unat_of_nat)

lemma decode_encode_stream:
  assumes "\<forall>m \<in> set ms. wire_record m" and "length ms < 2 ^ 64"
  shows "decode_mutation_stream (encode_mutation_stream ms @ rest) = Inr ms"
  using assms
  by (simp add: decode_mutation_stream_def encode_mutation_stream_def mutation_roundtrips
      unat_length_u64 framed.read_n_roundtrip)

section \<open>Snapshots\<close>

definition encode_snapshot :: "snapshot \<Rightarrow> bytes" where
  "encode_snapshot s =
     as_bytes SNAPSHOT_MAGIC @
     write_u16 FORMAT_VERSION @
     write_u16 (sn_shard_count s) @
     write_u32 (word_of_nat (length (sn_watermarks s))) @
     write_u64 (word_of_nat (length (sn_entries s))) @
     concat (map write_u64 (sn_watermarks s)) @
     concat (map encode_entry (sn_entries s)) @
     write_u64 (word_of_nat (length (sn_rules s))) @
     concat (map encode_rule_entry (sn_rules s))"

text \<open>A snapshot that ends after its entries has no rules; bytes after the rules are ignored.\<close>

definition read_snapshot_rules :: "rule_entry list reader" where
  "read_snapshot_rules c =
     (if 8 \<le> length c
      then rbind (read_u64 c) (\<lambda>(rule_count, c). read_n decode_rule_entry (unat rule_count) c)
      else Inr ([], c))"

definition decode_snapshot :: "bytes \<Rightarrow> snapshot res" where
  "decode_snapshot b =
     rbind (expect_magic SNAPSHOT_MAGIC b) (\<lambda>(_, c).
     rbind (expect_version c) (\<lambda>(_, c).
     rbind (read_u16 c) (\<lambda>(shard_count, c).
     rbind (read_u32 c) (\<lambda>(watermark_count, c).
     rbind (read_u64 c) (\<lambda>(entry_count, c).
       if unat watermark_count \<noteq> unat shard_count then Inl InvalidData
       else
         rbind (read_n read_u64 (unat watermark_count) c) (\<lambda>(watermarks, c).
         rbind (read_n decode_entry (unat entry_count) c) (\<lambda>(entries, c).
         rbind (read_snapshot_rules c) (\<lambda>(rules, _).
           Inr \<lparr>sn_shard_count = shard_count, sn_watermarks = watermarks,
                sn_entries = entries, sn_rules = rules\<rparr>))))))))"

definition wire_snapshot :: "snapshot \<Rightarrow> bool" where
  "wire_snapshot s \<longleftrightarrow>
     length (sn_watermarks s) = unat (sn_shard_count s) \<and>
     length (sn_entries s) < 2 ^ 64 \<and> length (sn_rules s) < 2 ^ 64 \<and>
     (\<forall>e \<in> set (sn_entries s). wire_entry e) \<and> (\<forall>r \<in> set (sn_rules s). wire_rule r)"

lemma read_snapshot_rules_append:
  assumes "length rs < 2 ^ 64" and "\<forall>r \<in> set rs. wire_rule r"
  shows "read_snapshot_rules
      (write_u64 (word_of_nat (length rs)) @ concat (map encode_rule_entry rs) @ rest) = Inr (rs, rest)"
  using assms
  by (simp add: read_snapshot_rules_def u64.roundtrip unat_length_u64 rule.read_n_roundtrip)

lemma unat_ucast_u16_u32: "unat (ucast (w::u16) :: u32) = unat w"
  using unat_u16_bound [of w] by (simp add: unsigned_ucast_eq take_bit_nat_eq_self)

lemma decode_encode_snapshot:
  assumes "wire_snapshot s"
  shows "decode_snapshot (encode_snapshot s @ rest) = Inr s"
proof -
  have n: "length (sn_watermarks s) < 2 ^ 32"
    using assms unat_u16_bound [of "sn_shard_count s"] by (simp add: wire_snapshot_def)
  have w: "read_n read_u64 (unat (sn_shard_count s)) (concat (map write_u64 (sn_watermarks s)) @ c)
      = Inr (sn_watermarks s, c)" for c
    using u64.read_n_roundtrip [of "sn_watermarks s" c] assms by (simp add: wire_snapshot_def)
  from assms show ?thesis
    by (simp add: decode_snapshot_def encode_snapshot_def wire_snapshot_def mutation_roundtrips
        unat_length_u64 w unat_ucast_u16_u32 entry.read_n_roundtrip
        read_snapshot_rules_append)
qed

text \<open>What a decoded snapshot satisfies, whatever the bytes were.\<close>

lemma read_snapshot_rules_wire:
  assumes "read_snapshot_rules c = Inr (rs, rest)"
  shows "length rs < 2 ^ 64 \<and> (\<forall>r \<in> set rs. wire_rule r)"
proof (cases "8 \<le> length c")
  case True
  with assms obtain n c' where "read_n decode_rule_entry (unat (n::u64)) c' = Inr (rs, rest)"
    by (auto simp: read_snapshot_rules_def rbind_eq_Inr)
  from rule.read_n_canonical [OF this] show ?thesis using unat_u64_bound [of n] by simp
next
  case False
  with assms show ?thesis by (simp add: read_snapshot_rules_def)
qed

lemma decode_snapshot_wire: "decode_snapshot b = Inr s \<Longrightarrow> wire_snapshot s"
proof -
  assume "decode_snapshot b = Inr s"
  then obtain m :: u64 and c1 c2 c3 c4 where
    w: "read_n read_u64 (unat (sn_shard_count s)) c1 = Inr (sn_watermarks s, c2)"
    and e: "read_n decode_entry (unat m) c2 = Inr (sn_entries s, c3)"
    and r: "read_snapshot_rules c3 = Inr (sn_rules s, c4)"
    by (auto simp: decode_snapshot_def rbind_eq_Inr split: if_splits)
  show ?thesis
    using u64.read_n_canonical [OF w] entry.read_n_canonical [OF e] unat_u64_bound [of m]
      read_snapshot_rules_wire [OF r]
    by (simp add: wire_snapshot_def)
qed

section \<open>Properties\<close>

text \<open>C15: Encoding a snapshot whose watermark vector matches its shard count and whose strings and
  vectors fit their length prefixes, and decoding it again, whatever bytes follow, gives back
  exactly that snapshot.\<close>

theorem snapshot_roundtrip:
  assumes "wire_snapshot s"
  shows "decode_snapshot (encode_snapshot s @ rest) = Inr s"
  using assms by (rule decode_encode_snapshot)

definition sample_wire_entry :: deny_entry where
  "sample_wire_entry = \<lparr>de_tenant_id = ''acme'', de_namespace = ''user'', de_key_hash = 7,
     de_action = Deny, de_priority = 5, de_reason_code = ''abuse'', de_expires_at = 0,
     de_created_by = ''ops'', de_commit_seq = 1, de_shard_id = 1\<rparr>"

definition sample_wire_snapshot :: snapshot where
  "sample_wire_snapshot = \<lparr>sn_shard_count = 2, sn_watermarks = [0, 1],
     sn_entries = [sample_wire_entry], sn_rules = []\<rparr>"

lemma sample_wire_entry_ok: "wire_entry sample_wire_entry"
  by (simp add: wire_entry_def wire_str_def sample_wire_entry_def str_ok_ascii)

theorem snapshot_roundtrip_witness:
  "decode_snapshot (encode_snapshot sample_wire_snapshot @ [1, 2, 3]) = Inr sample_wire_snapshot"
  by (rule snapshot_roundtrip)
    (simp add: wire_snapshot_def sample_wire_snapshot_def sample_wire_entry_ok)

text \<open>Whatever bytes a snapshot is decoded from, the result is well-formed, and writing it out
  again gives bytes that decode to the same snapshot.\<close>

theorem decoded_snapshot_normal:
  assumes "decode_snapshot b = Inr s"
  shows "length (sn_watermarks s) = unat (sn_shard_count s) \<and>
         decode_snapshot (encode_snapshot s) = Inr s"
  using decode_snapshot_wire [OF assms] decode_encode_snapshot [of s "[]"]
  by (simp add: wire_snapshot_def)

theorem decoded_snapshot_normal_witness:
  "length (sn_watermarks sample_wire_snapshot) = 2 \<and>
   decode_snapshot (encode_snapshot sample_wire_snapshot) = Inr sample_wire_snapshot"
proof -
  have "decode_snapshot (encode_snapshot sample_wire_snapshot @ [9]) = Inr sample_wire_snapshot"
    by (rule decode_encode_snapshot)
      (simp add: wire_snapshot_def sample_wire_snapshot_def sample_wire_entry_ok)
  from decoded_snapshot_normal [OF this] show ?thesis by (simp add: sample_wire_snapshot_def)
qed

text \<open>The readers of deny entries and of rule entries accept a byte sequence exactly when it
  starts with the writer's output for an encodable value, and then return that value and what
  follows it: there is no second encoding of a value, and no truncated one is accepted.\<close>

theorem entry_readers_canonical:
  "(decode_entry c = Inr (e, rest) \<longleftrightarrow> wire_entry e \<and> c = encode_entry e @ rest) \<and>
   (decode_rule_entry c = Inr (r, rest') \<longleftrightarrow> wire_rule r \<and> c = encode_rule_entry r @ rest')"
  by (simp only: entry.dec_iff rule.dec_iff simp_thms)

text \<open>A mutation stream decodes to the mutations it was written from, in their order, when each
  record fits the 32-bit frame and the count fits 64 bits.\<close>

theorem mutation_stream_roundtrip:
  assumes "\<forall>m \<in> set ms. wire_record m" and "length ms < 2 ^ 64"
  shows "decode_mutation_stream (encode_mutation_stream ms @ rest) = Inr ms"
  using assms by (rule decode_encode_stream)

definition sample_wire_mutation :: mutation where
  "sample_wire_mutation = \<lparr>mu_op_id = ''op-1'',
     mu_commit_id = \<lparr>ci_shard_id = 1, ci_seq = 1, ci_epoch = 1, ci_source_region = ''eu''\<rparr>,
     mu_entry = sample_wire_entry, mu_rule = None, mu_delivery_priority = P0,
     mu_committed_at_unix = 1700000000\<rparr>"

lemma sample_wire_record_ok: "wire_record sample_wire_mutation"
proof -
  have "wire_mutation sample_wire_mutation"
    by (simp add: wire_mutation_def sample_wire_mutation_def sample_wire_entry_ok wire_str_def
        str_ok_ascii)
  moreover have "length (encode_mutation sample_wire_mutation) < 2 ^ 32"
    by (simp add: encode_mutation_def sample_wire_mutation_def encode_entry_def write_string_def
        sample_wire_entry_def)
  ultimately show ?thesis by (simp add: wire_record_def)
qed

theorem mutation_stream_roundtrip_witness:
  "decode_mutation_stream (encode_mutation_stream [sample_wire_mutation, sample_wire_mutation]) =
     Inr [sample_wire_mutation, sample_wire_mutation]"
  using mutation_stream_roundtrip [of "[sample_wire_mutation, sample_wire_mutation]" "[]"]
  by (simp add: sample_wire_record_ok)

text \<open>A mutation written before the delivery priority, the commit time and the rule were part of
  the format is still read, with priority P1, time 0 and no rule.\<close>

theorem mutation_compatibility:
  assumes "wire_mutation m"
  shows "decode_mutation (encode_mutation_v1 m) =
           Inr (m\<lparr>mu_delivery_priority := P1, mu_committed_at_unix := 0, mu_rule := None\<rparr>)"
  using assms by (rule decode_mutation_v1)

theorem mutation_compatibility_witness:
  "decode_mutation (encode_mutation_v1 sample_wire_mutation) =
     Inr (sample_wire_mutation\<lparr>mu_delivery_priority := P1, mu_committed_at_unix := 0\<rparr>)"
  using mutation_compatibility [of sample_wire_mutation] sample_wire_record_ok
  by (simp add: wire_record_def sample_wire_mutation_def)

end
