(* ===== verification/Rules.thy ===== *)
theory Rules
  imports Codec
begin

unbundle bit_operations_syntax

text \<open>
  \<open>globacl-core/src/lib/rules.rs\<close>: IPv4 and domain patterns, the orders the state components sort
  by, the matching of a rule against a looked-up value, the blast-radius guards, and
  \<open>RuleMatch\<close> of \<open>active_state.rs\<close>, which folds the matching rules to a decision.

  Results: formatting and parsing of addresses agree; a canonical CIDR pattern is a fixed point
  of the parser; masking compares leading bits; the suffix candidates of a domain are its
  label suffixes; the comparison functions are comparators; \<open>RuleMatch\<close> ends with a rule of
  greatest rank, so that whether it denies does not depend on the order of the rules.
\<close>

section \<open>IPv4 addresses and networks\<close>

text \<open>The loop over the parts of an address; the array of octets grows with \<open>count\<close>.\<close>

fun parse_octets :: "string list \<Rightarrow> bytes \<Rightarrow> bytes res" where
  "parse_octets [] octets = Inr octets"
| "parse_octets (part # parts) octets =
     (if 4 \<le> length octets then Inl Parse
      else rbind (ok_or Parse (parse_uint (2 ^ 8) part)) (\<lambda>n.
             parse_octets parts (octets @ [word_of_nat n])))"

text \<open>\<open>u32::from_be_bytes\<close> and \<open>to_be_bytes\<close>.\<close>

definition u32_from_be :: "bytes \<Rightarrow> u32" where
  "u32_from_be bs = word_of_nat (le_dec (rev bs))"

definition u32_to_be :: "u32 \<Rightarrow> bytes" where
  "u32_to_be v = rev (le_enc 4 (unat v))"

definition parse_ipv4_addr :: "string \<Rightarrow> u32 res" where
  "parse_ipv4_addr v =
     rbind (parse_octets (split_on (CHR ''.'') (trim v)) []) (\<lambda>octets.
       if length octets \<noteq> 4 then Inl Parse else Inr (u32_from_be octets))"

definition format_ipv4 :: "u32 \<Rightarrow> string" where
  "format_ipv4 v = join_with (CHR ''.'') (map (\<lambda>o'. dec_string (unat o')) (u32_to_be v))"

text \<open>\<open>!0u32 << (32 - prefix_len)\<close>: the subtraction wraps in \<open>u8\<close> and the shift amount is taken
  modulo the width, which only differs from the plain reading for lengths above 32.\<close>

definition mask_ipv4 :: "u32 \<Rightarrow> u8 \<Rightarrow> u32" where
  "mask_ipv4 v prefix_len =
     (if prefix_len = 0 then 0 else v AND push_bit (unat (32 - prefix_len) mod 32) (- 1))"

definition parse_ipv4_cidr :: "string \<Rightarrow> (u32 \<times> u8 \<times> string) res" where
  "parse_ipv4_cidr pattern =
     (let t = trim pattern;
          (addr, pre) = (case split_once (CHR ''/'') t of Some p \<Rightarrow> p | None \<Rightarrow> (t, ''32''))
      in rbind (ok_or Parse (parse_uint (2 ^ 8) pre)) (\<lambda>n.
         if 32 < n then Inl Parse
         else rbind (parse_ipv4_addr addr) (\<lambda>ip.
                let prefix_len = word_of_nat n;
                    network = mask_ipv4 ip prefix_len
                in Inr (network, prefix_len, format_ipv4 network @ ''/'' @ dec_string n))))"

section \<open>Domains\<close>

definition canonicalize_domain :: "string \<Rightarrow> string res" where
  "canonicalize_domain v =
     (let d = to_ascii_lowercase (trim_end_matches (CHR ''.'') (trim v));
          domain = (case strip_prefix ''*.'' d of Some s \<Rightarrow> s | None \<Rightarrow> d)
      in if domain = [] \<or> list_ex (\<lambda>label. label = []) (split_on (CHR ''.'') domain)
         then Inl Parse else Inr domain)"

definition domain_suffix_candidates :: "string \<Rightarrow> string list" where
  "domain_suffix_candidates domain =
     (let labels = split_on (CHR ''.'') domain
      in map (\<lambda>i. join_with (CHR ''.'') (drop i labels)) [0..<length labels])"

section \<open>Patterns and matching\<close>

record rule_pattern =
  rp_canonical_pattern :: string
  rp_ipv4_network :: u32
  rp_ipv4_prefix_len :: u8
  rp_domain_suffix :: string

definition compile_rule_pattern :: "rule_kind \<Rightarrow> string \<Rightarrow> rule_pattern res" where
  "compile_rule_pattern kind pattern = (case kind of
     Ipv4Cidr \<Rightarrow>
       rbind (parse_ipv4_cidr pattern) (\<lambda>(network, prefix_len, canonical).
         Inr \<lparr>rp_canonical_pattern = canonical, rp_ipv4_network = network,
              rp_ipv4_prefix_len = prefix_len, rp_domain_suffix = []\<rparr>)
   | DomainSuffix \<Rightarrow>
       rbind (canonicalize_domain pattern) (\<lambda>suffix.
         Inr \<lparr>rp_canonical_pattern = suffix, rp_ipv4_network = 0,
              rp_ipv4_prefix_len = 0, rp_domain_suffix = suffix\<rparr>))"

definition rule_kind_for_namespace :: "string \<Rightarrow> rule_kind option" where
  "rule_kind_for_namespace namespace =
     (let n = to_ascii_lowercase (trim namespace) in
      if n = ''ip'' \<or> n = ''ipv4'' \<or> n = ''ipv4_cidr'' then Some Ipv4Cidr
      else if n = ''domain'' \<or> n = ''host'' \<or> n = ''hostname'' \<or> n = ''dns''
      then Some DomainSuffix
      else None)"

definition rule_matches_namespace :: "rule_entry \<Rightarrow> string \<Rightarrow> string \<Rightarrow> bool" where
  "rule_matches_namespace r namespace raw_value =
     (if rule_kind_for_namespace namespace \<noteq> Some (re_kind r) then False
      else case re_kind r of
        Ipv4Cidr \<Rightarrow>
          (case parse_ipv4_addr raw_value of
             Inr ip \<Rightarrow> mask_ipv4 ip (re_ipv4_prefix_len r) = re_ipv4_network r
           | Inl _ \<Rightarrow> False)
      | DomainSuffix \<Rightarrow>
          (case canonicalize_domain raw_value of
             Inr domain \<Rightarrow> re_domain_suffix r \<in> set (domain_suffix_candidates domain)
           | Inl _ \<Rightarrow> False))"

section \<open>Blast-radius guards\<close>

definition deny_requires_blast_radius_override :: "deny_request \<Rightarrow> bool" where
  "deny_requires_blast_radius_override r =
     (if dr_action r \<noteq> Deny then False
      else let namespace = to_ascii_lowercase (trim (dr_namespace r));
               key = to_ascii_lowercase (trim (dr_key r))
           in namespace = ''*'' \<or> namespace = ''all'' \<or> namespace = ''global'' \<or>
              namespace = ''tenant'' \<or> key = ''*'' \<or> key = ''all'')"

definition rule_requires_blast_radius_override :: "rule_request \<Rightarrow> bool" where
  "rule_requires_blast_radius_override r =
     (if rr_action r \<noteq> Deny then False
      else case rr_kind r of
        Ipv4Cidr \<Rightarrow>
          (case parse_ipv4_cidr (rr_pattern r) of
             Inr (_, prefix_len, _) \<Rightarrow> prefix_len = 0 | Inl _ \<Rightarrow> True)
      | DomainSuffix \<Rightarrow>
          (case canonicalize_domain (rr_pattern r) of
             Inr domain \<Rightarrow> length (split_on (CHR ''.'') domain) < 2 | Inl _ \<Rightarrow> True))"

section \<open>Orders and equalities\<close>

definition compare_entries_by_key :: "deny_entry \<Rightarrow> deny_entry \<Rightarrow> ordering" where
  "compare_entries_by_key x y =
     then_with (ord_cmp (de_tenant_id x) (de_tenant_id y))
       (then_with (ord_cmp (de_namespace x) (de_namespace y))
         (ord_cmp (de_key_hash x) (de_key_hash y)))"

definition same_entry_key :: "deny_entry \<Rightarrow> deny_entry \<Rightarrow> bool" where
  "same_entry_key x y \<longleftrightarrow> de_tenant_id x = de_tenant_id y \<and>
     de_namespace x = de_namespace y \<and> de_key_hash x = de_key_hash y"

definition action_rank :: "action \<Rightarrow> u8" where
  "action_rank a = (case a of Deny \<Rightarrow> 2 | AllowOverride \<Rightarrow> 1 | Delete \<Rightarrow> 0)"

definition compare_rules_for_match :: "rule_entry \<Rightarrow> rule_entry \<Rightarrow> ordering" where
  "compare_rules_for_match x y =
     then_with (ord_cmp (re_priority y) (re_priority x))
       (then_with (ord_cmp (action_rank (re_action y)) (action_rank (re_action x)))
         (ord_cmp (re_commit_seq y) (re_commit_seq x)))"

definition compare_rules_by_key :: "rule_entry \<Rightarrow> rule_entry \<Rightarrow> ordering" where
  "compare_rules_by_key x y =
     then_with (ord_cmp (re_tenant_id x) (re_tenant_id y))
       (then_with (ord_cmp (kind_as_str (re_kind x)) (kind_as_str (re_kind y)))
         (ord_cmp (re_rule_hash x) (re_rule_hash y)))"

definition entry_semantically_equal :: "deny_entry \<Rightarrow> deny_entry \<Rightarrow> bool" where
  "entry_semantically_equal x y \<longleftrightarrow> de_tenant_id x = de_tenant_id y \<and>
     de_namespace x = de_namespace y \<and> de_key_hash x = de_key_hash y \<and>
     de_action x = de_action y \<and> de_priority x = de_priority y \<and>
     de_reason_code x = de_reason_code y \<and> de_expires_at x = de_expires_at y \<and>
     de_created_by x = de_created_by y"

definition rule_semantically_equal :: "rule_entry \<Rightarrow> rule_entry \<Rightarrow> bool" where
  "rule_semantically_equal x y \<longleftrightarrow> re_tenant_id x = re_tenant_id y \<and>
     re_kind x = re_kind y \<and> re_pattern x = re_pattern y \<and> re_rule_hash x = re_rule_hash y \<and>
     re_action x = re_action y \<and> re_priority x = re_priority y \<and>
     re_reason_code x = re_reason_code y \<and> re_expires_at x = re_expires_at y \<and>
     re_created_by x = re_created_by y \<and> re_ipv4_network x = re_ipv4_network y \<and>
     re_ipv4_prefix_len x = re_ipv4_prefix_len y \<and> re_domain_suffix x = re_domain_suffix y"

interpretation entries_by_key: comparator compare_entries_by_key
  unfolding compare_entries_by_key_def [abs_def]
  by (rule comparator_then comparator_intros(3))+

interpretation rules_for_match: comparator compare_rules_for_match
  unfolding compare_rules_for_match_def [abs_def]
  by (rule comparator_then comparator_intros(4))+

interpretation rules_by_key: comparator compare_rules_by_key
  unfolding compare_rules_by_key_def [abs_def]
  by (rule comparator_then comparator_intros(3))+

lemma compare_entries_Equal: "compare_entries_by_key x y = Equal \<longleftrightarrow> acl_key_of x = acl_key_of y"
  by (simp add: compare_entries_by_key_def then_with_Equal ord_cmp_simps acl_key_of_def)

lemma same_entry_key_iff: "same_entry_key x y \<longleftrightarrow> acl_key_of x = acl_key_of y"
  by (simp add: same_entry_key_def acl_key_of_def)

lemma compare_rules_by_key_Equal: "compare_rules_by_key x y = Equal \<longleftrightarrow> rule_key_of x = rule_key_of y"
  by (simp add: compare_rules_by_key_def then_with_Equal ord_cmp_simps rule_key_of_def
      kind_as_str_inj)

lemma semantically_equal_key: "entry_semantically_equal x y \<Longrightarrow> acl_key_of x = acl_key_of y"
  by (simp add: entry_semantically_equal_def acl_key_of_def)

lemma rule_semantically_equal_key: "rule_semantically_equal x y \<Longrightarrow> rule_key_of x = rule_key_of y"
  by (simp add: rule_semantically_equal_def rule_key_of_def)

section \<open>The best matching rule\<close>

type_synonym rule_match = "rule_entry option"

definition rule_consider :: "u64 \<Rightarrow> rule_entry \<Rightarrow> rule_match \<Rightarrow> rule_match" where
  "rule_consider now r best =
     (if rule_is_expired r now then best
      else case best of
        Some current \<Rightarrow> if compare_rules_for_match r current \<noteq> Less then best else Some r
      | None \<Rightarrow> Some r)"

definition rule_into_decision :: "rule_match \<Rightarrow> decision" where
  "rule_into_decision best = (case best of
     None \<Rightarrow> Allow
   | Some r \<Rightarrow> (case re_action r of
       Deny \<Rightarrow> Denied (re_reason_code r) (re_priority r)
                 (local_commit_id (re_shard_id r) (re_commit_seq r))
     | AllowOverride \<Rightarrow> Allow
     | Delete \<Rightarrow> Allow))"

section \<open>Addresses and networks round trip\<close>

lemma set_join_with: "set (join_with c ps) \<subseteq> insert c (\<Union>p \<in> set ps. set p)"
  by (induction c ps rule: join_with.induct) auto

lemma format_ipv4_graphic: "c \<in> set (format_ipv4 v) \<Longrightarrow> c = CHR ''.'' \<or> is_ascii_digit c"
  using set_join_with [of "CHR ''.''" "map (\<lambda>o'. dec_string (unat o')) (u32_to_be v)"]
  by (auto simp: format_ipv4_def dest: dec_string_digits)

lemma dot_slash_graphic: "graphic (CHR ''.'')" "graphic (CHR ''/'')"
  by (simp_all add: graphic_def)

lemma format_ipv4_no: "c \<noteq> CHR ''.'' \<Longrightarrow> \<not> is_ascii_digit c \<Longrightarrow> c \<notin> set (format_ipv4 v)"
  using format_ipv4_graphic by blast

lemma dot_slash_no_digit: "\<not> is_ascii_digit (CHR ''.'')" "\<not> is_ascii_digit (CHR ''/'')"
  by (simp_all add: is_ascii_digit_def)

lemma parse_octets_ok:
  "length os + length ps \<le> 4
   \<Longrightarrow> parse_octets (map (\<lambda>o'. dec_string (unat o')) ps) os = Inr (os @ ps)"
proof (induction ps arbitrary: os)
  case Nil
  then show ?case by simp
next
  case (Cons p ps)
  then show ?case using unat_u8_bound [of p] by (simp add: parse_dec_string)
qed

lemma length_u32_to_be [simp]: "length (u32_to_be v) = 4"
  by (simp add: u32_to_be_def)

lemma u32_be_roundtrip [simp]: "u32_from_be (u32_to_be v) = v"
  by (simp add: u32_from_be_def u32_to_be_def le_word_roundtrip)

lemma parse_format_ipv4: "parse_ipv4_addr (format_ipv4 v) = Inr v"
proof -
  have "trim (format_ipv4 v) = format_ipv4 v"
    by (rule trim_graphic) (auto dest!: format_ipv4_graphic simp: digit_graphic dot_slash_graphic)
  moreover have "u32_to_be v \<noteq> []" using length_u32_to_be [of v] by fastforce
  then have "split_on (CHR ''.'') (format_ipv4 v) = map (\<lambda>o'. dec_string (unat o')) (u32_to_be v)"
    unfolding format_ipv4_def
    by (intro split_join) (simp_all add: dec_string_no dot_slash_no_digit)
  ultimately show ?thesis
    by (simp add: parse_ipv4_addr_def parse_octets_ok)
qed

section \<open>Masks\<close>

lemma mask_bits:
  assumes "p \<le> 32" and "p \<noteq> 0"
  shows "mask_ipv4 v p = v AND push_bit (32 - unat p) (- 1)"
proof -
  have "unat (32 - p) = 32 - unat p" using assms(1) by (simp add: unat_sub)
  moreover have "0 < unat p" using assms(2) by (simp add: unat_gt_0)
  ultimately have "unat (32 - p) mod 32 = 32 - unat p" by simp
  with assms(2) show ?thesis by (simp add: mask_ipv4_def)
qed

text \<open>Two addresses have the same network exactly if their leading bits agree.\<close>

lemma mask_ipv4_bit:
  assumes "p \<le> 32" and "i < 32"
  shows "bit (mask_ipv4 v p) i \<longleftrightarrow> 32 - unat p \<le> i \<and> bit v i"
proof (cases "p = 0")
  case True
  with assms show ?thesis by (simp add: mask_ipv4_def)
next
  case False
  with assms show ?thesis by (auto simp: mask_bits bit_simps)
qed

lemma mask_ipv4_idem: "p \<le> 32 \<Longrightarrow> mask_ipv4 (mask_ipv4 v p) p = mask_ipv4 v p"
  by (rule bit_word_eqI) (auto simp: mask_ipv4_bit)

lemma mask_ipv4_eq_iff:
  assumes "p \<le> 32"
  shows "mask_ipv4 v p = mask_ipv4 w p \<longleftrightarrow> drop_bit (32 - unat p) v = drop_bit (32 - unat p) w"
proof -
  have le: "unat p \<le> 32" using assms by (simp add: word_le_nat_alt)
  have "mask_ipv4 v p = mask_ipv4 w p \<longleftrightarrow> (\<forall>i < 32. 32 - unat p \<le> i \<longrightarrow> bit v i = bit w i)"
    by (auto simp: bit_eq_iff mask_ipv4_bit [OF assms])
  also have "\<dots> \<longleftrightarrow> (\<forall>j < unat p. bit v (32 - unat p + j) = bit w (32 - unat p + j))"
  proof safe
    fix i assume *: "\<forall>j < unat p. bit v (32 - unat p + j) = bit w (32 - unat p + j)"
      and i: "i < 32" "32 - unat p \<le> i"
    from * [rule_format, of "i - (32 - unat p)"] i le
    show "bit v i \<Longrightarrow> bit w i" "bit w i \<Longrightarrow> bit v i" by auto
  qed (use le in auto)
  also have "\<dots> \<longleftrightarrow> drop_bit (32 - unat p) v = drop_bit (32 - unat p) w"
  proof -
    have "\<not> j < unat p \<Longrightarrow> \<not> bit x (32 - unat p + j)" for x :: u32 and j
      using le by (intro notI) (drule bit_imp_le_length, simp)
    then show ?thesis by (auto simp: bit_eq_iff bit_simps dest: order_less_le_trans [OF _ le])
  qed
  finally show ?thesis .
qed

text \<open>What the parser returns: a network, a length, and a pattern it maps to the same network.\<close>

lemma parse_ipv4_cidr_ok:
  assumes "parse_ipv4_cidr s = Inr (network, p, canonical)"
  shows "p \<le> 32 \<and> mask_ipv4 network p = network \<and>
         canonical = format_ipv4 network @ ''/'' @ dec_string (unat p)"
proof -
  obtain addr pre where ap:
    "(case split_once (CHR ''/'') (trim s) of Some p \<Rightarrow> p | None \<Rightarrow> (trim s, ''32'')) = (addr, pre)"
    by fastforce
  from assms have "\<exists>n ip. n \<le> 32 \<and> p = word_of_nat n \<and> network = mask_ipv4 ip p \<and>
    canonical = format_ipv4 network @ ''/'' @ dec_string n"
    by (auto simp: parse_ipv4_cidr_def Let_def ap rbind_eq_Inr not_less split: if_splits)
  then obtain n ip where n: "n \<le> 32" "p = word_of_nat n" "network = mask_ipv4 ip p"
    "canonical = format_ipv4 network @ ''/'' @ dec_string n"
    by blast
  then have "p \<le> 32" and "unat p = n" by (auto simp: word_le_nat_alt unat_of_nat)
  with n show ?thesis by (simp add: mask_ipv4_idem)
qed

lemma parse_canonical_cidr:
  assumes "p \<le> 32" and "mask_ipv4 network p = network"
  shows "parse_ipv4_cidr (format_ipv4 network @ ''/'' @ dec_string (unat p)) =
           Inr (network, p, format_ipv4 network @ ''/'' @ dec_string (unat p))"
proof -
  let ?s = "format_ipv4 network @ ''/'' @ dec_string (unat p)"
  have "trim ?s = ?s"
    by (rule trim_graphic)
      (auto dest!: format_ipv4_graphic dec_string_digits simp: digit_graphic dot_slash_graphic)
  moreover have "split_once (CHR ''/'') ?s = Some (format_ipv4 network, dec_string (unat p))"
    using split_once_append [OF format_ipv4_no, of "CHR ''/''" network "dec_string (unat p)"]
    by (simp add: dot_slash_no_digit)
  moreover have "unat p \<le> 32" using assms(1) by (simp add: word_le_nat_alt)
  ultimately show ?thesis
    using assms by (simp add: parse_ipv4_cidr_def parse_dec_string parse_format_ipv4 Let_def)
qed

section \<open>Domain suffixes\<close>

lemma join_with_append:
  "ps \<noteq> [] \<Longrightarrow> qs \<noteq> [] \<Longrightarrow> join_with c (ps @ qs) = join_with c ps @ c # join_with c qs"
proof (induction c ps rule: join_with.induct)
  case (2 c p)
  then show ?case by (cases qs) auto
qed auto

lemma domain_suffix_candidates_iff:
  "s \<in> set (domain_suffix_candidates d) \<longleftrightarrow> s = d \<or> (\<exists>p. d = p @ CHR ''.'' # s)"
proof
  let ?L = "split_on (CHR ''.'') d"
  assume "s \<in> set (domain_suffix_candidates d)"
  then obtain i where i: "i < length ?L" "s = join_with (CHR ''.'') (drop i ?L)"
    by (auto simp: domain_suffix_candidates_def Let_def)
  show "s = d \<or> (\<exists>p. d = p @ CHR ''.'' # s)"
  proof (cases "i = 0")
    case True
    with i show ?thesis by simp
  next
    case False
    with i have "take i ?L \<noteq> []" and "drop i ?L \<noteq> []" by auto
    from join_with_append [OF this, of "CHR ''.''"] i have
      "d = join_with (CHR ''.'') (take i ?L) @ CHR ''.'' # s" by simp
    then show ?thesis by blast
  qed
next
  let ?L = "split_on (CHR ''.'') d"
  have split: "split_on c (p @ c # s) = split_on c p @ split_on c s" for c p s
    by (induction p) (auto split: list.splits simp: neq_Nil_conv [symmetric])
  assume "s = d \<or> (\<exists>p. d = p @ CHR ''.'' # s)"
  then have "\<exists>i < length ?L. s = join_with (CHR ''.'') (drop i ?L)"
  proof
    assume "s = d"
    then show ?thesis by (intro exI [of _ 0]) simp
  next
    assume "\<exists>p. d = p @ CHR ''.'' # s"
    then obtain p where "?L = split_on (CHR ''.'') p @ split_on (CHR ''.'') s"
      by (auto simp: split)
    then show ?thesis
      by (intro exI [of _ "length (split_on (CHR ''.'') p)"]) simp
  qed
  then show "s \<in> set (domain_suffix_candidates d)"
    by (auto simp: domain_suffix_candidates_def Let_def)
qed

section \<open>The outcome of the fold over matching rules\<close>

definition rule_rank :: "rule_entry \<Rightarrow> u32 \<times> u8 \<times> u64" where
  "rule_rank r = (re_priority r, action_rank (re_action r), re_commit_seq r)"

lemma compare_rules_for_match_Less:
  "compare_rules_for_match x y = Less \<longleftrightarrow> rule_rank y < rule_rank x"
  by (auto simp: compare_rules_for_match_def rule_rank_def then_with_Less ord_cmp_simps
      less_prod_simp)

lemma action_rank_inj: "action_rank a = action_rank b \<longleftrightarrow> a = b"
  by (cases a; cases b) (simp_all add: action_rank_def)

lemma rule_rank_action: "rule_rank x = rule_rank y \<Longrightarrow> re_action x = re_action y"
  by (simp add: rule_rank_def action_rank_inj)

definition live_rules :: "u64 \<Rightarrow> rule_entry set \<Rightarrow> rule_entry set" where
  "live_rules now R = {r \<in> R. \<not> rule_is_expired r now}"

definition best_rule :: "u64 \<Rightarrow> rule_entry list \<Rightarrow> rule_match" where
  "best_rule now rs = fold (rule_consider now) rs None"

lemma rule_consider_simps:
  "rule_is_expired r now \<Longrightarrow> rule_consider now r best = best"
  "\<not> rule_is_expired r now \<Longrightarrow> rule_consider now r None = Some r"
  "\<not> rule_is_expired r now \<Longrightarrow> rule_consider now r (Some b) =
     (if rule_rank b < rule_rank r then Some r else Some b)"
  by (auto simp: rule_consider_def compare_rules_for_match_Less)

lemma fold_consider:
  "case fold (rule_consider now) rs best of
     None \<Rightarrow> best = None \<and> live_rules now (set rs) = {}
   | Some r \<Rightarrow> r \<in> live_rules now (set rs) \<union> set_option best \<and>
       (\<forall>x \<in> live_rules now (set rs) \<union> set_option best. rule_rank x \<le> rule_rank r)"
proof (induction rs arbitrary: best)
  case Nil
  then show ?case by (cases best) (auto simp: live_rules_def)
next
  case (Cons r rs)
  show ?case
  proof (cases "rule_is_expired r now")
    case True
    then have "live_rules now (set (r # rs)) = live_rules now (set rs)"
      by (auto simp: live_rules_def)
    with True Cons.IH [of best] show ?thesis by (simp only: rule_consider_simps fold_simps)
  next
    case False
    then have L: "live_rules now (set (r # rs)) = insert r (live_rules now (set rs))"
      by (auto simp: live_rules_def)
    show ?thesis
    proof (cases best)
      case None
      with False L Cons.IH [of "Some r"] show ?thesis
        by (auto simp: rule_consider_simps split: option.splits)
    next
      case (Some b)
      with False L Cons.IH [of "Some (if rule_rank b < rule_rank r then r else b)"] show ?thesis
        by (auto simp: rule_consider_simps split: option.splits if_splits)
    qed
  qed
qed

lemma best_rule_None: "best_rule now rs = None \<longleftrightarrow> live_rules now (set rs) = {}"
  using fold_consider [where rs = rs and best = None and now = now] by (auto simp: best_rule_def split: option.splits)

lemma best_rule_Some:
  assumes "best_rule now rs = Some r"
  shows "r \<in> live_rules now (set rs)"
    and "x \<in> live_rules now (set rs) \<Longrightarrow> rule_rank x \<le> rule_rank r"
  using fold_consider [where rs = rs and best = None and now = now] assms by (auto simp: best_rule_def)

text \<open>Two orders of the same rules give matches of the same rank, and the same match unless two
  of the rules have that rank in common.\<close>

lemma best_rule_rank_cong:
  assumes "live_rules now (set xs) = live_rules now (set ys)"
  shows "map_option rule_rank (best_rule now xs) = map_option rule_rank (best_rule now ys)"
proof (cases "best_rule now xs")
  case None
  then have "best_rule now ys = None" using assms by (simp add: best_rule_None)
  with None show ?thesis by simp
next
  case (Some x)
  then obtain y where y: "best_rule now ys = Some y"
    using assms best_rule_None [of now xs] best_rule_None [of now ys] by auto
  from best_rule_Some [OF Some] best_rule_Some [OF y] assms
  have "rule_rank x = rule_rank y" by (auto intro: order_antisym)
  with Some y show ?thesis by simp
qed

lemma best_rule_cong:
  assumes "live_rules now (set xs) = live_rules now (set ys)"
    and inj: "inj_on rule_rank (live_rules now (set xs))"
  shows "best_rule now xs = best_rule now ys"
  using best_rule_rank_cong [OF assms(1)] assms(1)
    best_rule_Some(1) [of now xs] best_rule_Some(1) [of now ys] inj
  by (cases "best_rule now xs"; cases "best_rule now ys") (auto dest: inj_onD)

lemma rule_into_decision_denied:
  "decision_is_denied (rule_into_decision best) \<longleftrightarrow> (\<exists>r. best = Some r \<and> re_action r = Deny)"
  by (auto simp: rule_into_decision_def split: option.splits action.splits)

lemma best_rule_denied_cong:
  assumes "live_rules now (set xs) = live_rules now (set ys)"
  shows "decision_is_denied (rule_into_decision (best_rule now xs)) =
         decision_is_denied (rule_into_decision (best_rule now ys))"
  using best_rule_rank_cong [OF assms]
  by (cases "best_rule now xs"; cases "best_rule now ys")
    (auto simp: rule_into_decision_denied dest: rule_rank_action)

text \<open>A deny rule decides exactly when no live matching rule outranks it.\<close>

lemma best_rule_denied_iff:
  "decision_is_denied (rule_into_decision (best_rule now rs)) \<longleftrightarrow>
     (\<exists>r \<in> live_rules now (set rs). re_action r = Deny \<and>
        (\<forall>x \<in> live_rules now (set rs). rule_rank x \<le> rule_rank r))"
proof (cases "best_rule now rs")
  case None
  then have "live_rules now (set rs) = {}" by (simp add: best_rule_None)
  with None show ?thesis by (simp add: rule_into_decision_denied)
next
  case (Some b)
  note b = best_rule_Some [OF Some]
  have same: "re_action r = re_action b"
    if "r \<in> live_rules now (set rs)" "\<forall>x \<in> live_rules now (set rs). rule_rank x \<le> rule_rank r" for r
    using that b(1) b(2) [of r] by (intro rule_rank_action order_antisym) auto
  have "decision_is_denied (rule_into_decision (best_rule now rs)) \<longleftrightarrow> re_action b = Deny"
    using Some by (simp add: rule_into_decision_denied)
  also have "\<dots> \<longleftrightarrow> (\<exists>r \<in> live_rules now (set rs). re_action r = Deny \<and>
        (\<forall>x \<in> live_rules now (set rs). rule_rank x \<le> rule_rank r))"
  proof
    assume "re_action b = Deny"
    with b show "\<exists>r \<in> live_rules now (set rs). re_action r = Deny \<and>
        (\<forall>x \<in> live_rules now (set rs). rule_rank x \<le> rule_rank r)" by (intro bexI [of _ b]) auto
  next
    assume "\<exists>r \<in> live_rules now (set rs). re_action r = Deny \<and>
        (\<forall>x \<in> live_rules now (set rs). rule_rank x \<le> rule_rank r)"
    then show "re_action b = Deny" using same by metis
  qed
  finally show ?thesis .
qed

end
