(* ===== verification/Replica.thy ===== *)
theory Replica
  imports Rules
begin

text \<open>
  The contract that every component applying a mutation stream keeps: the source of truth, the
  edge's active state and the relay's cache.

  \<^item> \<open>sequenced_log\<close>: a mutation is applied exactly when it carries the next sequence number of an
    existing shard, which becomes the watermark; a mutation at or below the watermark changes
    nothing.  What follows for whole streams is proved here once: watermarks only grow, every
    mutation of an accepted stream ends up at or below them, the applied ones are consecutive.
  \<^item> \<open>idempotent_log\<close> adds that old mutations are always accepted silently, so that a stream can be
    delivered again.
  \<^item> \<open>sequenced_replica\<close> adds the abstract content, an \<open>acl_view\<close>: applying a mutation is
    \<open>view_apply\<close> on it.  Two replicas with the same view that accept the same stream end with
    the same view, whatever their representations are.
\<close>

section \<open>The abstract content of a replica\<close>

record acl_view =
  av_entries :: "acl_key \<Rightarrow> deny_entry option"
  av_rules :: "rule_key \<Rightarrow> rule_entry option"
  av_watermarks :: "u64 list"

definition view_apply :: "mutation \<Rightarrow> acl_view \<Rightarrow> acl_view" where
  "view_apply m v =
     (let w = (av_watermarks v)[unat (mu_shard m) := mu_seq m] in
      case mu_rule m of
        Some r \<Rightarrow>
          v\<lparr>av_rules := (av_rules v)(rule_key_of r := (if re_action r = Delete then None else Some r)),
            av_watermarks := w\<rparr>
      | None \<Rightarrow>
          v\<lparr>av_entries := (av_entries v)(acl_key_of (mu_entry m) :=
              (if de_action (mu_entry m) = Delete then None else Some (mu_entry m))),
            av_watermarks := w\<rparr>)"

lemma av_watermarks_view_apply [simp]:
  "av_watermarks (view_apply m v) = (av_watermarks v)[unat (mu_shard m) := mu_seq m]"
  by (simp add: view_apply_def Let_def split: option.splits)

text \<open>The decisions that the content determines.\<close>

definition view_lookup :: "acl_view \<Rightarrow> string \<Rightarrow> string \<Rightarrow> string \<Rightarrow> u64 \<Rightarrow> decision" where
  "view_lookup v tenant_id namespace raw_key now =
     decision_for_entry (av_entries v (acl_key_from_raw tenant_id namespace raw_key)) now"

definition view_matching :: "acl_view \<Rightarrow> string \<Rightarrow> string \<Rightarrow> string \<Rightarrow> rule_entry set" where
  "view_matching v tenant_id namespace raw_value =
     {r. (\<exists>k. av_rules v k = Some r) \<and> re_tenant_id r = tenant_id \<and>
         rule_matches_namespace r namespace raw_value}"

definition view_denies :: "acl_view \<Rightarrow> string \<Rightarrow> string \<Rightarrow> string \<Rightarrow> u64 \<Rightarrow> bool" where
  "view_denies v tenant_id namespace raw_value now \<longleftrightarrow>
     decision_is_denied (view_lookup v tenant_id namespace raw_value now) \<or>
     (\<exists>r \<in> live_rules now (view_matching v tenant_id namespace raw_value).
        re_action r = Deny \<and>
        (\<forall>x \<in> live_rules now (view_matching v tenant_id namespace raw_value).
           rule_rank x \<le> rule_rank r))"

section \<open>Applying a stream\<close>

type_synonym 's applier = "mutation \<Rightarrow> 's \<Rightarrow> ('s \<times> apply_status) res"

text \<open>\<open>for mutation in mutations { state.apply(mutation)?; }\<close>.\<close>

definition apply_stream :: "'s applier \<Rightarrow> mutation list \<Rightarrow> 's \<Rightarrow> 's res" where
  "apply_stream ap ms s = rfold (\<lambda>m s. rbind (ap m s) (\<lambda>(s', _). Inr s')) ms s"

lemma apply_stream_simps [simp]:
  "apply_stream ap [] s = Inr s"
  "apply_stream ap (m # ms) s = rbind (ap m s) (\<lambda>(s', _). apply_stream ap ms s')"
  by (auto simp: apply_stream_def rbind_assoc intro!: rbind_cong)

lemma apply_stream_append:
  "apply_stream ap (xs @ ys) s = rbind (apply_stream ap xs s) (apply_stream ap ys)"
  by (simp add: apply_stream_def rfold_append cong: rbind_cong)

locale sequenced_log =
  fixes inv :: "'s \<Rightarrow> bool" and wms :: "'s \<Rightarrow> u64 list" and ap :: "'s applier"
  assumes inv_step: "inv s \<Longrightarrow> ap m s = Inr (s', st) \<Longrightarrow> inv s'"
    and applied: "inv s \<Longrightarrow> ap m s = Inr (s', Applied) \<Longrightarrow>
      unat (mu_shard m) < length (wms s) \<and> wms s ! unat (mu_shard m) < mu_seq m \<and>
      mu_seq m = wms s ! unat (mu_shard m) + 1 \<and>
      wms s' = (wms s)[unat (mu_shard m) := mu_seq m]"
    and ignored: "inv s \<Longrightarrow> ap m s = Inr (s', DuplicateOrOld) \<Longrightarrow>
      s' = s \<and> unat (mu_shard m) < length (wms s) \<and> mu_seq m \<le> wms s ! unat (mu_shard m)"
begin

lemma step_watermarks:
  assumes "inv s" and "ap m s = Inr (s', st)"
  shows "length (wms s') = length (wms s) \<and> (\<forall>i. i < length (wms s) \<longrightarrow> wms s ! i \<le> wms s' ! i) \<and>
         unat (mu_shard m) < length (wms s) \<and> mu_seq m \<le> wms s' ! unat (mu_shard m)"
proof (cases st)
  case Applied
  with applied [of s m s'] assms show ?thesis by (auto simp: nth_list_update)
next
  case DuplicateOrOld
  with ignored [of s m s'] assms show ?thesis by auto
qed

lemma stream_inv: "inv s \<Longrightarrow> apply_stream ap ms s = Inr s' \<Longrightarrow> inv s'"
  by (induction ms arbitrary: s) (auto simp: rbind_eq_Inr dest: inv_step)

lemma stream_length: "inv s \<Longrightarrow> apply_stream ap ms s = Inr s' \<Longrightarrow> length (wms s') = length (wms s)"
proof (induction ms arbitrary: s)
  case Nil
  then show ?case by simp
next
  case (Cons m ms)
  then obtain t st where "ap m s = Inr (t, st)" and "apply_stream ap ms t = Inr s'"
    by (auto simp: rbind_eq_Inr)
  with Cons.IH [of t] Cons.prems step_watermarks [of s m t st] inv_step [of s m t st]
  show ?case by simp
qed

text \<open>Watermarks never go back.\<close>

lemma stream_mono:
  "inv s \<Longrightarrow> apply_stream ap ms s = Inr s' \<Longrightarrow> i < length (wms s) \<Longrightarrow> wms s ! i \<le> wms s' ! i"
proof (induction ms arbitrary: s)
  case Nil
  then show ?case by simp
next
  case (Cons m ms)
  then obtain t st where t: "ap m s = Inr (t, st)" and "apply_stream ap ms t = Inr s'"
    by (auto simp: rbind_eq_Inr)
  with Cons.IH [of t] Cons.prems step_watermarks [of s m t st] inv_step [of s m t st]
  have "wms s ! i \<le> wms t ! i" and "wms t ! i \<le> wms s' ! i" by auto
  then show ?case by simp
qed

text \<open>An accepted stream is covered by the watermarks.\<close>

lemma stream_covered:
  "inv s \<Longrightarrow> apply_stream ap ms s = Inr s' \<Longrightarrow> m \<in> set ms
   \<Longrightarrow> unat (mu_shard m) < length (wms s') \<and> mu_seq m \<le> wms s' ! unat (mu_shard m)"
proof (induction ms arbitrary: s)
  case Nil
  then show ?case by simp
next
  case (Cons x ms)
  then obtain t st where t: "ap x s = Inr (t, st)" and ts: "apply_stream ap ms t = Inr s'"
    by (auto simp: rbind_eq_Inr)
  note inv_t = inv_step [OF Cons.prems(1) t]
  show ?case
  proof (cases "m = x")
    case True
    with step_watermarks [OF Cons.prems(1) t] stream_mono [OF inv_t ts] stream_length [OF inv_t ts]
    show ?thesis by (auto intro: order_trans)
  next
    case False
    with Cons.IH [OF inv_t ts] Cons.prems(3) show ?thesis by simp
  qed
qed

text \<open>The watermark advances by the number of mutations applied, one at a time.\<close>

lemma step_advance:
  assumes "inv s" and "ap m s = Inr (s', st)" and "i < length (wms s)"
  shows "unat (wms s' ! i) = unat (wms s ! i) + (if st = Applied \<and> unat (mu_shard m) = i then 1 else 0)"
proof (cases st)
  case Applied
  with applied [of s m s'] assms(1,2) have a: "wms s ! unat (mu_shard m) < mu_seq m"
    "mu_seq m = wms s ! unat (mu_shard m) + 1" "wms s' = (wms s)[unat (mu_shard m) := mu_seq m]"
    by auto
  then have "wms s ! unat (mu_shard m) \<noteq> - 1" by auto
  from unat_u64_succ [OF this] a Applied assms(3) show ?thesis by (auto simp: nth_list_update)
next
  case DuplicateOrOld
  with ignored [of s m s'] assms(1,2) show ?thesis by simp
qed

end

locale idempotent_log = sequenced_log +
  assumes old_accepted: "inv s \<Longrightarrow> unat (mu_shard m) < length (wms s) \<Longrightarrow>
      mu_seq m \<le> wms s ! unat (mu_shard m) \<Longrightarrow> ap m s = Inr (s, DuplicateOrOld)"
begin

lemma covered_stream_ignored:
  "inv s \<Longrightarrow> \<forall>m \<in> set ms. unat (mu_shard m) < length (wms s) \<and> mu_seq m \<le> wms s ! unat (mu_shard m)
   \<Longrightarrow> apply_stream ap ms s = Inr s"
  by (induction ms) (auto simp: old_accepted)

text \<open>Redelivery of an accepted stream, in any order and any number of times, changes nothing.\<close>

lemma redelivery:
  assumes "inv s" and "apply_stream ap ms s = Inr s'" and "set ms' \<subseteq> set ms"
  shows "apply_stream ap ms' s' = Inr s'"
  using assms stream_covered [OF assms(1,2)] stream_inv [OF assms(1,2)]
  by (intro covered_stream_ignored) auto

end

locale sequenced_replica = sequenced_log +
  fixes vw :: "'a \<Rightarrow> acl_view"
  assumes view_watermarks: "inv s \<Longrightarrow> av_watermarks (vw s) = wms s"
    and view_step: "inv s \<Longrightarrow> ap m s = Inr (s', Applied) \<Longrightarrow> vw s' = view_apply m (vw s)"
begin

lemma status_iff:
  assumes "inv s" and "ap m s = Inr (s', st)"
  shows "st = Applied \<longleftrightarrow> wms s ! unat (mu_shard m) < mu_seq m"
  using applied [of s m s'] ignored [of s m s'] assms by (cases st) auto

lemma view_outcome:
  assumes "inv s" and "ap m s = Inr (s', st)"
  shows "vw s' = (if av_watermarks (vw s) ! unat (mu_shard m) < mu_seq m
                  then view_apply m (vw s) else vw s)"
  using assms status_iff [OF assms] view_step [of s m s'] ignored [of s m s'] view_watermarks [of s]
  by (cases st) auto

text \<open>The view after a stream is a function of the view before it.\<close>

lemma view_stream:
  "inv s \<Longrightarrow> apply_stream ap ms s = Inr s' \<Longrightarrow>
   vw s' = fold (\<lambda>m v. if av_watermarks v ! unat (mu_shard m) < mu_seq m
                        then view_apply m v else v) ms (vw s)"
proof (induction ms arbitrary: s)
  case Nil
  then show ?case by simp
next
  case (Cons m ms)
  then obtain t st where t: "ap m s = Inr (t, st)" and ts: "apply_stream ap ms t = Inr s'"
    by (auto simp: rbind_eq_Inr)
  from Cons.IH [OF inv_step [OF Cons.prems(1) t] ts] view_outcome [OF Cons.prems(1) t]
  show ?case by simp
qed

end

end
