(* ===== verification/Immutable_Base.thy ===== *)
theory Immutable_Base
  imports Replica
begin

unbundle bit_operations_syntax

text \<open>
  The immutable base of an edge's active state (\<open>globacl-core/src/lib/active_state.rs\<close>): the
  symbol table that interns strings (\<open>SymbolTable\<close>), compact entries (\<open>CompactDenyEntry\<close>), the
  negative filter (\<open>NegativeFilter\<close>, a Bloom filter) and the sorted vector with its binary
  search (\<open>ImmutableBase\<close>).  \<open>Panic\<close> stands for an index out of bounds, the exhausted symbol
  table and the division by a zero filter length.
\<close>

section \<open>Symbols\<close>

record symbol_table =
  st_values :: "string list"
  st_ids :: "(string, u32) hashmap"

definition symbols_new :: symbol_table where
  "symbols_new = \<lparr>st_values = [], st_ids = hm_new\<rparr>"

definition intern :: "string \<Rightarrow> symbol_table \<Rightarrow> (u32 \<times> symbol_table) res" where
  "intern v t = (case hm_get (st_ids t) v of
     Some sid \<Rightarrow> Inr (sid, t)
   | None \<Rightarrow>
       if 2 ^ 32 \<le> length (st_values t) then Inl Panic
       else let sid = word_of_nat (length (st_values t)) in
         Inr (sid, \<lparr>st_values = st_values t @ [v], st_ids = hm_insert v sid (st_ids t)\<rparr>))"

definition symbol_id :: "symbol_table \<Rightarrow> string \<Rightarrow> u32 option" where
  "symbol_id t v = hm_get (st_ids t) v"

definition symbol_get :: "symbol_table \<Rightarrow> u32 \<Rightarrow> string res" where
  "symbol_get t sid = vec_index (st_values t) (unat sid)"

section \<open>Compact entries\<close>

record compact_entry =
  ce_key_hash :: u64
  ce_expires_at :: u64
  ce_commit_seq :: u64
  ce_priority :: u32
  ce_tenant_id :: u32
  ce_namespace :: u32
  ce_reason_code :: u32
  ce_created_by :: u32
  ce_shard_id :: u16
  ce_action :: action

definition compact_from_entry :: "deny_entry \<Rightarrow> symbol_table \<Rightarrow> (compact_entry \<times> symbol_table) res" where
  "compact_from_entry e t =
     rbind (intern (de_tenant_id e) t) (\<lambda>(tenant_id, t).
     rbind (intern (de_namespace e) t) (\<lambda>(namespace, t).
     rbind (intern (de_reason_code e) t) (\<lambda>(reason_code, t).
     rbind (intern (de_created_by e) t) (\<lambda>(created_by, t).
       Inr (\<lparr>ce_key_hash = de_key_hash e, ce_expires_at = de_expires_at e,
             ce_commit_seq = de_commit_seq e, ce_priority = de_priority e,
             ce_tenant_id = tenant_id, ce_namespace = namespace, ce_reason_code = reason_code,
             ce_created_by = created_by, ce_shard_id = de_shard_id e, ce_action = de_action e\<rparr>,
            t)))))"

definition compact_is_expired :: "compact_entry \<Rightarrow> u64 \<Rightarrow> bool" where
  "compact_is_expired c now = (ce_expires_at c \<noteq> 0 \<and> ce_expires_at c \<le> now)"

definition to_deny_entry :: "symbol_table \<Rightarrow> compact_entry \<Rightarrow> deny_entry res" where
  "to_deny_entry t c =
     rbind (symbol_get t (ce_tenant_id c)) (\<lambda>tenant_id.
     rbind (symbol_get t (ce_namespace c)) (\<lambda>namespace.
     rbind (symbol_get t (ce_reason_code c)) (\<lambda>reason_code.
     rbind (symbol_get t (ce_created_by c)) (\<lambda>created_by.
       Inr \<lparr>de_tenant_id = tenant_id, de_namespace = namespace, de_key_hash = ce_key_hash c,
            de_action = ce_action c, de_priority = ce_priority c, de_reason_code = reason_code,
            de_expires_at = ce_expires_at c, de_created_by = created_by,
            de_commit_seq = ce_commit_seq c, de_shard_id = ce_shard_id c\<rparr>))))"

definition compare_compact_entries_by_key :: "compact_entry \<Rightarrow> compact_entry \<Rightarrow> ordering" where
  "compare_compact_entries_by_key x y =
     then_with (ord_cmp (ce_tenant_id x) (ce_tenant_id y))
       (then_with (ord_cmp (ce_namespace x) (ce_namespace y))
         (ord_cmp (ce_key_hash x) (ce_key_hash y)))"

definition compare_compact_entry_to_key :: "compact_entry \<Rightarrow> u32 \<Rightarrow> u32 \<Rightarrow> u64 \<Rightarrow> ordering" where
  "compare_compact_entry_to_key c tenant_id namespace key_hash =
     then_with (ord_cmp (ce_tenant_id c) tenant_id)
       (then_with (ord_cmp (ce_namespace c) namespace) (ord_cmp (ce_key_hash c) key_hash))"

interpretation compact_by_key: comparator compare_compact_entries_by_key
  unfolding compare_compact_entries_by_key_def [abs_def]
  by (rule comparator_then comparator_intros(3))+

section \<open>The negative filter\<close>

definition NEGATIVE_FILTER_BITS_PER_ENTRY :: nat where
  "NEGATIVE_FILTER_BITS_PER_ENTRY = 20"

definition NEGATIVE_FILTER_HASHES :: nat where
  "NEGATIVE_FILTER_HASHES = 8"

record negative_filter =
  nf_bits :: "u64 list"
  nf_bit_len :: nat

definition hash_pair_parts :: "string \<Rightarrow> string \<Rightarrow> u64 \<Rightarrow> u64 \<times> u64" where
  "hash_pair_parts tenant_id namespace key_hash =
     (let seed = fingerprint_acl_key_parts tenant_id namespace key_hash;
          first = splitmix64 seed;
          second = splitmix64 (seed XOR 0x9e3779b97f4a7c15) OR 1
      in (first, second))"

definition bit_index :: "negative_filter \<Rightarrow> u64 \<Rightarrow> u64 \<Rightarrow> nat \<Rightarrow> nat res" where
  "bit_index f first second index =
     (let i = word_of_nat index :: u64;
          hash = first + i * second + i * i
      in if nf_bit_len f = 0 then Inl Panic else Inr (unat hash mod nf_bit_len f))"

definition insert_parts_step :: "u64 \<Rightarrow> u64 \<Rightarrow> nat \<Rightarrow> negative_filter \<Rightarrow> negative_filter res" where
  "insert_parts_step first second index f =
     rbind (bit_index f first second index) (\<lambda>i.
     rbind (vec_index (nf_bits f) (i div 64)) (\<lambda>w.
       Inr (f\<lparr>nf_bits := (nf_bits f)[i div 64 := w OR push_bit (i mod 64) 1]\<rparr>)))"

definition insert_parts :: "string \<Rightarrow> string \<Rightarrow> u64 \<Rightarrow> negative_filter \<Rightarrow> negative_filter res" where
  "insert_parts tenant_id namespace key_hash f =
     (let (first, second) = hash_pair_parts tenant_id namespace key_hash
      in rfold (insert_parts_step first second) [0..<NEGATIVE_FILTER_HASHES] f)"

text \<open>The loop over the hashes returns at the first bit that is not set.\<close>

fun all_bits_set :: "negative_filter \<Rightarrow> u64 \<Rightarrow> u64 \<Rightarrow> nat list \<Rightarrow> bool res" where
  "all_bits_set f first second [] = Inr True"
| "all_bits_set f first second (index # rest) =
     rbind (bit_index f first second index) (\<lambda>i.
     rbind (vec_index (nf_bits f) (i div 64)) (\<lambda>w.
       if w AND push_bit (i mod 64) 1 = 0 then Inr False
       else all_bits_set f first second rest))"

definition may_contain_parts :: "negative_filter \<Rightarrow> string \<Rightarrow> string \<Rightarrow> u64 \<Rightarrow> bool res" where
  "may_contain_parts f tenant_id namespace key_hash =
     (if nf_bit_len f = 0 then Inr False
      else let (first, second) = hash_pair_parts tenant_id namespace key_hash
        in all_bits_set f first second [0..<NEGATIVE_FILTER_HASHES])"

text \<open>\<open>saturating_mul\<close> at the largest \<open>usize\<close>; \<open>div_ceil\<close> by 64.\<close>

definition filter_from_compact_entries :: "compact_entry list \<Rightarrow> symbol_table \<Rightarrow> negative_filter res" where
  "filter_from_compact_entries cs t =
     (if cs = [] then Inr \<lparr>nf_bits = [], nf_bit_len = 0\<rparr>
      else
        let desired_bits = max (min (length cs * NEGATIVE_FILTER_BITS_PER_ENTRY) (2 ^ 64 - 1)) 64;
            words = (desired_bits + 63) div 64
        in rfold (\<lambda>c f.
             rbind (symbol_get t (ce_tenant_id c)) (\<lambda>tenant_id.
             rbind (symbol_get t (ce_namespace c)) (\<lambda>namespace.
               insert_parts tenant_id namespace (ce_key_hash c) f)))
           cs \<lparr>nf_bits = replicate words 0, nf_bit_len = words * 64\<rparr>)"

section \<open>The base\<close>

record immutable_base =
  ib_entries :: "compact_entry list"
  ib_symbols :: symbol_table
  ib_filter :: negative_filter

text \<open>One iteration of the loop that drops superseded entries of the sorted vector.\<close>

definition dedup_push :: "deny_entry \<Rightarrow> deny_entry list \<Rightarrow> deny_entry list" where
  "dedup_push e deduped =
     (if deduped \<noteq> [] \<and> same_entry_key (last deduped) e
      then if de_commit_seq (last deduped) \<le> de_commit_seq e then butlast deduped @ [e] else deduped
      else deduped @ [e])"

definition dedup_entries :: "deny_entry list \<Rightarrow> deny_entry list" where
  "dedup_entries es = fold dedup_push es []"

definition compact_push ::
  "deny_entry \<Rightarrow> compact_entry list \<times> symbol_table \<Rightarrow> (compact_entry list \<times> symbol_table) res" where
  "compact_push e = (\<lambda>(cs, t). rbind (compact_from_entry e t) (\<lambda>(c, t). Inr (cs @ [c], t)))"

definition base_from_entries :: "deny_entry list \<Rightarrow> immutable_base res" where
  "base_from_entries es =
     (let deduped = dedup_entries (sort_by compare_entries_by_key es) in
      rbind (rfold compact_push deduped ([], symbols_new)) (\<lambda>(cs, symbols).
      let cs = sort_by compare_compact_entries_by_key cs in
      rbind (filter_from_compact_entries cs symbols) (\<lambda>f.
        Inr \<lparr>ib_entries = cs, ib_symbols = symbols, ib_filter = f\<rparr>)))"

definition base_len :: "immutable_base \<Rightarrow> nat" where
  "base_len b = length (ib_entries b)"

definition lookup_exact_parts :: "immutable_base \<Rightarrow> string \<Rightarrow> string \<Rightarrow> u64 \<Rightarrow> compact_entry option" where
  "lookup_exact_parts b tenant_id namespace key_hash =
     (case symbol_id (ib_symbols b) tenant_id of
        None \<Rightarrow> None
      | Some tid \<Rightarrow> (case symbol_id (ib_symbols b) namespace of
          None \<Rightarrow> None
        | Some nid \<Rightarrow>
            map_option (\<lambda>i. ib_entries b ! i)
              (binary_search_by (\<lambda>c. compare_compact_entry_to_key c tid nid key_hash) (ib_entries b))))"

definition lookup_parts :: "immutable_base \<Rightarrow> string \<Rightarrow> string \<Rightarrow> u64 \<Rightarrow> compact_entry option res" where
  "lookup_parts b tenant_id namespace key_hash =
     rbind (may_contain_parts (ib_filter b) tenant_id namespace key_hash) (\<lambda>maybe.
       Inr (if \<not> maybe then None else lookup_exact_parts b tenant_id namespace key_hash))"

definition base_contains_key :: "immutable_base \<Rightarrow> acl_key \<Rightarrow> bool" where
  "base_contains_key b k =
     (lookup_exact_parts b (ak_tenant_id k) (ak_namespace k) (ak_key_hash k) \<noteq> None)"

definition decision_for_parts :: "immutable_base \<Rightarrow> string \<Rightarrow> string \<Rightarrow> u64 \<Rightarrow> u64 \<Rightarrow> decision res" where
  "decision_for_parts b tenant_id namespace key_hash now =
     rbind (lookup_parts b tenant_id namespace key_hash) (\<lambda>found.
       case found of
         None \<Rightarrow> Inr Allow
       | Some c \<Rightarrow>
           if compact_is_expired c now then Inr Allow
           else (case ce_action c of
               Deny \<Rightarrow> rbind (symbol_get (ib_symbols b) (ce_reason_code c)) (\<lambda>reason.
                   Inr (Denied reason (ce_priority c) (local_commit_id (ce_shard_id c) (ce_commit_seq c))))
             | AllowOverride \<Rightarrow> Inr Allow
             | Delete \<Rightarrow> Inr Allow))"

definition base_materialized_entries :: "immutable_base \<Rightarrow> deny_entry list res" where
  "base_materialized_entries b = rmap (to_deny_entry (ib_symbols b)) (ib_entries b)"

end
