(* ===== verification/Base_Correct.thy ===== *)
theory Base_Correct
  imports Immutable_Base
begin

unbundle bit_operations_syntax

text \<open>
  Correctness of the immutable base: interning is injective and stable, compact entries decode to
  what they were made from, the negative filter has no false negatives, and the binary search
  finds exactly the newest entry of a key.
\<close>

section \<open>Keys as ordered tuples\<close>

definition entry_tuple :: "deny_entry \<Rightarrow> string \<times> string \<times> u64" where
  "entry_tuple e = (de_tenant_id e, de_namespace e, de_key_hash e)"

lemma compare_entries_ord: "compare_entries_by_key x y = ord_cmp (entry_tuple x) (entry_tuple y)"
  by (auto simp: compare_entries_by_key_def entry_tuple_def ord_cmp_def)

lemma entry_tuple_eq: "entry_tuple x = entry_tuple y \<longleftrightarrow> acl_key_of x = acl_key_of y"
  by (auto simp: entry_tuple_def acl_key_of_def)

lemma same_entry_key_tuple: "same_entry_key x y \<longleftrightarrow> entry_tuple x = entry_tuple y"
  by (auto simp: same_entry_key_def entry_tuple_def)

definition compact_tuple :: "compact_entry \<Rightarrow> u32 \<times> u32 \<times> u64" where
  "compact_tuple c = (ce_tenant_id c, ce_namespace c, ce_key_hash c)"

lemma compare_compact_ord:
  "compare_compact_entries_by_key x y = ord_cmp (compact_tuple x) (compact_tuple y)"
  by (auto simp: compare_compact_entries_by_key_def compact_tuple_def ord_cmp_def)

lemma compare_compact_key_ord:
  "compare_compact_entry_to_key c t n h = ord_cmp (compact_tuple c) (t, n, h)"
  by (auto simp: compare_compact_entry_to_key_def compact_tuple_def ord_cmp_def)

section \<open>Dropping superseded entries\<close>

definition newer :: "deny_entry \<Rightarrow> deny_entry option \<Rightarrow> deny_entry option" where
  "newer e acc = (case acc of
     None \<Rightarrow> Some e
   | Some l \<Rightarrow> if de_commit_seq l \<le> de_commit_seq e then Some e else acc)"

text \<open>The entry of a key that wins: the last one with the greatest commit sequence number.\<close>

definition newest :: "deny_entry list \<Rightarrow> acl_key \<Rightarrow> deny_entry option" where
  "newest es k = fold newer (filter (\<lambda>e. acl_key_of e = k) es) None"

definition entry_map :: "deny_entry list \<Rightarrow> acl_key \<Rightarrow> deny_entry option" where
  "entry_map es = map_of (map (\<lambda>e. (acl_key_of e, e)) es)"

lemma newest_snoc: "newest (es @ [e]) k = (if acl_key_of e = k then newer e (newest es k) else newest es k)"
  by (simp add: newest_def)

lemma newest_Nil [simp]: "newest [] k = None"
  by (simp add: newest_def)

lemma newest_key: "newest es k = Some e \<Longrightarrow> acl_key_of e = k \<and> e \<in> set es"
  by (induction es arbitrary: e rule: rev_induct)
    (auto simp: newest_snoc newer_def split: if_splits option.splits)

lemma newest_None: "newest es k = None \<longleftrightarrow> (\<forall>e \<in> set es. acl_key_of e \<noteq> k)"
  by (induction es rule: rev_induct) (auto simp: newest_snoc newer_def split: option.splits)

lemma entry_map_snoc:
  assumes "\<forall>e \<in> set es. acl_key_of e \<noteq> acl_key_of x"
  shows "entry_map (es @ [x]) k = (if k = acl_key_of x then Some x else entry_map es k)"
proof -
  have "map_of (map (\<lambda>e. (acl_key_of e, e)) es) (acl_key_of x) = None"
    using assms by (auto simp: map_of_eq_None_iff image_image)
  then show ?thesis by (auto simp: entry_map_def map_add_def split: option.splits)
qed

lemma newest_distinct:
  "distinct (map acl_key_of es) \<Longrightarrow> newest es k = entry_map es k"
proof (induction es rule: rev_induct)
  case Nil
  then show ?case by (simp add: entry_map_def)
next
  case (snoc e es)
  have fresh: "\<forall>x \<in> set es. acl_key_of x \<noteq> acl_key_of e"
    using snoc.prems by (auto simp: image_iff)
  then have "newest es (acl_key_of e) = None" by (simp add: newest_None)
  with snoc fresh show ?case
    by (simp add: newest_snoc newer_def entry_map_snoc)
qed

lemma entry_map_None: "entry_map es k = None \<longleftrightarrow> (\<forall>e \<in> set es. acl_key_of e \<noteq> k)"
  by (auto simp: entry_map_def map_of_eq_None_iff image_image)

lemma entry_map_Some:
  "distinct (map acl_key_of es) \<Longrightarrow> entry_map es k = Some e \<longleftrightarrow> e \<in> set es \<and> acl_key_of e = k"
proof -
  assume d: "distinct (map acl_key_of es)"
  have "distinct (map fst (map (\<lambda>e. (acl_key_of e, e)) es))" using d by (simp add: o_def)
  then show ?thesis by (auto simp: entry_map_def)
qed

lemma newest_sorted: "newest (sort_by compare_entries_by_key es) k = newest es k"
proof (cases "\<exists>a \<in> set es. acl_key_of a = k")
  case True
  then obtain a where a: "acl_key_of a = k" by blast
  have f: "(\<lambda>e. acl_key_of e = k) = (\<lambda>e. compare_entries_by_key a e = Equal)"
    using a by (auto simp: compare_entries_Equal)
  show ?thesis unfolding newest_def f by (simp add: entries_by_key.filter_sort_by)
next
  case False
  then have "newest es k = None" "newest (sort_by compare_entries_by_key es) k = None"
    by (simp_all add: newest_None)
  then show ?thesis by simp
qed

lemma dedup_entries_snoc: "dedup_entries (es @ [e]) = dedup_push e (dedup_entries es)"
  by (simp add: dedup_entries_def)

lemma last_tuple_max:
  "sorted_wrt (<) (map entry_tuple ds) \<Longrightarrow> d \<in> set ds \<Longrightarrow> entry_tuple d \<le> entry_tuple (last ds)"
  by (induction ds) (auto simp: less_imp_le)

lemma dedup_sorted:
  "sorted (map entry_tuple es) \<Longrightarrow>
     sorted_wrt (<) (map entry_tuple (dedup_entries es)) \<and>
     set (dedup_entries es) \<subseteq> set es \<and>
     entry_map (dedup_entries es) = newest es"
proof (induction es rule: rev_induct)
  case Nil
  then show ?case by (simp add: dedup_entries_def entry_map_def fun_eq_iff)
next
  case (snoc e es)
  let ?ds = "dedup_entries es"
  from snoc have IH: "sorted_wrt (<) (map entry_tuple ?ds)" "set ?ds \<subseteq> set es"
    "entry_map ?ds = newest es" and le: "\<forall>d \<in> set es. entry_tuple d \<le> entry_tuple e"
    by (auto simp: sorted_wrt_append)
  show ?case
  proof (cases "?ds \<noteq> [] \<and> entry_tuple (last ?ds) = entry_tuple e")
    case True
    then obtain bs l where ds: "?ds = bs @ [l]" by (metis append_butlast_last_id)
    with True have l: "acl_key_of l = acl_key_of e" "entry_tuple l = entry_tuple e"
      by (auto simp: entry_tuple_eq)
    have fresh: "\<forall>b \<in> set bs. acl_key_of b \<noteq> acl_key_of e"
      using IH(1) l by (auto simp: ds sorted_wrt_append entry_tuple_eq [symmetric])
    have new: "newest es (acl_key_of e) = Some l"
      using fun_cong [OF IH(3), of "acl_key_of e"] fresh l by (simp add: ds entry_map_snoc)
    have rest: "entry_map bs k = newest es k" if "k \<noteq> acl_key_of e" for k
      using fun_cong [OF IH(3), of k] that fresh l by (simp add: ds entry_map_snoc)
    show ?thesis
    proof (cases "de_commit_seq l \<le> de_commit_seq e")
      case True
      then have "dedup_entries (es @ [e]) = bs @ [e]"
        using l by (simp add: dedup_entries_snoc dedup_push_def ds same_entry_key_tuple)
      moreover have "entry_map (bs @ [e]) = newest (es @ [e])"
        using True new rest fresh by (auto simp: fun_eq_iff entry_map_snoc newest_snoc newer_def)
      ultimately show ?thesis using IH(1,2) l by (auto simp: ds sorted_wrt_append)
    next
      case False
      then have "dedup_entries (es @ [e]) = ?ds"
        using l by (simp add: dedup_entries_snoc dedup_push_def ds same_entry_key_tuple)
      moreover have "newest es = newest (es @ [e])"
        using False new by (auto simp: fun_eq_iff newest_snoc newer_def)
      ultimately show ?thesis using IH by auto
    qed
  next
    case False
    have lt: "\<forall>d \<in> set ?ds. entry_tuple d < entry_tuple e"
    proof
      fix d assume d: "d \<in> set ?ds"
      then have "?ds \<noteq> []" by auto
      with False have "entry_tuple (last ?ds) \<noteq> entry_tuple e" by simp
      moreover have "entry_tuple (last ?ds) \<le> entry_tuple e"
        using IH(2) le \<open>?ds \<noteq> []\<close> last_in_set by blast
      ultimately show "entry_tuple d < entry_tuple e"
        using last_tuple_max [OF IH(1) d] by (meson le_neq_trans order_le_less_trans)
    qed
    then have fresh: "\<forall>d \<in> set ?ds. acl_key_of d \<noteq> acl_key_of e"
      by (auto simp: entry_tuple_eq [symmetric])
    then have "newest es (acl_key_of e) = None"
      using IH(3) by (metis entry_map_None)
    moreover have "dedup_entries (es @ [e]) = ?ds @ [e]"
      using False by (auto simp: dedup_entries_snoc dedup_push_def same_entry_key_tuple)
    ultimately show ?thesis
      using IH lt fresh by (auto simp: newest_snoc newer_def sorted_wrt_append fun_eq_iff entry_map_snoc)
  qed
qed

section \<open>Interning\<close>

definition st_ok :: "symbol_table \<Rightarrow> bool" where
  "st_ok t \<longleftrightarrow> length (st_values t) \<le> 2 ^ 32 \<and>
     (\<forall>v sid. hm_get (st_ids t) v = Some sid \<longleftrightarrow>
        unat sid < length (st_values t) \<and> st_values t ! unat sid = v)"

lemma st_ok_new: "st_ok symbols_new"
  by (simp add: st_ok_def symbols_new_def)

lemma symbol_get_Inr: "symbol_get t sid = Inr v \<longleftrightarrow> unat sid < length (st_values t) \<and> st_values t ! unat sid = v"
  by (simp add: symbol_get_def vec_index_eq_Inr)

lemma symbol_id_get: "st_ok t \<Longrightarrow> symbol_id t v = Some sid \<longleftrightarrow> symbol_get t sid = Inr v"
  by (simp add: st_ok_def symbol_id_def symbol_get_Inr)

definition grows :: "symbol_table \<Rightarrow> symbol_table \<Rightarrow> bool" where
  "grows t t' \<longleftrightarrow> (\<exists>vs. st_values t' = st_values t @ vs)"

lemma grows_refl: "grows t t"
  by (simp add: grows_def)

lemma grows_trans: "grows t t' \<Longrightarrow> grows t' t'' \<Longrightarrow> grows t t''"
  by (auto simp: grows_def)

lemma grows_get: "grows t t' \<Longrightarrow> symbol_get t sid = Inr v \<Longrightarrow> symbol_get t' sid = Inr v"
  by (auto simp: grows_def symbol_get_Inr nth_append)

lemma intern_ok:
  assumes "st_ok t" and "intern v t = Inr (sid, t')"
  shows "st_ok t' \<and> grows t t' \<and> symbol_get t' sid = Inr v"
proof (cases "hm_get (st_ids t) v")
  case (Some s)
  with assms have "t' = t" "sid = s" by (simp_all add: intern_def)
  moreover have "symbol_get t s = Inr v"
    using Some symbol_id_get [OF assms(1), of v s] by (simp add: symbol_id_def)
  ultimately show ?thesis using assms(1) by (simp add: grows_refl)
next
  case None
  let ?n = "length (st_values t)"
  from None assms(2) have n: "?n < 2 ^ 32" and sid: "sid = word_of_nat ?n"
    and t': "t' = \<lparr>st_values = st_values t @ [v], st_ids = hm_insert v sid (st_ids t)\<rparr>"
    by (auto simp: intern_def Let_def not_le split: if_splits)
  have u: "unat sid = ?n" using n by (simp add: sid unat_of_nat)
  have I: "hm_get (st_ids t) w = Some s \<longleftrightarrow> unat s < ?n \<and> st_values t ! unat s = w" for w and s :: u32
    using assms(1) unfolding st_ok_def by blast
  have fresh: "\<not> (unat s < ?n \<and> st_values t ! unat s = v)" for s :: u32
    using I [of v s] None by simp
  have "hm_get (st_ids t') w = Some s \<longleftrightarrow> unat s < Suc ?n \<and> (st_values t @ [v]) ! unat s = w" for w and s :: u32
  proof -
    have L: "hm_get (st_ids t') w = (if w = v then Some sid else hm_get (st_ids t) w)" for w
      by (simp add: t')
    have S: "s = sid \<longleftrightarrow> unat s = ?n" using u by (metis word_unat_eq_iff)
    show ?thesis
    proof (cases "unat s = ?n")
      case True
      then have "s = sid" by (simp add: S)
      with True show ?thesis by (auto simp: L I)
    next
      case False
      then have "s \<noteq> sid" and "unat s < Suc ?n \<longleftrightarrow> unat s < ?n" by (auto simp: S)
      with fresh [of s] show ?thesis by (cases "w = v") (auto simp: L I nth_append)
    qed
  qed
  then have "\<forall>w (s :: u32). hm_get (st_ids t') w = Some s \<longleftrightarrow>
      unat s < length (st_values t') \<and> st_values t' ! unat s = w"
    by (simp add: t')
  moreover have "length (st_values t') \<le> 2 ^ 32" using n by (simp add: t')
  ultimately have "st_ok t'" unfolding st_ok_def by blast
  moreover have "grows t t'" and "symbol_get t' sid = Inr v"
    using u by (simp_all add: t' grows_def symbol_get_Inr)
  ultimately show ?thesis by simp
qed

lemma intern_total:
  assumes "length (st_values t) < 2 ^ 32"
  shows "\<exists>sid t'. intern v t = Inr (sid, t') \<and> length (st_values t') \<le> Suc (length (st_values t))"
  using assms by (auto simp: intern_def Let_def split: option.splits)

lemma to_deny_entry_Inr:
  "to_deny_entry t c = Inr e \<longleftrightarrow>
     symbol_get t (ce_tenant_id c) = Inr (de_tenant_id e) \<and>
     symbol_get t (ce_namespace c) = Inr (de_namespace e) \<and>
     symbol_get t (ce_reason_code c) = Inr (de_reason_code e) \<and>
     symbol_get t (ce_created_by c) = Inr (de_created_by e) \<and>
     ce_key_hash c = de_key_hash e \<and> ce_action c = de_action e \<and> ce_priority c = de_priority e \<and>
     ce_expires_at c = de_expires_at e \<and> ce_commit_seq c = de_commit_seq e \<and>
     ce_shard_id c = de_shard_id e"
  by (cases e) (auto simp: to_deny_entry_def rbind_eq_Inr)

lemma to_deny_entry_grows: "grows t t' \<Longrightarrow> to_deny_entry t c = Inr e \<Longrightarrow> to_deny_entry t' c = Inr e"
  by (simp add: to_deny_entry_Inr grows_get)

lemma compact_from_entry_ok:
  assumes "st_ok t" and "compact_from_entry e t = Inr (c, t')"
  shows "st_ok t' \<and> grows t t' \<and> to_deny_entry t' c = Inr e"
proof -
  from assms(2) obtain a t1 b t2 r t3 u where
    i: "intern (de_tenant_id e) t = Inr (a, t1)" "intern (de_namespace e) t1 = Inr (b, t2)"
      "intern (de_reason_code e) t2 = Inr (r, t3)" "intern (de_created_by e) t3 = Inr (u, t')"
    and c: "ce_tenant_id c = a" "ce_namespace c = b" "ce_reason_code c = r" "ce_created_by c = u"
      "ce_key_hash c = de_key_hash e" "ce_action c = de_action e" "ce_priority c = de_priority e"
      "ce_expires_at c = de_expires_at e" "ce_commit_seq c = de_commit_seq e"
      "ce_shard_id c = de_shard_id e"
    by (auto simp: compact_from_entry_def rbind_eq_Inr)
  note i1 = intern_ok [OF assms(1) i(1)]
  note i2 = intern_ok [OF conjunct1 [OF i1] i(2)]
  note i3 = intern_ok [OF conjunct1 [OF i2] i(3)]
  note i4 = intern_ok [OF conjunct1 [OF i3] i(4)]
  have g: "grows t1 t'" "grows t2 t'" "grows t3 t'" "grows t t'"
    using i1 i2 i3 i4 grows_trans by blast+
  from c have "to_deny_entry t' c = Inr e"
    using i1 i2 i3 i4 g by (simp add: to_deny_entry_Inr grows_get)
  with g i4 show ?thesis by simp
qed

lemma compact_from_entry_total:
  assumes "length (st_values t) + 4 \<le> 2 ^ 32"
  shows "\<exists>c t'. compact_from_entry e t = Inr (c, t') \<and> length (st_values t') \<le> length (st_values t) + 4"
proof -
  obtain a t1 where 1: "intern (de_tenant_id e) t = Inr (a, t1)" "length (st_values t1) \<le> Suc (length (st_values t))"
    using intern_total [of t] assms by fastforce
  obtain b t2 where 2: "intern (de_namespace e) t1 = Inr (b, t2)" "length (st_values t2) \<le> Suc (length (st_values t1))"
    using intern_total [of t1] assms 1 by fastforce
  obtain r t3 where 3: "intern (de_reason_code e) t2 = Inr (r, t3)" "length (st_values t3) \<le> Suc (length (st_values t2))"
    using intern_total [of t2] assms 1 2 by fastforce
  obtain u t4 where 4: "intern (de_created_by e) t3 = Inr (u, t4)" "length (st_values t4) \<le> Suc (length (st_values t3))"
    using intern_total [of t3] assms 1 2 3 by fastforce
  from 1 2 3 4 show ?thesis by (simp add: compact_from_entry_def)
qed

lemma compact_push_Inr:
  "compact_push e (cs, t) = Inr (cs', t') \<longleftrightarrow> (\<exists>c. compact_from_entry e t = Inr (c, t') \<and> cs' = cs @ [c])"
  by (auto simp: compact_push_def rbind_eq_Inr)

lemma compact_all_ok:
  "rfold compact_push ds (cs0, t0) = Inr (cs, t) \<Longrightarrow> st_ok t0 \<Longrightarrow>
   list_all2 (\<lambda>c e. to_deny_entry t0 c = Inr e) cs0 es0 \<Longrightarrow>
   st_ok t \<and> list_all2 (\<lambda>c e. to_deny_entry t c = Inr e) cs (es0 @ ds)"
proof (induction ds arbitrary: cs0 t0 es0)
  case Nil
  then show ?case by simp
next
  case (Cons e ds)
  then obtain c t1 where c: "compact_from_entry e t0 = Inr (c, t1)"
    and rest: "rfold compact_push ds (cs0 @ [c], t1) = Inr (cs, t)"
    by (auto simp: compact_push_Inr rbind_eq_Inr)
  note ok = compact_from_entry_ok [OF Cons.prems(2) c]
  then have "list_all2 (\<lambda>c e. to_deny_entry t1 c = Inr e) (cs0 @ [c]) (es0 @ [e])"
    using Cons.prems(3) to_deny_entry_grows
    by (auto intro!: list_all2_appendI elim!: list_all2_mono)
  from Cons.IH [OF rest _ this] ok show ?case by simp
qed

lemma compact_all_total:
  "length (st_values t0) + 4 * length ds \<le> 2 ^ 32 \<Longrightarrow>
   \<exists>cs t. rfold compact_push ds (cs0, t0) = Inr (cs, t)"
proof (induction ds arbitrary: cs0 t0)
  case Nil
  then show ?case by simp
next
  case (Cons e ds)
  obtain c t1 where c: "compact_from_entry e t0 = Inr (c, t1)" "length (st_values t1) \<le> length (st_values t0) + 4"
    using compact_from_entry_total [of t0 e] Cons.prems by fastforce
  with Cons.IH [of t1 "cs0 @ [c]"] Cons.prems show ?case by (simp add: compact_push_def)
qed

section \<open>The negative filter\<close>

definition nf_ok :: "negative_filter \<Rightarrow> bool" where
  "nf_ok f \<longleftrightarrow> nf_bit_len f = length (nf_bits f) * 64 \<and> 0 < nf_bit_len f"

definition nf_set :: "negative_filter \<Rightarrow> nat \<Rightarrow> bool" where
  "nf_set f i \<longleftrightarrow> i < nf_bit_len f \<and> bit (nf_bits f ! (i div 64)) (i mod 64)"

definition hash_index :: "nat \<Rightarrow> u64 \<Rightarrow> u64 \<Rightarrow> nat \<Rightarrow> nat" where
  "hash_index len first second index =
     unat (first + word_of_nat index * second + word_of_nat index * word_of_nat index) mod len"

lemma bit_index_ok:
  "nf_ok f \<Longrightarrow> bit_index f a b i = Inr (hash_index (nf_bit_len f) a b i) \<and>
     hash_index (nf_bit_len f) a b i < nf_bit_len f \<and>
     hash_index (nf_bit_len f) a b i div 64 < length (nf_bits f)"
proof -
  assume ok: "nf_ok f"
  then have pos: "0 < nf_bit_len f" unfolding nf_ok_def by (rule conjunct2)
  from pos have "hash_index (nf_bit_len f) a b i < nf_bit_len f"
    unfolding hash_index_def by (rule mod_less_divisor)
  then have "hash_index (nf_bit_len f) a b i < length (nf_bits f) * 64"
    using ok by (simp add: nf_ok_def)
  then have "hash_index (nf_bit_len f) a b i div 64 < length (nf_bits f)"
    by (rule less_mult_imp_div_less)
  moreover have "bit_index f a b i = Inr (hash_index (nf_bit_len f) a b i)"
    using pos by (simp add: bit_index_def Let_def hash_index_def)
  ultimately show ?thesis using \<open>hash_index (nf_bit_len f) a b i < nf_bit_len f\<close> by simp
qed

lemma and_bit_zero: "(w::u64) AND push_bit k 1 = 0 \<longleftrightarrow> \<not> bit w k"
  by (simp add: push_bit_eq_mult and_exp_eq_0_iff_not_bit)

lemma insert_parts_step_ok:
  assumes "nf_ok f"
  shows "\<exists>f'. insert_parts_step a b i f = Inr f' \<and> nf_ok f' \<and> nf_bit_len f' = nf_bit_len f \<and>
     (\<forall>j. nf_set f' j \<longleftrightarrow> nf_set f j \<or> j = hash_index (nf_bit_len f) a b i)"
proof -
  let ?h = "hash_index (nf_bit_len f) a b i" and ?n = "nf_bit_len f"
  note h = bit_index_ok [OF assms, of a b i]
  let ?f = "f\<lparr>nf_bits := (nf_bits f)[?h div 64 := (nf_bits f ! (?h div 64)) OR push_bit (?h mod 64) 1]\<rparr>"
  have step: "insert_parts_step a b i f = Inr ?f"
    using h by (simp add: insert_parts_step_def)
  have "nf_set ?f j \<longleftrightarrow> nf_set f j \<or> j = ?h" for j
  proof (cases "j < ?n")
    case True
    then have j: "j div 64 < length (nf_bits f)"
      using assms by (simp add: nf_ok_def less_mult_imp_div_less)
    have eq: "j = ?h \<longleftrightarrow> j div 64 = ?h div 64 \<and> j mod 64 = ?h mod 64"
      by (metis div_mult_mod_eq)
    have "bit (push_bit (?h mod 64) 1 :: u64) (j mod 64) \<longleftrightarrow> j mod 64 = ?h mod 64"
      by (auto simp: bit_simps bit_1_iff)
    then show ?thesis using True j
      by (cases "j div 64 = ?h div 64") (auto simp: nf_set_def nth_list_update bit_or_iff eq)
  next
    case False
    with h show ?thesis by (auto simp: nf_set_def)
  qed
  then show ?thesis using assms step by (auto simp: nf_ok_def)
qed

lemma insert_parts_loop:
  "nf_ok f \<Longrightarrow> \<exists>f'. rfold (insert_parts_step a b) is f = Inr f' \<and> nf_ok f' \<and> nf_bit_len f' = nf_bit_len f \<and>
     (\<forall>j. nf_set f' j \<longleftrightarrow> nf_set f j \<or> (\<exists>i \<in> set is. j = hash_index (nf_bit_len f) a b i))"
proof (induction "is" arbitrary: f)
  case Nil
  then show ?case by simp
next
  case (Cons i "is")
  from insert_parts_step_ok [OF Cons.prems, of a b i] obtain g where
    g: "insert_parts_step a b i f = Inr g" "nf_ok g" "nf_bit_len g = nf_bit_len f"
    "\<forall>j. nf_set g j \<longleftrightarrow> nf_set f j \<or> j = hash_index (nf_bit_len f) a b i" by blast
  from Cons.IH [OF g(2)] g show ?case by auto
qed

lemma all_bits_set_ok:
  assumes "nf_ok f"
  shows "all_bits_set f a b is = Inr (\<forall>i \<in> set is. nf_set f (hash_index (nf_bit_len f) a b i))"
proof (induction "is")
  case Nil
  then show ?case by simp
next
  case (Cons i "is")
  note h = bit_index_ok [OF assms, of a b i]
  have z: "w AND 2 ^ k = 0 \<longleftrightarrow> \<not> bit w k" for w :: u64 and k
    by (rule and_exp_eq_0_iff_not_bit)
  from Cons show ?case using h by (simp add: z nf_set_def)
qed

text \<open>What the filter holds for a key.\<close>

definition nf_has :: "negative_filter \<Rightarrow> string \<Rightarrow> string \<Rightarrow> u64 \<Rightarrow> bool" where
  "nf_has f t n h \<longleftrightarrow> (\<forall>i < NEGATIVE_FILTER_HASHES.
     nf_set f (hash_index (nf_bit_len f) (fst (hash_pair_parts t n h)) (snd (hash_pair_parts t n h)) i))"

lemma may_contain_ok: "nf_ok f \<Longrightarrow> may_contain_parts f t n h = Inr (nf_has f t n h)"
  by (simp add: may_contain_parts_def nf_has_def all_bits_set_ok case_prod_beta)
    (auto simp: nf_ok_def)

lemma insert_parts_ok:
  assumes "nf_ok f"
  shows "\<exists>f'. insert_parts t n h f = Inr f' \<and> nf_ok f' \<and> nf_has f' t n h \<and>
     (\<forall>t' n' h'. nf_has f t' n' h' \<longrightarrow> nf_has f' t' n' h')"
proof -
  from insert_parts_loop [OF assms, of "fst (hash_pair_parts t n h)" "snd (hash_pair_parts t n h)"
      "[0..<NEGATIVE_FILTER_HASHES]"]
  obtain f' where "insert_parts t n h f = Inr f'" "nf_ok f'" "nf_bit_len f' = nf_bit_len f"
    "\<forall>j. nf_set f' j \<longleftrightarrow> nf_set f j \<or> (\<exists>i \<in> set [0..<NEGATIVE_FILTER_HASHES].
        j = hash_index (nf_bit_len f) (fst (hash_pair_parts t n h)) (snd (hash_pair_parts t n h)) i)"
    by (auto simp: insert_parts_def case_prod_beta)
  then show ?thesis by (auto simp: nf_has_def)
qed

lemma filter_loop:
  "nf_ok f \<Longrightarrow> list_all2 (\<lambda>c e. to_deny_entry t c = Inr e) cs es \<Longrightarrow>
   \<exists>f'. rfold (\<lambda>c f. rbind (symbol_get t (ce_tenant_id c)) (\<lambda>tenant_id.
             rbind (symbol_get t (ce_namespace c)) (\<lambda>namespace.
               insert_parts tenant_id namespace (ce_key_hash c) f))) cs f = Inr f' \<and> nf_ok f' \<and>
     (\<forall>e \<in> set es. nf_has f' (de_tenant_id e) (de_namespace e) (de_key_hash e)) \<and>
     (\<forall>t n h. nf_has f t n h \<longrightarrow> nf_has f' t n h)"
proof (induction cs arbitrary: f es)
  case Nil
  then show ?case by simp
next
  case (Cons c cs)
  then obtain e es' where es: "es = e # es'" "to_deny_entry t c = Inr e"
    "list_all2 (\<lambda>c e. to_deny_entry t c = Inr e) cs es'"
    by (auto simp: list_all2_Cons1)
  from insert_parts_ok [OF Cons.prems(1), of "de_tenant_id e" "de_namespace e" "de_key_hash e"]
  obtain g where g: "insert_parts (de_tenant_id e) (de_namespace e) (de_key_hash e) f = Inr g" "nf_ok g"
    "nf_has g (de_tenant_id e) (de_namespace e) (de_key_hash e)"
    "\<forall>t n h. nf_has f t n h \<longrightarrow> nf_has g t n h" by blast
  from Cons.IH [OF g(2) es(3)] g es show ?case by (auto simp: to_deny_entry_Inr)
qed

lemma filter_from_compact_ok:
  assumes "list_all2 (\<lambda>c e. to_deny_entry t c = Inr e) cs es" and "cs \<noteq> []"
  shows "\<exists>f. filter_from_compact_entries cs t = Inr f \<and> nf_ok f \<and>
     (\<forall>e \<in> set es. nf_has f (de_tenant_id e) (de_namespace e) (de_key_hash e))"
proof -
  let ?w = "(max (min (length cs * NEGATIVE_FILTER_BITS_PER_ENTRY) (2 ^ 64 - 1)) 64 + 63) div 64"
  have "nf_ok \<lparr>nf_bits = replicate ?w 0, nf_bit_len = ?w * 64\<rparr>"
    by (auto simp: nf_ok_def max_def)
  from filter_loop [OF this assms(1)] assms(2) show ?thesis
    by (auto simp: filter_from_compact_entries_def Let_def)
qed

section \<open>The base\<close>

abbreviation decodes :: "symbol_table \<Rightarrow> compact_entry list \<Rightarrow> deny_entry list \<Rightarrow> bool" where
  "decodes t \<equiv> list_all2 (\<lambda>c e. to_deny_entry t c = Inr e)"

text \<open>A base represents the list \<open>es\<close> of entries with distinct keys.\<close>

definition base_ok :: "immutable_base \<Rightarrow> deny_entry list \<Rightarrow> bool" where
  "base_ok b es \<longleftrightarrow> st_ok (ib_symbols b) \<and> decodes (ib_symbols b) (ib_entries b) es \<and>
     sorted_wrt (<) (map compact_tuple (ib_entries b)) \<and> distinct (map acl_key_of es) \<and>
     (if es = [] then nf_bit_len (ib_filter b) = 0
      else nf_ok (ib_filter b) \<and>
        (\<forall>e \<in> set es. nf_has (ib_filter b) (de_tenant_id e) (de_namespace e) (de_key_hash e)))"

lemma list_all2_left: "list_all2 R xs ys \<Longrightarrow> x \<in> set xs \<Longrightarrow> \<exists>y \<in> set ys. R x y"
  by (induction rule: list_all2_induct) auto

lemma list_all2_right: "list_all2 R xs ys \<Longrightarrow> y \<in> set ys \<Longrightarrow> \<exists>x \<in> set xs. R x y"
  by (induction rule: list_all2_induct) auto

lemma distinct_via:
  assumes "list_all2 R xs ys" and "distinct (map g ys)"
    and "\<And>x y x' y'. R x y \<Longrightarrow> R x' y' \<Longrightarrow> f x = f x' \<Longrightarrow> g y = g y'"
  shows "distinct (map f xs)"
  using assms(1,2)
proof (induction rule: list_all2_induct)
  case Nil
  then show ?case by simp
next
  case (Cons x xs y ys)
  have "f x \<notin> f ` set xs"
  proof
    assume "f x \<in> f ` set xs"
    then obtain x' where x': "x' \<in> set xs" "f x = f x'" by auto
    from list_all2_left [OF Cons.hyps(2) x'(1)] obtain y' where "y' \<in> set ys" "R x' y'" by blast
    then have "g y = g y'" using assms(3) [OF Cons.hyps(1) _ x'(2)] by blast
    with \<open>y' \<in> set ys\<close> Cons.prems show False by auto
  qed
  with Cons show ?case by simp
qed

lemma decoded_ids:
  assumes "st_ok t" and "to_deny_entry t c = Inr e"
  shows "symbol_id t (de_tenant_id e) = Some (ce_tenant_id c)"
    and "symbol_id t (de_namespace e) = Some (ce_namespace c)"
    and "ce_key_hash c = de_key_hash e"
  using assms by (simp_all add: to_deny_entry_Inr symbol_id_get)

lemma decodes_tuple:
  assumes "st_ok t" and c: "to_deny_entry t c = Inr e" and c': "to_deny_entry t c' = Inr e'"
  shows "compact_tuple c = compact_tuple c' \<longleftrightarrow> acl_key_of e = acl_key_of e'"
proof
  assume "acl_key_of e = acl_key_of e'"
  then have "de_tenant_id e = de_tenant_id e'" "de_namespace e = de_namespace e'" "de_key_hash e = de_key_hash e'"
    by (simp_all add: acl_key_of_def)
  with decoded_ids [OF assms(1) c] decoded_ids [OF assms(1) c'] show "compact_tuple c = compact_tuple c'"
    by (simp add: compact_tuple_def)
next
  assume "compact_tuple c = compact_tuple c'"
  then have "ce_tenant_id c = ce_tenant_id c'" "ce_namespace c = ce_namespace c'" "ce_key_hash c = ce_key_hash c'"
    by (simp_all add: compact_tuple_def)
  with c c' show "acl_key_of e = acl_key_of e'"
    by (simp add: to_deny_entry_Inr acl_key_of_def)
qed

lemma acl_key_eta [simp]:
  "\<lparr>ak_tenant_id = ak_tenant_id k, ak_namespace = ak_namespace k, ak_key_hash = ak_key_hash k\<rparr> = (k :: acl_key)"
  by simp

lemma sorted_strict: "sorted xs \<Longrightarrow> distinct xs \<Longrightarrow> sorted_wrt (<) xs"
  by (simp add: strict_sorted_iff)

lemma sorted_compacts: "sorted (map compact_tuple (sort_by compare_compact_entries_by_key cs))"
  using compact_by_key.sorted_sort_by [of cs]
  by (simp add: compare_compact_ord ord_cmp_simps sorted_wrt_map not_less)

lemma sorted_entries: "sorted (map entry_tuple (sort_by compare_entries_by_key es))"
  using entries_by_key.sorted_sort_by [of es]
  by (simp add: compare_entries_ord ord_cmp_simps sorted_wrt_map not_less)

lemma strict_distinct_keys: "sorted_wrt (<) (map entry_tuple ds) \<Longrightarrow> distinct (map acl_key_of ds)"
proof -
  assume "sorted_wrt (<) (map entry_tuple ds)"
  then have "distinct (map entry_tuple ds)" by (simp add: strict_sorted_iff)
  then show ?thesis by (auto simp: distinct_map inj_on_def entry_tuple_eq)
qed

lemma base_from_entries_ok:
  assumes "base_from_entries es = Inr b"
  shows "\<exists>ms. base_ok b ms \<and> entry_map ms = newest es \<and> set ms \<subseteq> set es"
proof -
  let ?ds = "dedup_entries (sort_by compare_entries_by_key es)"
  from assms obtain cs t f where c: "rfold compact_push ?ds ([], symbols_new) = Inr (cs, t)"
    and f: "filter_from_compact_entries (sort_by compare_compact_entries_by_key cs) t = Inr f"
    and b: "b = \<lparr>ib_entries = sort_by compare_compact_entries_by_key cs, ib_symbols = t, ib_filter = f\<rparr>"
    by (auto simp: base_from_entries_def Let_def rbind_eq_Inr)
  let ?cs = "sort_by compare_compact_entries_by_key cs"
  note D = dedup_sorted [OF sorted_entries, of es]
  from compact_all_ok [OF c st_ok_new, of "[]"] have t: "st_ok t" and dec: "decodes t cs ?ds" by auto
  obtain ms where ms: "decodes t ?cs ms" "mset ms = mset ?ds"
    using list_all2_reorder_left_invariance [OF dec, of ?cs] by auto
  have dk: "distinct (map acl_key_of ms)"
  proof -
    have "mset (map acl_key_of ms) = mset (map acl_key_of ?ds)" using ms(2) by simp
    then have "distinct (map acl_key_of ms) = distinct (map acl_key_of ?ds)"
      by (rule mset_eq_imp_distinct_iff)
    with strict_distinct_keys D show ?thesis by blast
  qed
  have set: "set ms = set ?ds" using ms(2) by (rule mset_eq_setD)
  have "distinct (map compact_tuple ?cs)"
    by (rule distinct_via [OF ms(1) dk]) (simp add: decodes_tuple [OF t])
  with sorted_compacts have strict: "sorted_wrt (<) (map compact_tuple ?cs)"
    by (rule sorted_strict)
  have "entry_map ms k = newest es k" for k
  proof -
    have dd: "distinct (map acl_key_of ?ds)" using strict_distinct_keys D by blast
    have "entry_map ms k = Some e \<longleftrightarrow> entry_map ?ds k = Some e" for e
      by (simp add: entry_map_Some [OF dk] entry_map_Some [OF dd] set)
    then have "entry_map ms k = entry_map ?ds k" by (metis not_None_eq)
    also have "\<dots> = newest es k" using D by (simp add: newest_sorted)
    finally show ?thesis .
  qed
  moreover have "base_ok b ms"
  proof (cases "ms = []")
    case True
    then have "?ds = []" using set by simp
    then have "cs = []" using dec by simp
    with f True t dk strict show ?thesis
      by (auto simp: base_ok_def b filter_from_compact_entries_def)
  next
    case False
    then have "?cs \<noteq> []" using ms(1) by auto
    from filter_from_compact_ok [OF ms(1) this] f False t dk strict ms(1) show ?thesis
      by (simp add: base_ok_def b)
  qed
  ultimately show ?thesis using set D by (auto simp: fun_eq_iff)
qed

lemma length_dedup: "length (dedup_entries es) \<le> length es"
proof (induction es rule: rev_induct)
  case Nil
  then show ?case by (simp add: dedup_entries_def)
next
  case (snoc e es)
  then show ?case by (auto simp: dedup_entries_snoc dedup_push_def)
qed

text \<open>Only a symbol table of more than \<open>2 ^ 32\<close> strings can make the construction panic.\<close>

lemma base_from_entries_total:
  assumes "4 * length es \<le> 2 ^ 32"
  shows "\<exists>b. base_from_entries es = Inr b"
proof -
  let ?ds = "dedup_entries (sort_by compare_entries_by_key es)"
  have "length ?ds \<le> length es" using length_dedup [of "sort_by compare_entries_by_key es"] by simp
  then obtain cs t where c: "rfold compact_push ?ds ([], symbols_new) = Inr (cs, t)"
    using compact_all_total [of symbols_new ?ds "[]"] assms by (auto simp: symbols_new_def)
  let ?cs = "sort_by compare_compact_entries_by_key cs"
  from compact_all_ok [OF c st_ok_new, of "[]"] have dec: "decodes t cs ?ds" by auto
  obtain ms where ms: "decodes t ?cs ms"
    using list_all2_reorder_left_invariance [OF dec, of ?cs] by auto
  have "\<exists>f. filter_from_compact_entries ?cs t = Inr f"
    using filter_from_compact_ok [OF ms] by (cases "?cs = []") (auto simp: filter_from_compact_entries_def)
  with c show ?thesis by (auto simp: base_from_entries_def Let_def)
qed

section \<open>Lookups in the base\<close>

lemma strict_partitioned:
  assumes "sorted_wrt (<) (map compact_tuple cs)"
  shows "partitioned (\<lambda>c. compare_compact_entry_to_key c t n h) cs"
proof -
  have "compact_tuple (cs ! i) < compact_tuple (cs ! j)" if "i < j" "j < length cs" for i j
    using sorted_wrt_nth_less [OF assms, of i j] that by simp
  then show ?thesis
    unfolding partitioned_def compare_compact_key_ord
    by (fastforce simp: ord_cmp_def split: if_splits)
qed

lemma lookup_exact_ok:
  assumes "base_ok b es"
  shows "(case lookup_exact_parts b t n h of
      None \<Rightarrow> entry_map es \<lparr>ak_tenant_id = t, ak_namespace = n, ak_key_hash = h\<rparr> = None
    | Some c \<Rightarrow> \<exists>e. to_deny_entry (ib_symbols b) c = Inr e \<and>
        entry_map es \<lparr>ak_tenant_id = t, ak_namespace = n, ak_key_hash = h\<rparr> = Some e)"
proof -
  let ?k = "\<lparr>ak_tenant_id = t, ak_namespace = n, ak_key_hash = h\<rparr>" and ?t = "ib_symbols b"
  have ok: "st_ok ?t" "decodes ?t (ib_entries b) es" "distinct (map acl_key_of es)"
    and strict: "sorted_wrt (<) (map compact_tuple (ib_entries b))"
    using assms by (simp_all add: base_ok_def)
  have key: "acl_key_of e = ?k \<longleftrightarrow> de_tenant_id e = t \<and> de_namespace e = n \<and> de_key_hash e = h" for e
    by (auto simp: acl_key_of_def)
  note ids = decoded_ids [OF ok(1)]
  have source: "\<exists>c \<in> set (ib_entries b). to_deny_entry ?t c = Inr e" if "e \<in> set es" for e
    by (rule list_all2_right [OF ok(2) that])
  show ?thesis
  proof (cases "\<exists>tid nid. symbol_id ?t t = Some tid \<and> symbol_id ?t n = Some nid")
    case False
    have "acl_key_of e \<noteq> ?k" if "e \<in> set es" for e
    proof -
      from source [OF that] obtain c where "to_deny_entry ?t c = Inr e" by blast
      from ids(1,2) [OF this] False show ?thesis by (auto simp: key)
    qed
    then have "entry_map es ?k = None" by (simp add: entry_map_None)
    moreover have "lookup_exact_parts b t n h = None"
      using False by (auto simp: lookup_exact_parts_def split: option.splits)
    ultimately show ?thesis by simp
  next
    case True
    then obtain tid nid where id: "symbol_id ?t t = Some tid" "symbol_id ?t n = Some nid" by blast
    note search = binary_search_by_spec [OF strict_partitioned [OF strict], of tid nid h]
    show ?thesis
    proof (cases "binary_search_by (\<lambda>c. compare_compact_entry_to_key c tid nid h) (ib_entries b)")
      case None
      have "\<forall>e \<in> set es. acl_key_of e \<noteq> ?k"
      proof
        fix e assume "e \<in> set es"
        then obtain c where c: "c \<in> set (ib_entries b)" "to_deny_entry ?t c = Inr e" using source by blast
        have "compact_tuple c \<noteq> (tid, nid, h)"
          using search None c(1) by (auto simp: compare_compact_key_ord ord_cmp_simps)
        with ids [OF c(2)] id show "acl_key_of e \<noteq> ?k" by (auto simp: key compact_tuple_def)
      qed
      then have "entry_map es ?k = None" by (simp add: entry_map_None)
      with None id show ?thesis by (simp add: lookup_exact_parts_def)
    next
      case (Some i)
      let ?c = "ib_entries b ! i"
      from search Some have i: "i < length (ib_entries b)" "compact_tuple ?c = (tid, nid, h)"
        by (simp_all add: compare_compact_key_ord ord_cmp_simps)
      then have e: "to_deny_entry ?t ?c = Inr (es ! i)" "i < length es"
        using ok(2) by (simp_all add: list_all2_conv_all_nth)
      have "de_tenant_id (es ! i) = t \<and> de_namespace (es ! i) = n"
        using e(1) i(2) id unfolding symbol_id_get [OF ok(1)]
        by (simp add: compact_tuple_def to_deny_entry_Inr)
      moreover have "de_key_hash (es ! i) = h" using ids(3) [OF e(1)] i(2) by (simp add: compact_tuple_def)
      ultimately have "entry_map es ?k = Some (es ! i)"
        using e(2) by (simp add: entry_map_Some [OF ok(3)] key)
      with e(1) Some id show ?thesis by (simp add: lookup_exact_parts_def)
    qed
  qed
qed

lemma base_contains_ok: "base_ok b es \<Longrightarrow> base_contains_key b k \<longleftrightarrow> entry_map es k \<noteq> None"
  using lookup_exact_ok [of b es "ak_tenant_id k" "ak_namespace k" "ak_key_hash k"]
  by (auto simp: base_contains_key_def split: option.splits)

text \<open>The filter never hides an entry.\<close>

lemma lookup_parts_ok:
  assumes "base_ok b es"
  shows "lookup_parts b t n h = Inr (lookup_exact_parts b t n h)"
proof (cases "es = []")
  case True
  then have "lookup_exact_parts b t n h = None"
    using lookup_exact_ok [OF assms, of t n h] by (simp add: entry_map_def split: option.splits)
  with True assms show ?thesis
    by (simp add: lookup_parts_def may_contain_parts_def base_ok_def)
next
  case False
  then have f: "nf_ok (ib_filter b)"
    "\<forall>e \<in> set es. nf_has (ib_filter b) (de_tenant_id e) (de_namespace e) (de_key_hash e)"
    using assms by (simp_all add: base_ok_def)
  have "nf_has (ib_filter b) t n h" if "lookup_exact_parts b t n h = Some c" for c
  proof -
    have d: "distinct (map acl_key_of es)" using assms by (simp add: base_ok_def)
    from lookup_exact_ok [OF assms, of t n h] that obtain e where
      "entry_map es \<lparr>ak_tenant_id = t, ak_namespace = n, ak_key_hash = h\<rparr> = Some e" by auto
    then have "e \<in> set es" "de_tenant_id e = t" "de_namespace e = n" "de_key_hash e = h"
      by (auto simp: entry_map_Some [OF d] acl_key_of_def)
    with f(2) show ?thesis by blast
  qed
  then show ?thesis
    using may_contain_ok [OF f(1), of t n h]
    by (cases "lookup_exact_parts b t n h") (auto simp: lookup_parts_def)
qed

lemma decision_for_parts_ok:
  assumes "base_ok b es"
  shows "decision_for_parts b t n h now = Inr (decision_for_entry
     (entry_map es \<lparr>ak_tenant_id = t, ak_namespace = n, ak_key_hash = h\<rparr>) now)"
proof (cases "lookup_exact_parts b t n h")
  case None
  with lookup_exact_ok [OF assms, of t n h] lookup_parts_ok [OF assms] show ?thesis
    by (simp add: decision_for_parts_def decision_for_entry_def)
next
  case (Some c)
  with lookup_exact_ok [OF assms, of t n h] obtain e where e: "to_deny_entry (ib_symbols b) c = Inr e"
    "entry_map es \<lparr>ak_tenant_id = t, ak_namespace = n, ak_key_hash = h\<rparr> = Some e" by auto
  then have "compact_is_expired c now = entry_is_expired e now"
    by (simp add: compact_is_expired_def entry_is_expired_def to_deny_entry_Inr)
  with Some e lookup_parts_ok [OF assms] show ?thesis
    by (cases "de_action e")
      (auto simp: decision_for_parts_def decision_for_entry_def to_deny_entry_Inr)
qed

lemma materialized_ok: "base_ok b es \<Longrightarrow> base_materialized_entries b = Inr es"
  by (simp add: base_materialized_entries_def rmap_eq_Inr base_ok_def)

lemma base_len_ok: "base_ok b es \<Longrightarrow> base_len b = length es"
  by (auto simp: base_len_def base_ok_def dest: list_all2_lengthD)

end
