(* ===== verification/Compiled_Rules.thy ===== *)
theory Compiled_Rules
  imports Replica
begin

text \<open>
  The compiled rules of an edge's active state (\<open>CompiledRules\<close> of
  \<open>globacl-core/src/lib/active_state.rs\<close>): a vector of 33 maps from tenant and network to the
  IPv4 rules of a prefix length, and a map from tenant and suffix to the domain rules.  A prefix
  length above 32 indexes outside the vector and panics.

  Results: the rules that are considered for a value are, up to order, exactly the compiled rules
  of the tenant that match it and whose key is not removed.
\<close>

record compiled_rules =
  cr_ipv4_by_prefix :: "(string \<times> u32, rule_entry list) hashmap list"
  cr_domain_suffixes :: "(string \<times> string, rule_entry list) hashmap"
  cr_rules_len :: nat

text \<open>\<open>map.entry(key).or_default().push(rule)\<close>.\<close>

definition bucket_push :: "'k \<Rightarrow> rule_entry \<Rightarrow> ('k, rule_entry list) hashmap \<Rightarrow> ('k, rule_entry list) hashmap"
  where "bucket_push k r m = hm_insert k ((case hm_get m k of None \<Rightarrow> [] | Some rs \<Rightarrow> rs) @ [r]) m"

definition compile_rule :: "rule_entry \<Rightarrow> compiled_rules \<Rightarrow> compiled_rules res" where
  "compile_rule r c =
     (if re_action r = Delete then Inr c
      else
        let c = c\<lparr>cr_rules_len := cr_rules_len c + 1\<rparr> in
        case re_kind r of
          Ipv4Cidr \<Rightarrow>
            let p = unat (re_ipv4_prefix_len r) in
            rbind (vec_index (cr_ipv4_by_prefix c) p) (\<lambda>m.
              Inr (c\<lparr>cr_ipv4_by_prefix := (cr_ipv4_by_prefix c)
                      [p := bucket_push (re_tenant_id r, re_ipv4_network r) r m]\<rparr>))
        | DomainSuffix \<Rightarrow>
            Inr (c\<lparr>cr_domain_suffixes :=
              bucket_push (re_tenant_id r, re_domain_suffix r) r (cr_domain_suffixes c)\<rparr>))"

definition sort_buckets :: "('k, rule_entry list) hashmap \<Rightarrow> ('k, rule_entry list) hashmap" where
  "sort_buckets m = map (\<lambda>(k, rs). (k, sort_by compare_rules_for_match rs)) m"

definition compiled_from_rules :: "rule_entry list \<Rightarrow> compiled_rules res" where
  "compiled_from_rules rules =
     rbind (rfold compile_rule rules
              \<lparr>cr_ipv4_by_prefix = replicate 33 hm_new, cr_domain_suffixes = hm_new, cr_rules_len = 0\<rparr>)
       (\<lambda>c. Inr (c\<lparr>cr_ipv4_by_prefix := map sort_buckets (cr_ipv4_by_prefix c),
                  cr_domain_suffixes := sort_buckets (cr_domain_suffixes c)\<rparr>))"

text \<open>The inner loop over one bucket.\<close>

definition consider_bucket ::
  "(rule_key, u64) hashmap \<Rightarrow> u64 \<Rightarrow> rule_entry list option \<Rightarrow> rule_match \<Rightarrow> rule_match" where
  "consider_bucket removed now bucket best = (case bucket of
     None \<Rightarrow> best
   | Some rules \<Rightarrow>
       fold (\<lambda>r best. if \<not> hm_contains removed (rule_key_of r) then rule_consider now r best else best)
         rules best)"

definition consider_matches ::
  "compiled_rules \<Rightarrow> string \<Rightarrow> string \<Rightarrow> string \<Rightarrow> u64 \<Rightarrow> (rule_key, u64) hashmap \<Rightarrow> rule_match
   \<Rightarrow> rule_match res" where
  "consider_matches c tenant_id namespace raw_value now removed best =
     (case rule_kind_for_namespace namespace of
        Some Ipv4Cidr \<Rightarrow>
          (case parse_ipv4_addr raw_value of
             Inl _ \<Rightarrow> Inr best
           | Inr ip \<Rightarrow>
               rfold (\<lambda>prefix_len best.
                   let network = mask_ipv4 ip (word_of_nat prefix_len) in
                   rbind (vec_index (cr_ipv4_by_prefix c) prefix_len) (\<lambda>m.
                     Inr (consider_bucket removed now (hm_get m (tenant_id, network)) best)))
                 (rev [0..<33]) best)
      | Some DomainSuffix \<Rightarrow>
          (case canonicalize_domain raw_value of
             Inl _ \<Rightarrow> Inr best
           | Inr domain \<Rightarrow>
               Inr (fold (\<lambda>suffix.
                     consider_bucket removed now (hm_get (cr_domain_suffixes c) (tenant_id, suffix)))
                   (domain_suffix_candidates domain) best))
      | None \<Rightarrow> Inr best)"

definition compiled_all_rules :: "compiled_rules \<Rightarrow> rule_entry list" where
  "compiled_all_rules c =
     concat (map (\<lambda>m. concat (hm_values m)) (cr_ipv4_by_prefix c)) @
     concat (hm_values (cr_domain_suffixes c))"

section \<open>Buckets\<close>

definition bucket :: "('k, rule_entry list) hashmap \<Rightarrow> 'k \<Rightarrow> rule_entry list" where
  "bucket m k = (case hm_get m k of None \<Rightarrow> [] | Some rs \<Rightarrow> rs)"

lemma consider_bucket_eq:
  "consider_bucket removed now (hm_get m k) best =
     fold (rule_consider now) (filter (\<lambda>r. \<not> hm_contains removed (rule_key_of r)) (bucket m k)) best"
proof -
  have "fold (\<lambda>r best. if P r then f r best else best) rs best = fold f (filter P rs) best"
    for P and f :: "rule_entry \<Rightarrow> rule_match \<Rightarrow> rule_match" and rs
    by (induction rs arbitrary: best) auto
  then show ?thesis by (simp add: consider_bucket_def bucket_def split: option.splits)
qed

lemma consider_bucket_fun:
  "consider_bucket removed now (hm_get m k) =
     fold (rule_consider now) (filter (\<lambda>r. \<not> hm_contains removed (rule_key_of r)) (bucket m k))"
  by (rule ext) (rule consider_bucket_eq)

lemma bucket_push_get: "bucket (bucket_push k r m) k' = (if k' = k then bucket m k @ [r] else bucket m k')"
  by (simp add: bucket_def bucket_push_def)

lemma bucket_push_ok: "hm_ok m \<Longrightarrow> hm_ok (bucket_push k r m)"
  by (simp add: bucket_push_def)

lemma sort_buckets_get: "hm_get (sort_buckets m) k = map_option (sort_by compare_rules_for_match) (hm_get m k)"
  by (induction m) (auto simp: sort_buckets_def hm_get_def)

lemma sort_buckets_bucket: "set (bucket (sort_buckets m) k) = set (bucket m k)"
  by (simp add: bucket_def sort_buckets_get split: option.splits)

lemma sort_buckets_ok: "hm_ok m \<Longrightarrow> hm_ok (sort_buckets m)"
  by (simp add: hm_ok_def sort_buckets_def o_def case_prod_beta)

lemma bucket_new [simp]: "bucket hm_new k = []"
  by (simp add: bucket_def)

lemma values_buckets: "hm_ok m \<Longrightarrow> set (concat (hm_values m)) = (\<Union>k. set (bucket m k))"
proof -
  assume ok: "hm_ok m"
  have "(\<Union>k. set (bucket m k)) = (\<Union>v \<in> {v. \<exists>k. hm_get m k = Some v}. set v)"
    by (auto simp: bucket_def split: option.splits) (metis option.simps(5))+
  with ok show ?thesis by (simp add: hm_values_set)
qed

section \<open>The invariant\<close>

text \<open>The compiled form holds the rules \<open>R\<close>, each in its bucket.\<close>

definition compiled_ok :: "compiled_rules \<Rightarrow> rule_entry set \<Rightarrow> bool" where
  "compiled_ok c R \<longleftrightarrow> length (cr_ipv4_by_prefix c) = 33 \<and>
     (\<forall>m \<in> set (cr_ipv4_by_prefix c). hm_ok m) \<and> hm_ok (cr_domain_suffixes c) \<and>
     (\<forall>p < 33. \<forall>t n. set (bucket (cr_ipv4_by_prefix c ! p) (t, n)) =
        {r \<in> R. re_kind r = Ipv4Cidr \<and> unat (re_ipv4_prefix_len r) = p \<and> re_tenant_id r = t \<and>
           re_ipv4_network r = n}) \<and>
     (\<forall>t d. set (bucket (cr_domain_suffixes c) (t, d)) =
        {r \<in> R. re_kind r = DomainSuffix \<and> re_tenant_id r = t \<and> re_domain_suffix r = d}) \<and>
     (\<forall>r \<in> R. re_kind r = Ipv4Cidr \<longrightarrow> unat (re_ipv4_prefix_len r) < 33)"

definition prefix_ok :: "rule_entry \<Rightarrow> bool" where
  "prefix_ok r \<longleftrightarrow> re_kind r = Ipv4Cidr \<longrightarrow> re_action r \<noteq> Delete \<longrightarrow> re_ipv4_prefix_len r \<le> 32"

lemma compiled_ok_empty:
  "compiled_ok \<lparr>cr_ipv4_by_prefix = replicate 33 hm_new, cr_domain_suffixes = hm_new, cr_rules_len = n\<rparr> {}"
  by (auto simp: compiled_ok_def)

lemma u8_le_32: "(p::u8) \<le> 32 \<longleftrightarrow> unat p < 33"
  by (auto simp: word_le_nat_alt)

lemma compile_rule_ok:
  assumes "compiled_ok c R" and "compile_rule r c = Inr c'"
  shows "compiled_ok c' (if re_action r = Delete then R else insert r R)"
proof (cases "re_action r = Delete")
  case True
  with assms show ?thesis by (simp add: compile_rule_def)
next
  case False
  show ?thesis
  proof (cases "re_kind r")
    case Ipv4Cidr
    let ?p = "unat (re_ipv4_prefix_len r)" and ?V = "cr_ipv4_by_prefix c"
    from assms False Ipv4Cidr have p: "?p < 33"
      and c': "c' = c\<lparr>cr_rules_len := cr_rules_len c + 1,
        cr_ipv4_by_prefix := ?V[?p := bucket_push (re_tenant_id r, re_ipv4_network r) r (?V ! ?p)]\<rparr>"
      by (auto simp: compile_rule_def Let_def rbind_eq_Inr vec_index_eq_Inr compiled_ok_def)
    have V: "set (bucket (?V ! q) (t, n)) =
        {x \<in> R. re_kind x = Ipv4Cidr \<and> unat (re_ipv4_prefix_len x) = q \<and> re_tenant_id x = t \<and>
           re_ipv4_network x = n}" and len: "length ?V = 33" if "q < 33" for q t n
      using assms(1) that by (simp_all add: compiled_ok_def)
    have "set (bucket (cr_ipv4_by_prefix c' ! q) (t, n)) =
        {x \<in> insert r R. re_kind x = Ipv4Cidr \<and> unat (re_ipv4_prefix_len x) = q \<and> re_tenant_id x = t \<and>
           re_ipv4_network x = n}" if "q < 33" for q t n
      using V [OF that, of t n] len [OF that] p Ipv4Cidr
      by (cases "q = ?p"; cases "(t, n) = (re_tenant_id r, re_ipv4_network r)") (auto simp: c' bucket_push_get)
    moreover have "\<forall>m \<in> set (cr_ipv4_by_prefix c'). hm_ok m"
      using assms(1) p
      by (auto simp: c' compiled_ok_def dest!: set_update_subset_insert [THEN subsetD] intro!: bucket_push_ok)
    moreover have "{x \<in> insert r R. re_kind x = DomainSuffix \<and> P x} = {x \<in> R. re_kind x = DomainSuffix \<and> P x}" for P
      using Ipv4Cidr by auto
    moreover have "cr_domain_suffixes c' = cr_domain_suffixes c" "length (cr_ipv4_by_prefix c') = length ?V"
      by (simp_all add: c')
    ultimately show ?thesis
      using assms(1) p False by (simp add: compiled_ok_def)
  next
    case DomainSuffix
    with assms False have c': "c' = c\<lparr>cr_rules_len := cr_rules_len c + 1,
        cr_domain_suffixes := bucket_push (re_tenant_id r, re_domain_suffix r) r (cr_domain_suffixes c)\<rparr>"
      by (simp add: compile_rule_def Let_def)
    have "set (bucket (cr_domain_suffixes c') (t, d)) =
        {x \<in> insert r R. re_kind x = DomainSuffix \<and> re_tenant_id x = t \<and> re_domain_suffix x = d}" for t d
      using assms(1) DomainSuffix by (auto simp: c' compiled_ok_def bucket_push_get)
    moreover have "{x \<in> insert r R. re_kind x = Ipv4Cidr \<and> P x} = {x \<in> R. re_kind x = Ipv4Cidr \<and> P x}" for P
      using DomainSuffix by auto
    ultimately show ?thesis
      using assms(1) False DomainSuffix by (simp add: compiled_ok_def c' bucket_push_ok)
  qed
qed

lemma compile_all_ok:
  "rfold compile_rule rs c = Inr c' \<Longrightarrow> compiled_ok c R \<Longrightarrow>
   compiled_ok c' (R \<union> {r \<in> set rs. re_action r \<noteq> Delete})"
proof (induction rs arbitrary: c R)
  case Nil
  then show ?case by simp
next
  case (Cons r rs)
  then obtain d where d: "compile_rule r c = Inr d" and ds: "rfold compile_rule rs d = Inr c'"
    by (auto simp: rbind_eq_Inr)
  have "R \<union> {x \<in> set (r # rs). re_action x \<noteq> Delete} =
      (if re_action r = Delete then R else insert r R) \<union> {x \<in> set rs. re_action x \<noteq> Delete}"
    by auto
  with Cons.IH [OF ds compile_rule_ok [OF Cons.prems(2) d]] show ?case by (simp only:)
qed

lemma compile_rule_total:
  "length (cr_ipv4_by_prefix c) = 33 \<Longrightarrow> prefix_ok r \<Longrightarrow>
   \<exists>c'. compile_rule r c = Inr c' \<and> length (cr_ipv4_by_prefix c') = 33"
  by (cases "re_kind r") (auto simp: compile_rule_def Let_def prefix_ok_def u8_le_32 split: if_splits)

lemma compile_all_total:
  "length (cr_ipv4_by_prefix c) = 33 \<Longrightarrow> \<forall>r \<in> set rs. prefix_ok r \<Longrightarrow>
   \<exists>c'. rfold compile_rule rs c = Inr c'"
proof (induction rs arbitrary: c)
  case Nil
  then show ?case by simp
next
  case (Cons r rs)
  from compile_rule_total [OF Cons.prems(1), of r] Cons.prems(2) obtain d where
    d: "compile_rule r c = Inr d" "length (cr_ipv4_by_prefix d) = 33" by auto
  from Cons.IH [OF d(2)] Cons.prems(2) d(1) show ?case by auto
qed

lemma compiled_sorted_ok:
  assumes "compiled_ok c R"
  shows "compiled_ok (c\<lparr>cr_ipv4_by_prefix := map sort_buckets (cr_ipv4_by_prefix c),
           cr_domain_suffixes := sort_buckets (cr_domain_suffixes c)\<rparr>) R"
  using assms by (simp add: compiled_ok_def sort_buckets_bucket sort_buckets_ok)

lemma compiled_from_rules_ok:
  assumes "compiled_from_rules rs = Inr c"
  shows "compiled_ok c {r \<in> set rs. re_action r \<noteq> Delete}"
proof -
  from assms obtain d where d: "rfold compile_rule rs \<lparr>cr_ipv4_by_prefix = replicate 33 hm_new,
      cr_domain_suffixes = hm_new, cr_rules_len = 0\<rparr> = Inr d"
    and c: "c = d\<lparr>cr_ipv4_by_prefix := map sort_buckets (cr_ipv4_by_prefix d),
              cr_domain_suffixes := sort_buckets (cr_domain_suffixes d)\<rparr>"
    by (auto simp: compiled_from_rules_def rbind_eq_Inr)
  from compiled_sorted_ok [OF compile_all_ok [OF d compiled_ok_empty]] show ?thesis
    by (simp add: c)
qed

lemma compiled_from_rules_total:
  "\<forall>r \<in> set rs. prefix_ok r \<Longrightarrow> \<exists>c. compiled_from_rules rs = Inr c"
  using compile_all_total [of "\<lparr>cr_ipv4_by_prefix = replicate 33 hm_new,
      cr_domain_suffixes = hm_new, cr_rules_len = 0\<rparr>" rs]
  by (auto simp: compiled_from_rules_def)

lemma all_rules_ok: "compiled_ok c R \<Longrightarrow> set (compiled_all_rules c) = R"
proof -
  assume ok: "compiled_ok c R"
  have "set (concat (hm_values (cr_domain_suffixes c))) = {r \<in> R. re_kind r = DomainSuffix}"
    using ok by (subst values_buckets) (auto simp: compiled_ok_def)
  moreover have "(\<Union>m \<in> set (cr_ipv4_by_prefix c). set (concat (hm_values m))) = {r \<in> R. re_kind r = Ipv4Cidr}"
  proof -
    have "set (cr_ipv4_by_prefix c) = (\<lambda>p. cr_ipv4_by_prefix c ! p) ` {..<33}"
      using ok by (auto simp: compiled_ok_def set_conv_nth)
    moreover have "set (concat (hm_values (cr_ipv4_by_prefix c ! p))) =
        {r \<in> R. re_kind r = Ipv4Cidr \<and> unat (re_ipv4_prefix_len r) = p}" if "p < 33" for p
      using ok that by (subst values_buckets) (auto simp: compiled_ok_def)
    ultimately show ?thesis using ok by (auto simp: compiled_ok_def)
  qed
  moreover have "R = {r \<in> R. re_kind r = Ipv4Cidr} \<union> {r \<in> R. re_kind r = DomainSuffix}"
    using rule_kind.exhaust by blast
  ultimately show ?thesis by (simp add: compiled_all_rules_def)
qed

section \<open>The rules considered for a value\<close>

text \<open>The lists of rules the loops go through.\<close>

definition candidate_rules :: "compiled_rules \<Rightarrow> string \<Rightarrow> string \<Rightarrow> string \<Rightarrow> rule_entry list" where
  "candidate_rules c tenant_id namespace raw_value =
     (case rule_kind_for_namespace namespace of
        Some Ipv4Cidr \<Rightarrow> (case parse_ipv4_addr raw_value of
            Inl _ \<Rightarrow> []
          | Inr ip \<Rightarrow> concat (map (\<lambda>p. bucket (cr_ipv4_by_prefix c ! p)
              (tenant_id, mask_ipv4 ip (word_of_nat p))) (rev [0..<33])))
      | Some DomainSuffix \<Rightarrow> (case canonicalize_domain raw_value of
            Inl _ \<Rightarrow> []
          | Inr d \<Rightarrow> concat (map (\<lambda>s. bucket (cr_domain_suffixes c) (tenant_id, s))
              (domain_suffix_candidates d)))
      | None \<Rightarrow> [])"

lemma fold_concat: "fold (\<lambda>x. fold f (g x)) xs s = fold f (concat (map g xs)) s"
  by (induction xs arbitrary: s) auto

lemma rfold_buckets:
  "\<forall>p \<in> set ps. p < length v \<Longrightarrow>
   rfold (\<lambda>p best. rbind (vec_index v p) (\<lambda>m. Inr (h p m best))) ps best =
     Inr (fold (\<lambda>p. h p (v ! p)) ps best)"
  by (induction ps arbitrary: best) auto

lemma consider_matches_eq:
  assumes "compiled_ok c R"
  shows "consider_matches c t ns v now removed best = Inr (fold (rule_consider now)
     (filter (\<lambda>r. \<not> hm_contains removed (rule_key_of r)) (candidate_rules c t ns v)) best)"
proof -
  have len: "\<forall>p \<in> set (rev [0..<33]). p < length (cr_ipv4_by_prefix c)"
    using assms by (simp add: compiled_ok_def)
  show ?thesis
    by (simp add: consider_matches_def candidate_rules_def Let_def consider_bucket_fun fold_concat
        rfold_buckets [OF len] filter_concat o_def map_map del: upt_rec_numeral
        split: option.splits rule_kind.splits sum.splits)
qed

lemma candidate_rules_set:
  assumes "compiled_ok c R"
  shows "set (candidate_rules c t ns v) = {r \<in> R. re_tenant_id r = t \<and> rule_matches_namespace r ns v}"
proof (cases "rule_kind_for_namespace ns")
  case None
  then show ?thesis by (simp add: candidate_rules_def rule_matches_namespace_def)
next
  case (Some kind)
  show ?thesis
  proof (cases kind)
    case Ipv4Cidr
    show ?thesis
    proof (cases "parse_ipv4_addr v")
      case (Inl e)
      with Some Ipv4Cidr show ?thesis
        by (auto simp: candidate_rules_def rule_matches_namespace_def split: rule_kind.splits)
    next
      case (Inr ip)
      have b: "set (bucket (cr_ipv4_by_prefix c ! p) (t, n)) =
        {r \<in> R. re_kind r = Ipv4Cidr \<and> unat (re_ipv4_prefix_len r) = p \<and> re_tenant_id r = t \<and>
           re_ipv4_network r = n}" if "p < 33" for p n
        using assms that by (simp add: compiled_ok_def)
      have small: "unat (re_ipv4_prefix_len r) < 33" if "r \<in> R" "re_kind r = Ipv4Cidr" for r
        using assms that by (simp add: compiled_ok_def)
      have "set (candidate_rules c t ns v) =
          (\<Union>p < 33. set (bucket (cr_ipv4_by_prefix c ! p) (t, mask_ipv4 ip (word_of_nat p))))"
        using Some Ipv4Cidr Inr by (auto simp: candidate_rules_def atLeast0LessThan simp del: upt_rec_numeral)
      also have "\<dots> = {r \<in> R. re_kind r = Ipv4Cidr \<and> re_tenant_id r = t \<and>
          mask_ipv4 ip (re_ipv4_prefix_len r) = re_ipv4_network r}"
        using small by (auto simp: b)
      also have "\<dots> = {r \<in> R. re_tenant_id r = t \<and> rule_matches_namespace r ns v}"
        using Some Ipv4Cidr Inr by (auto simp: rule_matches_namespace_def)
      finally show ?thesis .
    qed
  next
    case DomainSuffix
    have b: "set (bucket (cr_domain_suffixes c) (t, d)) =
        {r \<in> R. re_kind r = DomainSuffix \<and> re_tenant_id r = t \<and> re_domain_suffix r = d}" for d
      using assms by (simp add: compiled_ok_def)
    from Some DomainSuffix show ?thesis
      by (cases "canonicalize_domain v")
        (auto simp: candidate_rules_def rule_matches_namespace_def b split: rule_kind.splits)
  qed
qed

end
