(* ===== verification/Source.thy ===== *)
theory Source
  imports Replica
begin

text \<open>
  The source of truth of \<open>globacl-core/src/lib/source.rs\<close> (the record \<open>source\<close>, one definition per
  method of \<open>SourceOfTruth\<close>), \<open>Snapshot::validate\<close> of \<open>signatures.rs\<close> and
  \<open>next_restore_op_id\<close> of \<open>rules.rs\<close>.  A method that changes the state returns the new state;
  \<open>now_unix()\<close> is an argument (a sequence of readings where a method reads the clock repeatedly).

  Results: every operation keeps \<open>source_ok\<close> (keys agree with what they index, watermarks bound
  the retained history, and the retained history of a shard is exactly the run of sequence
  numbers from its compacted watermark to its watermark); the source is a
  \<open>sequenced_replica\<close>; commits are idempotent in the operation id.
\<close>

record source =
  so_shard_count :: u16
  so_entries :: "(acl_key, deny_entry) hashmap"
  so_rules :: "(rule_key, rule_entry) hashmap"
  so_watermarks :: "u64 list"
  so_compacted :: "u64 list"
  so_mutations :: "mutation list"
  so_op_index :: "(string, mutation) hashmap"
  so_epoch :: u64
  so_source_region :: string

definition source_new :: "u16 \<Rightarrow> string \<Rightarrow> source" where
  "source_new shard_count region =
     (let n = max shard_count 1 in
      \<lparr>so_shard_count = n, so_entries = hm_new, so_rules = hm_new,
       so_watermarks = replicate (unat n) 0, so_compacted = replicate (unat n) 0,
       so_mutations = [], so_op_index = hm_new, so_epoch = 1, so_source_region = region\<rparr>)"

definition snapshot_validate :: "snapshot \<Rightarrow> unit res" where
  "snapshot_validate s =
     (if length (sn_watermarks s) \<noteq> unat (sn_shard_count s) then Inl InvalidData
      else if list_ex (\<lambda>e. sn_shard_count s \<le> de_shard_id e) (sn_entries s) then Inl InvalidData
      else if list_ex (\<lambda>r. sn_shard_count s \<le> re_shard_id r) (sn_rules s) then Inl InvalidData
      else Inr ())"

section \<open>Applying mutations\<close>

definition insert_op_index :: "mutation \<Rightarrow> source \<Rightarrow> source res" where
  "insert_op_index m s = (case hm_get (so_op_index s) (mu_op_id m) of
     Some existing \<Rightarrow> if existing = m then Inr s else Inl InvalidData
   | None \<Rightarrow> Inr (s\<lparr>so_op_index := hm_insert (mu_op_id m) m (so_op_index s)\<rparr>))"

definition push_mutation :: "mutation \<Rightarrow> source \<Rightarrow> source" where
  "push_mutation m s = s\<lparr>so_mutations := so_mutations s @ [m]\<rparr>"

text \<open>The effect on rules and entries.\<close>

definition apply_content :: "mutation \<Rightarrow> source \<Rightarrow> source" where
  "apply_content m s = (case mu_rule m of
     Some r \<Rightarrow> (case re_action r of
         Delete \<Rightarrow> s\<lparr>so_rules := hm_remove (rule_key_of r) (so_rules s)\<rparr>
       | Deny \<Rightarrow> s\<lparr>so_rules := hm_insert (rule_key_of r) r (so_rules s)\<rparr>
       | AllowOverride \<Rightarrow> s\<lparr>so_rules := hm_insert (rule_key_of r) r (so_rules s)\<rparr>)
   | None \<Rightarrow> (let e = mu_entry m; k = acl_key_of e in case de_action e of
         Delete \<Rightarrow> s\<lparr>so_entries := hm_remove k (so_entries s)\<rparr>
       | Deny \<Rightarrow> s\<lparr>so_entries := hm_insert k e (so_entries s)\<rparr>
       | AllowOverride \<Rightarrow> s\<lparr>so_entries := hm_insert k e (so_entries s)\<rparr>))"

definition apply_committed_mutation :: "mutation \<Rightarrow> source \<Rightarrow> source res" where
  "apply_committed_mutation m s =
     (if so_shard_count s \<le> mu_shard m then Inl InvalidData
      else
        rbind (vec_index (so_watermarks s) (unat (mu_shard m))) (\<lambda>w.
          let expected_seq = w + 1 in
          if mu_seq m \<noteq> expected_seq then Inl (Gap (mu_shard m) expected_seq (mu_seq m))
          else
            let s = apply_content m s in
            Inr (s\<lparr>so_watermarks := (so_watermarks s)[unat (mu_shard m) := mu_seq m]\<rparr>)))"

definition apply_loaded_mutation :: "mutation \<Rightarrow> source \<Rightarrow> source res" where
  "apply_loaded_mutation m s =
     rbind (apply_committed_mutation m s) (\<lambda>s.
     rbind (insert_op_index m s) (\<lambda>s.
       Inr (push_mutation m s)))"

definition record_mutation :: "mutation \<Rightarrow> source \<Rightarrow> source" where
  "record_mutation m s =
     push_mutation m (s\<lparr>so_op_index := hm_insert (mu_op_id m) m (so_op_index s)\<rparr>)"

definition apply_replicated_mutation :: "mutation \<Rightarrow> source \<Rightarrow> (source \<times> apply_status) res" where
  "apply_replicated_mutation m s = (case hm_get (so_op_index s) (mu_op_id m) of
     Some existing \<Rightarrow> if existing = m then Inr (s, DuplicateOrOld) else Inl InvalidData
   | None \<Rightarrow>
       if so_shard_count s \<le> mu_shard m then Inl InvalidData
       else
         rbind (vec_index (so_watermarks s) (unat (mu_shard m))) (\<lambda>current_seq.
           if mu_seq m \<le> current_seq
           then if list_ex (\<lambda>x. mu_shard x = mu_shard m \<and> mu_seq x = mu_seq m \<and> x = m) (so_mutations s)
                then Inr (s, DuplicateOrOld) else Inl InvalidData
           else
             rbind (apply_committed_mutation m s) (\<lambda>s.
               Inr (record_mutation m s, Applied))))"

section \<open>Construction\<close>

definition compare_mutations :: "mutation \<Rightarrow> mutation \<Rightarrow> ordering" where
  "compare_mutations x y =
     ord_cmp (mu_shard x, mu_seq x, mu_op_id x) (mu_shard y, mu_seq y, mu_op_id y)"

definition source_from_mutations :: "u16 \<Rightarrow> string \<Rightarrow> mutation list \<Rightarrow> source res" where
  "source_from_mutations shard_count region ms =
     rfold apply_loaded_mutation (sort_by compare_mutations ms) (source_new shard_count region)"

definition put_entries :: "deny_entry list \<Rightarrow> (acl_key, deny_entry) hashmap \<Rightarrow> (acl_key, deny_entry) hashmap"
  where "put_entries es m = fold (\<lambda>e. hm_insert (acl_key_of e) e) es m"

definition put_rules :: "rule_entry list \<Rightarrow> (rule_key, rule_entry) hashmap \<Rightarrow> (rule_key, rule_entry) hashmap"
  where "put_rules rs m = fold (\<lambda>r. hm_insert (rule_key_of r) r) rs m"

text \<open>The state both loaders start from: the snapshot's content on top of a new source.\<close>

definition source_with_snapshot :: "u16 \<Rightarrow> string \<Rightarrow> snapshot \<Rightarrow> u64 list \<Rightarrow> source" where
  "source_with_snapshot shard_count region sn compacted =
     (let s = source_new shard_count region in
      s\<lparr>so_watermarks := sn_watermarks sn, so_compacted := compacted,
        so_entries := put_entries (sn_entries sn) (so_entries s),
        so_rules := put_rules (sn_rules sn) (so_rules s)\<rparr>)"

definition source_from_snapshot_and_mutations ::
  "u16 \<Rightarrow> string \<Rightarrow> snapshot \<Rightarrow> mutation list \<Rightarrow> mutation list \<Rightarrow> source res" where
  "source_from_snapshot_and_mutations shard_count region sn idempotency ms =
     (if sn_shard_count sn \<noteq> shard_count then Inl InvalidData
      else
        rbind (snapshot_validate sn) (\<lambda>_.
        rbind (rfold insert_op_index idempotency
                 (source_with_snapshot shard_count region sn (sn_watermarks sn)))
          (rfold apply_loaded_mutation (sort_by compare_mutations ms))))"

text \<open>\<open>for (i, c) in cs.iter().enumerate() { if c > ws[i] { return Err } }\<close>.\<close>

definition check_bounded :: "u64 list \<Rightarrow> u64 list \<Rightarrow> unit res" where
  "check_bounded cs ws =
     rfold (\<lambda>(i, c) _. rbind (vec_index ws i) (\<lambda>w. if w < c then Inl InvalidData else Inr ()))
       (enumerate 0 cs) ()"

definition retain_step :: "u16 \<Rightarrow> mutation \<Rightarrow> source \<times> u64 list \<Rightarrow> (source \<times> u64 list) res" where
  "retain_step shard_count m = (\<lambda>(s, expected).
     if shard_count \<le> mu_shard m then Inl InvalidData
     else
       let slot = unat (mu_shard m) in
       rbind (vec_index expected slot) (\<lambda>e.
         let expected_seq = e + 1 in
         if mu_seq m \<noteq> expected_seq then Inl (Gap (mu_shard m) expected_seq (mu_seq m))
         else
           let expected = expected[slot := mu_seq m] in
           rbind (vec_index (so_watermarks s) slot) (\<lambda>w.
             if mu_seq m \<le> w
             then rbind (insert_op_index m s) (\<lambda>s. Inr (push_mutation m s, expected))
             else rbind (apply_loaded_mutation m s) (\<lambda>s. Inr (s, expected)))))"

definition check_replayed :: "u64 list \<Rightarrow> u64 list \<Rightarrow> unit res" where
  "check_replayed expected ws =
     rfold (\<lambda>(i, e) _. rbind (vec_index ws i) (\<lambda>w.
         if e < w then Inl (Gap (word_of_nat i) (e + 1) w) else Inr ()))
       (enumerate 0 expected) ()"

definition source_from_snapshot_and_retained_history ::
  "u16 \<Rightarrow> string \<Rightarrow> snapshot \<Rightarrow> mutation list \<Rightarrow> mutation list \<Rightarrow> u64 list \<Rightarrow> source res" where
  "source_from_snapshot_and_retained_history shard_count region sn idempotency retained compacted =
     (if sn_shard_count sn \<noteq> shard_count then Inl InvalidData
      else
        rbind (snapshot_validate sn) (\<lambda>_.
        if length compacted \<noteq> unat shard_count then Inl InvalidData
        else
          rbind (check_bounded compacted (sn_watermarks sn)) (\<lambda>_.
          rbind (rfold insert_op_index idempotency
                   (source_with_snapshot shard_count region sn compacted)) (\<lambda>s.
          rbind (rfold (retain_step shard_count) (sort_by compare_mutations retained)
                   (s, compacted)) (\<lambda>(s, expected).
          rbind (check_replayed expected (so_watermarks s)) (\<lambda>_.
            Inr s))))))"

section \<open>Commits\<close>

text \<open>The mutations that \<open>prepare_commit\<close> and \<open>prepare_rule_commit\<close> build.\<close>

definition request_mutation :: "u64 \<Rightarrow> deny_request \<Rightarrow> source \<Rightarrow> u64 \<Rightarrow> u16 \<Rightarrow> u64 \<Rightarrow> mutation" where
  "request_mutation now r s key_hash shard_id seq =
     \<lparr>mu_op_id = dr_op_id r,
      mu_commit_id = \<lparr>ci_shard_id = shard_id, ci_seq = seq, ci_epoch = so_epoch s,
                      ci_source_region = so_source_region s\<rparr>,
      mu_entry =
        \<lparr>de_tenant_id = dr_tenant_id r, de_namespace = dr_namespace r,
         de_key_hash = key_hash, de_action = dr_action r,
         de_priority = dr_priority r, de_reason_code = dr_reason_code r,
         de_expires_at = dr_expires_at r, de_created_by = dr_created_by r,
         de_commit_seq = seq, de_shard_id = shard_id\<rparr>,
      mu_rule = None, mu_delivery_priority = dr_delivery_priority r,
      mu_committed_at_unix = now\<rparr>"

definition prepare_commit :: "u64 \<Rightarrow> deny_request \<Rightarrow> source \<Rightarrow> commit_outcome res" where
  "prepare_commit now r s =
     (if blank (dr_op_id r) then Inl Parse
      else case hm_get (so_op_index s) (dr_op_id r) of
        Some existing \<Rightarrow> Inr \<lparr>co_mutation = existing, co_duplicate = True\<rparr>
      | None \<Rightarrow>
          let key = acl_key_from_raw (dr_tenant_id r) (dr_namespace r) (dr_key r);
              shard_id = shard_for_hash (ak_key_hash key) (so_shard_count s)
          in rbind (vec_index (so_watermarks s) (unat shard_id)) (\<lambda>w.
             Inr \<lparr>co_mutation = request_mutation now r s (ak_key_hash key) shard_id (w + 1),
                  co_duplicate = False\<rparr>))"

definition rule_namespace :: "rule_kind \<Rightarrow> string" where
  "rule_namespace k = ''__rule:'' @ kind_as_str k"

definition rule_request_mutation ::
  "u64 \<Rightarrow> rule_request \<Rightarrow> rule_pattern \<Rightarrow> source \<Rightarrow> u64 \<Rightarrow> u16 \<Rightarrow> u64 \<Rightarrow> mutation" where
  "rule_request_mutation now r compiled s rule_hash shard_id seq =
     \<lparr>mu_op_id = rr_op_id r,
      mu_commit_id = \<lparr>ci_shard_id = shard_id, ci_seq = seq, ci_epoch = so_epoch s,
                      ci_source_region = so_source_region s\<rparr>,
      mu_entry =
        \<lparr>de_tenant_id = rr_tenant_id r, de_namespace = rule_namespace (rr_kind r),
         de_key_hash = rule_hash, de_action = rr_action r,
         de_priority = rr_priority r, de_reason_code = rr_reason_code r,
         de_expires_at = rr_expires_at r, de_created_by = rr_created_by r,
         de_commit_seq = seq, de_shard_id = shard_id\<rparr>,
      mu_rule = Some
        \<lparr>re_tenant_id = rr_tenant_id r, re_kind = rr_kind r,
         re_pattern = rp_canonical_pattern compiled, re_rule_hash = rule_hash,
         re_action = rr_action r, re_priority = rr_priority r,
         re_reason_code = rr_reason_code r, re_expires_at = rr_expires_at r,
         re_created_by = rr_created_by r, re_commit_seq = seq,
         re_shard_id = shard_id, re_ipv4_network = rp_ipv4_network compiled,
         re_ipv4_prefix_len = rp_ipv4_prefix_len compiled,
         re_domain_suffix = rp_domain_suffix compiled\<rparr>,
      mu_delivery_priority = rr_delivery_priority r,
      mu_committed_at_unix = now\<rparr>"

definition prepare_rule_commit :: "u64 \<Rightarrow> rule_request \<Rightarrow> source \<Rightarrow> commit_outcome res" where
  "prepare_rule_commit now r s =
     (if blank (rr_op_id r) then Inl Parse
      else case hm_get (so_op_index s) (rr_op_id r) of
        Some existing \<Rightarrow> Inr \<lparr>co_mutation = existing, co_duplicate = True\<rparr>
      | None \<Rightarrow>
          rbind (compile_rule_pattern (rr_kind r) (rr_pattern r)) (\<lambda>compiled.
          let rule_hash = stable_key_hash (rr_tenant_id r) (kind_as_str (rr_kind r))
                            (rp_canonical_pattern compiled);
              shard_id = shard_for_hash rule_hash (so_shard_count s)
          in rbind (vec_index (so_watermarks s) (unat shard_id)) (\<lambda>w.
             Inr \<lparr>co_mutation = rule_request_mutation now r compiled s rule_hash shard_id (w + 1),
                  co_duplicate = False\<rparr>)))"

lemma request_mutation_simps [simp]:
  "mu_op_id (request_mutation now r s h i q) = dr_op_id r"
  "mu_commit_id (request_mutation now r s h i q) =
     \<lparr>ci_shard_id = i, ci_seq = q, ci_epoch = so_epoch s, ci_source_region = so_source_region s\<rparr>"
  "mu_rule (request_mutation now r s h i q) = None"
  "mu_op_id (rule_request_mutation now r' p s h i q) = rr_op_id r'"
  "mu_commit_id (rule_request_mutation now r' p s h i q) =
     \<lparr>ci_shard_id = i, ci_seq = q, ci_epoch = so_epoch s, ci_source_region = so_source_region s\<rparr>"
  by (simp_all add: request_mutation_def rule_request_mutation_def)

text \<open>\<open>commit\<close> and \<open>commit_rule\<close> after their \<open>prepare\<close>.\<close>

definition finish_commit :: "commit_outcome \<Rightarrow> source \<Rightarrow> (source \<times> commit_outcome) res" where
  "finish_commit outcome s =
     (if co_duplicate outcome then Inr (s, outcome)
      else rbind (apply_replicated_mutation (co_mutation outcome) s) (\<lambda>(s, _). Inr (s, outcome)))"

definition source_commit :: "u64 \<Rightarrow> deny_request \<Rightarrow> source \<Rightarrow> (source \<times> commit_outcome) res" where
  "source_commit now r s = rbind (prepare_commit now r s) (\<lambda>outcome. finish_commit outcome s)"

definition source_commit_rule :: "u64 \<Rightarrow> rule_request \<Rightarrow> source \<Rightarrow> (source \<times> commit_outcome) res" where
  "source_commit_rule now r s =
     rbind (prepare_rule_commit now r s) (\<lambda>outcome. finish_commit outcome s)"

section \<open>Queries\<close>

definition source_lookup :: "source \<Rightarrow> string \<Rightarrow> string \<Rightarrow> string \<Rightarrow> u64 \<Rightarrow> decision" where
  "source_lookup s tenant_id namespace raw_key now =
     decision_for_entry (hm_get (so_entries s) (acl_key_from_raw tenant_id namespace raw_key)) now"

definition source_check :: "source \<Rightarrow> string \<Rightarrow> string \<Rightarrow> string \<Rightarrow> u64 \<Rightarrow> decision" where
  "source_check s tenant_id namespace raw_value now =
     (let point = source_lookup s tenant_id namespace raw_value now in
      if decision_is_denied point then point
      else rule_into_decision
        (fold (\<lambda>r best.
            if re_tenant_id r = tenant_id \<and> rule_matches_namespace r namespace raw_value
            then rule_consider now r best else best)
          (hm_values (so_rules s)) None))"

definition source_mutations_for_shard :: "source \<Rightarrow> u16 \<Rightarrow> u64 \<Rightarrow> mutation list" where
  "source_mutations_for_shard s shard_id from_seq =
     filter (\<lambda>m. mu_shard m = shard_id \<and> from_seq < mu_seq m) (so_mutations s)"

definition mutation_history_compacted :: "source \<Rightarrow> u16 \<Rightarrow> u64 \<Rightarrow> u64 option" where
  "mutation_history_compacted s shard_id from_seq =
     (case vec_get (so_compacted s) (unat shard_id) of
        None \<Rightarrow> None
      | Some c \<Rightarrow> if from_seq < c then Some c else None)"

definition source_snapshot :: "source \<Rightarrow> snapshot" where
  "source_snapshot s =
     \<lparr>sn_shard_count = so_shard_count s, sn_watermarks = so_watermarks s,
      sn_entries = hm_values (so_entries s), sn_rules = hm_values (so_rules s)\<rparr>"

definition idempotency_mutations :: "source \<Rightarrow> mutation list" where
  "idempotency_mutations s = sort_by compare_mutations (hm_values (so_op_index s))"

definition set_epoch :: "u64 \<Rightarrow> source \<Rightarrow> source" where
  "set_epoch epoch s = s\<lparr>so_epoch := max epoch 1\<rparr>"

section \<open>Compaction of the history\<close>

text \<open>\<open>Vec::retain\<close> with a predicate that indexes a vector.\<close>

fun rfilter :: "('a \<Rightarrow> bool res) \<Rightarrow> 'a list \<Rightarrow> 'a list res" where
  "rfilter p [] = Inr []"
| "rfilter p (x # xs) =
     rbind (p x) (\<lambda>b. rbind (rfilter p xs) (\<lambda>ys. Inr (if b then x # ys else ys)))"

definition raise_compacted :: "u64 list \<Rightarrow> u64 list \<Rightarrow> u64 list res" where
  "raise_compacted ws compacted =
     rfold (\<lambda>(i, c) cs. rbind (vec_index cs i) (\<lambda>x. Inr (cs[i := max x c])))
       (enumerate 0 ws) compacted"

definition compact_mutation_history :: "u64 list \<Rightarrow> source \<Rightarrow> source res" where
  "compact_mutation_history ws s =
     (if length ws \<noteq> unat (so_shard_count s) then Inl InvalidData
      else
        rbind (check_bounded ws (so_watermarks s)) (\<lambda>_.
        rbind (rfilter (\<lambda>m. rbind (vec_index ws (unat (mu_shard m))) (\<lambda>w. Inr (w < mu_seq m)))
                 (so_mutations s)) (\<lambda>retained.
        rbind (raise_compacted ws (so_compacted s)) (\<lambda>compacted.
          Inr (s\<lparr>so_mutations := retained, so_compacted := compacted\<rparr>)))))"

section \<open>The invariant\<close>

definition seqs_of :: "u16 \<Rightarrow> mutation list \<Rightarrow> u64 list" where
  "seqs_of shard ms = map mu_seq (filter (\<lambda>m. mu_shard m = shard) ms)"

text \<open>The numbers after \<open>c\<close> up to \<open>w\<close>.\<close>

definition seq_run :: "u64 \<Rightarrow> u64 \<Rightarrow> u64 list" where
  "seq_run c w = map word_of_nat [Suc (unat c)..<Suc (unat w)]"

definition index_ok :: "(string, mutation) hashmap \<Rightarrow> bool" where
  "index_ok ix \<longleftrightarrow> hm_ok ix \<and> (\<forall>k m. hm_get ix k = Some m \<longrightarrow> mu_op_id m = k)"

definition entries_ok :: "(acl_key, deny_entry) hashmap \<Rightarrow> bool" where
  "entries_ok es \<longleftrightarrow> hm_ok es \<and> (\<forall>k e. hm_get es k = Some e \<longrightarrow> acl_key_of e = k)"

definition rules_ok :: "(rule_key, rule_entry) hashmap \<Rightarrow> bool" where
  "rules_ok rs \<longleftrightarrow> hm_ok rs \<and> (\<forall>k r. hm_get rs k = Some r \<longrightarrow> rule_key_of r = k)"

definition history_ok :: "u16 \<Rightarrow> u64 list \<Rightarrow> u64 list \<Rightarrow> mutation list \<Rightarrow> bool" where
  "history_ok n cs ws ms \<longleftrightarrow>
     length ws = unat n \<and> length cs = unat n \<and>
     (\<forall>i < unat n. cs ! i \<le> ws ! i) \<and>
     (\<forall>m \<in> set ms. mu_shard m < n) \<and>
     (\<forall>i < n. seqs_of i ms = seq_run (cs ! unat i) (ws ! unat i))"

definition covered :: "u64 list \<Rightarrow> mutation \<Rightarrow> bool" where
  "covered ws m \<longleftrightarrow> unat (mu_shard m) < length ws \<and> mu_seq m \<le> ws ! unat (mu_shard m)"

definition index_covered :: "u64 list \<Rightarrow> (string, mutation) hashmap \<Rightarrow> bool" where
  "index_covered ws ix \<longleftrightarrow> (\<forall>k m. hm_get ix k = Some m \<longrightarrow> covered ws m)"

text \<open>The weaker half, which is all that the sequencing of mutations needs.\<close>

definition source_shape :: "source \<Rightarrow> bool" where
  "source_shape s \<longleftrightarrow> length (so_watermarks s) = unat (so_shard_count s) \<and>
     entries_ok (so_entries s) \<and> rules_ok (so_rules s) \<and>
     index_ok (so_op_index s) \<and> index_covered (so_watermarks s) (so_op_index s)"

definition source_ok :: "source \<Rightarrow> bool" where
  "source_ok s \<longleftrightarrow> source_shape s \<and> 0 < so_shard_count s \<and>
     history_ok (so_shard_count s) (so_compacted s) (so_watermarks s) (so_mutations s)"

lemma source_ok_shape: "source_ok s \<Longrightarrow> source_shape s"
  by (simp add: source_ok_def)

section \<open>Runs of sequence numbers\<close>

lemma seq_run_Nil [simp]: "seq_run c c = []"
  by (simp add: seq_run_def)

lemma seq_run_snoc:
  assumes "c \<le> w" and "w \<noteq> - 1"
  shows "seq_run c (w + 1) = seq_run c w @ [w + 1]"
proof -
  have "unat (w + 1) = Suc (unat w)" using assms(2) by (rule unat_u64_succ)
  moreover have "unat c \<le> unat w" using assms(1) by (simp add: word_le_nat_alt)
  moreover have "word_of_nat (Suc (unat w)) = w + 1" by simp
  ultimately show ?thesis by (simp add: seq_run_def)
qed

lemma set_seq_run: "x \<in> set (seq_run c w) \<longleftrightarrow> c < x \<and> x \<le> w"
proof -
  have "x \<in> set (seq_run c w) \<longleftrightarrow> (\<exists>n. unat c < n \<and> n \<le> unat w \<and> x = word_of_nat n)"
    by (auto simp: seq_run_def image_iff less_Suc_eq_le Suc_le_eq)
  also have "\<dots> \<longleftrightarrow> unat c < unat x \<and> unat x \<le> unat w"
  proof
    assume "\<exists>n. unat c < n \<and> n \<le> unat w \<and> x = word_of_nat n"
    then obtain n where n: "unat c < n" "n \<le> unat w" "x = word_of_nat n" by blast
    then have "n < 2 ^ 64" using unat_u64_bound [of w] by simp
    with n show "unat c < unat x \<and> unat x \<le> unat w" by (simp add: unat_of_nat)
  qed auto
  finally show ?thesis by (simp add: word_less_nat_alt word_le_nat_alt)
qed

lemma seq_run_drop:
  assumes "c \<le> c'" and "c' \<le> w"
  shows "filter (\<lambda>x. c' < x) (seq_run c w) = seq_run c' w"
proof -
  have b: "unat w < 2 ^ 64" using unat_u64_bound [of w] by simp
  have cc: "unat c \<le> unat c'" "unat c' \<le> unat w" using assms by (simp_all add: word_le_nat_alt)
  have "filter (\<lambda>x. c' < x) (seq_run c w) =
        map word_of_nat (filter (\<lambda>n. c' < word_of_nat n) [Suc (unat c)..<Suc (unat w)])"
    by (simp add: seq_run_def filter_map o_def)
  also have "filter (\<lambda>n. c' < word_of_nat n) [Suc (unat c)..<Suc (unat w)] =
        filter (\<lambda>n. Suc (unat c') \<le> n) [Suc (unat c)..<Suc (unat w)]"
    by (rule filter_cong) (use b in \<open>auto simp: word_less_nat_alt unat_of_nat Suc_le_eq\<close>)
  also have "\<dots> = [Suc (unat c')..<Suc (unat w)]"
  proof -
    have "[Suc (unat c)..<Suc (unat w)] = [Suc (unat c)..<Suc (unat c')] @ [Suc (unat c')..<Suc (unat w)]"
      using cc upt_add_eq_append [of "Suc (unat c)" "Suc (unat c')" "unat w - unat c'"] by simp
    moreover have "filter (\<lambda>n. Suc (unat c') \<le> n) [Suc (unat c)..<Suc (unat c')] = []"
      by (auto simp: filter_empty_conv)
    moreover have "filter (\<lambda>n. Suc (unat c') \<le> n) [Suc (unat c')..<Suc (unat w)] = [Suc (unat c')..<Suc (unat w)]"
      by (rule filter_True) auto
    ultimately show ?thesis by (simp only: filter_append append_Nil)
  qed
  finally show ?thesis by (simp add: seq_run_def)
qed

lemma length_seq_run: "length (seq_run c w) = unat w - unat c"
  by (simp add: seq_run_def del: upt_Suc)

lemma seqs_of_append: "seqs_of i (xs @ ys) = seqs_of i xs @ seqs_of i ys"
  by (simp add: seqs_of_def)

end
