(* ===== verification/Active_State.thy ===== *)
theory Active_State
  imports Base_Correct Compiled_Rules Source
begin

text \<open>
  The edge's active state (\<open>ActiveState\<close> of \<open>globacl-core/src/lib/active_state.rs\<close>): an immutable
  base with a delta overlay of added and removed entries and rules, a watermark per shard, the
  decisions \<open>lookup\<close> and \<open>check\<close>, the materialisation of the content and the compaction of the
  overlay into a new base.  \<open>Arc\<close> and \<open>ArcSwap\<close> (\<open>ActiveStateHandle\<close>) share a state value between
  threads and swap it atomically; the functions below are the transformations of that value.
\<close>

record active_state =
  as_shard_count :: u16
  as_base :: immutable_base
  as_delta_adds :: "(acl_key, deny_entry) hashmap"
  as_delta_removes :: "(acl_key, u64) hashmap"
  as_rule_base :: compiled_rules
  as_delta_rule_adds :: "(rule_key, rule_entry) hashmap"
  as_delta_rule_removes :: "(rule_key, u64) hashmap"
  as_watermarks :: "u64 list"

definition active_with :: "u16 \<Rightarrow> u64 list \<Rightarrow> deny_entry list \<Rightarrow> rule_entry list \<Rightarrow> active_state res" where
  "active_with shard_count watermarks entries rules =
     rbind (base_from_entries entries) (\<lambda>base.
     rbind (compiled_from_rules rules) (\<lambda>rule_base.
       Inr \<lparr>as_shard_count = shard_count, as_base = base, as_delta_adds = hm_new,
            as_delta_removes = hm_new, as_rule_base = rule_base, as_delta_rule_adds = hm_new,
            as_delta_rule_removes = hm_new, as_watermarks = watermarks\<rparr>))"

definition active_new :: "u16 \<Rightarrow> active_state res" where
  "active_new shard_count =
     (let n = max shard_count 1 in active_with n (replicate (unat n) 0) [] [])"

definition active_from_snapshot :: "snapshot \<Rightarrow> active_state res" where
  "active_from_snapshot sn =
     rbind (snapshot_validate sn) (\<lambda>_.
       active_with (sn_shard_count sn) (sn_watermarks sn) (sn_entries sn) (sn_rules sn))"

section \<open>Applying a mutation\<close>

definition overlay_rule :: "rule_entry \<Rightarrow> u64 \<Rightarrow> active_state \<Rightarrow> active_state" where
  "overlay_rule r seq s = (let key = rule_key_of r in case re_action r of
     Delete \<Rightarrow> s\<lparr>as_delta_rule_adds := hm_remove key (as_delta_rule_adds s),
                as_delta_rule_removes := hm_insert key seq (as_delta_rule_removes s)\<rparr>
   | Deny \<Rightarrow> s\<lparr>as_delta_rule_removes := hm_remove key (as_delta_rule_removes s),
              as_delta_rule_adds := hm_insert key r (as_delta_rule_adds s)\<rparr>
   | AllowOverride \<Rightarrow> s\<lparr>as_delta_rule_removes := hm_remove key (as_delta_rule_removes s),
              as_delta_rule_adds := hm_insert key r (as_delta_rule_adds s)\<rparr>)"

definition overlay_entry :: "deny_entry \<Rightarrow> u64 \<Rightarrow> active_state \<Rightarrow> active_state" where
  "overlay_entry e seq s = (let key = acl_key_of e in case de_action e of
     Delete \<Rightarrow> s\<lparr>as_delta_adds := hm_remove key (as_delta_adds s),
                as_delta_removes := hm_insert key seq (as_delta_removes s)\<rparr>
   | Deny \<Rightarrow> s\<lparr>as_delta_removes := hm_remove key (as_delta_removes s),
              as_delta_adds := hm_insert key e (as_delta_adds s)\<rparr>
   | AllowOverride \<Rightarrow> s\<lparr>as_delta_removes := hm_remove key (as_delta_removes s),
              as_delta_adds := hm_insert key e (as_delta_adds s)\<rparr>)"

definition overlay_mutation :: "mutation \<Rightarrow> active_state \<Rightarrow> active_state" where
  "overlay_mutation m s = (case mu_rule m of
     Some r \<Rightarrow> overlay_rule r (mu_seq m) s
   | None \<Rightarrow> overlay_entry (mu_entry m) (mu_seq m) s)"

definition active_apply_mutation :: "mutation \<Rightarrow> active_state \<Rightarrow> (active_state \<times> apply_status) res" where
  "active_apply_mutation m s =
     (let shard_id = mu_shard m in
      if as_shard_count s \<le> shard_id then Inl InvalidData
      else
        rbind (vec_index (as_watermarks s) (unat shard_id)) (\<lambda>current_seq.
          if mu_seq m \<le> current_seq then Inr (s, DuplicateOrOld)
          else
            let expected_seq = current_seq + 1 in
            if mu_seq m \<noteq> expected_seq then Inl (Gap shard_id expected_seq (mu_seq m))
            else
              let s = overlay_mutation m s
              in Inr (s\<lparr>as_watermarks := (as_watermarks s)[unat shard_id := mu_seq m]\<rparr>, Applied)))"

section \<open>Decisions\<close>

definition active_lookup :: "active_state \<Rightarrow> string \<Rightarrow> string \<Rightarrow> string \<Rightarrow> u64 \<Rightarrow> decision res" where
  "active_lookup s tenant_id namespace raw_key now =
     (let key_hash = stable_key_hash tenant_id namespace raw_key;
          key = \<lparr>ak_tenant_id = tenant_id, ak_namespace = namespace, ak_key_hash = key_hash\<rparr>;
          from_base = decision_for_parts (as_base s) tenant_id namespace key_hash now
      in if as_delta_adds s \<noteq> [] \<or> as_delta_removes s \<noteq> []
         then (case hm_get (as_delta_adds s) key of
             Some e \<Rightarrow> Inr (decision_for_entry (Some e) now)
           | None \<Rightarrow> if hm_contains (as_delta_removes s) key then Inr Allow else from_base)
         else from_base)"

definition consider_delta_rules ::
  "active_state \<Rightarrow> string \<Rightarrow> string \<Rightarrow> string \<Rightarrow> u64 \<Rightarrow> rule_match \<Rightarrow> rule_match" where
  "consider_delta_rules s tenant_id namespace raw_value now best =
     fold (\<lambda>r best. if re_tenant_id r = tenant_id \<and> rule_matches_namespace r namespace raw_value
                     then rule_consider now r best else best)
       (hm_values (as_delta_rule_adds s)) best"

definition active_check :: "active_state \<Rightarrow> string \<Rightarrow> string \<Rightarrow> string \<Rightarrow> u64 \<Rightarrow> decision res" where
  "active_check s tenant_id namespace raw_value now =
     rbind (active_lookup s tenant_id namespace raw_value now) (\<lambda>point.
       if decision_is_denied point then Inr point
       else
         let best = consider_delta_rules s tenant_id namespace raw_value now None in
         rbind (consider_matches (as_rule_base s) tenant_id namespace raw_value now
                  (as_delta_rule_removes s) best) (\<lambda>best.
           Inr (rule_into_decision best)))"

section \<open>Materialisation and compaction\<close>

definition materialized_entries :: "active_state \<Rightarrow> deny_entry list res" where
  "materialized_entries s =
     rbind (base_materialized_entries (as_base s)) (\<lambda>es.
       Inr (filter (\<lambda>e. \<not> hm_contains (as_delta_removes s) (acl_key_of e) \<and>
                        \<not> hm_contains (as_delta_adds s) (acl_key_of e)) es @
            hm_values (as_delta_adds s)))"

definition materialized_rules :: "active_state \<Rightarrow> rule_entry list" where
  "materialized_rules s =
     filter (\<lambda>r. \<not> hm_contains (as_delta_rule_removes s) (rule_key_of r) \<and>
                 \<not> hm_contains (as_delta_rule_adds s) (rule_key_of r))
       (compiled_all_rules (as_rule_base s)) @
     hm_values (as_delta_rule_adds s)"

definition active_snapshot :: "active_state \<Rightarrow> snapshot res" where
  "active_snapshot s =
     rbind (materialized_entries s) (\<lambda>entries.
       Inr \<lparr>sn_shard_count = as_shard_count s, sn_watermarks = as_watermarks s,
            sn_entries = entries, sn_rules = materialized_rules s\<rparr>)"

definition active_entries_len :: "active_state \<Rightarrow> nat" where
  "active_entries_len s =
     (let len = base_len (as_base s);
          len = fold (\<lambda>k len. if base_contains_key (as_base s) k \<and> \<not> hm_contains (as_delta_adds s) k
                              then len - 1 else len) (hm_keys (as_delta_removes s)) len
      in fold (\<lambda>k len. if \<not> base_contains_key (as_base s) k then len + 1 else len)
           (hm_keys (as_delta_adds s)) len)"

definition delta_entries_len :: "active_state \<Rightarrow> nat" where
  "delta_entries_len s = hm_len (as_delta_adds s) + hm_len (as_delta_removes s) +
     hm_len (as_delta_rule_adds s) + hm_len (as_delta_rule_removes s)"

definition compact_delta_overlay :: "active_state \<Rightarrow> active_state res" where
  "compact_delta_overlay s =
     (if as_delta_adds s = [] \<and> as_delta_removes s = [] \<and> as_delta_rule_adds s = [] \<and>
         as_delta_rule_removes s = []
      then Inr s
      else
        rbind (materialized_entries s) (\<lambda>entries.
        rbind (base_from_entries entries) (\<lambda>base.
        let rules = materialized_rules (s\<lparr>as_base := base\<rparr>) in
        rbind (compiled_from_rules rules) (\<lambda>rule_base.
          Inr (s\<lparr>as_base := base, as_rule_base := rule_base, as_delta_adds := hm_new,
                as_delta_removes := hm_new, as_delta_rule_adds := hm_new,
                as_delta_rule_removes := hm_new\<rparr>)))))"

definition base_filter_may_contain :: "active_state \<Rightarrow> string \<Rightarrow> string \<Rightarrow> string \<Rightarrow> bool res" where
  "base_filter_may_contain s tenant_id namespace raw_key =
     may_contain_parts (ib_filter (as_base s)) tenant_id namespace
       (stable_key_hash tenant_id namespace raw_key)"

section \<open>The invariant and the content\<close>

definition rule_map :: "rule_entry list \<Rightarrow> rule_key \<Rightarrow> rule_entry option" where
  "rule_map rs = map_of (map (\<lambda>r. (rule_key_of r, r)) rs)"

definition base_content :: "active_state \<Rightarrow> deny_entry list" where
  "base_content s = (case base_materialized_entries (as_base s) of Inr es \<Rightarrow> es | Inl _ \<Rightarrow> [])"

definition active_view :: "active_state \<Rightarrow> acl_view" where
  "active_view s =
     \<lparr>av_entries = (\<lambda>k. case hm_get (as_delta_adds s) k of
          Some e \<Rightarrow> Some e
        | None \<Rightarrow> if hm_contains (as_delta_removes s) k then None else entry_map (base_content s) k),
      av_rules = (\<lambda>k. case hm_get (as_delta_rule_adds s) k of
          Some r \<Rightarrow> Some r
        | None \<Rightarrow> if hm_contains (as_delta_rule_removes s) k then None
                  else rule_map (compiled_all_rules (as_rule_base s)) k),
      av_watermarks = as_watermarks s\<rparr>"

definition overlay_ok :: "active_state \<Rightarrow> bool" where
  "overlay_ok s \<longleftrightarrow>
     entries_ok (as_delta_adds s) \<and> hm_ok (as_delta_removes s) \<and>
     rules_ok (as_delta_rule_adds s) \<and> hm_ok (as_delta_rule_removes s) \<and>
     (\<forall>k. hm_contains (as_delta_removes s) k \<longrightarrow> \<not> hm_contains (as_delta_adds s) k) \<and>
     (\<forall>k. hm_contains (as_delta_rule_removes s) k \<longrightarrow> \<not> hm_contains (as_delta_rule_adds s) k) \<and>
     (\<forall>k r. hm_get (as_delta_rule_adds s) k = Some r \<longrightarrow> re_action r \<noteq> Delete)"

definition active_ok :: "active_state \<Rightarrow> bool" where
  "active_ok s \<longleftrightarrow> length (as_watermarks s) = unat (as_shard_count s) \<and>
     base_ok (as_base s) (base_content s) \<and>
     compiled_ok (as_rule_base s) (set (compiled_all_rules (as_rule_base s))) \<and>
     inj_on rule_key_of (set (compiled_all_rules (as_rule_base s))) \<and>
     (\<forall>r \<in> set (compiled_all_rules (as_rule_base s)). re_action r \<noteq> Delete) \<and>
     overlay_ok s"

text \<open>No rule of the base has been replaced by a newer version in the overlay.\<close>

definition no_stale_rules :: "active_state \<Rightarrow> bool" where
  "no_stale_rules s \<longleftrightarrow>
     (\<forall>k. hm_contains (as_delta_rule_adds s) k \<longrightarrow> rule_map (compiled_all_rules (as_rule_base s)) k = None)"

end
