(* ===== verification/Source_Correct.thy ===== *)
theory Source_Correct
  imports Source
begin

text \<open>
  Correctness of the source of truth: the invariant \<open>source_ok\<close> is established by the
  constructors and kept by every operation; the source interprets \<open>sequenced_replica\<close> with its
  content as view; what commits return and do; what queries return in terms of the view.
\<close>

definition source_view :: "source \<Rightarrow> acl_view" where
  "source_view s = \<lparr>av_entries = hm_get (so_entries s), av_rules = hm_get (so_rules s),
     av_watermarks = so_watermarks s\<rparr>"

section \<open>Indexes\<close>

lemma entries_ok_insert [wf_intros]: "entries_ok es \<Longrightarrow> entries_ok (hm_insert (acl_key_of e) e es)"
  by (simp add: entries_ok_def)

lemma entries_ok_remove [wf_intros]: "entries_ok es \<Longrightarrow> entries_ok (hm_remove k es)"
  by (simp add: entries_ok_def)

lemma rules_ok_insert [wf_intros]: "rules_ok rs \<Longrightarrow> rules_ok (hm_insert (rule_key_of r) r rs)"
  by (simp add: rules_ok_def)

lemma rules_ok_remove [wf_intros]: "rules_ok rs \<Longrightarrow> rules_ok (hm_remove k rs)"
  by (simp add: rules_ok_def)

lemma index_ok_insert [wf_intros]: "index_ok ix \<Longrightarrow> index_ok (hm_insert (mu_op_id m) m ix)"
  by (simp add: index_ok_def)

lemma entries_ok_put: "entries_ok m \<Longrightarrow> entries_ok (put_entries es m)"
  by (induction es arbitrary: m) (auto simp: put_entries_def entries_ok_insert)

lemma rules_ok_put: "rules_ok m \<Longrightarrow> rules_ok (put_rules rs m)"
  by (induction rs arbitrary: m) (auto simp: put_rules_def rules_ok_insert)

lemma empty_ok [simp]: "entries_ok hm_new" "rules_ok hm_new" "index_ok hm_new"
  "index_covered ws hm_new"
  by (simp_all add: entries_ok_def rules_ok_def index_ok_def index_covered_def)

lemma index_covered_insert [wf_intros]:
  "index_covered ws ix \<Longrightarrow> covered ws m \<Longrightarrow> index_covered ws (hm_insert (mu_op_id m) m ix)"
  by (simp add: index_covered_def)

lemma covered_advance:
  "covered ws m \<Longrightarrow> ws ! i \<le> w \<Longrightarrow> covered (ws[i := w]) m"
  by (cases "i < length ws") (auto simp: covered_def nth_list_update)

lemma index_covered_advance:
  "index_covered ws ix \<Longrightarrow> ws ! i \<le> w \<Longrightarrow> index_covered (ws[i := w]) ix"
  unfolding index_covered_def using covered_advance by blast

section \<open>Applying a committed mutation\<close>

lemma apply_content_frame [simp]:
  "so_shard_count (apply_content m s) = so_shard_count s"
  "so_watermarks (apply_content m s) = so_watermarks s"
  "so_compacted (apply_content m s) = so_compacted s"
  "so_mutations (apply_content m s) = so_mutations s"
  "so_op_index (apply_content m s) = so_op_index s"
  "so_epoch (apply_content m s) = so_epoch s"
  "so_source_region (apply_content m s) = so_source_region s"
  by (auto simp: apply_content_def Let_def split: option.splits action.splits)

lemma apply_content_ok:
  "entries_ok (so_entries s) \<Longrightarrow> entries_ok (so_entries (apply_content m s))"
  "rules_ok (so_rules s) \<Longrightarrow> rules_ok (so_rules (apply_content m s))"
  by (auto simp: apply_content_def Let_def wf_intros split: option.splits action.splits)

lemma view_apply_content:
  "source_view ((apply_content m s)\<lparr>so_watermarks := (so_watermarks s)[unat (mu_shard m) := mu_seq m]\<rparr>)
     = view_apply m (source_view s)"
  by (cases "mu_rule m"; cases "de_action (mu_entry m)")
    (auto simp: apply_content_def view_apply_def source_view_def Let_def fun_eq_iff
      split: action.splits)

lemma apply_committed_mutation_ok:
  "apply_committed_mutation m s = Inr s' \<longleftrightarrow>
     mu_shard m < so_shard_count s \<and> unat (mu_shard m) < length (so_watermarks s) \<and>
     mu_seq m = so_watermarks s ! unat (mu_shard m) + 1 \<and>
     s' = (apply_content m s)\<lparr>so_watermarks := (so_watermarks s)[unat (mu_shard m) := mu_seq m]\<rparr>"
  by (auto simp: apply_committed_mutation_def Let_def rbind_eq_Inr vec_index_eq_Inr not_le
      split: if_splits)

lemma apply_committed_shape:
  assumes "source_shape s" and "apply_committed_mutation m s = Inr s'"
    and "so_watermarks s ! unat (mu_shard m) < mu_seq m"
  shows "source_shape s'"
  using assms
  by (auto simp: source_shape_def apply_committed_mutation_ok apply_content_ok
      intro: index_covered_advance)

lemma record_mutation_shape:
  assumes "source_shape s" and "covered (so_watermarks s) m"
  shows "source_shape (record_mutation m s)"
  using assms
  by (simp add: source_shape_def record_mutation_def push_mutation_def wf_intros)

text \<open>The history grows by the mutation that moves the watermark.\<close>

lemma history_ok_push:
  assumes "history_ok n cs ws ms" and "mu_shard m < n"
    and "mu_seq m = ws ! unat (mu_shard m) + 1" and "mu_seq m \<noteq> 0"
  shows "history_ok n cs (ws[unat (mu_shard m) := mu_seq m]) (ms @ [m])"
proof -
  let ?i = "unat (mu_shard m)"
  have i: "?i < unat n" using assms(2) by (simp add: word_less_nat_alt)
  have w: "ws ! ?i \<noteq> - 1" using assms(3,4) by auto
  then have lt: "ws ! ?i < mu_seq m" using assms(3) by (simp add: u64_succ_gt)
  have len: "length ws = unat n" and c: "cs ! ?i \<le> ws ! ?i"
    and run: "seqs_of j ms = seq_run (cs ! unat j) (ws ! unat j)" if "j < n" for j
    using assms(1) i that by (auto simp: history_ok_def)
  have "seqs_of j (ms @ [m]) = seq_run (cs ! unat j) (ws[?i := mu_seq m] ! unat j)" if j: "j < n" for j
  proof (cases "j = mu_shard m")
    case True
    with run [OF j] len [OF j] c [OF j] i w assms(3) show ?thesis
      by (simp add: seqs_of_append seq_run_snoc) (simp add: seqs_of_def)
  next
    case False
    then have "unat j \<noteq> ?i" by (metis word_unat_eq_iff)
    with False run [OF j] show ?thesis by (simp add: seqs_of_def)
  qed
  moreover have "cs ! j \<le> ws[?i := mu_seq m] ! j" if "j < unat n" for j
    using assms(1) lt that by (cases "j = ?i") (auto simp: history_ok_def intro: order_trans)
  ultimately show ?thesis
    using assms(1,2) by (simp add: history_ok_def ball_Un)
qed

section \<open>Replicated mutations\<close>

lemma apply_replicated_cases:
  assumes "apply_replicated_mutation m s = Inr (s', st)"
  obtains (duplicate) "st = DuplicateOrOld" and "s' = s" and "hm_get (so_op_index s) (mu_op_id m) = Some m"
  | (old) "st = DuplicateOrOld" and "s' = s" and "mu_shard m < so_shard_count s"
      and "unat (mu_shard m) < length (so_watermarks s)"
      and "mu_seq m \<le> so_watermarks s ! unat (mu_shard m)" and "m \<in> set (so_mutations s)"
  | (fresh) t where "st = Applied" and "hm_get (so_op_index s) (mu_op_id m) = None"
      and "so_watermarks s ! unat (mu_shard m) < mu_seq m"
      and "apply_committed_mutation m s = Inr t" and "s' = record_mutation m t"
  using assms
  by (auto simp: apply_replicated_mutation_def rbind_eq_Inr vec_index_eq_Inr list_ex_iff not_le
      split: option.splits if_splits)

lemma committed_covered:
  "apply_committed_mutation m s = Inr t \<Longrightarrow> covered (so_watermarks t) m"
  by (auto simp: apply_committed_mutation_ok covered_def)

lemma apply_replicated_shape:
  assumes "source_shape s" and "apply_replicated_mutation m s = Inr (s', st)"
  shows "source_shape s'"
  using assms(2)
proof (cases rule: apply_replicated_cases)
  case (fresh t)
  with apply_committed_shape [OF assms(1)] show ?thesis
    by (auto intro: record_mutation_shape committed_covered)
qed (use assms(1) in auto)

lemma record_committed_ok:
  assumes "source_ok s" and "apply_committed_mutation m s = Inr t" and "mu_seq m \<noteq> 0"
  shows "source_ok (record_mutation m t)"
proof -
  from assms(2) have c: "mu_shard m < so_shard_count s"
    "mu_seq m = so_watermarks s ! unat (mu_shard m) + 1"
    "so_watermarks t = (so_watermarks s)[unat (mu_shard m) := mu_seq m]"
    "so_compacted t = so_compacted s" "so_mutations t = so_mutations s"
    "so_shard_count t = so_shard_count s"
    by (auto simp: apply_committed_mutation_ok)
  then have "so_watermarks s ! unat (mu_shard m) \<noteq> - 1" using assms(3) by auto
  then have lt: "so_watermarks s ! unat (mu_shard m) < mu_seq m" using c(2) by (simp add: u64_succ_gt)
  have "source_shape (record_mutation m t)"
    using apply_committed_shape [OF source_ok_shape [OF assms(1)] assms(2) lt]
      committed_covered [OF assms(2)] by (rule record_mutation_shape)
  moreover have "history_ok (so_shard_count s) (so_compacted s)
      ((so_watermarks s)[unat (mu_shard m) := mu_seq m]) (so_mutations s @ [m])"
    using assms(1,3) c by (intro history_ok_push) (simp_all add: source_ok_def)
  ultimately show ?thesis
    using assms(1) c by (simp add: source_ok_def record_mutation_def push_mutation_def)
qed

lemma apply_replicated_ok:
  assumes "source_ok s" and "apply_replicated_mutation m s = Inr (s', st)"
  shows "source_ok s'"
  using assms(2)
proof (cases rule: apply_replicated_cases)
  case (fresh t)
  then have "mu_seq m \<noteq> 0" by auto
  with fresh show ?thesis using record_committed_ok [OF assms(1)] by blast
qed (use assms(1) in auto)

interpretation source_replica:
  sequenced_replica source_shape so_watermarks apply_replicated_mutation source_view
proof unfold_locales
  fix s s' :: source and m :: mutation and st
  assume s: "source_shape s"
  show "source_shape s'" if "apply_replicated_mutation m s = Inr (s', st)"
    by (rule apply_replicated_shape [OF s that])
  show "unat (mu_shard m) < length (so_watermarks s) \<and> so_watermarks s ! unat (mu_shard m) < mu_seq m \<and>
      mu_seq m = so_watermarks s ! unat (mu_shard m) + 1 \<and>
      so_watermarks s' = (so_watermarks s)[unat (mu_shard m) := mu_seq m]"
    if "apply_replicated_mutation m s = Inr (s', Applied)"
    using that
    by (cases rule: apply_replicated_cases)
      (auto simp: apply_committed_mutation_ok record_mutation_def push_mutation_def)
  show "s' = s \<and> unat (mu_shard m) < length (so_watermarks s) \<and>
      mu_seq m \<le> so_watermarks s ! unat (mu_shard m)"
    if "apply_replicated_mutation m s = Inr (s', DuplicateOrOld)"
    using that
  proof (cases rule: apply_replicated_cases)
    case duplicate
    with s have "covered (so_watermarks s) m" by (auto simp: source_shape_def index_covered_def)
    with duplicate show ?thesis by (simp add: covered_def)
  qed auto
  show "av_watermarks (source_view s) = so_watermarks s" by (simp add: source_view_def)
  show "source_view s' = view_apply m (source_view s)"
    if "apply_replicated_mutation m s = Inr (s', Applied)"
    using that
  proof (cases rule: apply_replicated_cases)
    case (fresh t)
    then show ?thesis
      using view_apply_content [where m = m and s = s]
      by (simp add: apply_committed_mutation_ok source_view_def record_mutation_def push_mutation_def)
  qed auto
qed

section \<open>Loading\<close>

text \<open>While a state is being loaded, the history reaches up to \<open>expected\<close>, and the index may hold
  mutations of the idempotency list that are not covered yet.\<close>

definition loading :: "u16 \<Rightarrow> u64 list \<Rightarrow> mutation set \<Rightarrow> u64 list \<Rightarrow> source \<Rightarrow> bool" where
  "loading n cs I expected s \<longleftrightarrow>
     so_shard_count s = n \<and> so_compacted s = cs \<and> length (so_watermarks s) = unat n \<and>
     entries_ok (so_entries s) \<and> rules_ok (so_rules s) \<and> index_ok (so_op_index s) \<and>
     (\<forall>k m. hm_get (so_op_index s) k = Some m \<longrightarrow> m \<in> I \<or> covered (so_watermarks s) m) \<and>
     history_ok n cs expected (so_mutations s) \<and>
     (\<forall>i < unat n. expected ! i \<le> so_watermarks s ! i)"

lemma loading_source_ok:
  assumes "loading n cs I (so_watermarks s) s" and "0 < n"
    and "\<forall>m \<in> I. covered (so_watermarks s) m"
  shows "source_ok s"
  using assms
  by (auto simp: loading_def source_ok_def source_shape_def index_covered_def)

lemma insert_op_index_cases:
  assumes "insert_op_index m s = Inr s'"
  obtains (known) "hm_get (so_op_index s) (mu_op_id m) = Some m" and "s' = s"
  | (added) "hm_get (so_op_index s) (mu_op_id m) = None"
      and "s' = s\<lparr>so_op_index := hm_insert (mu_op_id m) m (so_op_index s)\<rparr>"
  using assms by (auto simp: insert_op_index_def split: option.splits if_splits)

lemma loading_insert_index:
  assumes "loading n cs I expected s" and "insert_op_index m s = Inr s'"
    and "m \<in> I \<or> covered (so_watermarks s) m"
  shows "loading n cs I expected s'"
  using assms(2)
proof (cases rule: insert_op_index_cases)
  case known
  with assms(1) show ?thesis by simp
next
  case added
  with assms(1,3) show ?thesis by (auto simp: loading_def index_ok_insert split: if_splits)
qed

lemma loading_index_all:
  assumes "rfold insert_op_index ms s = Inr s'" and "loading n cs I expected s" and "set ms \<subseteq> I"
  shows "loading n cs I expected s' \<and> so_watermarks s' = so_watermarks s"
  using assms(1)
proof (rule rfold_invariant [where I = "\<lambda>t. loading n cs I expected t \<and> so_watermarks t = so_watermarks s"])
  show "loading n cs I expected s \<and> so_watermarks s = so_watermarks s" using assms(2) by simp
  fix m t t'
  assume "m \<in> set ms" and "loading n cs I expected t \<and> so_watermarks t = so_watermarks s"
    and ins: "insert_op_index m t = Inr t'"
  then have "loading n cs I expected t'" using assms(3) loading_insert_index by blast
  moreover from ins have "so_watermarks t' = so_watermarks t"
    by (cases rule: insert_op_index_cases) auto
  ultimately show "loading n cs I expected t' \<and> so_watermarks t' = so_watermarks s"
    using \<open>loading n cs I expected t \<and> _\<close> by simp
qed

lemma loading_committed:
  assumes "loading n cs I expected s" and "apply_committed_mutation m s = Inr t"
    and "so_watermarks s ! unat (mu_shard m) < mu_seq m"
  shows "loading n cs I expected t"
proof -
  from assms(2) have t: "t = (apply_content m s)\<lparr>so_watermarks := (so_watermarks s)[unat (mu_shard m) := mu_seq m]\<rparr>"
    by (simp add: apply_committed_mutation_ok)
  have "covered (so_watermarks t) x" if "covered (so_watermarks s) x" for x
    using covered_advance [OF that] assms(3) t by simp
  moreover have "expected ! i \<le> so_watermarks t ! i" if "i < unat n" for i
    using assms(1,3) that t by (cases "i = unat (mu_shard m)") (auto simp: loading_def intro: order_trans)
  ultimately show ?thesis
    using assms(1) t by (auto simp: loading_def apply_content_ok)
qed

lemma loading_push:
  assumes "loading n cs I expected s" and "mu_shard m < n"
    and "mu_seq m = expected ! unat (mu_shard m) + 1" and "mu_seq m \<noteq> 0"
    and "mu_seq m \<le> so_watermarks s ! unat (mu_shard m)"
  shows "loading n cs I (expected[unat (mu_shard m) := mu_seq m]) (push_mutation m s)"
proof -
  have "history_ok n cs (expected[unat (mu_shard m) := mu_seq m]) (so_mutations s @ [m])"
    using assms by (intro history_ok_push) (simp_all add: loading_def)
  moreover have "expected[unat (mu_shard m) := mu_seq m] ! i \<le> so_watermarks s ! i" if "i < unat n" for i
    using assms(1,5) that by (cases "i = unat (mu_shard m)") (auto simp: loading_def history_ok_def)
  ultimately show ?thesis
    using assms(1) by (simp add: loading_def push_mutation_def)
qed

lemma insert_op_index_frame:
  assumes "insert_op_index m s = Inr s'"
  shows "so_watermarks s' = so_watermarks s" "so_shard_count s' = so_shard_count s"
  using assms by (cases rule: insert_op_index_cases; simp)+

lemma loading_loaded:
  assumes L: "loading n cs I expected s" and ap: "apply_loaded_mutation m s = Inr s'"
    and "expected ! unat (mu_shard m) = so_watermarks s ! unat (mu_shard m)" and nz: "mu_seq m \<noteq> 0"
  shows "loading n cs I (expected[unat (mu_shard m) := mu_seq m]) s' \<and>
         so_watermarks s' = (so_watermarks s)[unat (mu_shard m) := mu_seq m]"
proof -
  from ap obtain t u where t: "apply_committed_mutation m s = Inr t"
    and u: "insert_op_index m t = Inr u" and s': "s' = push_mutation m u"
    by (auto simp: apply_loaded_mutation_def rbind_eq_Inr)
  have c: "mu_shard m < so_shard_count s" "unat (mu_shard m) < length (so_watermarks s)"
    "mu_seq m = so_watermarks s ! unat (mu_shard m) + 1"
    "so_watermarks t = (so_watermarks s)[unat (mu_shard m) := mu_seq m]"
    using t by (auto simp: apply_committed_mutation_ok)
  then have "so_watermarks s ! unat (mu_shard m) \<noteq> - 1" using nz by auto
  then have "so_watermarks s ! unat (mu_shard m) < mu_seq m" using c(3) by (simp add: u64_succ_gt)
  from loading_committed [OF L t this] have "loading n cs I expected t" .
  from loading_insert_index [OF this u] committed_covered [OF t]
  have Lu: "loading n cs I expected u" by simp
  have "loading n cs I (expected[unat (mu_shard m) := mu_seq m]) s'"
    unfolding s' using Lu c assms(3) nz L insert_op_index_frame [OF u]
    by (intro loading_push) (auto simp: loading_def)
  then show ?thesis using c insert_op_index_frame [OF u] by (simp add: s' push_mutation_def)
qed

lemma loading_loaded_all:
  assumes "rfold apply_loaded_mutation ms s = Inr s'" and "loading n cs I (so_watermarks s) s"
    and "\<forall>m \<in> set ms. mu_seq m \<noteq> 0"
  shows "loading n cs I (so_watermarks s') s'"
  using assms(1)
proof (rule rfold_invariant [where I = "\<lambda>t. loading n cs I (so_watermarks t) t"])
  fix m t t'
  assume "m \<in> set ms" and "loading n cs I (so_watermarks t) t" and "apply_loaded_mutation m t = Inr t'"
  with loading_loaded [of n cs I "so_watermarks t" t m t'] assms(3)
  show "loading n cs I (so_watermarks t') t'" by simp
qed (rule assms(2))

lemma max_1_pos: "0 < max (n::u16) 1"
  by (simp add: max_def word_le_nat_alt word_less_nat_alt)

lemma history_ok_start: "length ws = unat n \<Longrightarrow> history_ok n ws ws []"
  by (simp add: history_ok_def seqs_of_def)

lemma loading_new: "loading (max n 1) (replicate (unat (max n 1)) 0) I
    (so_watermarks (source_new n region)) (source_new n region)"
  by (simp add: loading_def source_new_def Let_def history_ok_start)

lemma source_new_ok: "source_ok (source_new n region)"
  using loading_source_ok [OF loading_new max_1_pos, where I = "{}"] by simp

lemma source_from_mutations_ok:
  assumes "source_from_mutations n region ms = Inr s" and "\<forall>m \<in> set ms. mu_seq m \<noteq> 0"
  shows "source_ok s"
  using loading_source_ok [OF loading_loaded_all [OF assms(1)[unfolded source_from_mutations_def]
      loading_new] max_1_pos, where I = "{}"] assms(2)
  by simp

lemma snapshot_validate_ok:
  "snapshot_validate sn = Inr () \<longleftrightarrow>
     length (sn_watermarks sn) = unat (sn_shard_count sn) \<and>
     (\<forall>e \<in> set (sn_entries sn). de_shard_id e < sn_shard_count sn) \<and>
     (\<forall>r \<in> set (sn_rules sn). re_shard_id r < sn_shard_count sn)"
  by (auto simp: snapshot_validate_def list_ex_iff simp flip: not_le split: if_splits)

lemma loading_with_snapshot:
  assumes "length (sn_watermarks sn) = unat n" and "0 < n" and "length cs = unat n"
    and "\<forall>i < unat n. cs ! i \<le> sn_watermarks sn ! i"
  shows "loading n cs I cs (source_with_snapshot n region sn cs)"
proof -
  have "1 \<le> n" using inc_le [OF assms(2)] by simp
  then have "max n 1 = n" by (simp add: max_absorb1)
  with assms show ?thesis
    by (simp add: loading_def source_with_snapshot_def source_new_def Let_def entries_ok_put
        rules_ok_put history_ok_start)
qed

lemma source_from_snapshot_ok:
  assumes load: "source_from_snapshot_and_mutations n region sn idem ms = Inr s"
    and n: "0 < n" and nz: "\<forall>m \<in> set ms. mu_seq m \<noteq> 0"
    and cov: "\<forall>m \<in> set idem. covered (so_watermarks s) m"
  shows "source_ok s"
proof -
  let ?s0 = "source_with_snapshot n region sn (sn_watermarks sn)"
  from load obtain t where len: "length (sn_watermarks sn) = unat n"
    and t: "rfold insert_op_index idem ?s0 = Inr t"
    and s: "rfold apply_loaded_mutation (sort_by compare_mutations ms) t = Inr s"
    by (auto simp: source_from_snapshot_and_mutations_def rbind_eq_Inr snapshot_validate_ok
        split: if_splits)
  have "loading n (sn_watermarks sn) (set idem) (sn_watermarks sn) ?s0"
    using len n by (intro loading_with_snapshot) auto
  moreover have "so_watermarks ?s0 = sn_watermarks sn"
    by (simp add: source_with_snapshot_def Let_def)
  ultimately have "loading n (sn_watermarks sn) (set idem) (so_watermarks t) t"
    using loading_index_all [OF t] by simp
  then show ?thesis
    using loading_source_ok [OF loading_loaded_all [OF s] n cov] nz by simp
qed

text \<open>Loops over an indexed vector.\<close>

lemma check_loop:
  assumes "rfold (\<lambda>(i, c) _. rbind (vec_index ws i) (\<lambda>w. if P i c w then Inl (err i c w) else Inr ()))
             (enumerate k cs) () = Inr ()" and "j < length cs"
  shows "k + j < length ws \<and> \<not> P (k + j) (cs ! j) (ws ! (k + j))"
  using assms
proof (induction cs arbitrary: k j)
  case Nil
  then show ?case by simp
next
  case (Cons c cs)
  then show ?case
    by (cases j) (force simp: rbind_eq_Inr vec_index_eq_Inr split: if_splits)+
qed

lemma check_bounded_ok:
  "check_bounded cs ws = Inr () \<Longrightarrow> j < length cs \<Longrightarrow> j < length ws \<and> cs ! j \<le> ws ! j"
  using check_loop [of ws "\<lambda>_ c w. w < c" "\<lambda>_ _ _. InvalidData" 0 cs j]
  by (simp add: check_bounded_def not_less)

lemma check_replayed_ok:
  "check_replayed es ws = Inr () \<Longrightarrow> j < length es \<Longrightarrow> j < length ws \<and> ws ! j \<le> es ! j"
  using check_loop [of ws "\<lambda>_ e w. e < w" "\<lambda>i e w. Gap (word_of_nat i) (e + 1) w" 0 es j]
  by (simp add: check_replayed_def not_less)

lemma retain_step_loading:
  assumes step: "retain_step n m (s, es) = Inr (s', es')" and L: "loading n cs I es s"
    and I: "m \<in> I" and nz: "mu_seq m \<noteq> 0"
  shows "loading n cs I es' s'"
proof -
  let ?i = "unat (mu_shard m)"
  from step have m: "mu_shard m < n" "?i < length es" "mu_seq m = es ! ?i + 1"
    and es': "es' = es[?i := mu_seq m]"
    and cases: "if mu_seq m \<le> so_watermarks s ! ?i
       then \<exists>t. insert_op_index m s = Inr t \<and> s' = push_mutation m t
       else apply_loaded_mutation m s = Inr s'"
    by (auto simp: retain_step_def Let_def rbind_eq_Inr vec_index_eq_Inr not_le split: if_splits)
  show ?thesis
  proof (cases "mu_seq m \<le> so_watermarks s ! ?i")
    case True
    with cases obtain t where t: "insert_op_index m s = Inr t" "s' = push_mutation m t" by auto
    have "loading n cs I es t" by (rule loading_insert_index [OF L t(1)]) (use I in simp)
    then show ?thesis
      unfolding t(2) es' using m nz True insert_op_index_frame [OF t(1)]
      by (intro loading_push) auto
  next
    case False
    with cases have ap: "apply_loaded_mutation m s = Inr s'" by simp
    have i: "?i < unat n" using m(1) by (simp add: word_less_nat_alt)
    then have "es ! ?i \<le> so_watermarks s ! ?i" using L by (simp add: loading_def)
    moreover have "es ! ?i \<noteq> - 1" using m(3) nz by auto
    ultimately have "es ! ?i = so_watermarks s ! ?i"
      using False m(3) inc_le [of "es ! ?i" "so_watermarks s ! ?i"] by (auto simp: le_less)
    with loading_loaded [OF L ap _ nz] show ?thesis by (simp add: es')
  qed
qed

lemma retain_all_loading:
  assumes "rfold (retain_step n) ms (s, es) = Inr (s', es')" and "loading n cs I es s"
    and "set ms \<subseteq> I" and "\<forall>m \<in> set ms. mu_seq m \<noteq> 0"
  shows "loading n cs I es' s'"
proof -
  have "case (s', es') of (t, fs) \<Rightarrow> loading n cs I fs t"
    using assms(1)
    by (rule rfold_invariant [where I = "\<lambda>(t, fs). loading n cs I fs t"])
      (use assms(2-4) in \<open>auto intro: retain_step_loading\<close>)
  then show ?thesis by simp
qed

lemma loading_index_mono:
  assumes "loading n cs I es s" and "\<forall>m \<in> I. m \<in> J \<or> covered (so_watermarks s) m"
  shows "loading n cs J es s"
  using assms unfolding loading_def by blast

lemma seqs_covered:
  assumes "history_ok n cs ws ms" and "m \<in> set ms"
  shows "covered ws m \<and> cs ! unat (mu_shard m) < mu_seq m"
proof -
  have i: "mu_shard m < n" using assms by (simp add: history_ok_def)
  have "mu_seq m \<in> set (seqs_of (mu_shard m) ms)" using assms(2) by (auto simp: seqs_of_def)
  with i assms(1) have "cs ! unat (mu_shard m) < mu_seq m \<and> mu_seq m \<le> ws ! unat (mu_shard m)"
    by (simp add: history_ok_def set_seq_run)
  with i assms(1) show ?thesis by (simp add: covered_def history_ok_def word_less_nat_alt)
qed

lemma push_in_mutations:
  "rfold (retain_step n) ms (s, es) = Inr (s', es') \<Longrightarrow>
   set (so_mutations s) \<union> set ms \<subseteq> set (so_mutations s')"
proof (induction ms arbitrary: s es)
  case Nil
  then show ?case by simp
next
  case (Cons m ms)
  then obtain t fs where t: "retain_step n m (s, es) = Inr (t, fs)"
    and ts: "rfold (retain_step n) ms (t, fs) = Inr (s', es')"
    by (auto simp: rbind_eq_Inr)
  have ins: "so_mutations u = so_mutations v" if "insert_op_index m v = Inr u" for u v
    using that by (cases rule: insert_op_index_cases) auto
  have "so_mutations t = so_mutations s @ [m]"
    using t ins
    by (auto simp: retain_step_def Let_def rbind_eq_Inr apply_loaded_mutation_def push_mutation_def
        apply_committed_mutation_ok split: if_splits)
  with Cons.IH [OF ts] show ?case by auto
qed

lemma source_from_retained_ok:
  assumes load: "source_from_snapshot_and_retained_history n region sn idem ms cs = Inr s"
    and n: "0 < n" and nz: "\<forall>m \<in> set ms. mu_seq m \<noteq> 0"
    and cov: "\<forall>m \<in> set idem. covered (so_watermarks s) m"
  shows "source_ok s"
proof -
  let ?s0 = "source_with_snapshot n region sn cs" and ?I = "set idem \<union> set ms"
  let ?ms = "sort_by compare_mutations ms"
  from load obtain t es where len: "length (sn_watermarks sn) = unat n" "length cs = unat n"
    and b: "check_bounded cs (sn_watermarks sn) = Inr ()"
    and t: "rfold insert_op_index idem ?s0 = Inr t"
    and s: "rfold (retain_step n) ?ms (t, cs) = Inr (s, es)"
    and r: "check_replayed es (so_watermarks s) = Inr ()"
    by (auto simp: source_from_snapshot_and_retained_history_def rbind_eq_Inr snapshot_validate_ok
        split: if_splits)
  have "loading n cs ?I cs ?s0"
    using len n check_bounded_ok [OF b] by (intro loading_with_snapshot) auto
  then have "loading n cs ?I cs t" using loading_index_all [OF t] by simp
  with s have L: "loading n cs ?I es s" by (rule retain_all_loading) (use nz in auto)
  have "es ! i = so_watermarks s ! i" if "i < unat n" for i
    using L that check_replayed_ok [OF r, of i] by (auto simp: loading_def history_ok_def)
  then have es: "es = so_watermarks s"
    using L by (intro nth_equalityI) (auto simp: loading_def history_ok_def)
  have "\<forall>m \<in> set ms. covered (so_watermarks s) m"
    using push_in_mutations [OF s] L seqs_covered unfolding loading_def es by fastforce
  with cov have "\<forall>m \<in> ?I. covered (so_watermarks s) m" by auto
  with L n show ?thesis unfolding es by (rule loading_source_ok)
qed

section \<open>Compaction and repair from history\<close>

lemma rfilter_ok:
  "rfilter p xs = Inr ys \<Longrightarrow>
     (\<forall>x \<in> set xs. \<exists>b. p x = Inr b) \<and> ys = filter (\<lambda>x. p x = Inr True) xs"
  by (induction xs arbitrary: ys) (auto simp: rbind_eq_Inr)

lemma raise_loop:
  "rfold (\<lambda>(i, c) cs. rbind (vec_index cs i) (\<lambda>x. Inr (cs[i := max x c]))) (enumerate k ws) cs = Inr cs'
   \<Longrightarrow> length cs' = length cs \<and>
       (\<forall>j < length cs. cs' ! j = (if k \<le> j \<and> j < k + length ws then max (cs ! j) (ws ! (j - k)) else cs ! j))"
proof (induction ws arbitrary: k cs)
  case Nil
  then show ?case by auto
next
  case (Cons w ws)
  then have k: "k < length cs"
    and r: "rfold (\<lambda>(i, c) cs. rbind (vec_index cs i) (\<lambda>x. Inr (cs[i := max x c]))) (enumerate (Suc k) ws)
       (cs[k := max (cs ! k) w]) = Inr cs'"
    by (auto simp: rbind_eq_Inr vec_index_eq_Inr)
  from Cons.IH [OF r] have IH: "length cs' = length cs"
    "\<And>j. j < length cs \<Longrightarrow> cs' ! j = (if Suc k \<le> j \<and> j < Suc k + length ws
        then max (cs[k := max (cs ! k) w] ! j) (ws ! (j - Suc k)) else cs[k := max (cs ! k) w] ! j)"
    by simp_all
  have "cs' ! j = (if k \<le> j \<and> j < k + length (w # ws) then max (cs ! j) ((w # ws) ! (j - k)) else cs ! j)"
    if "j < length cs" for j
    using IH(2) [OF that] k that by (cases "j = k") (auto simp: nth_Cons')
  with IH(1) show ?case by simp
qed

lemma raise_compacted_ok:
  assumes "raise_compacted ws cs = Inr cs'" and "length ws = length cs"
  shows "length cs' = length cs \<and> (\<forall>j < length cs. cs' ! j = max (cs ! j) (ws ! j))"
  using raise_loop [of 0 ws cs cs'] assms by (simp add: raise_compacted_def)

lemma compact_history_ok:
  assumes "source_ok s" and "compact_mutation_history ws s = Inr s'"
  shows "source_ok s'" and "source_view s' = source_view s" and "so_op_index s' = so_op_index s"
proof -
  let ?n = "so_shard_count s"
  from assms(2) obtain ms cs where len: "length ws = unat ?n"
    and b: "check_bounded ws (so_watermarks s) = Inr ()"
    and ms: "rfilter (\<lambda>m. rbind (vec_index ws (unat (mu_shard m))) (\<lambda>w. Inr (w < mu_seq m)))
               (so_mutations s) = Inr ms"
    and cs: "raise_compacted ws (so_compacted s) = Inr cs"
    and s': "s' = s\<lparr>so_mutations := ms, so_compacted := cs\<rparr>"
    by (auto simp: compact_mutation_history_def rbind_eq_Inr split: if_splits)
  have H: "history_ok ?n (so_compacted s) (so_watermarks s) (so_mutations s)"
    using assms(1) by (simp add: source_ok_def)
  then have cs_len: "length cs = unat ?n"
    and cs_nth: "\<And>j. j < unat ?n \<Longrightarrow> cs ! j = max (so_compacted s ! j) (ws ! j)"
    using raise_compacted_ok [OF cs] len by (auto simp: history_ok_def)
  have ms_filter: "ms = filter (\<lambda>m. ws ! unat (mu_shard m) < mu_seq m) (so_mutations s)"
    using rfilter_ok [OF ms] by (auto simp: rbind_eq_Inr vec_index_eq_Inr intro!: filter_cong)
  have "seqs_of i ms = seq_run (cs ! unat i) (so_watermarks s ! unat i)" if i: "i < ?n" for i
  proof -
    have i': "unat i < unat ?n" using i by (simp add: word_less_nat_alt)
    have run: "seqs_of i (so_mutations s) = seq_run (so_compacted s ! unat i) (so_watermarks s ! unat i)"
      and le: "so_compacted s ! unat i \<le> so_watermarks s ! unat i" "ws ! unat i \<le> so_watermarks s ! unat i"
      using H i i' check_bounded_ok [OF b, of "unat i"] len by (auto simp: history_ok_def)
    have "seqs_of i ms = filter (\<lambda>x. ws ! unat i < x) (seqs_of i (so_mutations s))"
      by (simp add: ms_filter seqs_of_def filter_map o_def conj_commute cong: conj_cong)
    also have "\<dots> = filter (\<lambda>x. cs ! unat i < x) (seq_run (so_compacted s ! unat i) (so_watermarks s ! unat i))"
      unfolding run by (rule filter_cong) (auto simp: cs_nth [OF i'] set_seq_run)
    also have "\<dots> = seq_run (cs ! unat i) (so_watermarks s ! unat i)"
      using le by (intro seq_run_drop) (auto simp: cs_nth [OF i'])
    finally show ?thesis .
  qed
  moreover have "\<forall>i < unat ?n. cs ! i \<le> so_watermarks s ! i"
    using H check_bounded_ok [OF b] len by (auto simp: history_ok_def cs_nth)
  ultimately have "history_ok ?n cs (so_watermarks s) ms"
    using H cs_len by (auto simp: history_ok_def ms_filter)
  then show "source_ok s'" using assms(1) by (simp add: s' source_ok_def source_shape_def)
  show "source_view s' = source_view s" "so_op_index s' = so_op_index s"
    by (simp_all add: s' source_view_def)
qed

text \<open>A consumer whose position is not compacted gets every later mutation of the shard, in order.\<close>

lemma history_answer:
  assumes "source_ok s" and "i < so_shard_count s" and "mutation_history_compacted s i from = None"
    and "from \<le> so_watermarks s ! unat i"
  shows "map mu_seq (source_mutations_for_shard s i from) = seq_run from (so_watermarks s ! unat i)"
proof -
  have i': "unat i < unat (so_shard_count s)" using assms(2) by (simp add: word_less_nat_alt)
  with assms(1,3) have c: "so_compacted s ! unat i \<le> from"
    by (auto simp: mutation_history_compacted_def vec_get_def source_ok_def history_ok_def not_less
        split: if_splits)
  have "map mu_seq (source_mutations_for_shard s i from) =
        filter (\<lambda>x. from < x) (seqs_of i (so_mutations s))"
    by (simp add: source_mutations_for_shard_def seqs_of_def filter_map o_def conj_commute)
  also have "\<dots> = filter (\<lambda>x. from < x) (seq_run (so_compacted s ! unat i) (so_watermarks s ! unat i))"
    using assms(1,2) by (simp add: source_ok_def history_ok_def)
  also have "\<dots> = seq_run from (so_watermarks s ! unat i)"
    using c assms(4) by (rule seq_run_drop)
  finally show ?thesis .
qed

end
