(* ===== verification/Restore.thy ===== *)
theory Restore
  imports Source_Correct
begin

text \<open>
  Rolling the source of truth back to a snapshot: \<open>SourceOfTruth::restore_snapshot\<close>,
  \<open>commit_entry_direct\<close>, \<open>commit_rule_direct\<close> (\<open>source.rs\<close>) and \<open>next_restore_op_id\<close>
  (\<open>rules.rs\<close>).  \<open>clock i\<close> is the time read for the \<open>i\<close>-th mutation of the rollback.

  Results: the search for a fresh operation id ends and returns the first free one; a rollback
  leaves, for every key, exactly the content of the snapshot up to the commit stamps; it keeps
  the invariant; replaying the mutations it returns on any view gives the view it reached.
\<close>

section \<open>Fresh operation ids\<close>

definition restore_op_id :: "string \<Rightarrow> nat \<Rightarrow> string" where
  "restore_op_id op_prefix index = op_prefix @ ''-'' @ pad_dec 6 index"

lemma restore_op_id_inj: "restore_op_id p i = restore_op_id p j \<longleftrightarrow> i = j"
  by (simp add: restore_op_id_def pad_dec_inj)

lemma finite_taken: "finite {i. k \<le> i \<and> hm_contains ix (restore_op_id p i)}"
proof -
  have "restore_op_id p ` {i. k \<le> i \<and> hm_contains ix (restore_op_id p i)} \<subseteq> set (hm_keys ix)"
    by (auto simp: hm_contains_iff)
  then show ?thesis
    by (rule finite_imageD [OF finite_subset [OF _ finite_set]])
      (simp add: inj_on_def restore_op_id_inj)
qed

function next_restore_op_id :: "(string, mutation) hashmap \<Rightarrow> string \<Rightarrow> nat \<Rightarrow> string" where
  "next_restore_op_id op_index op_prefix index =
     (let candidate = restore_op_id op_prefix index in
      if \<not> hm_contains op_index candidate then candidate
      else next_restore_op_id op_index op_prefix (index + 1))"
  by pat_completeness auto
termination
proof (relation "measure (\<lambda>(ix, p, k). card {i. k \<le> i \<and> hm_contains ix (restore_op_id p i)})",
    goal_cases)
  case (2 ix p k c)
  then have "{i. Suc k \<le> i \<and> hm_contains ix (restore_op_id p i)}
      \<subset> {i. k \<le> i \<and> hm_contains ix (restore_op_id p i)}"
    by (auto simp: Suc_le_eq)
  then show ?case by (simp add: psubset_card_mono finite_taken)
qed simp

declare next_restore_op_id.simps [simp del]

lemma next_restore_op_id_fresh:
  "\<not> hm_contains ix (next_restore_op_id ix p k) \<and>
   (\<exists>i \<ge> k. next_restore_op_id ix p k = restore_op_id p i \<and>
      (\<forall>j. k \<le> j \<and> j < i \<longrightarrow> hm_contains ix (restore_op_id p j)))"
proof (induction ix p k rule: next_restore_op_id.induct)
  case (1 ix p k)
  show ?case
  proof (cases "hm_contains ix (restore_op_id p k)")
    case True
    with 1 obtain i where i: "Suc k \<le> i" "next_restore_op_id ix p (Suc k) = restore_op_id p i"
      "\<forall>j. Suc k \<le> j \<and> j < i \<longrightarrow> hm_contains ix (restore_op_id p j)"
      "\<not> hm_contains ix (restore_op_id p i)"
      by (metis Suc_eq_plus1)
    then have "\<forall>j. k \<le> j \<and> j < i \<longrightarrow> hm_contains ix (restore_op_id p j)"
      using True by (metis Suc_leI le_neq_implies_less)
    with i True show ?thesis
      by (subst (1 2) next_restore_op_id.simps) (auto simp: Let_def intro!: exI [of _ i])
  next
    case False
    then show ?thesis
      by (subst (1 2) next_restore_op_id.simps) (auto simp: Let_def intro!: exI [of _ k])
  qed
qed

section \<open>Direct commits\<close>

definition direct_commit_id :: "source \<Rightarrow> u16 \<Rightarrow> u64 \<Rightarrow> commit_id" where
  "direct_commit_id s shard_id seq = \<lparr>ci_shard_id = shard_id, ci_seq = seq, ci_epoch = so_epoch s,
     ci_source_region = so_source_region s\<rparr>"

definition direct_entry_mutation :: "u64 \<Rightarrow> string \<Rightarrow> deny_entry \<Rightarrow> source \<Rightarrow> u16 \<Rightarrow> u64 \<Rightarrow> mutation" where
  "direct_entry_mutation now op_id e s shard_id seq =
     \<lparr>mu_op_id = op_id, mu_commit_id = direct_commit_id s shard_id seq,
      mu_entry = e\<lparr>de_shard_id := shard_id, de_commit_seq := seq\<rparr>, mu_rule = None,
      mu_delivery_priority = P0, mu_committed_at_unix = now\<rparr>"

definition commit_entry_direct :: "u64 \<Rightarrow> string \<Rightarrow> deny_entry \<Rightarrow> source \<Rightarrow> (source \<times> mutation) res" where
  "commit_entry_direct now op_id e s =
     (let shard_id = shard_for_hash (de_key_hash e) (so_shard_count s) in
      rbind (vec_index (so_watermarks s) (unat shard_id)) (\<lambda>w.
        let m = direct_entry_mutation now op_id e s shard_id (w + 1)
        in rbind (apply_committed_mutation m s) (\<lambda>s. Inr (record_mutation m s, m))))"

definition direct_rule_mutation :: "u64 \<Rightarrow> string \<Rightarrow> rule_entry \<Rightarrow> source \<Rightarrow> u16 \<Rightarrow> u64 \<Rightarrow> mutation" where
  "direct_rule_mutation now op_id r s shard_id seq =
     \<lparr>mu_op_id = op_id, mu_commit_id = direct_commit_id s shard_id seq,
      mu_entry =
        \<lparr>de_tenant_id = re_tenant_id r, de_namespace = rule_namespace (re_kind r),
         de_key_hash = re_rule_hash r, de_action = re_action r,
         de_priority = re_priority r, de_reason_code = re_reason_code r,
         de_expires_at = re_expires_at r, de_created_by = re_created_by r,
         de_commit_seq = seq, de_shard_id = shard_id\<rparr>,
      mu_rule = Some (r\<lparr>re_shard_id := shard_id, re_commit_seq := seq\<rparr>),
      mu_delivery_priority = P0, mu_committed_at_unix = now\<rparr>"

definition commit_rule_direct :: "u64 \<Rightarrow> string \<Rightarrow> rule_entry \<Rightarrow> source \<Rightarrow> (source \<times> mutation) res" where
  "commit_rule_direct now op_id r s =
     (let shard_id = shard_for_hash (re_rule_hash r) (so_shard_count s) in
      rbind (vec_index (so_watermarks s) (unat shard_id)) (\<lambda>w.
        let m = direct_rule_mutation now op_id r s shard_id (w + 1)
        in rbind (apply_committed_mutation m s) (\<lambda>s. Inr (record_mutation m s, m))))"

lemma direct_mutation_content [simp]:
  "mu_rule (direct_entry_mutation now op e s i q) = None"
  "mu_entry (direct_entry_mutation now op e s i q) = e\<lparr>de_shard_id := i, de_commit_seq := q\<rparr>"
  "mu_rule (direct_rule_mutation now op r s i q) = Some (r\<lparr>re_shard_id := i, re_commit_seq := q\<rparr>)"
  by (simp_all add: direct_entry_mutation_def direct_rule_mutation_def)

section \<open>The rollback\<close>

definition rollback_delete_entry :: "deny_entry \<Rightarrow> deny_entry" where
  "rollback_delete_entry e = e\<lparr>de_action := Delete, de_reason_code := ''rollback_delete'',
     de_expires_at := 0, de_created_by := ''globacl-rollback''\<rparr>"

definition rollback_delete_rule :: "rule_entry \<Rightarrow> rule_entry" where
  "rollback_delete_rule r = r\<lparr>re_action := Delete, re_reason_code := ''rollback_delete'',
     re_expires_at := 0, re_created_by := ''globacl-rollback''\<rparr>"

text \<open>One iteration of a rollback loop that commits \<open>x\<close>.\<close>

definition push_direct ::
  "(u64 \<Rightarrow> string \<Rightarrow> 'x \<Rightarrow> source \<Rightarrow> (source \<times> mutation) res) \<Rightarrow> (nat \<Rightarrow> u64) \<Rightarrow> string \<Rightarrow> 'x
   \<Rightarrow> source \<times> mutation list \<Rightarrow> (source \<times> mutation list) res" where
  "push_direct commit clock op_prefix x = (\<lambda>(s, ms).
     rbind (commit (clock (length ms)) (next_restore_op_id (so_op_index s) op_prefix (length ms)) x s)
       (\<lambda>(s, m). Inr (s, ms @ [m])))"

definition delete_entry_step where
  "delete_entry_step clock op_prefix target e st =
     (if \<not> hm_contains (target :: (acl_key, deny_entry) hashmap) (acl_key_of e)
      then push_direct commit_entry_direct clock op_prefix (rollback_delete_entry e) st
      else Inr st)"

definition restore_entry_step where
  "restore_entry_step clock op_prefix e st =
     (if (case hm_get (so_entries (fst st)) (acl_key_of e) of
            Some current \<Rightarrow> \<not> entry_semantically_equal current e | None \<Rightarrow> True)
      then push_direct commit_entry_direct clock op_prefix e st
      else Inr st)"

definition delete_rule_step where
  "delete_rule_step clock op_prefix target r st =
     (if \<not> hm_contains (target :: (rule_key, rule_entry) hashmap) (rule_key_of r)
      then push_direct commit_rule_direct clock op_prefix (rollback_delete_rule r) st
      else Inr st)"

definition restore_rule_step where
  "restore_rule_step clock op_prefix r st =
     (if (case hm_get (so_rules (fst st)) (rule_key_of r) of
            Some current \<Rightarrow> \<not> rule_semantically_equal current r | None \<Rightarrow> True)
      then push_direct commit_rule_direct clock op_prefix r st
      else Inr st)"

definition restore_snapshot ::
  "(nat \<Rightarrow> u64) \<Rightarrow> snapshot \<Rightarrow> string \<Rightarrow> source \<Rightarrow> (source \<times> mutation list) res" where
  "restore_snapshot clock sn op_prefix s =
     (if sn_shard_count sn \<noteq> so_shard_count s then Inl InvalidData
      else
        rbind (snapshot_validate sn) (\<lambda>_.
        let target_entries = put_entries (sn_entries sn) hm_new;
            target_rules = put_rules (sn_rules sn) hm_new
        in
        rbind (rfold (delete_entry_step clock op_prefix target_entries)
                 (sort_by compare_entries_by_key (hm_values (so_entries s))) (s, [])) (\<lambda>st.
        rbind (rfold (restore_entry_step clock op_prefix)
                 (sort_by compare_entries_by_key (hm_values target_entries)) st) (\<lambda>st.
        rbind (rfold (delete_rule_step clock op_prefix target_rules)
                 (sort_by compare_rules_by_key (hm_values (so_rules (fst st)))) st) (\<lambda>st.
          rfold (restore_rule_step clock op_prefix)
                 (sort_by compare_rules_by_key (hm_values target_rules)) st)))))"

section \<open>What a rollback commits\<close>

inductive direct_run :: "source \<Rightarrow> mutation list \<Rightarrow> source \<Rightarrow> bool" where
  direct_nil: "direct_run s [] s"
| direct_snoc: "direct_run s ms s' \<Longrightarrow> apply_committed_mutation m s' = Inr t \<Longrightarrow>
    direct_run s (ms @ [m]) (record_mutation m t)"

lemma direct_run_trans:
  assumes "direct_run s' ns s''" and "direct_run s ms s'"
  shows "direct_run s (ms @ ns) s''"
  using assms
proof (induction rule: direct_run.induct)
  case direct_nil
  then show ?case by simp
next
  case (direct_snoc u ns u' m t)
  then show ?case using direct_run.direct_snoc [of s "ms @ ns" u' m t] by simp
qed

lemma direct_run_mutations: "direct_run s ms s' \<Longrightarrow> so_mutations s' = so_mutations s @ ms"
  by (induction rule: direct_run.induct)
    (auto simp: record_mutation_def push_mutation_def apply_committed_mutation_ok)

lemma record_mutation_frame [simp]:
  "so_entries (record_mutation m s) = so_entries s" "so_rules (record_mutation m s) = so_rules s"
  "so_shard_count (record_mutation m s) = so_shard_count s"
  "so_watermarks (record_mutation m s) = so_watermarks s"
  by (simp_all add: record_mutation_def push_mutation_def)

lemma committed_view: "apply_committed_mutation m s = Inr t \<Longrightarrow>
    source_view (record_mutation m t) = view_apply m (source_view s)"
  using view_apply_content [where m = m and s = s]
  by (simp add: apply_committed_mutation_ok source_view_def)

lemma direct_run_view: "direct_run s ms s' \<Longrightarrow> source_view s' = fold view_apply ms (source_view s)"
  by (induction rule: direct_run.induct) (auto simp: committed_view)

lemma direct_run_ok: "direct_run s ms s' \<Longrightarrow> source_ok s \<Longrightarrow> \<forall>m \<in> set ms. mu_seq m \<noteq> 0 \<Longrightarrow> source_ok s'"
  by (induction rule: direct_run.induct) (auto intro: record_committed_ok)

definition extends :: "source \<times> mutation list \<Rightarrow> source \<times> mutation list \<Rightarrow> bool" where
  "extends st st' \<longleftrightarrow> (\<exists>new. snd st' = snd st @ new \<and> direct_run (fst st) new (fst st'))"

lemma extends_refl: "extends st st"
  unfolding extends_def by (intro exI [of _ "[]"]) (simp add: direct_nil)

lemma extends_trans: "extends st st' \<Longrightarrow> extends st' st'' \<Longrightarrow> extends st st''"
proof -
  assume "extends st st'" and "extends st' st''"
  then obtain ns ms where "snd st' = snd st @ ms" and ms: "direct_run (fst st) ms (fst st')"
    and "snd st'' = snd st' @ ns" and ns: "direct_run (fst st') ns (fst st'')"
    by (auto simp: extends_def)
  with direct_run_trans [OF ns ms] show ?thesis by (auto simp: extends_def)
qed

lemma extends_loop:
  assumes "rfold f xs st = Inr st'" and "\<And>x st st'. f x st = Inr st' \<Longrightarrow> extends st st'"
  shows "extends st st'"
  using assms(1)
  by (rule rfold_invariant [where I = "extends st"])
    (rule extends_refl, rule extends_trans, assumption, rule assms(2))

lemma commit_entry_direct_ok:
  assumes "commit_entry_direct now op e s = Inr (s', m)"
  obtains t shard seq where "apply_committed_mutation m s = Inr t" and "s' = record_mutation m t"
    and "mu_rule m = None" and "mu_entry m = e\<lparr>de_shard_id := shard, de_commit_seq := seq\<rparr>"
proof -
  let ?m = "\<lambda>w. direct_entry_mutation now op e s (shard_for_hash (de_key_hash e) (so_shard_count s)) (w + 1)"
  from assms obtain w t where t: "apply_committed_mutation (?m w) s = Inr t"
    and "(record_mutation (?m w) t, ?m w) = (s', m)"
    unfolding commit_entry_direct_def Let_def rbind_eq_Inr by blast
  then have "s' = record_mutation m t" and m: "m = ?m w" by auto
  with t show thesis by (intro that [of t]) simp_all
qed

lemma commit_rule_direct_ok:
  assumes "commit_rule_direct now op r s = Inr (s', m)"
  obtains t shard seq where "apply_committed_mutation m s = Inr t" and "s' = record_mutation m t"
    and "mu_rule m = Some (r\<lparr>re_shard_id := shard, re_commit_seq := seq\<rparr>)"
proof -
  let ?m = "\<lambda>w. direct_rule_mutation now op r s (shard_for_hash (re_rule_hash r) (so_shard_count s)) (w + 1)"
  from assms obtain w t where t: "apply_committed_mutation (?m w) s = Inr t"
    and "(record_mutation (?m w) t, ?m w) = (s', m)"
    unfolding commit_rule_direct_def Let_def rbind_eq_Inr by blast
  then have "s' = record_mutation m t" and m: "m = ?m w" by auto
  with t show thesis by (intro that [of t]) simp_all
qed

lemma extends_push:
  assumes "push_direct commit clock p x st = Inr st'"
    and "\<And>now op s s' m. commit now op x s = Inr (s', m) \<Longrightarrow>
           \<exists>t. apply_committed_mutation m s = Inr t \<and> s' = record_mutation m t"
  shows "extends st st'"
proof -
  obtain s ms where st: "st = (s, ms)" by fastforce
  with assms(1) obtain now op s' m where c: "commit now op x s = Inr (s', m)" and st': "st' = (s', ms @ [m])"
    by (auto simp: push_direct_def rbind_eq_Inr)
  from assms(2) [OF c] direct_snoc [OF direct_nil] show ?thesis
    by (fastforce simp: extends_def st st')
qed

lemma rollback_steps_extend:
  "delete_entry_step clock p te e st = Inr st' \<Longrightarrow> extends st st'"
  "restore_entry_step clock p e st = Inr st' \<Longrightarrow> extends st st'"
  "delete_rule_step clock p tr r st = Inr st' \<Longrightarrow> extends st st'"
  "restore_rule_step clock p r st = Inr st' \<Longrightarrow> extends st st'"
  by (auto simp: delete_entry_step_def restore_entry_step_def delete_rule_step_def
      restore_rule_step_def extends_refl split: if_splits
      elim!: extends_push commit_entry_direct_ok commit_rule_direct_ok)

lemma restore_snapshot_extends:
  assumes "restore_snapshot clock sn p s = Inr (s', ms)"
  shows "direct_run s ms s'"
proof -
  from assms obtain a b c where
    "rfold (delete_entry_step clock p (put_entries (sn_entries sn) hm_new))
        (sort_by compare_entries_by_key (hm_values (so_entries s))) (s, []) = Inr a"
    "rfold (restore_entry_step clock p)
        (sort_by compare_entries_by_key (hm_values (put_entries (sn_entries sn) hm_new))) a = Inr b"
    "rfold (delete_rule_step clock p (put_rules (sn_rules sn) hm_new))
        (sort_by compare_rules_by_key (hm_values (so_rules (fst b)))) b = Inr c"
    "rfold (restore_rule_step clock p)
        (sort_by compare_rules_by_key (hm_values (put_rules (sn_rules sn) hm_new))) c = Inr (s', ms)"
    by (auto simp: restore_snapshot_def Let_def rbind_eq_Inr split: if_splits)
  then have "extends (s, []) a" "extends a b" "extends b c" "extends c (s', ms)"
    by (auto elim!: extends_loop intro: rollback_steps_extend)
  then have "extends (s, []) (s', ms)" by (blast intro: extends_trans)
  then show ?thesis by (simp add: extends_def)
qed

section \<open>The content after a rollback\<close>

lemma committed_entry_effect:
  assumes "apply_committed_mutation m s = Inr t" and "mu_rule m = None"
  shows "hm_get (so_entries t) = (hm_get (so_entries s))(acl_key_of (mu_entry m) :=
      (if de_action (mu_entry m) = Delete then None else Some (mu_entry m)))"
    and "so_rules t = so_rules s"
  using assms
  by (cases "de_action (mu_entry m)";
      auto simp: apply_committed_mutation_ok apply_content_def Let_def fun_eq_iff)+

lemma committed_rule_effect:
  assumes "apply_committed_mutation m s = Inr t" and "mu_rule m = Some r"
  shows "hm_get (so_rules t) = (hm_get (so_rules s))(rule_key_of r :=
      (if re_action r = Delete then None else Some r))"
    and "so_entries t = so_entries s"
  using assms
  by (cases "re_action r"; auto simp: apply_committed_mutation_ok apply_content_def fun_eq_iff)+

lemma restamped_keys [simp]:
  "acl_key_of (e\<lparr>de_shard_id := a, de_commit_seq := b\<rparr>) = acl_key_of e"
  "acl_key_of (rollback_delete_entry e) = acl_key_of e"
  "rule_key_of (r\<lparr>re_shard_id := a, re_commit_seq := b\<rparr>) = rule_key_of r"
  "rule_key_of (rollback_delete_rule r) = rule_key_of r"
  by (simp_all add: acl_key_of_def rule_key_of_def rollback_delete_entry_def rollback_delete_rule_def)

lemma rollback_delete_action [simp]:
  "de_action (rollback_delete_entry e) = Delete" "re_action (rollback_delete_rule r) = Delete"
  by (simp_all add: rollback_delete_entry_def rollback_delete_rule_def)

lemma restamped_semantics [simp]:
  "entry_semantically_equal (e\<lparr>de_shard_id := a, de_commit_seq := b\<rparr>) e"
  "rule_semantically_equal (r\<lparr>re_shard_id := a, re_commit_seq := b\<rparr>) r"
  by (simp_all add: entry_semantically_equal_def rule_semantically_equal_def)

lemma push_entry_effect:
  assumes "push_direct commit_entry_direct clock p e (s, ms) = Inr (s', ms')"
  shows "\<exists>e'. entry_semantically_equal e' e \<and>
      hm_get (so_entries s') = (hm_get (so_entries s))(acl_key_of e := (if de_action e = Delete then None else Some e'))"
    and "so_rules s' = so_rules s"
proof -
  from assms obtain now op m where "commit_entry_direct now op e s = Inr (s', m)"
    by (auto simp: push_direct_def rbind_eq_Inr)
  then obtain t shard seq where t: "apply_committed_mutation m s = Inr t" "s' = record_mutation m t"
    "mu_rule m = None" and e: "mu_entry m = e\<lparr>de_shard_id := shard, de_commit_seq := seq\<rparr>"
    by (rule commit_entry_direct_ok)
  from committed_entry_effect [OF t(1,3)] t(2) e
  show "\<exists>e'. entry_semantically_equal e' e \<and>
      hm_get (so_entries s') = (hm_get (so_entries s))(acl_key_of e := (if de_action e = Delete then None else Some e'))"
    and "so_rules s' = so_rules s"
    by (auto intro!: exI [of _ "e\<lparr>de_shard_id := shard, de_commit_seq := seq\<rparr>"])
qed

lemma push_rule_effect:
  assumes "push_direct commit_rule_direct clock p r (s, ms) = Inr (s', ms')"
  shows "\<exists>r'. rule_semantically_equal r' r \<and>
      hm_get (so_rules s') = (hm_get (so_rules s))(rule_key_of r := (if re_action r = Delete then None else Some r'))"
    and "so_entries s' = so_entries s"
proof -
  from assms obtain now op m where "commit_rule_direct now op r s = Inr (s', m)"
    by (auto simp: push_direct_def rbind_eq_Inr)
  then obtain t shard seq where t: "apply_committed_mutation m s = Inr t" "s' = record_mutation m t"
    "mu_rule m = Some (r\<lparr>re_shard_id := shard, re_commit_seq := seq\<rparr>)"
    by (rule commit_rule_direct_ok)
  from committed_rule_effect [OF t(1,3)] t(2)
  show "\<exists>r'. rule_semantically_equal r' r \<and>
      hm_get (so_rules s') = (hm_get (so_rules s))(rule_key_of r := (if re_action r = Delete then None else Some r'))"
    and "so_entries s' = so_entries s"
    by (auto intro!: exI [of _ "r\<lparr>re_shard_id := shard, re_commit_seq := seq\<rparr>"])
qed

text \<open>The two kinds of loops, over an arbitrary keyed content.\<close>

lemma delete_loop:
  assumes "rfold f xs st = Inr st'"
    and step: "\<And>x st st'. f x st = Inr st' \<Longrightarrow>
      C st' = (if keep (key x) then C st else (C st)(key x := None)) \<and> D st' = D st"
  shows "(\<forall>k. C st' k = (if k \<in> key ` set xs \<and> \<not> keep k then None else C st k)) \<and> D st' = D st"
  using assms(1)
proof (induction xs arbitrary: st)
  case Nil
  then show ?case by simp
next
  case (Cons x xs)
  then obtain t where t: "f x st = Inr t" and ts: "rfold f xs t = Inr st'"
    by (auto simp: rbind_eq_Inr)
  from step [OF t] Cons.IH [OF ts] show ?case by (auto split: if_splits)
qed

lemma restore_loop:
  assumes "rfold f xs st = Inr st'" and "distinct (map key xs)"
    and step: "\<And>x st st'. x \<in> set xs \<Longrightarrow> f x st = Inr st' \<Longrightarrow>
      (\<exists>y. eqv y x \<and> C st' = (C st)(key x := Some y)) \<and> D st' = D st"
  shows "(\<forall>x \<in> set xs. \<exists>y. eqv y x \<and> C st' (key x) = Some y) \<and>
         (\<forall>k. k \<notin> key ` set xs \<longrightarrow> C st' k = C st k) \<and> D st' = D st"
  using assms
proof (induction xs arbitrary: st)
  case Nil
  then show ?case by simp
next
  case (Cons x xs)
  then obtain t where t: "f x st = Inr t" and ts: "rfold f xs t = Inr st'"
    by (auto simp: rbind_eq_Inr)
  have "(\<exists>y. eqv y x \<and> C t = (C st)(key x := Some y)) \<and> D t = D st"
    by (rule Cons.prems(3) [OF _ t]) simp
  then obtain y where y: "eqv y x" "C t = (C st)(key x := Some y)" "D t = D st"
    by blast
  have IH: "(\<forall>x \<in> set xs. \<exists>y. eqv y x \<and> C st' (key x) = Some y) \<and>
         (\<forall>k. k \<notin> key ` set xs \<longrightarrow> C st' k = C t k) \<and> D st' = D t"
    by (rule Cons.IH [OF ts]) (use Cons.prems in auto)
  have "key x \<notin> key ` set xs" using Cons.prems(2) by simp
  with IH y show ?case by auto
qed

lemma delete_entry_step_effect:
  assumes "delete_entry_step clock p target e st = Inr st'"
  shows "hm_get (so_entries (fst st')) = (if hm_contains target (acl_key_of e) then hm_get (so_entries (fst st))
           else (hm_get (so_entries (fst st)))(acl_key_of e := None)) \<and> so_rules (fst st') = so_rules (fst st)"
proof (cases "hm_contains target (acl_key_of e)")
  case True
  with assms show ?thesis by (simp add: delete_entry_step_def)
next
  case False
  with assms have "push_direct commit_entry_direct clock p (rollback_delete_entry e) (fst st, snd st)
      = Inr (fst st', snd st')" by (simp add: delete_entry_step_def)
  from push_entry_effect [OF this] False show ?thesis by auto
qed

lemma delete_rule_step_effect:
  assumes "delete_rule_step clock p target r st = Inr st'"
  shows "hm_get (so_rules (fst st')) = (if hm_contains target (rule_key_of r) then hm_get (so_rules (fst st))
           else (hm_get (so_rules (fst st)))(rule_key_of r := None)) \<and> so_entries (fst st') = so_entries (fst st)"
proof (cases "hm_contains target (rule_key_of r)")
  case True
  with assms show ?thesis by (simp add: delete_rule_step_def)
next
  case False
  with assms have "push_direct commit_rule_direct clock p (rollback_delete_rule r) (fst st, snd st)
      = Inr (fst st', snd st')" by (simp add: delete_rule_step_def)
  from push_rule_effect [OF this] False show ?thesis by auto
qed

lemma restore_entry_step_effect:
  assumes "restore_entry_step clock p e st = Inr st'" and "de_action e \<noteq> Delete"
  shows "(\<exists>e'. entry_semantically_equal e' e \<and>
           hm_get (so_entries (fst st')) = (hm_get (so_entries (fst st)))(acl_key_of e := Some e')) \<and>
         so_rules (fst st') = so_rules (fst st)"
proof (cases "\<exists>c. hm_get (so_entries (fst st)) (acl_key_of e) = Some c \<and> entry_semantically_equal c e")
  case True
  with assms(1) show ?thesis by (auto simp: restore_entry_step_def fun_upd_idem)
next
  case False
  with assms(1) have "push_direct commit_entry_direct clock p e (fst st, snd st) = Inr (fst st', snd st')"
    by (auto simp: restore_entry_step_def split: option.splits if_splits)
  from push_entry_effect [OF this] assms(2) show ?thesis by auto
qed

lemma restore_rule_step_effect:
  assumes "restore_rule_step clock p r st = Inr st'" and "re_action r \<noteq> Delete"
  shows "(\<exists>r'. rule_semantically_equal r' r \<and>
           hm_get (so_rules (fst st')) = (hm_get (so_rules (fst st)))(rule_key_of r := Some r')) \<and>
         so_entries (fst st') = so_entries (fst st)"
proof (cases "\<exists>c. hm_get (so_rules (fst st)) (rule_key_of r) = Some c \<and> rule_semantically_equal c r")
  case True
  with assms(1) show ?thesis by (auto simp: restore_rule_step_def fun_upd_idem)
next
  case False
  with assms(1) have "push_direct commit_rule_direct clock p r (fst st, snd st) = Inr (fst st', snd st')"
    by (auto simp: restore_rule_step_def split: option.splits if_splits)
  from push_rule_effect [OF this] assms(2) show ?thesis by auto
qed

text \<open>The target maps of a rollback.\<close>

lemma put_entries_get:
  "hm_get (put_entries es m) k = (case find (\<lambda>e. acl_key_of e = k) (rev es) of
     Some e \<Rightarrow> Some e | None \<Rightarrow> hm_get m k)"
  by (induction es rule: rev_induct) (auto simp: put_entries_def)

lemma put_rules_get:
  "hm_get (put_rules rs m) k = (case find (\<lambda>r. rule_key_of r = k) (rev rs) of
     Some r \<Rightarrow> Some r | None \<Rightarrow> hm_get m k)"
  by (induction rs rule: rev_induct) (auto simp: put_rules_def)

lemma put_entries_values: "hm_get (put_entries es hm_new) k = Some e \<Longrightarrow> e \<in> set es"
  by (auto simp: put_entries_get find_Some_iff rev_nth split: option.splits)

lemma put_rules_values: "hm_get (put_rules rs hm_new) k = Some r \<Longrightarrow> r \<in> set rs"
  by (auto simp: put_rules_get find_Some_iff rev_nth split: option.splits)

lemma values_keys:
  assumes "hm_ok m" and "\<forall>k v. hm_get m k = Some v \<longrightarrow> key v = k"
  shows "map key (hm_values m) = hm_keys m"
proof -
  have "key (snd p) = fst p" if "p \<in> set m" for p
    using assms that by (metis hm_pairs_set prod.collapse)
  then show ?thesis by (simp add: hm_values_def hm_keys_def)
qed

lemma distinct_sorted_keys:
  assumes "hm_ok m" and "\<forall>k v. hm_get m k = Some v \<longrightarrow> key v = k"
  shows "distinct (map key (sort_by cmp (hm_values m)))"
proof -
  have "mset (map key (sort_by cmp (hm_values m))) = mset (map key (hm_values m))" by simp
  then have "distinct (map key (sort_by cmp (hm_values m))) = distinct (map key (hm_values m))"
    by (rule mset_eq_imp_distinct_iff)
  then show ?thesis using values_keys [OF assms] assms(1) by (simp add: hm_ok_def hm_keys_def)
qed

lemma values_image:
  assumes "hm_ok m" and "\<forall>k v. hm_get m k = Some v \<longrightarrow> key v = k"
  shows "key ` set (hm_values m) = {k. hm_get m k \<noteq> None}"
  using values_keys [OF assms] hm_keys_set [of m] by (metis set_map)

lemma rollback_phase:
  assumes cur: "hm_ok cur" "\<forall>k v. hm_get cur k = Some v \<longrightarrow> key v = k"
    and tgt: "hm_ok tgt" "\<forall>k v. hm_get tgt k = Some v \<longrightarrow> key v = k"
    and del: "\<forall>k. C1 k = (if k \<in> key ` set (hm_values cur) \<and> \<not> hm_contains tgt k then None else hm_get cur k)"
    and ins: "\<forall>x \<in> set (hm_values tgt). \<exists>y. eqv y x \<and> C2 (key x) = Some y"
      "\<forall>k. k \<notin> key ` set (hm_values tgt) \<longrightarrow> C2 k = C1 k"
  shows "rel_option eqv (C2 k) (hm_get tgt k)"
proof (cases "hm_get tgt k")
  case None
  then have "k \<notin> key ` set (hm_values tgt)" by (simp add: values_image [OF tgt])
  then have "C2 k = C1 k" using ins(2) by simp
  also have "\<dots> = None"
    using del None by (simp add: values_image [OF cur] hm_contains_def)
  finally show ?thesis using None by simp
next
  case (Some x)
  then have "x \<in> set (hm_values tgt)" using tgt(1) by (auto simp: hm_values_set)
  with ins(1) Some tgt(2) show ?thesis by fastforce
qed

lemma restore_snapshot_content:
  assumes run: "restore_snapshot clock sn p s = Inr (s', ms)"
    and ok: "entries_ok (so_entries s)" "rules_ok (so_rules s)"
    and live: "\<forall>e \<in> set (sn_entries sn). de_action e \<noteq> Delete" "\<forall>r \<in> set (sn_rules sn). re_action r \<noteq> Delete"
  shows "rel_option entry_semantically_equal (hm_get (so_entries s') ke)
           (hm_get (put_entries (sn_entries sn) hm_new) ke)"
    and "rel_option rule_semantically_equal (hm_get (so_rules s') kr)
           (hm_get (put_rules (sn_rules sn) hm_new) kr)"
proof -
  let ?te = "put_entries (sn_entries sn) hm_new" and ?tr = "put_rules (sn_rules sn) hm_new"
  have te: "hm_ok ?te" "\<forall>k v. hm_get ?te k = Some v \<longrightarrow> acl_key_of v = k"
    and tr: "hm_ok ?tr" "\<forall>k v. hm_get ?tr k = Some v \<longrightarrow> rule_key_of v = k"
    and ce: "hm_ok (so_entries s)" "\<forall>k v. hm_get (so_entries s) k = Some v \<longrightarrow> acl_key_of v = k"
    using entries_ok_put [of hm_new "sn_entries sn"] rules_ok_put [of hm_new "sn_rules sn"] ok
    by (auto simp: entries_ok_def rules_ok_def)
  have live_te: "x \<in> set (hm_values ?te) \<Longrightarrow> de_action x \<noteq> Delete"
    and live_tr: "y \<in> set (hm_values ?tr) \<Longrightarrow> re_action y \<noteq> Delete" for x y
    using te(1) tr(1) live put_entries_values put_rules_values by (auto simp: hm_values_set)
  from run obtain a b c where
    a: "rfold (delete_entry_step clock p ?te) (sort_by compare_entries_by_key (hm_values (so_entries s))) (s, []) = Inr a"
    and b: "rfold (restore_entry_step clock p) (sort_by compare_entries_by_key (hm_values ?te)) a = Inr b"
    and c: "rfold (delete_rule_step clock p ?tr) (sort_by compare_rules_by_key (hm_values (so_rules (fst b)))) b = Inr c"
    and d: "rfold (restore_rule_step clock p) (sort_by compare_rules_by_key (hm_values ?tr)) c = Inr (s', ms)"
    by (auto simp: restore_snapshot_def Let_def rbind_eq_Inr split: if_splits)
  have A: "(\<forall>k. hm_get (so_entries (fst a)) k = (if k \<in> acl_key_of ` set (hm_values (so_entries s)) \<and>
        \<not> hm_contains ?te k then None else hm_get (so_entries s) k)) \<and> so_rules (fst a) = so_rules s"
    using delete_loop [OF a, where key = acl_key_of and C = "\<lambda>st. hm_get (so_entries (fst st))" and
        keep = "hm_contains ?te" and D = "\<lambda>st. so_rules (fst st)"] delete_entry_step_effect by auto
  have B: "(\<forall>x \<in> set (hm_values ?te). \<exists>y. entry_semantically_equal y x \<and> hm_get (so_entries (fst b)) (acl_key_of x) = Some y) \<and>
      (\<forall>k. k \<notin> acl_key_of ` set (hm_values ?te) \<longrightarrow> hm_get (so_entries (fst b)) k = hm_get (so_entries (fst a)) k) \<and>
      so_rules (fst b) = so_rules (fst a)"
    using restore_loop [OF b distinct_sorted_keys [OF te], where C = "\<lambda>st. hm_get (so_entries (fst st))" and
        eqv = entry_semantically_equal and D = "\<lambda>st. so_rules (fst st)"] restore_entry_step_effect live_te
    by simp
  from A B have rb: "so_rules (fst b) = so_rules s" by simp
  then have cr: "hm_ok (so_rules (fst b))" "\<forall>k v. hm_get (so_rules (fst b)) k = Some v \<longrightarrow> rule_key_of v = k"
    using ok(2) by (auto simp: rules_ok_def)
  have C: "(\<forall>k. hm_get (so_rules (fst c)) k = (if k \<in> rule_key_of ` set (hm_values (so_rules (fst b))) \<and>
        \<not> hm_contains ?tr k then None else hm_get (so_rules (fst b)) k)) \<and> so_entries (fst c) = so_entries (fst b)"
    using delete_loop [OF c, where key = rule_key_of and C = "\<lambda>st. hm_get (so_rules (fst st))" and
        keep = "hm_contains ?tr" and D = "\<lambda>st. so_entries (fst st)"] delete_rule_step_effect by auto
  have D: "(\<forall>x \<in> set (hm_values ?tr). \<exists>y. rule_semantically_equal y x \<and> hm_get (so_rules s') (rule_key_of x) = Some y) \<and>
      (\<forall>k. k \<notin> rule_key_of ` set (hm_values ?tr) \<longrightarrow> hm_get (so_rules s') k = hm_get (so_rules (fst c)) k) \<and>
      so_entries s' = so_entries (fst c)"
    using restore_loop [OF d distinct_sorted_keys [OF tr], where C = "\<lambda>st. hm_get (so_rules (fst st))" and
        eqv = rule_semantically_equal and D = "\<lambda>st. so_entries (fst st)"] restore_rule_step_effect live_tr
    by simp
  show "rel_option entry_semantically_equal (hm_get (so_entries s') ke) (hm_get ?te ke)"
    unfolding D [THEN conjunct2, THEN conjunct2] C [THEN conjunct2]
    by (rule rollback_phase [OF ce te A [THEN conjunct1] B [THEN conjunct1]
          B [THEN conjunct2, THEN conjunct1]])
  show "rel_option rule_semantically_equal (hm_get (so_rules s') kr) (hm_get ?tr kr)"
    by (rule rollback_phase [OF cr tr C [THEN conjunct1] D [THEN conjunct1]
          D [THEN conjunct2, THEN conjunct1]])
qed

section \<open>A rollback cannot fail half way\<close>

definition sized :: "source \<Rightarrow> bool" where
  "sized s \<longleftrightarrow> 0 < so_shard_count s \<and> length (so_watermarks s) = unat (so_shard_count s)"

lemma source_ok_sized: "source_ok s \<Longrightarrow> sized s"
  by (simp add: source_ok_def source_shape_def sized_def)

lemma sized_shard:
  "sized s \<Longrightarrow> shard_for_hash h (so_shard_count s) < so_shard_count s \<and>
     unat (shard_for_hash h (so_shard_count s)) < length (so_watermarks s)"
  using shard_for_hash_less [of "so_shard_count s" h] by (simp add: sized_def word_less_nat_alt)

lemma sized_committed: "sized s \<Longrightarrow> apply_committed_mutation m s = Inr t \<Longrightarrow> sized (record_mutation m t)"
  by (auto simp: sized_def apply_committed_mutation_ok)

lemma commit_entry_direct_total:
  assumes "sized s"
  shows "\<exists>s' m. commit_entry_direct now op e s = Inr (s', m) \<and> sized s'"
proof -
  let ?i = "shard_for_hash (de_key_hash e) (so_shard_count s)"
  let ?m = "direct_entry_mutation now op e s ?i (so_watermarks s ! unat ?i + 1)"
  have id: "mu_commit_id ?m = direct_commit_id s ?i (so_watermarks s ! unat ?i + 1)"
    by (simp add: direct_entry_mutation_def)
  obtain t where t: "apply_committed_mutation ?m s = Inr t"
    using sized_shard [OF assms] by (simp add: apply_committed_mutation_ok id direct_commit_id_def)
  with sized_committed [OF assms t] sized_shard [OF assms] show ?thesis
    by (simp add: commit_entry_direct_def Let_def)
qed

lemma commit_rule_direct_total:
  assumes "sized s"
  shows "\<exists>s' m. commit_rule_direct now op r s = Inr (s', m) \<and> sized s'"
proof -
  let ?i = "shard_for_hash (re_rule_hash r) (so_shard_count s)"
  let ?m = "direct_rule_mutation now op r s ?i (so_watermarks s ! unat ?i + 1)"
  have id: "mu_commit_id ?m = direct_commit_id s ?i (so_watermarks s ! unat ?i + 1)"
    by (simp add: direct_rule_mutation_def)
  obtain t where t: "apply_committed_mutation ?m s = Inr t"
    using sized_shard [OF assms] by (simp add: apply_committed_mutation_ok id direct_commit_id_def)
  with sized_committed [OF assms t] sized_shard [OF assms] show ?thesis
    by (simp add: commit_rule_direct_def Let_def)
qed

lemma rfold_total:
  assumes "\<And>x st. P st \<Longrightarrow> \<exists>st'. f x st = Inr st' \<and> P st'" and "P st"
  shows "\<exists>st'. rfold f xs st = Inr st' \<and> P st'"
  using assms(2)
proof (induction xs arbitrary: st)
  case Nil
  then show ?case by simp
next
  case (Cons x xs)
  from assms(1) [OF Cons.prems] obtain st' where "f x st = Inr st'" "P st'" by blast
  with Cons.IH [of st'] show ?case by simp
qed

lemma push_direct_total:
  assumes "\<And>now op s. sized s \<Longrightarrow> \<exists>s' m. commit now op x s = Inr (s', m) \<and> sized s'"
    and "sized (fst st)"
  shows "\<exists>st'. push_direct commit clock p x st = Inr st' \<and> sized (fst st')"
proof -
  obtain s ms where st: "st = (s, ms)" by fastforce
  with assms obtain s' m where
    "commit (clock (length ms)) (next_restore_op_id (so_op_index s) p (length ms)) x s = Inr (s', m)"
    and "sized s'"
    by fastforce
  then show ?thesis by (simp add: push_direct_def st)
qed

lemma rollback_steps_total:
  assumes "sized (fst st)"
  shows "\<exists>st'. delete_entry_step clock p te e st = Inr st' \<and> sized (fst st')"
    and "\<exists>st'. restore_entry_step clock p e st = Inr st' \<and> sized (fst st')"
    and "\<exists>st'. delete_rule_step clock p tr r st = Inr st' \<and> sized (fst st')"
    and "\<exists>st'. restore_rule_step clock p r st = Inr st' \<and> sized (fst st')"
  using assms
  by (auto simp: delete_entry_step_def restore_entry_step_def delete_rule_step_def
      restore_rule_step_def simp del: split_paired_Ex
      intro!: push_direct_total commit_entry_direct_total commit_rule_direct_total)

lemma restore_snapshot_total:
  assumes "sized s" and "sn_shard_count sn = so_shard_count s" and "snapshot_validate sn = Inr ()"
  shows "\<exists>st'. restore_snapshot clock sn p s = Inr st'"
proof -
  let ?P = "\<lambda>st :: source \<times> mutation list. sized (fst st)"
  note loop = rfold_total [where P = ?P]
  have "\<exists>a. rfold (delete_entry_step clock p (put_entries (sn_entries sn) hm_new))
      (sort_by compare_entries_by_key (hm_values (so_entries s))) (s, []) = Inr a \<and> ?P a"
    by (rule loop) (rule rollback_steps_total(1), assumption, simp add: assms(1))
  then obtain a where a: "rfold (delete_entry_step clock p (put_entries (sn_entries sn) hm_new))
      (sort_by compare_entries_by_key (hm_values (so_entries s))) (s, []) = Inr a" "?P a" by blast
  have "\<exists>b. rfold (restore_entry_step clock p)
      (sort_by compare_entries_by_key (hm_values (put_entries (sn_entries sn) hm_new))) a = Inr b \<and> ?P b"
    by (rule loop) (rule rollback_steps_total(2), assumption, rule a(2))
  then obtain b where b: "rfold (restore_entry_step clock p)
      (sort_by compare_entries_by_key (hm_values (put_entries (sn_entries sn) hm_new))) a = Inr b" "?P b" by blast
  have "\<exists>c. rfold (delete_rule_step clock p (put_rules (sn_rules sn) hm_new))
      (sort_by compare_rules_by_key (hm_values (so_rules (fst b)))) b = Inr c \<and> ?P c"
    by (rule loop) (rule rollback_steps_total(3), assumption, rule b(2))
  then obtain c where c: "rfold (delete_rule_step clock p (put_rules (sn_rules sn) hm_new))
      (sort_by compare_rules_by_key (hm_values (so_rules (fst b)))) b = Inr c" "?P c" by blast
  have "\<exists>d. rfold (restore_rule_step clock p)
      (sort_by compare_rules_by_key (hm_values (put_rules (sn_rules sn) hm_new))) c = Inr d \<and> ?P d"
    by (rule loop) (rule rollback_steps_total(4), assumption, rule c(2))
  then obtain d where d: "rfold (restore_rule_step clock p)
      (sort_by compare_rules_by_key (hm_values (put_rules (sn_rules sn) hm_new))) c = Inr d" "?P d" by blast
  show ?thesis using assms(2,3) a(1) b(1) c(1) d(1) by (simp add: restore_snapshot_def)
qed

section \<open>Properties\<close>

text \<open>C10: A rollback to a valid snapshot without delete markers succeeds, and it leaves for every
  entry key and every rule key exactly what the snapshot holds for it, up to the shard and
  sequence stamps; the mutations it returns are appended to the history, and replaying them on
  the content before the rollback gives the content after it.\<close>

theorem restore_reaches_snapshot:
  assumes "source_ok s" and "sn_shard_count sn = so_shard_count s" and "snapshot_validate sn = Inr ()"
    and "\<forall>e \<in> set (sn_entries sn). de_action e \<noteq> Delete"
    and "\<forall>r \<in> set (sn_rules sn). re_action r \<noteq> Delete"
  shows "\<exists>s' ms. restore_snapshot clock sn p s = Inr (s', ms) \<and>
           (\<forall>k. rel_option entry_semantically_equal (hm_get (so_entries s') k)
                  (hm_get (put_entries (sn_entries sn) hm_new) k)) \<and>
           (\<forall>k. rel_option rule_semantically_equal (hm_get (so_rules s') k)
                  (hm_get (put_rules (sn_rules sn) hm_new) k)) \<and>
           so_mutations s' = so_mutations s @ ms \<and>
           source_view s' = fold view_apply ms (source_view s)"
proof -
  from restore_snapshot_total [OF source_ok_sized [OF assms(1)] assms(2,3)]
  obtain s' ms where run: "restore_snapshot clock sn p s = Inr (s', ms)" by fastforce
  have "entries_ok (so_entries s)" "rules_ok (so_rules s)"
    using assms(1) by (simp_all add: source_ok_def source_shape_def)
  note content = restore_snapshot_content [OF run this assms(4,5)]
  from restore_snapshot_extends [OF run] content run show ?thesis
    by (auto simp: direct_run_mutations direct_run_view)
qed

definition sample_entry :: deny_entry where
  "sample_entry = \<lparr>de_tenant_id = ''acme'', de_namespace = ''user'', de_key_hash = 7, de_action = Deny,
     de_priority = 5, de_reason_code = ''abuse'', de_expires_at = 0, de_created_by = ''ops'',
     de_commit_seq = 1, de_shard_id = 1\<rparr>"

definition sample_snapshot :: snapshot where
  "sample_snapshot = \<lparr>sn_shard_count = 2, sn_watermarks = [0, 1], sn_entries = [sample_entry],
     sn_rules = []\<rparr>"

lemma sample_snapshot_valid: "snapshot_validate sample_snapshot = Inr ()"
  by code_simp

lemma sample_new: "so_shard_count (source_new 2 r) = 2"
proof -
  have "max 2 1 = (2 :: u16)" by code_simp
  then show ?thesis by (simp add: source_new_def)
qed

theorem restore_reaches_snapshot_witness:
  "\<exists>s' ms. restore_snapshot (\<lambda>i. of_nat i) sample_snapshot ''rollback'' (source_new 2 ''eu'') = Inr (s', ms) \<and>
     rel_option entry_semantically_equal (hm_get (so_entries s') (acl_key_of sample_entry)) (Some sample_entry)"
proof -
  have "hm_get (put_entries (sn_entries sample_snapshot) hm_new) (acl_key_of sample_entry) = Some sample_entry"
    by (simp add: sample_snapshot_def put_entries_def)
  moreover have "\<exists>s' ms. restore_snapshot (\<lambda>i. of_nat i) sample_snapshot ''rollback'' (source_new 2 ''eu'') = Inr (s', ms) \<and>
     (\<forall>k. rel_option entry_semantically_equal (hm_get (so_entries s') k)
        (hm_get (put_entries (sn_entries sample_snapshot) hm_new) k))"
    using restore_reaches_snapshot [OF source_new_ok [of 2 "''eu''"], of sample_snapshot "\<lambda>i. of_nat i" "''rollback''"]
      sample_new sample_snapshot_valid
    by (force simp: sample_snapshot_def sample_entry_def)
  ultimately show ?thesis by metis
qed

text \<open>C34: The search for a fresh operation id ends: it tries at most one candidate more than the index
  has operations, and the id it returns is not taken.\<close>

theorem restore_op_id_search_ends:
  "\<exists>i. k \<le> i \<and> i \<le> k + length ix \<and> next_restore_op_id ix p k = restore_op_id p i \<and>
     \<not> hm_contains ix (restore_op_id p i)"
proof -
  obtain i where i: "k \<le> i" "next_restore_op_id ix p k = restore_op_id p i" "\<not> hm_contains ix (restore_op_id p i)"
    and tried: "\<forall>j. k \<le> j \<and> j < i \<longrightarrow> hm_contains ix (restore_op_id p j)"
    using next_restore_op_id_fresh [of ix p k] by auto
  have "restore_op_id p ` {k..<i} \<subseteq> set (hm_keys ix)" using tried by (auto simp: hm_contains_iff)
  then have "card (restore_op_id p ` {k..<i}) \<le> length (hm_keys ix)"
    by (meson card_length card_mono finite_set le_trans)
  moreover have "card (restore_op_id p ` {k..<i}) = i - k"
    by (simp add: card_image inj_on_def restore_op_id_inj)
  moreover have "length (hm_keys ix) = length ix" by (simp add: hm_keys_def)
  ultimately show ?thesis using i by (intro exI [of _ i]) simp
qed

end
