(* ===== verification/Source_Machine.thy ===== *)
theory Source_Machine
  imports Restore
begin

text \<open>
  The source of truth as a state machine: the states that its constructors and its public
  operations reach, the invariant on them, and what a caller of \<open>commit\<close> and \<open>commit_rule\<close>
  observes.
\<close>

section \<open>Commits\<close>

text \<open>What \<open>prepare_commit\<close> and \<open>prepare_rule_commit\<close> have in common.\<close>

definition prepared :: "string \<Rightarrow> source \<Rightarrow> commit_outcome \<Rightarrow> bool" where
  "prepared op s out \<longleftrightarrow> \<not> blank op \<and>
     (case hm_get (so_op_index s) op of
        Some m \<Rightarrow> out = \<lparr>co_mutation = m, co_duplicate = True\<rparr>
      | None \<Rightarrow> \<not> co_duplicate out \<and> mu_op_id (co_mutation out) = op \<and>
          mu_seq (co_mutation out) = so_watermarks s ! unat (mu_shard (co_mutation out)) + 1)"

lemma prepare_commit_prepared: "prepare_commit now r s = Inr out \<Longrightarrow> prepared (dr_op_id r) s out"
  by (auto simp: prepare_commit_def prepared_def Let_def rbind_eq_Inr vec_index_eq_Inr
      split: if_splits option.splits)

lemma prepare_rule_commit_prepared:
  "prepare_rule_commit now r s = Inr out \<Longrightarrow> prepared (rr_op_id r) s out"
  by (auto simp: prepare_rule_commit_def prepared_def Let_def rbind_eq_Inr vec_index_eq_Inr
      split: if_splits option.splits)

lemma finish_commit_fresh:
  assumes "finish_commit out s = Inr (s', out')" and "\<not> co_duplicate out"
  shows "\<exists>st. apply_replicated_mutation (co_mutation out) s = Inr (s', st) \<and> out' = out"
proof (cases "apply_replicated_mutation (co_mutation out) s")
  case (Inl e)
  with assms show ?thesis by (simp add: finish_commit_def)
next
  case (Inr r)
  then obtain t st where "apply_replicated_mutation (co_mutation out) s = Inr (t, st)"
    by (cases r) simp
  with assms show ?thesis by (simp add: finish_commit_def)
qed

lemma finish_commit_indexed:
  assumes "source_ok s" and "prepared op s out" and "finish_commit out s = Inr (s', out')"
  shows "out' = out \<and> hm_get (so_op_index s') op = Some (co_mutation out) \<and> source_ok s'"
proof (cases "hm_get (so_op_index s) op")
  case (Some m)
  with assms(2) have "co_duplicate out" and "co_mutation out = m" by (simp_all add: prepared_def)
  with assms(1,3) Some show ?thesis by (simp add: finish_commit_def)
next
  case None
  let ?m = "co_mutation out"
  from None assms(2) have p: "\<not> co_duplicate out" "mu_op_id ?m = op"
    "mu_seq ?m = so_watermarks s ! unat (mu_shard ?m) + 1" by (auto simp: prepared_def)
  from assms(3) p(1) obtain st where ap: "apply_replicated_mutation ?m s = Inr (s', st)" and "out' = out"
    using finish_commit_fresh by blast
  have "hm_get (so_op_index s') op = Some ?m"
    using ap
  proof (cases rule: apply_replicated_cases)
    case old
    have "history_ok (so_shard_count s) (so_compacted s) (so_watermarks s) (so_mutations s)"
      using assms(1) by (simp add: source_ok_def)
    from seqs_covered [OF this old(6)]
    have "so_compacted s ! unat (mu_shard ?m) < mu_seq ?m" by simp
    moreover have "so_watermarks s ! unat (mu_shard ?m) = - 1"
    proof (rule ccontr)
      assume "so_watermarks s ! unat (mu_shard ?m) \<noteq> - 1"
      from u64_succ_gt [OF this] old(5) show False unfolding p(3) by simp
    qed
    ultimately show ?thesis using p(3) by simp
  next
    case duplicate
    with None p(2) show ?thesis by simp
  next
    case (fresh t)
    then show ?thesis using p(2) by (simp add: record_mutation_def push_mutation_def)
  qed
  with apply_replicated_ok [OF assms(1) ap] \<open>out' = out\<close> show ?thesis by simp
qed

lemma source_commit_indexed:
  assumes "source_ok s" and "source_commit now r s = Inr (s', out)"
  shows "\<not> blank (dr_op_id r) \<and> hm_get (so_op_index s') (dr_op_id r) = Some (co_mutation out) \<and> source_ok s'"
proof -
  from assms(2) obtain out' where p: "prepare_commit now r s = Inr out'"
    and f: "finish_commit out' s = Inr (s', out)"
    by (auto simp: source_commit_def rbind_eq_Inr)
  from finish_commit_indexed [OF assms(1) prepare_commit_prepared [OF p] f]
    prepare_commit_prepared [OF p] show ?thesis by (simp add: prepared_def)
qed

lemma source_commit_rule_indexed:
  assumes "source_ok s" and "source_commit_rule now r s = Inr (s', out)"
  shows "\<not> blank (rr_op_id r) \<and> hm_get (so_op_index s') (rr_op_id r) = Some (co_mutation out) \<and> source_ok s'"
proof -
  from assms(2) obtain out' where p: "prepare_rule_commit now r s = Inr out'"
    and f: "finish_commit out' s = Inr (s', out)"
    by (auto simp: source_commit_rule_def rbind_eq_Inr)
  from finish_commit_indexed [OF assms(1) prepare_rule_commit_prepared [OF p] f]
    prepare_rule_commit_prepared [OF p] show ?thesis by (simp add: prepared_def)
qed

lemma commit_known_op:
  assumes "\<not> blank (dr_op_id r)" and "hm_get (so_op_index s) (dr_op_id r) = Some m"
  shows "source_commit now r s = Inr (s, \<lparr>co_mutation = m, co_duplicate = True\<rparr>)"
  using assms by (simp add: source_commit_def prepare_commit_def finish_commit_def)

lemma commit_rule_known_op:
  assumes "\<not> blank (rr_op_id r)" and "hm_get (so_op_index s) (rr_op_id r) = Some m"
  shows "source_commit_rule now r s = Inr (s, \<lparr>co_mutation = m, co_duplicate = True\<rparr>)"
  using assms by (simp add: source_commit_rule_def prepare_rule_commit_def finish_commit_def)

section \<open>Reachable states\<close>

text \<open>Sequence numbers start at 1; a mutation numbered 0 only arises when a counter of 64 bits
  wraps around.\<close>

inductive source_reachable :: "source \<Rightarrow> bool" where
  reach_new: "source_reachable (source_new n region)"
| reach_mutations: "source_from_mutations n region ms = Inr s \<Longrightarrow>
    \<forall>m \<in> set ms. mu_seq m \<noteq> 0 \<Longrightarrow> source_reachable s"
| reach_snapshot: "source_from_snapshot_and_mutations n region sn idem ms = Inr s \<Longrightarrow> 0 < n \<Longrightarrow>
    \<forall>m \<in> set ms. mu_seq m \<noteq> 0 \<Longrightarrow> \<forall>m \<in> set idem. covered (so_watermarks s) m \<Longrightarrow>
    source_reachable s"
| reach_retained: "source_from_snapshot_and_retained_history n region sn idem ms cs = Inr s \<Longrightarrow>
    0 < n \<Longrightarrow> \<forall>m \<in> set ms. mu_seq m \<noteq> 0 \<Longrightarrow> \<forall>m \<in> set idem. covered (so_watermarks s) m \<Longrightarrow>
    source_reachable s"
| reach_commit: "source_reachable s \<Longrightarrow> source_commit now r s = Inr (s', out) \<Longrightarrow> source_reachable s'"
| reach_commit_rule: "source_reachable s \<Longrightarrow> source_commit_rule now rr s = Inr (s', out) \<Longrightarrow>
    source_reachable s'"
| reach_replicated: "source_reachable s \<Longrightarrow> apply_replicated_mutation m s = Inr (s', st) \<Longrightarrow>
    source_reachable s'"
| reach_compacted: "source_reachable s \<Longrightarrow> compact_mutation_history ws s = Inr s' \<Longrightarrow>
    source_reachable s'"
| reach_restored: "source_reachable s \<Longrightarrow> restore_snapshot clock sn p s = Inr (s', ms) \<Longrightarrow>
    \<forall>m \<in> set ms. mu_seq m \<noteq> 0 \<Longrightarrow> source_reachable s'"
| reach_epoch: "source_reachable s \<Longrightarrow> source_reachable (set_epoch e s)"

lemma set_epoch_ok [simp]: "source_ok (set_epoch e s) = source_ok s"
  by (simp add: source_ok_def source_shape_def set_epoch_def)

lemma reachable_ok: "source_reachable s \<Longrightarrow> source_ok s"
proof (induction rule: source_reachable.induct)
  case (reach_restored s clock sn p s' ms)
  then show ?case using direct_run_ok restore_snapshot_extends by blast
qed (auto intro: source_new_ok source_from_mutations_ok source_from_snapshot_ok
    source_from_retained_ok apply_replicated_ok compact_history_ok
    dest: source_commit_indexed source_commit_rule_indexed)

section \<open>The effect of a commit\<close>

lemma request_mutation_entry [simp]:
  "acl_key_of (mu_entry (request_mutation now r s h i q)) =
     \<lparr>ak_tenant_id = dr_tenant_id r, ak_namespace = dr_namespace r, ak_key_hash = h\<rparr>"
  "de_action (mu_entry (request_mutation now r s h i q)) = dr_action r"
  "de_priority (mu_entry (request_mutation now r s h i q)) = dr_priority r"
  "de_reason_code (mu_entry (request_mutation now r s h i q)) = dr_reason_code r"
  "de_expires_at (mu_entry (request_mutation now r s h i q)) = dr_expires_at r"
  "de_commit_seq (mu_entry (request_mutation now r s h i q)) = q"
  "de_shard_id (mu_entry (request_mutation now r s h i q)) = i"
  by (simp_all add: request_mutation_def acl_key_of_def)

text \<open>The shard and the sequence number a request is going to get.\<close>

definition request_key :: "deny_request \<Rightarrow> acl_key" where
  "request_key r = acl_key_from_raw (dr_tenant_id r) (dr_namespace r) (dr_key r)"

definition request_shard :: "deny_request \<Rightarrow> source \<Rightarrow> u16" where
  "request_shard r s = shard_for_hash (ak_key_hash (request_key r)) (so_shard_count s)"

definition request_seq :: "deny_request \<Rightarrow> source \<Rightarrow> u64" where
  "request_seq r s = so_watermarks s ! unat (request_shard r s) + 1"

lemma commit_fresh_op:
  assumes ok: "source_ok s" and op: "\<not> blank (dr_op_id r)" "hm_get (so_op_index s) (dr_op_id r) = None"
    and room: "request_seq r s \<noteq> 0"
  shows "\<exists>s' out. source_commit now r s = Inr (s', out) \<and> \<not> co_duplicate out \<and>
     source_view s' = view_apply (request_mutation now r s (ak_key_hash (request_key r))
        (request_shard r s) (request_seq r s)) (source_view s)"
proof -
  let ?i = "request_shard r s" and ?q = "request_seq r s"
  let ?m = "request_mutation now r s (ak_key_hash (request_key r)) ?i ?q"
  let ?out = "\<lparr>co_mutation = ?m, co_duplicate = False\<rparr>"
  have i: "?i < so_shard_count s" "unat ?i < length (so_watermarks s)"
    using sized_shard [OF source_ok_sized [OF ok]] by (simp_all add: request_shard_def)
  have p: "prepare_commit now r s = Inr ?out"
    using op i by (simp add: prepare_commit_def Let_def request_key_def [symmetric]
        request_shard_def [symmetric] request_seq_def)
  have w: "so_watermarks s ! unat ?i < ?q"
    using room unfolding request_seq_def by (intro u64_succ_gt) auto
  obtain t where t: "apply_committed_mutation ?m s = Inr t"
    using i by (simp add: apply_committed_mutation_ok) (simp add: request_seq_def)
  have "apply_replicated_mutation ?m s = Inr (record_mutation ?m t, Applied)"
    using op i w t by (simp add: apply_replicated_mutation_def leD linorder_not_le)
  then have "source_commit now r s = Inr (record_mutation ?m t, ?out)"
    using p by (simp add: source_commit_def finish_commit_def)
  with committed_view [OF t] show ?thesis by fastforce
qed

section \<open>Properties\<close>



text \<open>C8: A commit is idempotent in its operation id: once a commit has returned an outcome, any
  later deny request with the same operation id, whatever its content and time, leaves the state
  alone and returns the same mutation, marked as a duplicate.\<close>

theorem commit_idempotent:
  assumes "source_reachable s" and "source_commit now r s = Inr (s', out)"
    and "dr_op_id r' = dr_op_id r"
  shows "source_commit now' r' s' = Inr (s', \<lparr>co_mutation = co_mutation out, co_duplicate = True\<rparr>)"
  using source_commit_indexed [OF reachable_ok [OF assms(1)] assms(2)] assms(3)
  by (simp add: commit_known_op)

definition sample_request :: deny_request where
  "sample_request = \<lparr>dr_op_id = ''op-1'', dr_tenant_id = ''acme'', dr_namespace = ''user'',
     dr_key = ''mallory'', dr_action = Deny, dr_priority = 7, dr_reason_code = ''abuse'',
     dr_expires_at = 0, dr_created_by = ''ops'', dr_delivery_priority = P0\<rparr>"

lemma sample_blank: "\<not> blank (dr_op_id sample_request)"
  by (simp add: blank_def trim_graphic graphic_def sample_request_def)

lemma sample_room: "request_seq sample_request (source_new 4 ''eu'') \<noteq> 0"
  by code_simp

theorem commit_idempotent_witness:
  "\<exists>s' out. source_commit 100 sample_request (source_new 4 ''eu'') = Inr (s', out) \<and>
     source_commit 200 (sample_request\<lparr>dr_key := ''eve''\<rparr>) s' =
       Inr (s', \<lparr>co_mutation = co_mutation out, co_duplicate = True\<rparr>)"
proof -
  have "hm_get (so_op_index (source_new 4 ''eu'')) (dr_op_id sample_request) = None"
    by (simp add: source_new_def)
  from commit_fresh_op [OF source_new_ok sample_blank this sample_room, of 100]
  obtain s' out where c: "source_commit 100 sample_request (source_new 4 ''eu'') = Inr (s', out)"
    by blast
  from commit_idempotent [OF reach_new c, of "sample_request\<lparr>dr_key := ''eve''\<rparr>" 200] c
  show ?thesis by auto
qed

text \<open>C7: A fresh, non-blank operation id on a shard whose counter is not exhausted is committed:
  the outcome is not a duplicate, the next lookup of the key reports exactly the requested
  decision with the new shard and sequence number, every other key keeps its entry, and the
  watermark of the shard moves by one.\<close>

theorem commit_takes_effect:
  assumes "source_reachable s" and "\<not> blank (dr_op_id r)"
    and "hm_get (so_op_index s) (dr_op_id r) = None" and "request_seq r s \<noteq> 0"
  shows "\<exists>s' out. source_commit now r s = Inr (s', out) \<and> \<not> co_duplicate out \<and>
     source_lookup s' (dr_tenant_id r) (dr_namespace r) (dr_key r) t =
       (if dr_action r = Deny \<and> (dr_expires_at r = 0 \<or> t < dr_expires_at r)
        then Denied (dr_reason_code r) (dr_priority r)
               (local_commit_id (request_shard r s) (request_seq r s))
        else Allow) \<and>
     (\<forall>k. k \<noteq> request_key r \<longrightarrow> hm_get (so_entries s') k = hm_get (so_entries s) k) \<and>
     so_watermarks s' = (so_watermarks s)[unat (request_shard r s) := request_seq r s]"
proof -
  from commit_fresh_op [OF reachable_ok [OF assms(1)] assms(2-4), of now] obtain s' out where
    c: "source_commit now r s = Inr (s', out)" "\<not> co_duplicate out"
    and v: "source_view s' = view_apply (request_mutation now r s (ak_key_hash (request_key r))
        (request_shard r s) (request_seq r s)) (source_view s)"
    by blast
  have k: "\<lparr>ak_tenant_id = dr_tenant_id r, ak_namespace = dr_namespace r,
        ak_key_hash = ak_key_hash (request_key r)\<rparr> = request_key r"
    by (simp add: request_key_def acl_key_from_raw_def)
  let ?e = "mu_entry (request_mutation now r s (ak_key_hash (request_key r)) (request_shard r s) (request_seq r s))"
  from v have e: "hm_get (so_entries s') = (hm_get (so_entries s))(request_key r :=
        (if dr_action r = Delete then None else Some ?e))"
    and w: "so_watermarks s' = (so_watermarks s)[unat (request_shard r s) := request_seq r s]"
    by (simp_all add: view_apply_def source_view_def k Let_def)
  have "source_lookup s' (dr_tenant_id r) (dr_namespace r) (dr_key r) t =
       (if dr_action r = Deny \<and> (dr_expires_at r = 0 \<or> t < dr_expires_at r)
        then Denied (dr_reason_code r) (dr_priority r)
               (local_commit_id (request_shard r s) (request_seq r s))
        else Allow)"
    by (cases "dr_action r")
      (auto simp: source_lookup_def request_key_def [symmetric] e decision_for_entry_def
        entry_is_expired_def)
  with c e w show ?thesis by auto
qed

theorem commit_takes_effect_witness:
  "\<exists>s' out. source_commit 100 sample_request (source_new 4 ''eu'') = Inr (s', out) \<and>
     decision_is_denied (source_lookup s' ''acme'' ''user'' ''mallory'' 150)"
proof -
  have "hm_get (so_op_index (source_new 4 ''eu'')) (dr_op_id sample_request) = None"
    by (simp add: source_new_def)
  from commit_takes_effect [OF reach_new sample_blank this sample_room, of 100 150]
  show ?thesis by (auto simp: sample_request_def)
qed

text \<open>C9: Repair from history is complete: for a shard of a reachable source, a consumer whose
  position has not been compacted away receives every later mutation of the shard, in order and
  without a gap, up to the watermark; otherwise it is told the compacted position.\<close>

theorem history_repair_complete:
  assumes "source_reachable s" and "i < so_shard_count s" and "from \<le> so_watermarks s ! unat i"
  shows "(case mutation_history_compacted s i from of
            None \<Rightarrow> map mu_seq (source_mutations_for_shard s i from) = seq_run from (so_watermarks s ! unat i)
          | Some c \<Rightarrow> c = so_compacted s ! unat i \<and> from < c)"
proof (cases "mutation_history_compacted s i from")
  case None
  with history_answer [OF reachable_ok [OF assms(1)] assms(2) _ assms(3)] show ?thesis by simp
next
  case (Some c)
  then show ?thesis
    by (auto simp: mutation_history_compacted_def vec_get_def split: if_splits)
qed

theorem history_repair_complete_witness:
  "\<exists>s' out. source_commit 100 sample_request (source_new 4 ''eu'') = Inr (s', out) \<and>
     (case mutation_history_compacted s' 0 0 of
        None \<Rightarrow> map mu_seq (source_mutations_for_shard s' 0 0) = seq_run 0 (so_watermarks s' ! unat (0::u16))
      | Some c \<Rightarrow> c = so_compacted s' ! unat (0::u16) \<and> 0 < c)"
proof -
  have "hm_get (so_op_index (source_new 4 ''eu'')) (dr_op_id sample_request) = None"
    by (simp add: source_new_def)
  from commit_fresh_op [OF source_new_ok sample_blank this sample_room, of 100]
  obtain s' out where c: "source_commit 100 sample_request (source_new 4 ''eu'') = Inr (s', out)"
    by blast
  have r: "source_reachable s'" by (rule reach_commit [OF reach_new c])
  then have "0 < so_shard_count s'" using reachable_ok by (simp add: source_ok_def)
  from history_repair_complete [OF r this, of 0] c show ?thesis by auto
qed

end
