(* ===== verification/Active_Correct.thy ===== *)
theory Active_Correct
  imports Active_State Source_Machine
begin

text \<open>
  Correctness of the edge's active state: the overlay over the immutable base represents one
  abstract content (\<open>active_view\<close>), every mutation is \<open>view_apply\<close> on it, and the decisions are
  those of the content.  The source of truth and the active state interpret the same contract
  (\<open>sequenced_replica\<close>), so that an edge that starts from a snapshot of the source and accepts the
  same stream represents the same content.

  The one exception is shown too: between the update of a rule and the next compaction of the
  overlay, the version of the rule in the base still takes part in \<open>check\<close>.
\<close>

section \<open>Mutations\<close>

lemma overlay_frame [simp]:
  "as_shard_count (overlay_mutation m s) = as_shard_count s"
  "as_base (overlay_mutation m s) = as_base s"
  "as_rule_base (overlay_mutation m s) = as_rule_base s"
  "as_watermarks (overlay_mutation m s) = as_watermarks s"
  by (simp_all add: overlay_mutation_def overlay_rule_def overlay_entry_def Let_def
      split: option.splits action.splits)

lemma base_content_frame [simp]:
  "base_content (overlay_mutation m s) = base_content s"
  "base_content (s\<lparr>as_watermarks := w\<rparr>) = base_content s"
  by (simp_all add: base_content_def)

lemma hm_contains_simps [simp]:
  "hm_contains (hm_insert k v m) k' \<longleftrightarrow> k' = k \<or> hm_contains m k'"
  "hm_contains (hm_remove k m) k' \<longleftrightarrow> k' \<noteq> k \<and> hm_contains m k'"
  "\<not> hm_contains hm_new k"
  by (simp_all add: hm_contains_def)

lemma overlay_rule_ok: "overlay_ok s \<Longrightarrow> overlay_ok (overlay_rule r q s)"
  by (cases "re_action r") (auto simp: overlay_ok_def overlay_rule_def Let_def wf_intros)

lemma overlay_entry_ok: "overlay_ok s \<Longrightarrow> overlay_ok (overlay_entry e q s)"
  by (cases "de_action e") (auto simp: overlay_ok_def overlay_entry_def Let_def wf_intros)

lemma overlay_mutation_ok: "overlay_ok s \<Longrightarrow> overlay_ok (overlay_mutation m s)"
  by (simp add: overlay_mutation_def overlay_rule_ok overlay_entry_ok split: option.splits)

lemma overlay_ok_watermarks [simp]: "overlay_ok (s\<lparr>as_watermarks := w\<rparr>) = overlay_ok s"
  by (simp add: overlay_ok_def)

lemma active_ok_overlay:
  "active_ok s \<Longrightarrow> length w = length (as_watermarks s) \<Longrightarrow>
   active_ok ((overlay_mutation m s)\<lparr>as_watermarks := w\<rparr>)"
  by (simp add: active_ok_def overlay_mutation_ok)

lemma view_overlay:
  "active_view ((overlay_mutation m s)\<lparr>as_watermarks := (as_watermarks s)[unat (mu_shard m) := mu_seq m]\<rparr>)
     = view_apply m (active_view s)"
proof (cases "mu_rule m")
  case None
  then show ?thesis
    by (cases "de_action (mu_entry m)")
      (auto simp: overlay_mutation_def overlay_entry_def view_apply_def active_view_def Let_def fun_eq_iff
        base_content_def split: option.splits)
next
  case (Some r)
  then show ?thesis
    by (cases "re_action r")
      (auto simp: overlay_mutation_def overlay_rule_def view_apply_def active_view_def Let_def fun_eq_iff
        base_content_def split: option.splits)
qed

lemma active_apply_cases:
  assumes "active_apply_mutation m s = Inr (s', st)"
  obtains (old) "st = DuplicateOrOld" and "s' = s"
      and "unat (mu_shard m) < length (as_watermarks s)"
      and "mu_seq m \<le> as_watermarks s ! unat (mu_shard m)"
  | (fresh) "st = Applied" and "unat (mu_shard m) < length (as_watermarks s)"
      and "as_watermarks s ! unat (mu_shard m) < mu_seq m"
      and "mu_seq m = as_watermarks s ! unat (mu_shard m) + 1"
      and "s' = (overlay_mutation m s)\<lparr>as_watermarks := (as_watermarks s)[unat (mu_shard m) := mu_seq m]\<rparr>"
  using assms
  by (auto simp: active_apply_mutation_def Let_def rbind_eq_Inr vec_index_eq_Inr not_le
      split: if_splits)

lemma active_apply_eq:
  assumes "mu_shard m < as_shard_count s" and "unat (mu_shard m) < length (as_watermarks s)"
  shows "active_apply_mutation m s =
    (if mu_seq m \<le> as_watermarks s ! unat (mu_shard m) then Inr (s, DuplicateOrOld)
     else if mu_seq m \<noteq> as_watermarks s ! unat (mu_shard m) + 1
     then Inl (Gap (mu_shard m) (as_watermarks s ! unat (mu_shard m) + 1) (mu_seq m))
     else Inr ((overlay_mutation m s)\<lparr>as_watermarks := (as_watermarks s)[unat (mu_shard m) := mu_seq m]\<rparr>, Applied))"
  using assms by (simp add: active_apply_mutation_def Let_def leD)

lemma active_apply_next:
  assumes "mu_shard m < as_shard_count s" and "unat (mu_shard m) < length (as_watermarks s)"
    and "as_watermarks s ! unat (mu_shard m) < mu_seq m"
    and "mu_seq m = as_watermarks s ! unat (mu_shard m) + 1"
  shows "active_apply_mutation m s =
    Inr ((overlay_mutation m s)\<lparr>as_watermarks := (as_watermarks s)[unat (mu_shard m) := mu_seq m]\<rparr>, Applied)"
proof -
  have "\<not> mu_seq m \<le> as_watermarks s ! unat (mu_shard m)" using assms(3) by (simp add: not_le)
  then show ?thesis using active_apply_eq [OF assms(1,2)] assms(4) by (simp only: if_False if_True not_True_eq_False simp_thms)
qed

interpretation active_replica:
  sequenced_replica active_ok as_watermarks active_apply_mutation active_view
proof unfold_locales
  fix s s' :: active_state and m :: mutation and st
  assume s: "active_ok s"
  show "active_ok s'" if "active_apply_mutation m s = Inr (s', st)"
    using that by (cases rule: active_apply_cases) (use s active_ok_overlay in auto)
  show "unat (mu_shard m) < length (as_watermarks s) \<and> as_watermarks s ! unat (mu_shard m) < mu_seq m \<and>
      mu_seq m = as_watermarks s ! unat (mu_shard m) + 1 \<and>
      as_watermarks s' = (as_watermarks s)[unat (mu_shard m) := mu_seq m]"
    if "active_apply_mutation m s = Inr (s', Applied)"
    using that by (cases rule: active_apply_cases) auto
  show "s' = s \<and> unat (mu_shard m) < length (as_watermarks s) \<and>
      mu_seq m \<le> as_watermarks s ! unat (mu_shard m)"
    if "active_apply_mutation m s = Inr (s', DuplicateOrOld)"
    using that by (cases rule: active_apply_cases) auto
  show "av_watermarks (active_view s) = as_watermarks s" by (simp add: active_view_def)
  show "active_view s' = view_apply m (active_view s)"
    if "active_apply_mutation m s = Inr (s', Applied)"
    using that
  proof (cases rule: active_apply_cases)
    case fresh
    show ?thesis unfolding fresh(5) by (rule view_overlay)
  qed auto
qed

interpretation active_log: idempotent_log active_ok as_watermarks active_apply_mutation
proof unfold_locales
  fix s :: active_state and m :: mutation
  assume "active_ok s" and i: "unat (mu_shard m) < length (as_watermarks s)"
    and "mu_seq m \<le> as_watermarks s ! unat (mu_shard m)"
  moreover from this have "mu_shard m < as_shard_count s"
    by (simp add: active_ok_def word_less_nat_alt)
  ultimately show "active_apply_mutation m s = Inr (s, DuplicateOrOld)"
    by (simp add: active_apply_eq)
qed

section \<open>Decisions\<close>

lemma active_base_ok: "active_ok s \<Longrightarrow> base_ok (as_base s) (base_content s)"
  by (simp add: active_ok_def)

text \<open>A lookup answers from the content.\<close>

lemma active_lookup_view:
  assumes "active_ok s"
  shows "active_lookup s t n v now = Inr (view_lookup (active_view s) t n v now)"
  using decision_for_parts_ok [OF active_base_ok [OF assms], of t n "stable_key_hash t n v" now]
  by (auto simp: active_lookup_def view_lookup_def active_view_def acl_key_from_raw_def Let_def
      decision_for_entry_def [of None] hm_contains_def hm_get_def split: option.splits)

text \<open>All rules that take part in \<open>check\<close>: those of the overlay and those of the base that are not
  removed.\<close>

definition checked_rules :: "active_state \<Rightarrow> rule_entry set" where
  "checked_rules s = set (hm_values (as_delta_rule_adds s)) \<union>
     {r \<in> set (compiled_all_rules (as_rule_base s)). \<not> hm_contains (as_delta_rule_removes s) (rule_key_of r)}"

lemma fold_if_filter: "fold (\<lambda>r best. if P r then f r best else best) rs b = fold f (filter P rs) b"
  by (induction rs arbitrary: b) auto

definition active_candidates :: "active_state \<Rightarrow> string \<Rightarrow> string \<Rightarrow> string \<Rightarrow> rule_entry list" where
  "active_candidates s t n v =
     filter (\<lambda>r. re_tenant_id r = t \<and> rule_matches_namespace r n v) (hm_values (as_delta_rule_adds s)) @
     filter (\<lambda>r. \<not> hm_contains (as_delta_rule_removes s) (rule_key_of r)) (candidate_rules (as_rule_base s) t n v)"

lemma active_candidates_set:
  assumes "active_ok s"
  shows "set (active_candidates s t n v) =
    {r \<in> checked_rules s. re_tenant_id r = t \<and> rule_matches_namespace r n v}"
  using assms candidate_rules_set [of "as_rule_base s" "set (compiled_all_rules (as_rule_base s))" t n v]
  by (auto simp: active_candidates_def checked_rules_def active_ok_def)

lemma active_check_eq:
  assumes "active_ok s"
  shows "active_check s t n v now = Inr
    (if decision_is_denied (view_lookup (active_view s) t n v now)
     then view_lookup (active_view s) t n v now
     else rule_into_decision (best_rule now (active_candidates s t n v)))"
proof -
  have "compiled_ok (as_rule_base s) (set (compiled_all_rules (as_rule_base s)))"
    using assms by (simp add: active_ok_def)
  from consider_matches_eq [OF this] show ?thesis
    by (simp add: active_check_def active_lookup_view [OF assms] consider_delta_rules_def Let_def
        fold_if_filter best_rule_def active_candidates_def)
qed

lemma rule_map_Some:
  assumes "inj_on rule_key_of (set rs)"
  shows "rule_map rs k = Some r \<longleftrightarrow> r \<in> set rs \<and> rule_key_of r = k"
proof
  assume "rule_map rs k = Some r"
  then show "r \<in> set rs \<and> rule_key_of r = k" by (auto simp: rule_map_def dest: map_of_SomeD)
next
  assume r: "r \<in> set rs \<and> rule_key_of r = k"
  then obtain x where x: "rule_map rs k = Some x"
    by (cases "rule_map rs k") (force simp: rule_map_def map_of_eq_None_iff)+
  then have "x \<in> set rs \<and> rule_key_of x = k" by (auto simp: rule_map_def dest: map_of_SomeD)
  with r assms x show "rule_map rs k = Some r" by (metis inj_onD)
qed

lemma rule_map_None: "rule_map rs k = None \<longleftrightarrow> (\<forall>r \<in> set rs. rule_key_of r \<noteq> k)"
  by (force simp: rule_map_def map_of_eq_None_iff)

lemma checked_rules_view:
  assumes "active_ok s" and "no_stale_rules s"
  shows "checked_rules s = {r. \<exists>k. av_rules (active_view s) k = Some r}"
proof -
  let ?B = "compiled_all_rules (as_rule_base s)"
  have inj: "inj_on rule_key_of (set ?B)" and ok: "overlay_ok s" using assms(1) by (simp_all add: active_ok_def)
  have "hm_ok (as_delta_rule_adds s)" using ok by (simp add: overlay_ok_def rules_ok_def)
  have stale: "\<not> hm_contains (as_delta_rule_adds s) (rule_key_of r)" if "r \<in> set ?B" for r
    using assms(2) that by (auto simp: no_stale_rules_def rule_map_None)
  show ?thesis
  proof (intro set_eqI iffI)
    fix r assume "r \<in> checked_rules s"
    then consider k where "hm_get (as_delta_rule_adds s) k = Some r"
      | "r \<in> set ?B" "\<not> hm_contains (as_delta_rule_removes s) (rule_key_of r)"
      using hm_values_set [OF \<open>hm_ok (as_delta_rule_adds s)\<close>] by (auto simp: checked_rules_def)
    then show "r \<in> {r. \<exists>k. av_rules (active_view s) k = Some r}"
    proof cases
      case (1 k)
      then show ?thesis by (auto simp: active_view_def intro!: exI [of _ k])
    next
      case 2
      with stale [of r] rule_map_Some [OF inj, of "rule_key_of r" r] show ?thesis
        by (auto simp: active_view_def hm_contains_def intro!: exI [of _ "rule_key_of r"])
    qed
  next
    fix r assume "r \<in> {r. \<exists>k. av_rules (active_view s) k = Some r}"
    then obtain k where "av_rules (active_view s) k = Some r" by blast
    then show "r \<in> checked_rules s"
      using hm_values_set [OF \<open>hm_ok (as_delta_rule_adds s)\<close>] rule_map_Some [OF inj, of k r]
      by (auto simp: active_view_def checked_rules_def split: option.splits if_splits)
  qed
qed

lemma active_check_view:
  assumes "active_ok s" and "no_stale_rules s"
  shows "\<exists>d. active_check s t n v now = Inr d \<and>
    (decision_is_denied d \<longleftrightarrow> view_denies (active_view s) t n v now)"
proof -
  have "set (active_candidates s t n v) = view_matching (active_view s) t n v"
    using active_candidates_set [OF assms(1)] checked_rules_view [OF assms]
    by (auto simp: view_matching_def)
  then have "decision_is_denied (rule_into_decision (best_rule now (active_candidates s t n v))) \<longleftrightarrow>
     (\<exists>r \<in> live_rules now (view_matching (active_view s) t n v). re_action r = Deny \<and>
        (\<forall>x \<in> live_rules now (view_matching (active_view s) t n v). rule_rank x \<le> rule_rank r))"
    by (simp add: best_rule_denied_iff)
  then show ?thesis by (simp add: active_check_eq [OF assms(1)] view_denies_def)
qed

lemma source_check_view:
  assumes "rules_ok (so_rules s)"
  shows "decision_is_denied (source_check s t n v now) \<longleftrightarrow> view_denies (source_view s) t n v now"
proof -
  let ?rs = "filter (\<lambda>r. re_tenant_id r = t \<and> rule_matches_namespace r n v) (hm_values (so_rules s))"
  have "set ?rs = view_matching (source_view s) t n v"
    using assms by (auto simp: view_matching_def source_view_def rules_ok_def hm_values_set)
  moreover have "source_lookup s t n v now = view_lookup (source_view s) t n v now"
    by (simp add: source_lookup_def view_lookup_def source_view_def)
  ultimately show ?thesis
    using best_rule_denied_iff [of now ?rs]
    by (simp add: source_check_def view_denies_def Let_def fold_if_filter best_rule_def)
qed

end
