(* ===== verification/Edge_Machine.thy ===== *)
theory Edge_Machine
  imports Active_Correct
begin

text \<open>
  The edge as a machine: construction from a snapshot, the mutations of the log, compaction of the
  overlay, and the refinement between the source of truth and the edge (an edge built from a
  snapshot of the source accepts whatever the source accepts and gives the same answers).
\<close>

section \<open>Construction\<close>

lemma compiled_content:
  assumes "compiled_from_rules rs = Inr c"
  shows "compiled_ok c (set (compiled_all_rules c))"
    and "set (compiled_all_rules c) = {r \<in> set rs. re_action r \<noteq> Delete}"
proof -
  from compiled_from_rules_ok [OF assms] have c: "compiled_ok c {r \<in> set rs. re_action r \<noteq> Delete}" .
  from all_rules_ok [OF c] show s: "set (compiled_all_rules c) = {r \<in> set rs. re_action r \<noteq> Delete}" .
  with c show "compiled_ok c (set (compiled_all_rules c))" by simp
qed

lemma overlay_ok_empty:
  "overlay_ok \<lparr>as_shard_count = n, as_base = b, as_delta_adds = hm_new, as_delta_removes = hm_new,
     as_rule_base = c, as_delta_rule_adds = hm_new, as_delta_rule_removes = hm_new, as_watermarks = ws\<rparr>"
  by (simp add: overlay_ok_def)

lemma active_with_ok:
  assumes "active_with n ws es rs = Inr s" and "length ws = unat n"
    and "inj_on rule_key_of {r \<in> set rs. re_action r \<noteq> Delete}"
  shows "active_ok s" and "no_stale_rules s" and "av_entries (active_view s) = newest es"
    and "av_rules (active_view s) k = Some r \<longleftrightarrow> r \<in> set rs \<and> re_action r \<noteq> Delete \<and> rule_key_of r = k"
    and "as_watermarks s = ws" and "as_shard_count s = n"
proof -
  from assms(1) obtain b c where b: "base_from_entries es = Inr b" and c: "compiled_from_rules rs = Inr c"
    and s: "s = \<lparr>as_shard_count = n, as_base = b, as_delta_adds = hm_new, as_delta_removes = hm_new,
     as_rule_base = c, as_delta_rule_adds = hm_new, as_delta_rule_removes = hm_new, as_watermarks = ws\<rparr>"
    by (auto simp: active_with_def rbind_eq_Inr)
  from base_from_entries_ok [OF b] obtain ms where ms: "base_ok b ms" "entry_map ms = newest es" by blast
  have content: "base_content s = ms"
    using materialized_ok [OF ms(1)] by (simp add: base_content_def s)
  note rules = compiled_content [OF c]
  have inj: "inj_on rule_key_of (set (compiled_all_rules c))"
    using assms(3) by (simp only: rules(2))
  show "active_ok s"
    unfolding active_ok_def content using ms(1) assms(2) rules inj
    by (simp add: s overlay_ok_empty)
  show "no_stale_rules s" by (simp add: no_stale_rules_def s)
  have "av_entries (active_view s) = entry_map (base_content s)" by (simp add: active_view_def s)
  then show "av_entries (active_view s) = newest es" by (simp add: content ms(2))
  show "av_rules (active_view s) k = Some r \<longleftrightarrow> r \<in> set rs \<and> re_action r \<noteq> Delete \<and> rule_key_of r = k"
    using rule_map_Some [OF inj, of k r] rules(2) by (simp add: active_view_def s)
  show "as_watermarks s = ws" "as_shard_count s = n" by (simp_all add: s)
qed

lemma active_with_total:
  assumes "4 * length es \<le> 2 ^ 32" and "\<forall>r \<in> set rs. prefix_ok r"
  shows "\<exists>s. active_with n ws es rs = Inr s"
  using base_from_entries_total [OF assms(1)] compiled_from_rules_total [OF assms(2)]
  by (auto simp: active_with_def)

section \<open>Materialisation\<close>

lemma hm_values_keys:
  assumes "hm_ok m" and "\<And>k v. hm_get m k = Some v \<Longrightarrow> key v = k"
  shows "map key (hm_values m) = hm_keys m"
proof -
  have "key v = k" if "(k, v) \<in> set m" for k v
    using assms that by (simp add: hm_pairs_set)
  then show ?thesis by (auto simp: hm_values_def hm_keys_def)
qed

lemma materialized_entries_ok:
  assumes "active_ok s"
  shows "\<exists>es. materialized_entries s = Inr es \<and> distinct (map acl_key_of es) \<and>
    entry_map es = av_entries (active_view s)"
proof -
  note b = active_base_ok [OF assms]
  let ?kept = "filter (\<lambda>e. \<not> hm_contains (as_delta_removes s) (acl_key_of e) \<and>
                        \<not> hm_contains (as_delta_adds s) (acl_key_of e)) (base_content s)"
  let ?es = "?kept @ hm_values (as_delta_adds s)"
  have adds: "hm_ok (as_delta_adds s)" "\<And>k e. hm_get (as_delta_adds s) k = Some e \<Longrightarrow> acl_key_of e = k"
    and disjoint: "\<And>k. hm_contains (as_delta_removes s) k \<Longrightarrow> hm_get (as_delta_adds s) k = None"
    using assms by (auto simp: active_ok_def overlay_ok_def entries_ok_def hm_contains_def)
  have base_distinct: "distinct (map acl_key_of (base_content s))"
    using b by (simp add: base_ok_def)
  have keys: "map acl_key_of (hm_values (as_delta_adds s)) = hm_keys (as_delta_adds s)"
    using adds by (rule hm_values_keys)
  have distinct: "distinct (map acl_key_of ?es)"
  proof -
    have "distinct (map acl_key_of ?kept)" using base_distinct by (simp add: distinct_map inj_on_def)
    moreover have "distinct (hm_keys (as_delta_adds s))" using adds(1) by (simp add: hm_ok_def hm_keys_def)
    ultimately show ?thesis
      by (simp only: map_append distinct_append keys) (auto simp: hm_contains_iff)
  qed
  have "entry_map ?es k = av_entries (active_view s) k" for k
  proof -
    have "entry_map ?es k = Some e \<longleftrightarrow> av_entries (active_view s) k = Some e" for e
      using entry_map_Some [OF distinct, of k e] entry_map_Some [OF base_distinct, of k e]
        hm_values_set [OF adds(1)] adds(2) disjoint [of k]
      by (auto simp: active_view_def hm_contains_def split: option.splits)
    then show ?thesis by (metis option.exhaust)
  qed
  with distinct materialized_ok [OF b] show ?thesis
    by (auto simp: materialized_entries_def fun_eq_iff)
qed

lemma materialized_rules_ok:
  assumes "active_ok s"
  shows "inj_on rule_key_of (set (materialized_rules s))"
    and "r \<in> set (materialized_rules s) \<longleftrightarrow> av_rules (active_view s) (rule_key_of r) = Some r"
    and "r \<in> set (materialized_rules s) \<Longrightarrow> re_action r \<noteq> Delete"
proof -
  let ?B = "compiled_all_rules (as_rule_base s)"
  have inj: "inj_on rule_key_of (set ?B)" and adds: "hm_ok (as_delta_rule_adds s)"
    "\<And>k r. hm_get (as_delta_rule_adds s) k = Some r \<Longrightarrow> rule_key_of r = k"
    using assms by (auto simp: active_ok_def overlay_ok_def rules_ok_def)
  have iff: "r \<in> set (materialized_rules s) \<longleftrightarrow> av_rules (active_view s) (rule_key_of r) = Some r" for r
    using rule_map_Some [OF inj, of "rule_key_of r" r] hm_values_set [OF adds(1)] adds(2)
    by (auto simp: materialized_rules_def active_view_def hm_contains_def split: option.splits)
  then show "r \<in> set (materialized_rules s) \<longleftrightarrow> av_rules (active_view s) (rule_key_of r) = Some r" .
  show "inj_on rule_key_of (set (materialized_rules s))"
    by (rule inj_onI) (metis iff option.inject)
  show "re_action r \<noteq> Delete" if "r \<in> set (materialized_rules s)"
    using that assms hm_values_set [OF adds(1)]
    by (auto simp: materialized_rules_def active_ok_def overlay_ok_def)
qed

section \<open>Compaction\<close>

lemma view_rules_key:
  assumes "active_ok s" and "av_rules (active_view s) k = Some r"
  shows "rule_key_of r = k"
  using assms rule_map_Some [of "compiled_all_rules (as_rule_base s)" k r]
  by (auto simp: active_view_def active_ok_def overlay_ok_def rules_ok_def split: option.splits if_splits)

lemma compact_ok:
  assumes "active_ok s" and "compact_delta_overlay s = Inr s'"
  shows "active_ok s' \<and> active_view s' = active_view s \<and> no_stale_rules s' \<and> delta_entries_len s' = 0"
proof (cases "as_delta_adds s = [] \<and> as_delta_removes s = [] \<and> as_delta_rule_adds s = [] \<and>
         as_delta_rule_removes s = []")
  case True
  with assms show ?thesis
    by (simp add: compact_delta_overlay_def no_stale_rules_def delta_entries_len_def hm_len_def
        hm_contains_def hm_get_def)
next
  case False
  from materialized_entries_ok [OF assms(1)] obtain es where es: "materialized_entries s = Inr es"
    "distinct (map acl_key_of es)" "entry_map es = av_entries (active_view s)" by blast
  have rules_base: "materialized_rules (s\<lparr>as_base := b\<rparr>) = materialized_rules s" for b
    by (simp add: materialized_rules_def)
  from False assms(2) es(1) obtain b c where b: "base_from_entries es = Inr b"
    and c: "compiled_from_rules (materialized_rules s) = Inr c"
    and s': "s' = s\<lparr>as_base := b, as_rule_base := c, as_delta_adds := hm_new, as_delta_removes := hm_new,
      as_delta_rule_adds := hm_new, as_delta_rule_removes := hm_new\<rparr>"
    by (auto simp: compact_delta_overlay_def rbind_eq_Inr rules_base Let_def simp del: de_Morgan_conj)
  have w: "active_with (as_shard_count s) (as_watermarks s) es (materialized_rules s) = Inr s'"
    using b c by (simp add: active_with_def s')
  note rules = materialized_rules_ok [OF assms(1)]
  have "inj_on rule_key_of {r \<in> set (materialized_rules s). re_action r \<noteq> Delete}"
    using rules(1) by (rule inj_on_subset) auto
  note ok = active_with_ok [OF w _ this]
  have len: "length (as_watermarks s) = unat (as_shard_count s)" using assms(1) by (simp add: active_ok_def)
  have "av_rules (active_view s') k = av_rules (active_view s) k" for k
  proof -
    have "av_rules (active_view s') k = Some r \<longleftrightarrow> av_rules (active_view s) k = Some r" for r
      using ok(4) [OF len, of k r] rules(2,3) [of r] view_rules_key [OF assms(1), of k r] by auto
    then show ?thesis by (metis option.exhaust)
  qed
  moreover have "av_entries (active_view s') = av_entries (active_view s)"
    using ok(3) [OF len] newest_distinct [OF es(2)] es(3) by (auto simp: fun_eq_iff)
  moreover have "av_watermarks (active_view s') = av_watermarks (active_view s)"
    by (simp add: active_view_def s')
  ultimately have "active_view s' = active_view s"
    by (intro acl_view.equality) (simp_all add: fun_eq_iff)
  moreover have "delta_entries_len s' = 0" by (simp add: s' delta_entries_len_def hm_len_def hm_new_def)
  ultimately show ?thesis using ok(1,2) [OF len] by simp
qed

end
