(* ===== verification/Edge_Properties.thy ===== *)
theory Edge_Properties
  imports Edge_Refinement
begin

text \<open>
  The properties of the edge: what a step does on every branch, redelivery, compaction,
  convergence with the source of truth, the negative filter, and the stale rule that an update
  leaves behind until the next compaction.
\<close>

section \<open>The edge follows the source\<close>

text \<open>One step of the source is matched by one step of an edge with the same content.\<close>

lemma edge_step:
  assumes src: "source_shape src" and edge: "active_ok edge" and view: "active_view edge = source_view src"
    and step: "apply_replicated_mutation m src = Inr (src', st)"
  shows "\<exists>edge'. active_apply_mutation m edge = Inr (edge', st) \<and> active_ok edge' \<and>
           active_view edge' = source_view src'"
proof -
  have w: "as_watermarks edge = so_watermarks src"
    using view active_replica.view_watermarks [OF edge] source_replica.view_watermarks [OF src] by simp
  have i: "unat (mu_shard m) < length (as_watermarks edge)"
    using source_replica.step_watermarks [OF src step] w by simp
  then have c: "mu_shard m < as_shard_count edge" using edge by (simp add: active_ok_def word_less_nat_alt)
  show ?thesis
  proof (cases st)
    case Applied
    from source_replica.applied [OF src step [unfolded Applied]] w have
      seq: "as_watermarks edge ! unat (mu_shard m) < mu_seq m"
      "mu_seq m = as_watermarks edge ! unat (mu_shard m) + 1" by auto
    then obtain edge' where e: "active_apply_mutation m edge = Inr (edge', Applied)"
      using active_apply_next [OF c i] by blast
    from active_replica.view_step [OF edge e] source_replica.view_step [OF src step [unfolded Applied]]
    show ?thesis using e active_replica.inv_step [OF edge e] view Applied by auto
  next
    case DuplicateOrOld
    from source_replica.ignored [OF src step [unfolded DuplicateOrOld]] w i
      active_log.old_accepted [OF edge i] edge view DuplicateOrOld
    show ?thesis by auto
  qed
qed

lemma edge_stream:
  "source_shape src \<Longrightarrow> active_ok edge \<Longrightarrow> active_view edge = source_view src \<Longrightarrow>
   apply_stream apply_replicated_mutation ms src = Inr src' \<Longrightarrow>
   \<exists>edge'. apply_stream active_apply_mutation ms edge = Inr edge' \<and> active_ok edge' \<and>
     active_view edge' = source_view src'"
proof (induction ms arbitrary: src edge)
  case Nil
  then show ?case by auto
next
  case (Cons m ms)
  then obtain src1 st where s1: "apply_replicated_mutation m src = Inr (src1, st)"
    and rest: "apply_stream apply_replicated_mutation ms src1 = Inr src'" by (auto simp: rbind_eq_Inr)
  from edge_step [OF Cons.prems(1-3) s1] obtain edge1 where
    e1: "active_apply_mutation m edge = Inr (edge1, st)" "active_ok edge1"
    "active_view edge1 = source_view src1" by blast
  from Cons.IH [OF source_replica.inv_step [OF Cons.prems(1) s1] e1(2,3) rest] e1(1)
  show ?case by auto
qed

text \<open>An edge loads the snapshot of a source.\<close>

lemma edge_bootstrap:
  assumes src: "source_ok src" and serv: "source_servable src" and size: "4 * hm_len (so_entries src) \<le> 2 ^ 32"
  shows "\<exists>edge. active_from_snapshot (source_snapshot src) = Inr edge \<and> active_ok edge \<and>
     no_stale_rules edge \<and> active_view edge = source_view src"
proof -
  have shape: "length (so_watermarks src) = unat (so_shard_count src)" "entries_ok (so_entries src)"
    "rules_ok (so_rules src)" using src by (simp_all add: source_ok_def source_shape_def)
  have e: "hm_ok (so_entries src)" "\<And>k e. hm_get (so_entries src) k = Some e \<Longrightarrow> acl_key_of e = k"
    and r: "hm_ok (so_rules src)" "\<And>k r. hm_get (so_rules src) k = Some r \<Longrightarrow> rule_key_of r = k"
    using shape by (auto simp: entries_ok_def rules_ok_def)
  let ?es = "hm_values (so_entries src)" and ?rs = "hm_values (so_rules src)"
  have rules: "x \<in> set ?rs \<longleftrightarrow> hm_get (so_rules src) (rule_key_of x) = Some x" for x
    using r by (auto simp: hm_values_set [OF r(1)])
  have clean: "rule_servable (so_shard_count src) x" if "x \<in> set ?rs" for x
    using serv that rules by (auto simp: source_servable_def)
  have "snapshot_validate (source_snapshot src) = Inr ()"
    using shape serv clean
    by (auto simp: snapshot_validate_ok source_snapshot_def hm_values_set [OF e(1)] source_servable_def
        rule_servable_def)
  moreover obtain edge where edge: "active_with (so_shard_count src) (so_watermarks src) ?es ?rs = Inr edge"
    using active_with_total [of ?es ?rs "so_shard_count src" "so_watermarks src"] size clean
    by (auto simp: rule_servable_def hm_len_def hm_values_def)
  ultimately have boot: "active_from_snapshot (source_snapshot src) = Inr edge"
    by (simp add: active_from_snapshot_def source_snapshot_def)
  have "inj_on rule_key_of (set ?rs)" by (rule inj_onI) (metis rules option.inject)
  then have "inj_on rule_key_of {x \<in> set ?rs. re_action x \<noteq> Delete}" by (rule inj_on_subset) auto
  note ok = active_with_ok [OF edge shape(1) this]
  have d: "distinct (map acl_key_of ?es)"
    using hm_values_keys [OF e] e(1) by (simp add: hm_ok_def hm_keys_def)
  have "newest ?es k = hm_get (so_entries src) k" for k
  proof -
    have "entry_map ?es k = Some x \<longleftrightarrow> hm_get (so_entries src) k = Some x" for x
      using entry_map_Some [OF d, of k x] e(2) by (auto simp: hm_values_set [OF e(1)])
    then show ?thesis using newest_distinct [OF d] by (metis option.exhaust)
  qed
  moreover have "av_rules (active_view edge) k = hm_get (so_rules src) k" for k
  proof -
    have "av_rules (active_view edge) k = Some x \<longleftrightarrow> hm_get (so_rules src) k = Some x" for x
      using ok(4) [of k x] rules [of x] clean [of x] r(2) [of k x] by (auto simp: rule_servable_def)
    then show ?thesis by (metis option.exhaust)
  qed
  ultimately have "active_view edge = source_view src"
    using ok(3) ok(5) by (intro acl_view.equality) (simp_all add: source_view_def fun_eq_iff active_view_def)
  with boot ok(1,2) show ?thesis by blast
qed

lemma view_lookup_source: "view_lookup (source_view s) t n v now = source_lookup s t n v now"
  by (simp add: source_lookup_def view_lookup_def source_view_def)

text \<open>Compaction succeeds on content that can be loaded.\<close>

lemma compact_total:
  assumes edge: "active_ok edge" and view: "active_view edge = source_view src" and src: "source_ok src"
    and serv: "source_servable src" and size: "4 * hm_len (so_entries src) \<le> 2 ^ 32"
  shows "\<exists>edge'. compact_delta_overlay edge = Inr edge'"
proof -
  from materialized_entries_ok [OF edge] obtain es where es: "materialized_entries edge = Inr es"
    "distinct (map acl_key_of es)" "entry_map es = av_entries (active_view edge)" by blast
  have "length es = card (dom (entry_map es))" using distinct_card [OF es(2)] by (simp add: entry_map_dom)
  also have "dom (entry_map es) = set (hm_keys (so_entries src))"
    unfolding es(3) view by (auto simp: source_view_def hm_keys_set)
  also have "card \<dots> \<le> hm_len (so_entries src)"
    using card_length [of "hm_keys (so_entries src)"] by (simp add: hm_keys_def hm_len_def)
  finally obtain b where b: "base_from_entries es = Inr b" using base_from_entries_total [of es] size by auto
  have "prefix_ok r" if "r \<in> set (materialized_rules edge)" for r
    using that serv view materialized_rules_ok(2) [OF edge, of r]
    by (auto simp: source_view_def source_servable_def rule_servable_def)
  then obtain c where "compiled_from_rules (materialized_rules edge) = Inr c"
    using compiled_from_rules_total [of "materialized_rules edge"] by blast
  moreover have "materialized_rules (edge\<lparr>as_base := b\<rparr>) = materialized_rules edge"
    by (simp add: materialized_rules_def)
  ultimately show ?thesis using es(1) b by (simp add: compact_delta_overlay_def Let_def)
qed

section \<open>Properties\<close>

text \<open>C1: An edge follows the source of truth: it can load the snapshot of a source, accepts every
  stream of mutations that the source accepts, and then has the watermarks of the source and
  answers every lookup, of every key and at every time, as the source does.\<close>

theorem edge_follows_source:
  assumes "source_ok src" and "source_servable src" and "4 * hm_len (so_entries src) \<le> 2 ^ 32"
    and "apply_stream apply_replicated_mutation ms src = Inr src'"
  shows "\<exists>edge edge'. active_from_snapshot (source_snapshot src) = Inr edge \<and>
     apply_stream active_apply_mutation ms edge = Inr edge' \<and>
     as_watermarks edge' = so_watermarks src' \<and>
     (\<forall>t n v now. active_lookup edge' t n v now = Inr (source_lookup src' t n v now))"
proof -
  from edge_bootstrap [OF assms(1-3)] obtain edge where
    e: "active_from_snapshot (source_snapshot src) = Inr edge" "active_ok edge"
    "active_view edge = source_view src" by blast
  note shape = source_ok_shape [OF assms(1)]
  from edge_stream [OF shape e(2,3) assms(4)] obtain edge' where
    e': "apply_stream active_apply_mutation ms edge = Inr edge'" "active_ok edge'"
    "active_view edge' = source_view src'" by blast
  have "as_watermarks edge' = so_watermarks src'"
    using active_replica.view_watermarks [OF e'(2)]
      source_replica.view_watermarks [OF source_replica.stream_inv [OF shape assms(4)]] e'(3) by simp
  moreover have "active_lookup edge' t n v now = Inr (source_lookup src' t n v now)" for t n v now
    by (simp add: active_lookup_view [OF e'(2)] e'(3) view_lookup_source)
  ultimately show ?thesis using e(1) e'(1) by blast
qed

definition sample_mutation :: mutation where
  "sample_mutation = request_mutation 100 sample_request (source_new 4 ''eu'') 77 1 1"

lemma sample_stream:
  "\<exists>src'. apply_stream apply_replicated_mutation [sample_mutation] (source_new 4 ''eu'') = Inr src' \<and>
     hm_len (so_entries src') = 1"
proof -
  have "(case apply_stream apply_replicated_mutation [sample_mutation] (source_new 4 ''eu'') of
      Inl _ \<Rightarrow> False | Inr src' \<Rightarrow> hm_len (so_entries src') = 1)"
    by code_simp
  then show ?thesis by (auto split: sum.splits)
qed

lemma sample_source: "source_ok (source_new 4 ''eu'')" "source_servable (source_new 4 ''eu'')"
  "4 * hm_len (so_entries (source_new 4 ''eu'')) \<le> 2 ^ 32"
  by (rule source_new_ok) (rule source_new_servable, simp add: source_new_def Let_def hm_len_def hm_new_def)

theorem edge_follows_source_witness:
  "\<exists>src' edge edge'. apply_stream apply_replicated_mutation [sample_mutation] (source_new 4 ''eu'') = Inr src' \<and>
     active_from_snapshot (source_snapshot (source_new 4 ''eu'')) = Inr edge \<and>
     apply_stream active_apply_mutation [sample_mutation] edge = Inr edge' \<and>
     as_watermarks edge' = so_watermarks src'"
  using sample_stream edge_follows_source [OF sample_source, of "[sample_mutation]"] by blast

text \<open>C2: The decisions of \<open>check\<close> converge too: after the stream and one compaction of the overlay,
  which succeeds when the new content can be loaded, an edge denies a value exactly when the
  source denies it, point entries and rules taken together.\<close>

theorem edge_check_converges:
  assumes "source_ok src" and "source_servable src" and "4 * hm_len (so_entries src) \<le> 2 ^ 32"
    and "apply_stream apply_replicated_mutation ms src = Inr src'"
    and "source_ok src'" and "source_servable src'" and "4 * hm_len (so_entries src') \<le> 2 ^ 32"
  shows "\<exists>edge edge' edge''. active_from_snapshot (source_snapshot src) = Inr edge \<and>
     apply_stream active_apply_mutation ms edge = Inr edge' \<and>
     compact_delta_overlay edge' = Inr edge'' \<and>
     (\<forall>t n v now. \<exists>d. active_check edge'' t n v now = Inr d \<and>
        decision_is_denied d = decision_is_denied (source_check src' t n v now))"
proof -
  from edge_bootstrap [OF assms(1-3)] obtain edge where
    e: "active_from_snapshot (source_snapshot src) = Inr edge" "active_ok edge"
    "active_view edge = source_view src" by blast
  from edge_stream [OF source_ok_shape [OF assms(1)] e(2,3) assms(4)] obtain edge' where
    e': "apply_stream active_apply_mutation ms edge = Inr edge'" "active_ok edge'"
    "active_view edge' = source_view src'" by blast
  from compact_total [OF e'(2,3) assms(5-7)] obtain edge'' where
    c: "compact_delta_overlay edge' = Inr edge''" by blast
  from compact_ok [OF e'(2) c] have ok: "active_ok edge''" "active_view edge'' = source_view src'"
    "no_stale_rules edge''" using e'(3) by simp_all
  have "rules_ok (so_rules src')" using assms(5) by (simp add: source_ok_def source_shape_def)
  with active_check_view [OF ok(1,3)] source_check_view [of src'] ok(2) have
    "\<exists>d. active_check edge'' t n v now = Inr d \<and>
        decision_is_denied d = decision_is_denied (source_check src' t n v now)" for t n v now
    by simp
  with e(1) e'(1) c show ?thesis by blast
qed

lemma source_stream_ok:
  "source_ok s \<Longrightarrow> apply_stream apply_replicated_mutation ms s = Inr s' \<Longrightarrow> source_ok s'"
  by (induction ms arbitrary: s) (auto simp: rbind_eq_Inr dest: apply_replicated_ok)

theorem edge_check_converges_witness:
  "\<exists>edge edge' edge''. active_from_snapshot (source_snapshot (source_new 4 ''eu'')) = Inr edge \<and>
     apply_stream active_apply_mutation [sample_mutation] edge = Inr edge' \<and>
     compact_delta_overlay edge' = Inr edge''"
proof -
  obtain src' where s: "apply_stream apply_replicated_mutation [sample_mutation] (source_new 4 ''eu'') = Inr src'"
    "hm_len (so_entries src') = 1" using sample_stream by blast
  have serv: "mutation_servable (so_shard_count (source_new 4 ''eu'')) sample_mutation" by code_simp
  have "source_servable src'"
    using s(1) apply_replicated_servable [OF _ sample_source(2) serv] by (auto simp: rbind_eq_Inr)
  with edge_check_converges [OF sample_source s(1) source_stream_ok [OF sample_source(1) s(1)]] s(2)
  show ?thesis by auto
qed

text \<open>C11: What applying a mutation does, on every branch: a shard that does not exist is an error, a
  mutation at or below the watermark changes nothing, a mutation further ahead than the next one
  is a gap that names the expected number, and the next one is applied: the content changes as the
  mutation says and the watermark moves to it.\<close>

theorem edge_apply_outcome:
  assumes "edge_reachable s"
  shows "if as_shard_count s \<le> mu_shard m then active_apply_mutation m s = Inl InvalidData
    else let w = as_watermarks s ! unat (mu_shard m) in
      if mu_seq m \<le> w then active_apply_mutation m s = Inr (s, DuplicateOrOld)
      else if mu_seq m \<noteq> w + 1 then active_apply_mutation m s = Inl (Gap (mu_shard m) (w + 1) (mu_seq m))
      else \<exists>s'. active_apply_mutation m s = Inr (s', Applied) \<and>
        active_view s' = view_apply m (active_view s) \<and> edge_reachable s'"
proof (cases "as_shard_count s \<le> mu_shard m")
  case True
  then show ?thesis by (simp add: active_apply_mutation_def)
next
  case False
  have ok: "active_ok s" by (rule edge_reachable_ok [OF assms])
  have c: "mu_shard m < as_shard_count s" using False by simp
  then have i: "unat (mu_shard m) < length (as_watermarks s)"
    using ok by (simp add: active_ok_def word_less_nat_alt)
  show ?thesis
  proof (cases "\<not> mu_seq m \<le> as_watermarks s ! unat (mu_shard m) \<and>
      mu_seq m = as_watermarks s ! unat (mu_shard m) + 1")
    case True
    then have "active_apply_mutation m s = Inr ((overlay_mutation m s)\<lparr>as_watermarks :=
        (as_watermarks s)[unat (mu_shard m) := mu_seq m]\<rparr>, Applied)"
      by (intro active_apply_next [OF c i]) (metis not_le)+
    with active_replica.view_step [OF ok this] edge_apply [OF assms this] True False show ?thesis
      by (auto simp: Let_def)
  next
    case step: False
    then show ?thesis using active_apply_eq [OF c i] False by (auto simp: Let_def)
  qed
qed

lemma sample_count: "max (4::u16) 1 = 4"
  by code_simp

lemma sample_edge: "\<exists>edge. active_new 4 = Inr edge \<and> edge_reachable edge"
proof -
  have "\<exists>edge. active_new 4 = Inr edge" using active_with_total [of "[]" "[]"] by (simp add: active_new_def Let_def)
  then show ?thesis using edge_new by blast
qed

theorem edge_apply_outcome_witness:
  "\<exists>edge. active_new 4 = Inr edge \<and>
     (as_shard_count edge \<le> 1 \<or>
      (let w = as_watermarks edge ! 1 in
       if mu_seq sample_mutation \<le> w then active_apply_mutation sample_mutation edge = Inr (edge, DuplicateOrOld)
       else if mu_seq sample_mutation \<noteq> w + 1
       then active_apply_mutation sample_mutation edge = Inl (Gap 1 (w + 1) (mu_seq sample_mutation))
       else \<exists>s'. active_apply_mutation sample_mutation edge = Inr (s', Applied)))"
proof -
  have m: "mu_shard sample_mutation = 1" by (simp add: sample_mutation_def)
  obtain edge where e: "active_new 4 = Inr edge" "edge_reachable edge" using sample_edge by blast
  from edge_apply_outcome [OF e(2), of sample_mutation] e(1) show ?thesis
    by (auto simp: m Let_def split: if_splits)
qed

text \<open>C12: Delivery may repeat: after an edge accepted a stream, any selection of its mutations, in any
  order and any number of times, is accepted again and changes nothing.\<close>

theorem edge_redelivery:
  assumes "edge_reachable s" and "apply_stream active_apply_mutation ms s = Inr s'"
    and "set ms' \<subseteq> set ms"
  shows "apply_stream active_apply_mutation ms' s' = Inr s'"
  using active_log.redelivery [OF edge_reachable_ok [OF assms(1)] assms(2,3)] .

theorem edge_redelivery_witness:
  "\<exists>edge edge'. apply_stream active_apply_mutation [sample_mutation] edge = Inr edge' \<and>
     apply_stream active_apply_mutation [sample_mutation, sample_mutation] edge' = Inr edge'"
proof -
  let ?sn = "source_snapshot (source_new 4 ''eu'')"
  from edge_bootstrap [OF sample_source] obtain edge where
    e: "active_from_snapshot ?sn = Inr edge" "active_ok edge" "active_view edge = source_view (source_new 4 ''eu'')"
    by blast
  have "sn_rules ?sn = []" by (simp add: source_snapshot_def source_new_def Let_def hm_values_def hm_new_def)
  with edge_boot [OF e(1)] have r: "edge_reachable edge" by simp
  obtain src' where "apply_stream apply_replicated_mutation [sample_mutation] (source_new 4 ''eu'') = Inr src'"
    using sample_stream by blast
  from edge_stream [OF source_ok_shape [OF sample_source(1)] e(2,3) this] obtain edge' where
    e': "apply_stream active_apply_mutation [sample_mutation] edge = Inr edge'" by blast
  from edge_redelivery [OF r e', of "[sample_mutation, sample_mutation]"] e' show ?thesis by auto
qed

text \<open>C13: Compaction of the overlay is invisible to readers and clears it: the content, the watermarks
  and the number of entries stay, the overlay is empty, and no stale rule is left.\<close>

theorem edge_compaction:
  assumes "edge_reachable s" and "compact_delta_overlay s = Inr s'"
  shows "active_view s' = active_view s \<and> as_watermarks s' = as_watermarks s \<and>
    active_entries_len s' = active_entries_len s \<and> delta_entries_len s' = 0 \<and> no_stale_rules s' \<and>
    (\<forall>t n v now. active_lookup s' t n v now = active_lookup s t n v now)"
proof -
  have ok: "active_ok s" by (rule edge_reachable_ok [OF assms(1)])
  from compact_ok [OF ok assms(2)] have c: "active_ok s'" "active_view s' = active_view s"
    "no_stale_rules s'" "delta_entries_len s' = 0" by simp_all
  from materialized_entries_ok [OF ok] obtain es where
    es: "materialized_entries s = Inr es" "distinct (map acl_key_of es)" "entry_map es = av_entries (active_view s)"
    by blast
  from materialized_entries_ok [OF c(1)] obtain es' where
    es': "materialized_entries s' = Inr es'" "distinct (map acl_key_of es')" "entry_map es' = av_entries (active_view s')"
    by blast
  have "length es' = card (dom (entry_map es'))" "length es = card (dom (entry_map es))"
    using distinct_card [OF es(2)] distinct_card [OF es'(2)] by (simp_all add: entry_map_dom)
  then have "active_entries_len s' = active_entries_len s"
    using entries_len_ok [OF ok es(1)] entries_len_ok [OF c(1) es'(1)] es(3) es'(3) c(2) by simp
  moreover have "as_watermarks s' = as_watermarks s"
    using active_replica.view_watermarks [OF ok] active_replica.view_watermarks [OF c(1)] c(2) by simp
  ultimately show ?thesis
    using c by (simp add: active_lookup_view [OF ok] active_lookup_view [OF c(1)])
qed

theorem edge_compaction_witness:
  "\<exists>edge. active_new 4 = Inr edge \<and> compact_delta_overlay edge = Inr edge \<and> no_stale_rules edge"
proof -
  obtain edge where e: "active_new 4 = Inr edge" "edge_reachable edge" using sample_edge by blast
  then have "compact_delta_overlay edge = Inr edge"
    by (auto simp: active_new_def active_with_def Let_def rbind_eq_Inr compact_delta_overlay_def hm_new_def)
  with edge_compaction [OF e(2)] e(1) show ?thesis by blast
qed

text \<open>C14: The negative filter has no false negatives: when the filter of the base excludes a key, the
  base holds no entry for it, and a state without an overlay answers \<open>Allow\<close>.\<close>

theorem base_filter_sound:
  assumes "edge_reachable s" and "base_filter_may_contain s t n v = Inr False"
  shows "entry_map (base_content s) (acl_key_from_raw t n v) = None \<and>
    (delta_entries_len s = 0 \<longrightarrow> active_lookup s t n v now = Inr Allow)"
proof -
  have ok: "active_ok s" by (rule edge_reachable_ok [OF assms(1)])
  have b: "base_ok (as_base s) (base_content s)" using ok by (simp add: active_ok_def)
  have "lookup_parts (as_base s) t n (stable_key_hash t n v) = Inr None"
    using assms(2) by (simp add: lookup_parts_def base_filter_may_contain_def)
  then have "lookup_exact_parts (as_base s) t n (stable_key_hash t n v) = None"
    using lookup_parts_ok [OF b] by simp
  with lookup_exact_ok [OF b, of t n "stable_key_hash t n v"] have
    none: "entry_map (base_content s) (acl_key_from_raw t n v) = None" by (simp add: acl_key_from_raw_def)
  moreover have "active_lookup s t n v now = Inr Allow" if "delta_entries_len s = 0"
    using that none
    by (simp add: active_lookup_view [OF ok] view_lookup_def active_view_def delta_entries_len_def
        hm_len_def hm_get_def hm_contains_def decision_for_entry_def)
  ultimately show ?thesis by blast
qed

theorem base_filter_sound_witness:
  "\<exists>edge. active_new 4 = Inr edge \<and> base_filter_may_contain edge ''acme'' ''user'' ''eve'' = Inr False \<and>
     entry_map (base_content edge) (acl_key_from_raw ''acme'' ''user'' ''eve'') = None"
proof -
  obtain edge where e: "active_new 4 = Inr edge" "edge_reachable edge" using sample_edge by blast
  have "active_with 4 (replicate (unat (4::u16)) 0) [] [] = Inr edge"
    using e(1) by (simp add: active_new_def Let_def sample_count)
  then have "av_entries (active_view edge) = newest []"
    by (rule active_with_ok(3)) simp_all
  moreover have "delta_entries_len edge = 0"
    using e(1) by (auto simp: active_new_def active_with_def Let_def rbind_eq_Inr delta_entries_len_def
        hm_len_def hm_new_def)
  ultimately have "entry_map (base_content edge) = (\<lambda>k. None)"
    by (simp add: active_view_def delta_entries_len_def hm_len_def hm_get_def hm_contains_def fun_eq_iff)
  then have "base_content edge = []"
    by (cases "base_content edge") (auto simp: entry_map_def fun_eq_iff split: if_splits)
  then have "base_filter_may_contain edge ''acme'' ''user'' ''eve'' = Inr False"
    using edge_reachable_ok [OF e(2)]
    by (simp add: active_ok_def base_ok_def base_filter_may_contain_def may_contain_parts_def)
  with base_filter_sound [OF e(2) this] e(1) show ?thesis by blast
qed

text \<open>The number of entries an edge reports is the number of entries that its snapshot holds, which
  has one entry per key, whatever additions, updates and removals the overlay carries.\<close>

theorem edge_entries_counted:
  assumes "edge_reachable s"
  shows "\<exists>sn. active_snapshot s = Inr sn \<and> active_entries_len s = length (sn_entries sn) \<and>
    distinct (map acl_key_of (sn_entries sn)) \<and>
    (\<forall>e. e \<in> set (sn_entries sn) \<longleftrightarrow> av_entries (active_view s) (acl_key_of e) = Some e)"
proof -
  have ok: "active_ok s" by (rule edge_reachable_ok [OF assms])
  from materialized_entries_ok [OF ok] obtain es where
    es: "materialized_entries s = Inr es" "distinct (map acl_key_of es)" "entry_map es = av_entries (active_view s)"
    by blast
  have "e \<in> set es \<longleftrightarrow> av_entries (active_view s) (acl_key_of e) = Some e" for e
    using entry_map_Some [OF es(2), of "acl_key_of e" e] es(3) by simp
  with es(1,2) entries_len_ok [OF ok es(1)] show ?thesis by (simp add: active_snapshot_def)
qed

theorem edge_entries_counted_witness:
  "\<exists>edge sn. active_new 4 = Inr edge \<and> active_snapshot edge = Inr sn \<and>
     active_entries_len edge = length (sn_entries sn)"
proof -
  obtain edge where "active_new 4 = Inr edge" "edge_reachable edge" using sample_edge by blast
  with edge_entries_counted [of edge] show ?thesis by blast
qed

end
