(* ===== verification/Stale_Rule.thy ===== *)
theory Stale_Rule
  imports Edge_Properties
begin

text \<open>
  The one place where an edge's \<open>check\<close> does not answer from its content.  \<open>ActiveState::check\<close>
  hands only the removed keys of the overlay to \<open>CompiledRules::consider_matches\<close>; the keys of the
  updated rules are not skipped, so that the old version of an updated rule keeps taking part in
  the decision until the overlay is compacted.
\<close>

lemma stale_checked:
  assumes "active_ok s" and "no_stale_rules s" and "active_apply_mutation m s = Inr (s', Applied)"
    and "mu_rule m = Some new" and "re_action new \<noteq> Delete"
    and "old \<in> set (compiled_all_rules (as_rule_base s))"
    and "av_rules (active_view s) (rule_key_of old) = Some old" and "rule_key_of new = rule_key_of old"
  shows "old \<in> checked_rules s'" and "checked_rules s' \<subseteq> insert new (checked_rules s)"
proof -
  from assms(3) have s': "s' = (overlay_rule new (mu_seq m) s)
      \<lparr>as_watermarks := (as_watermarks s)[unat (mu_shard m) := mu_seq m]\<rparr>"
    by (cases rule: active_apply_cases) (simp_all add: overlay_mutation_def assms(4))
  have adds: "hm_ok (as_delta_rule_adds s)"
    using assms(1) by (simp add: active_ok_def overlay_ok_def rules_ok_def)
  have o: "as_rule_base s' = as_rule_base s"
    "as_delta_rule_adds s' = hm_insert (rule_key_of new) new (as_delta_rule_adds s)"
    "as_delta_rule_removes s' = hm_remove (rule_key_of new) (as_delta_rule_removes s)"
    using assms(5) by (cases "re_action new"; simp add: s' overlay_rule_def Let_def)+
  show "old \<in> checked_rules s'"
    using assms(6,8) by (simp add: checked_rules_def o)
  have "r = old" if "r \<in> set (compiled_all_rules (as_rule_base s))" "rule_key_of r = rule_key_of old" for r
    using assms(1,6) that by (auto simp: active_ok_def dest: inj_onD)
  moreover have "old \<in> checked_rules s"
    using checked_rules_view [OF assms(1,2)] assms(7) by auto
  moreover have "set (hm_values (as_delta_rule_adds s')) \<subseteq> insert new (set (hm_values (as_delta_rule_adds s)))"
    using hm_values_set [OF adds] hm_values_set [OF hm_ok_insert [OF adds], of "rule_key_of new" new]
    by (auto simp: o split: if_splits)
  ultimately show "checked_rules s' \<subseteq> insert new (checked_rules s)"
    by (auto simp: checked_rules_def o assms(8))
qed

text \<open>C5: An update can leave a denial behind: where one live deny rule of the base is the only rule
  that matches a value, a mutation that turns it into an allow override of the same or a lower
  priority changes the content so that nothing denies the value any more; \<open>check\<close> nevertheless
  keeps denying it, by the old version of the rule, until the overlay is compacted.\<close>

theorem stale_rule_denies:
  assumes "edge_reachable s" and "no_stale_rules s"
    and "view_matching (active_view s) t n v = {old}" and "old \<in> set (compiled_all_rules (as_rule_base s))"
    and "re_action old = Deny" and "\<not> rule_is_expired old now"
    and "\<not> decision_is_denied (view_lookup (active_view s) t n v now)"
    and "mu_rule m = Some new" and "rule_key_of new = rule_key_of old"
    and "re_action new = AllowOverride" and "re_priority new \<le> re_priority old"
    and "active_apply_mutation m s = Inr (s', Applied)"
  shows "(\<exists>d. active_check s' t n v now = Inr d \<and> decision_is_denied d) \<and>
    \<not> view_denies (active_view s') t n v now \<and>
    (\<forall>s''. compact_delta_overlay s' = Inr s'' \<longrightarrow>
       (\<exists>d. active_check s'' t n v now = Inr d \<and> \<not> decision_is_denied d))"
proof -
  have ok: "active_ok s" by (rule edge_reachable_ok [OF assms(1)])
  note ok' = active_replica.inv_step [OF ok assms(12)]
  have view': "active_view s' = view_apply m (active_view s)"
    by (rule active_replica.view_step [OF ok assms(12)])
  have "old \<in> view_matching (active_view s) t n v" using assms(3) by simp
  then obtain k where k: "av_rules (active_view s) k = Some old"
    and matches: "re_tenant_id old = t" "rule_matches_namespace old n v" by (auto simp: view_matching_def)
  have key: "rule_key_of old = k" by (rule view_rules_key [OF ok k])
  have "re_action new \<noteq> Delete" using assms(10) by simp
  note stale = stale_checked [OF ok assms(2,12,8) this assms(4) k [folded key] assms(9)]
  have lookup: "view_lookup (active_view s') t n v now = view_lookup (active_view s) t n v now"
    by (simp add: view' view_lookup_def view_apply_def assms(8) Let_def)
  have rank: "rule_rank new \<le> rule_rank old"
    using assms(5,10,11) by (auto simp: rule_rank_def action_rank_def less_eq_prod_simp)
  let ?C = "set (active_candidates s' t n v)"
  have C: "?C \<subseteq> {old, new}"
    using stale(2) assms(3) checked_rules_view [OF ok assms(2)]
    by (auto simp: active_candidates_set [OF ok'] view_matching_def)
  have "old \<in> live_rules now ?C"
    using stale(1) matches assms(6) by (simp add: active_candidates_set [OF ok'] live_rules_def)
  moreover have "\<forall>x \<in> live_rules now ?C. rule_rank x \<le> rule_rank old"
    using C rank by (auto simp: live_rules_def)
  ultimately have "decision_is_denied (rule_into_decision (best_rule now (active_candidates s' t n v)))"
    using assms(5) by (auto simp: best_rule_denied_iff)
  then have "\<exists>d. active_check s' t n v now = Inr d \<and> decision_is_denied d"
    using assms(7) by (simp add: active_check_eq [OF ok'] lookup)
  moreover have none: "\<not> view_denies (active_view s') t n v now"
  proof -
    have "re_action r \<noteq> Deny" if "r \<in> view_matching (active_view s') t n v" for r
    proof -
      from that obtain j where j: "av_rules (active_view s') j = Some r" "re_tenant_id r = t"
        "rule_matches_namespace r n v" by (auto simp: view_matching_def)
      have "r = new \<or> av_rules (active_view s) j = Some r \<and> j \<noteq> k"
        using j(1) assms(8,9,10) key by (auto simp: view' view_apply_def Let_def split: if_splits)
      moreover have "r \<noteq> old" if "av_rules (active_view s) j = Some r" "j \<noteq> k"
        using view_rules_key [OF ok that(1)] that(2) key by auto
      ultimately have "r = new" using j(2,3) assms(3) by (auto simp: view_matching_def)
      then show ?thesis using assms(10) by simp
    qed
    then show ?thesis using assms(7) by (auto simp: view_denies_def lookup live_rules_def)
  qed
  moreover have "\<exists>d. active_check s'' t n v now = Inr d \<and> \<not> decision_is_denied d"
    if "compact_delta_overlay s' = Inr s''" for s''
    using compact_ok [OF ok' that] active_check_view [of s'' t n v now] none by auto
  ultimately show ?thesis by blast
qed

definition sample_rule :: "action \<Rightarrow> u64 \<Rightarrow> rule_entry" where
  "sample_rule a q = \<lparr>re_tenant_id = ''acme'', re_kind = Ipv4Cidr, re_pattern = ''10.0.0.0/8'',
     re_rule_hash = 5, re_action = a, re_priority = 9, re_reason_code = ''abuse'', re_expires_at = 0,
     re_created_by = ''ops'', re_commit_seq = q, re_shard_id = 1, re_ipv4_network = 167772160,
     re_ipv4_prefix_len = 8, re_domain_suffix = []\<rparr>"

definition sample_update :: mutation where
  "sample_update = sample_mutation\<lparr>mu_rule := Some (sample_rule AllowOverride 1)\<rparr>"

definition sample_rules_snapshot :: snapshot where
  "sample_rules_snapshot = \<lparr>sn_shard_count = 4, sn_watermarks = [0, 0, 0, 0], sn_entries = [],
     sn_rules = [sample_rule Deny 0]\<rparr>"

lemma sample_trim: "trim ''ip'' = ''ip''" "trim ''10.1.2.3'' = ''10.1.2.3''"
  by (rule trim_graphic; simp add: graphic_def)+

lemma sample_kind: "rule_kind_for_namespace ''ip'' = Some Ipv4Cidr"
proof -
  have "to_ascii_lowercase ''ip'' = ''ip''" by code_simp
  then show ?thesis by (simp add: rule_kind_for_namespace_def sample_trim)
qed

lemma sample_addr: "parse_ipv4_addr ''10.1.2.3'' = Inr 167838211"
proof -
  have "parse_octets (split_on (CHR ''.'') ''10.1.2.3'') [] = Inr [10, 1, 2, 3]" by code_simp
  then show ?thesis by (simp add: parse_ipv4_addr_def sample_trim u32_from_be_def del: split_on.simps)
qed

lemma sample_matches: "rule_matches_namespace (sample_rule a q) ''ip'' ''10.1.2.3''"
proof -
  have "mask_ipv4 167838211 8 = 167772160" by (simp add: mask_ipv4_def mask_eq_exp_minus_1)
  then show ?thesis by (simp add: rule_matches_namespace_def sample_kind sample_addr sample_rule_def)
qed

theorem stale_rule_denies_witness:
  "\<exists>s s'. active_from_snapshot sample_rules_snapshot = Inr s \<and>
     active_apply_mutation sample_update s = Inr (s', Applied) \<and>
     (\<exists>d. active_check s' ''acme'' ''ip'' ''10.1.2.3'' 50 = Inr d \<and> decision_is_denied d) \<and>
     \<not> view_denies (active_view s') ''acme'' ''ip'' ''10.1.2.3'' 50"
proof -
  let ?old = "sample_rule Deny 0" and ?new = "sample_rule AllowOverride 1"
  have "\<forall>r \<in> set [?old]. prefix_ok r"
    by (simp add: prefix_ok_def sample_rule_def)
  then obtain s where w: "active_with 4 [0, 0, 0, 0] [] [?old] = Inr s"
    using active_with_total [of "[]" "[?old]"] by auto
  have "snapshot_validate sample_rules_snapshot = Inr ()" by code_simp
  then have boot: "active_from_snapshot sample_rules_snapshot = Inr s"
    using w by (simp add: active_from_snapshot_def sample_rules_snapshot_def)
  have "inj_on rule_key_of {r \<in> set [?old]. re_action r \<noteq> Delete}" by (auto simp: inj_on_def)
  note ok = active_with_ok [OF w _ this]
  have r: "edge_reachable s"
    by (rule edge_boot [OF boot]) (auto simp: sample_rules_snapshot_def inj_on_def)
  have act: "re_action ?old = Deny" "re_action ?new = AllowOverride" "rule_key_of ?new = rule_key_of ?old"
    "re_priority ?new \<le> re_priority ?old" "\<not> rule_is_expired ?old 50"
    "re_tenant_id ?old = ''acme''"
    by (simp_all add: sample_rule_def rule_key_of_def rule_is_expired_def)
  have rules: "av_rules (active_view s) k = Some x \<longleftrightarrow> x = ?old \<and> rule_key_of x = k" for k x
    using ok(4) [of k x] act(1) by auto
  have m: "view_matching (active_view s) ''acme'' ''ip'' ''10.1.2.3'' = {?old}"
    using sample_matches act(6) by (auto simp: view_matching_def rules)
  have base: "?old \<in> set (compiled_all_rules (as_rule_base s))"
    using w compiled_content(2) [of "[?old]"] act(1) by (auto simp: active_with_def rbind_eq_Inr)
  have l: "\<not> decision_is_denied (view_lookup (active_view s) ''acme'' ''ip'' ''10.1.2.3'' 50)"
    using ok(3) by (simp add: view_lookup_def decision_for_entry_def)
  have mu: "mu_shard sample_update = 1" "mu_seq sample_update = 1" "mu_rule sample_update = Some ?new"
    by (simp_all add: sample_update_def sample_mutation_def)
  have "active_apply_mutation sample_update s =
      Inr ((overlay_mutation sample_update s)\<lparr>as_watermarks := (as_watermarks s)[unat (mu_shard sample_update) := mu_seq sample_update]\<rparr>, Applied)"
    by (rule active_apply_next) (simp_all add: mu ok(5,6))
  from stale_rule_denies [OF r ok(2) m base act(1,5) l mu(3) act(3,2,4) this] this boot
  show ?thesis by auto
qed

end
