(* ===== verification/Shard_Logs.thy ===== *)
theory Shard_Logs
  imports Codec
begin

text \<open>
  The append logs of the shards and the delta bundles
  (\<open>globacl-core/src/lib/snapshots.rs\<close>).  A directory is a map from file names to contents, with
  the shard (or the shard and the range of a bundle) as the name.  Files other than the appended
  log are written beside their target and renamed, so that they change as a whole; an append is
  the only write that a crash can leave half done.  Errors of the operating system itself are not
  modelled.

  Results: appending and reading are inverse, compaction keeps exactly the records above the
  watermarks, and a log that was cut off at any byte either reads as the records before the cut
  or is refused, never as something else.
\<close>

type_synonym log_dir = "(u16, bytes) hashmap"

text \<open>The file names.\<close>

definition shard_log_path :: "u16 \<Rightarrow> string" where
  "shard_log_path shard_id = ''shard_'' @ pad_dec 4 (unat shard_id) @ ''.glog''"

definition delta_bundle_path :: "u16 \<Rightarrow> u64 \<Rightarrow> u64 \<Rightarrow> string" where
  "delta_bundle_path shard_id from_seq to_seq =
     ''shard_'' @ pad_dec 4 (unat shard_id) @ ''/delta_'' @ pad_dec 20 (unat from_seq) @ ''_'' @
     pad_dec 20 (unat to_seq) @ ''.glog''"

definition log_bytes :: "log_dir \<Rightarrow> u16 \<Rightarrow> bytes" where
  "log_bytes d shard_id = (case hm_get d shard_id of None \<Rightarrow> [] | Some b \<Rightarrow> b)"

definition append_mutation_to_log :: "mutation \<Rightarrow> log_dir \<Rightarrow> log_dir" where
  "append_mutation_to_log m d =
     hm_insert (mu_shard m) (log_bytes d (mu_shard m) @ encode_record m) d"

lemma read_exact_vec_length: "read_exact_vec n c = Inr (b, c') \<Longrightarrow> length c = n + length c'"
  by (auto simp: read_exact_vec_def split: if_splits)

lemma decode_record_shorter: "decode_record c = Inr (m, c') \<Longrightarrow> length c' < length c"
  by (auto simp: decode_record_def read_u32_def rbind_eq_Inr dest!: read_exact_vec_length)

text \<open>\<open>while cursor.position() < bytes.len()\<close>: every record takes at least its length prefix.\<close>

function read_records :: "bytes \<Rightarrow> mutation list res" where
  "read_records c =
     (if c = [] then Inr []
      else rbind (decode_record c) (\<lambda>(m, c'). rbind (read_records c') (\<lambda>ms. Inr (m # ms))))"
  by pat_completeness auto
termination
  by (relation "measure length") (auto dest: decode_record_shorter)

declare read_records.simps [simp del]

lemma read_records_Nil [simp]: "read_records [] = Inr []"
  by (subst read_records.simps) simp

lemma read_records_step:
  "c \<noteq> [] \<Longrightarrow> read_records c =
     rbind (decode_record c) (\<lambda>(m, c'). rbind (read_records c') (\<lambda>ms. Inr (m # ms)))"
  by (subst read_records.simps) simp

definition read_shard_log :: "log_dir \<Rightarrow> u16 \<Rightarrow> mutation list res" where
  "read_shard_log d shard_id = (case hm_get d shard_id of
     None \<Rightarrow> Inr []
   | Some b \<Rightarrow> read_records b)"

definition shard_ids :: "u16 \<Rightarrow> u16 list" where
  "shard_ids n = map word_of_nat [0..<unat n]"

definition load_all_logs :: "log_dir \<Rightarrow> u16 \<Rightarrow> mutation list res" where
  "load_all_logs d shard_count =
     rfold (\<lambda>i ms. rbind (read_shard_log d i) (\<lambda>xs. Inr (ms @ xs))) (shard_ids shard_count) []"

definition load_logs_after_watermarks :: "log_dir \<Rightarrow> u16 \<Rightarrow> u64 list \<Rightarrow> mutation list res" where
  "load_logs_after_watermarks d shard_count ws =
     (if length ws \<noteq> unat shard_count then Inl InvalidData
      else rfold (\<lambda>i ms.
             rbind (vec_index ws (unat i)) (\<lambda>w.
             rbind (read_shard_log d i) (\<lambda>xs. Inr (ms @ filter (\<lambda>m. w < mu_seq m) xs))))
           (shard_ids shard_count) [])"

definition write_shard_log :: "u16 \<Rightarrow> mutation list \<Rightarrow> log_dir \<Rightarrow> log_dir" where
  "write_shard_log shard_id ms d = hm_insert shard_id (concat (map encode_record ms)) d"

definition compact_shard :: "u64 list \<Rightarrow> u16 \<Rightarrow> log_dir \<Rightarrow> log_dir res" where
  "compact_shard ws i d =
     rbind (vec_index ws (unat i)) (\<lambda>w.
     rbind (read_shard_log d i) (\<lambda>xs.
       Inr (write_shard_log i (filter (\<lambda>m. w < mu_seq m) xs) d)))"

definition compact_logs_to_watermarks :: "u16 \<Rightarrow> u64 list \<Rightarrow> log_dir \<Rightarrow> log_dir res" where
  "compact_logs_to_watermarks shard_count ws d =
     (if length ws \<noteq> unat shard_count then Inl InvalidData
      else rfold (compact_shard ws) (shard_ids shard_count) d)"

type_synonym bundle_dir = "(u16 \<times> u64 \<times> u64, bytes) hashmap"

definition write_delta_bundle_file ::
  "u16 \<Rightarrow> u64 \<Rightarrow> u64 \<Rightarrow> mutation list \<Rightarrow> bundle_dir \<Rightarrow> bundle_dir" where
  "write_delta_bundle_file shard_id from_seq to_seq ms d =
     hm_insert (shard_id, from_seq, to_seq) (encode_mutation_stream ms) d"

definition read_delta_bundle_file :: "bundle_dir \<Rightarrow> u16 \<times> u64 \<times> u64 \<Rightarrow> mutation list res" where
  "read_delta_bundle_file d k = (case hm_get d k of
     None \<Rightarrow> Inl Io
   | Some b \<Rightarrow> decode_mutation_stream b)"

section \<open>Reading what was written\<close>

lemma read_exact_vec_more:
  "read_exact_vec n c = Inr (b, c') \<Longrightarrow> read_exact_vec n (c @ x) = Inr (b, c' @ x)"
  by (auto simp: read_exact_vec_def split: if_splits)

lemma decode_record_more: "decode_record c = Inr (m, c') \<Longrightarrow> decode_record (c @ x) = Inr (m, c' @ x)"
proof -
  assume "decode_record c = Inr (m, c')"
  then obtain len c1 b where "read_u32 c = Inr (len, c1)" and "read_exact_vec (unat len) c1 = Inr (b, c')"
    and m: "decode_mutation b = Inr m" by (auto simp: decode_record_def rbind_eq_Inr)
  then have "c = write_u32 len @ b @ c'" and "length b = unat len"
    by (auto simp: u32.dec_iff read_exact_vec_canonical)
  with m show ?thesis by (simp add: decode_record_def u32.roundtrip read_exact_vec_append)
qed

lemma read_records_append:
  "read_records c = Inr ms \<Longrightarrow> read_records (c @ x) = rbind (read_records x) (\<lambda>ns. Inr (ms @ ns))"
proof (induction c arbitrary: ms rule: read_records.induct)
  case (1 c)
  show ?case
  proof (cases "c = []")
    case True
    with 1(2) show ?thesis by (cases "read_records x") auto
  next
    case False
    with 1(2) obtain m c' ns where d: "decode_record c = Inr (m, c')" and n: "read_records c' = Inr ns"
      and ms: "ms = m # ns" by (auto simp: read_records_step rbind_eq_Inr)
    have "read_records (c @ x) = rbind (read_records (c' @ x)) (\<lambda>ys. Inr (m # ys))"
      using False decode_record_more [OF d, of x] by (simp add: read_records_step)
    also have "\<dots> = rbind (read_records x) (\<lambda>ys. Inr (ms @ ys))"
      using 1(1) [OF False d refl n] by (simp add: ms rbind_assoc)
    finally show ?thesis .
  qed
qed

lemma encode_record_not_Nil: "encode_record m \<noteq> []"
proof
  assume "encode_record m = []"
  then have "length (encode_record m) = 0" by simp
  then show False by (simp add: encode_record_def del: length_0_conv)
qed

lemma read_record_one: "wire_record m \<Longrightarrow> read_records (encode_record m) = Inr [m]"
  using framed.roundtrip_exact [of m] by (simp add: read_records_step encode_record_not_Nil)

lemma read_records_concat: "\<forall>m \<in> set ms. wire_record m \<Longrightarrow> read_records (concat (map encode_record ms)) = Inr ms"
  by (induction ms) (simp_all add: read_records_append read_record_one)

lemma read_appended:
  assumes "read_shard_log d (mu_shard m) = Inr ms" and "wire_record m"
  shows "read_shard_log (append_mutation_to_log m d) (mu_shard m) = Inr (ms @ [m])"
  using assms read_records_append [of "log_bytes d (mu_shard m)" ms "encode_record m"]
  by (simp add: read_shard_log_def append_mutation_to_log_def log_bytes_def read_record_one
      split: option.splits)

lemma read_appended_other:
  "i \<noteq> mu_shard m \<Longrightarrow> read_shard_log (append_mutation_to_log m d) i = read_shard_log d i"
  by (simp add: read_shard_log_def append_mutation_to_log_def)

section \<open>Shards\<close>

lemma set_shard_ids: "i \<in> set (shard_ids n) \<longleftrightarrow> i < n"
proof -
  have "i \<in> set (shard_ids n) \<longleftrightarrow> (\<exists>k < unat n. i = word_of_nat k)" by (auto simp: shard_ids_def)
  also have "\<dots> \<longleftrightarrow> unat i < unat n"
  proof
    assume "\<exists>k < unat n. i = word_of_nat k"
    then obtain k where k: "k < unat n" "i = word_of_nat k" by blast
    then have "k < 65536" using unat_u16_bound [of n] by simp
    with k show "unat i < unat n" by (simp add: unat_of_nat)
  next
    assume "unat i < unat n"
    then show "\<exists>k < unat n. i = word_of_nat k" by (intro exI [of _ "unat i"]) simp
  qed
  finally show ?thesis by (simp add: word_less_nat_alt)
qed

lemma distinct_shard_ids: "distinct (shard_ids n)"
proof -
  have "inj_on (word_of_nat :: nat \<Rightarrow> u16) {0..<unat n}"
    using unat_u16_bound [of n] by (intro inj_onI) (simp add: word_of_nat_eq_iff take_bit_nat_eq_self)
  then show ?thesis by (simp add: shard_ids_def distinct_map)
qed

lemma load_all_logs_ok:
  assumes "\<And>i. i < n \<Longrightarrow> read_shard_log d i = Inr (f i)"
  shows "load_all_logs d n = Inr (concat (map f (shard_ids n)))"
proof -
  have "rfold (\<lambda>i ms. rbind (read_shard_log d i) (\<lambda>xs. Inr (ms @ xs))) js ms = Inr (ms @ concat (map f js))"
    if "\<forall>i \<in> set js. i < n" for js ms
    using that assms by (induction js arbitrary: ms) auto
  then show ?thesis by (simp add: load_all_logs_def set_shard_ids)
qed

lemma load_all_logs_member:
  assumes "load_all_logs d n = Inr ms" and "i < n"
  shows "\<exists>xs. read_shard_log d i = Inr xs \<and> set xs \<subseteq> set ms"
proof -
  have "rfold (\<lambda>i ms. rbind (read_shard_log d i) (\<lambda>xs. Inr (ms @ xs))) js acc = Inr ms \<Longrightarrow>
      set acc \<subseteq> set ms \<and> (\<forall>i \<in> set js. \<exists>xs. read_shard_log d i = Inr xs \<and> set xs \<subseteq> set ms)" for js acc
    by (induction js arbitrary: acc) (force simp: rbind_eq_Inr)+
  then show ?thesis using assms by (auto simp: load_all_logs_def set_shard_ids)
qed

section \<open>Compaction\<close>

lemma compact_shards:
  "distinct js \<Longrightarrow> \<forall>i \<in> set js. unat i < length ws \<Longrightarrow>
   \<forall>i \<in> set js. read_shard_log d i = Inr (f i) \<Longrightarrow>
   \<exists>d'. rfold (compact_shard ws) js d = Inr d' \<and>
     (\<forall>i. hm_get d' i = (if i \<in> set js
        then Some (concat (map encode_record (filter (\<lambda>m. ws ! unat i < mu_seq m) (f i)))) else hm_get d i))"
proof (induction js arbitrary: d)
  case Nil
  then show ?case by simp
next
  case (Cons i js)
  let ?d = "write_shard_log i (filter (\<lambda>m. ws ! unat i < mu_seq m) (f i)) d"
  have "\<forall>j \<in> set js. read_shard_log ?d j = Inr (f j)"
    using Cons.prems by (auto simp: read_shard_log_def write_shard_log_def)
  with Cons.IH [of ?d] Cons.prems obtain d' where d': "rfold (compact_shard ws) js ?d = Inr d'"
    "\<forall>j. hm_get d' j = (if j \<in> set js
        then Some (concat (map encode_record (filter (\<lambda>m. ws ! unat j < mu_seq m) (f j)))) else hm_get ?d j)"
    by auto
  moreover have "compact_shard ws i d = Inr ?d"
    using Cons.prems by (simp add: compact_shard_def)
  ultimately show ?case using Cons.prems(1) by (auto simp: write_shard_log_def)
qed

lemma compact_logs_ok:
  assumes "length ws = unat n" and "\<And>i. i < n \<Longrightarrow> read_shard_log d i = Inr (f i)"
    and "\<And>i m. i < n \<Longrightarrow> m \<in> set (f i) \<Longrightarrow> wire_record m"
  shows "\<exists>d'. compact_logs_to_watermarks n ws d = Inr d' \<and>
     (\<forall>i < n. read_shard_log d' i = Inr (filter (\<lambda>m. ws ! unat i < mu_seq m) (f i)))"
proof -
  have "\<forall>i \<in> set (shard_ids n). unat i < length ws"
    using assms(1) by (simp add: set_shard_ids word_less_nat_alt)
  with compact_shards [OF distinct_shard_ids this, of d f] assms(2) obtain d' where
    d': "rfold (compact_shard ws) (shard_ids n) d = Inr d'"
    "\<forall>i < n. hm_get d' i = Some (concat (map encode_record (filter (\<lambda>m. ws ! unat i < mu_seq m) (f i))))"
    by (auto simp: set_shard_ids)
  then show ?thesis
    using assms by (auto simp: compact_logs_to_watermarks_def read_shard_log_def intro!: read_records_concat)
qed

section \<open>Cut-off logs\<close>

lemma decode_record_torn:
  assumes "p @ q = encode_record m" and "q \<noteq> []" and "wire_record m"
  shows "decode_record p = Inl Io"
proof (cases "length p < 4")
  case True
  then show ?thesis by (simp add: decode_record_def read_u32_def read_exact_vec_def)
next
  case False
  let ?h = "write_u32 (word_of_nat (length (encode_mutation m)))"
  have "prefix ?h (p @ q)" by (simp add: assms(1) encode_record_def)
  moreover have "prefix p (p @ q)" by simp
  moreover note False
  ultimately obtain p' where p: "p = ?h @ p'"
    by (metis prefix_length_prefix prefixE write_lengths(3) not_less)
  with assms(1) have "length p' + length q = length (encode_mutation m)"
    by (simp add: encode_record_def flip: length_append)
  then have short: "length p' < length (encode_mutation m)" using assms(2) by (cases q) auto
  have "unat (word_of_nat (length (encode_mutation m)) :: u32) = length (encode_mutation m)"
    using assms(3) by (intro unat_length_u32) (simp add: wire_record_def)
  with short show ?thesis
    by (simp add: decode_record_def p u32.roundtrip read_exact_vec_def)
qed

lemma read_torn:
  assumes "read_records b = Inr ms" and "wire_record m" and "n \<le> length (encode_record m)"
  shows "read_records (b @ take n (encode_record m)) =
    (if n = 0 then Inr ms else if n = length (encode_record m) then Inr (ms @ [m]) else Inl Io)"
proof (cases "n = 0 \<or> n = length (encode_record m)")
  case True
  with read_records_append [OF assms(1), of "encode_record m"] assms(1) read_record_one [OF assms(2)]
  show ?thesis by (auto simp: encode_record_not_Nil)
next
  case False
  let ?p = "take n (encode_record m)" and ?q = "drop n (encode_record m)"
  have "?p \<noteq> []" "?q \<noteq> []" using False assms(3) encode_record_not_Nil [of m] by auto
  then have "read_records ?p = Inl Io"
    using decode_record_torn [of ?p ?q m] assms(2) by (simp add: read_records_step)
  with False read_records_append [OF assms(1), of ?p] show ?thesis by simp
qed

section \<open>Properties\<close>

text \<open>C18: A crash in the middle of an append never invents or loses an earlier record: the log reads
  as before when nothing was written and as extended when everything was, and any other cut makes
  the whole log unreadable, so that loading it is an error rather than a shorter history.\<close>

theorem torn_append:
  assumes "read_shard_log d (mu_shard m) = Inr ms" and "wire_record m" and "n \<le> length (encode_record m)"
  shows "read_shard_log (hm_insert (mu_shard m) (log_bytes d (mu_shard m) @ take n (encode_record m)) d) (mu_shard m) =
    (if n = 0 then Inr ms else if n = length (encode_record m) then Inr (ms @ [m]) else Inl Io)"
proof -
  have "read_records (log_bytes d (mu_shard m)) = Inr ms"
    using assms(1) by (simp add: read_shard_log_def log_bytes_def split: option.splits)
  from read_torn [OF this assms(2,3)] show ?thesis
    unfolding read_shard_log_def by (simp only: hm_get_insert if_True option.case simp_thms)
qed

theorem torn_append_witness:
  "read_shard_log (hm_insert (mu_shard sample_wire_mutation)
     (log_bytes hm_new (mu_shard sample_wire_mutation) @ take 3 (encode_record sample_wire_mutation)) hm_new)
     (mu_shard sample_wire_mutation) = Inl Io"
proof -
  have "4 \<le> length (encode_record sample_wire_mutation)" by (simp add: encode_record_def)
  then have "3 \<le> length (encode_record sample_wire_mutation)" "3 \<noteq> length (encode_record sample_wire_mutation)"
    by linarith+
  with torn_append [OF _ sample_wire_record_ok, of hm_new "[]" 3] show ?thesis
    by (simp add: read_shard_log_def)
qed

text \<open>C19: Compaction of the logs, for watermarks of every shard and readable logs, succeeds and keeps
  of every shard exactly the records above its watermark, in their order.\<close>

theorem log_compaction:
  assumes "length ws = unat n" and "\<And>i. i < n \<Longrightarrow> read_shard_log d i = Inr (f i)"
    and "\<And>i m. i < n \<Longrightarrow> m \<in> set (f i) \<Longrightarrow> wire_record m"
  shows "\<exists>d'. compact_logs_to_watermarks n ws d = Inr d' \<and>
     (\<forall>i < n. read_shard_log d' i = Inr (filter (\<lambda>m. ws ! unat i < mu_seq m) (f i)))"
  using assms by (rule compact_logs_ok)

theorem log_compaction_witness:
  "\<exists>d'. compact_logs_to_watermarks 8 (replicate 8 0) (append_mutation_to_log sample_wire_mutation hm_new) = Inr d' \<and>
     read_shard_log d' (mu_shard sample_wire_mutation) =
       Inr (filter (\<lambda>m. 0 < mu_seq m) [sample_wire_mutation])"
proof -
  let ?d = "append_mutation_to_log sample_wire_mutation hm_new"
  let ?f = "\<lambda>i. if i = mu_shard sample_wire_mutation then [sample_wire_mutation] else []"
  have r: "read_shard_log ?d i = Inr (?f i)" for i
    using read_appended [OF _ sample_wire_record_ok, of hm_new "[]"] read_appended_other [of i sample_wire_mutation hm_new]
    by (simp add: read_shard_log_def)
  have s: "mu_shard sample_wire_mutation < 8" by (simp add: sample_wire_mutation_def)
  then have i: "unat (mu_shard sample_wire_mutation) < 8" by (simp add: word_less_nat_alt)
  obtain d' where d': "compact_logs_to_watermarks 8 (replicate 8 0) ?d = Inr d'"
    "\<forall>i < 8. read_shard_log d' i = Inr (filter (\<lambda>m. replicate 8 0 ! unat i < mu_seq m) (?f i))"
    using log_compaction [of "replicate 8 0" 8 ?d ?f] r sample_wire_record_ok by auto
  with s i show ?thesis by auto
qed

end
