(* ===== verification/Commitd_Config.thy ===== *)
theory Commitd_Config
  imports Hashing
begin

unbundle bit_operations_syntax

text \<open>
  The configuration of a commit daemon (\<open>globacl-commitd/src/app/config.rs\<close> and the structs of
  \<open>bootstrap.rs\<close>): peers, quorum and timing from environment variables, the tokens between peers,
  and the parsers of query and JSON fields.  The environment is a map from names to values.

  Results: an accepted configuration has distinct peers, contains the node itself and its initial
  leader, and has a majority quorum, so that any two quorums of it share a node (the locale
  \<open>quorum_system\<close>); the comparison of tokens is equality.
\<close>

type_synonym env = "(string, string) hashmap"

section \<open>Fields\<close>

definition parse_query_u64 :: "string \<Rightarrow> u64 res" where
  "parse_query_u64 v = rbind (ok_or Parse (parse_uint (2 ^ 64) v)) (\<lambda>n. Inr (word_of_nat n))"

definition parse_arg_u16 :: "string \<Rightarrow> u16 res" where
  "parse_arg_u16 v = rbind (ok_or Parse (parse_uint (2 ^ 16) v)) (\<lambda>n. Inr (word_of_nat n))"

definition parse_env_usize :: "string \<Rightarrow> nat res" where
  "parse_env_usize v = ok_or Parse (parse_uint (2 ^ 64) v)"

definition parse_env_u64 :: "string \<Rightarrow> u64 res" where
  "parse_env_u64 v = rbind (ok_or Parse (parse_uint (2 ^ 64) v)) (\<lambda>n. Inr (word_of_nat n))"

definition required_query :: "form \<Rightarrow> string \<Rightarrow> string res" where
  "required_query q key = (case hm_get q key of
     Some v \<Rightarrow> if v = [] then Inl Parse else Inr v
   | None \<Rightarrow> Inl Parse)"

definition required_query_u16 :: "form \<Rightarrow> string \<Rightarrow> u16 res" where
  "required_query_u16 q key = rbind (required_query q key) parse_arg_u16"

definition required_json_field :: "form \<Rightarrow> string \<Rightarrow> string res" where
  "required_json_field f key = (case hm_get f key of
     Some v \<Rightarrow> if v = [] then Inl Parse else Inr v
   | None \<Rightarrow> Inl Parse)"

definition parse_json_u64 :: "form \<Rightarrow> string \<Rightarrow> u64 \<Rightarrow> u64 res" where
  "parse_json_u64 f key dflt = (case hm_get f key of
     Some v \<Rightarrow> parse_query_u64 v
   | None \<Rightarrow> Inr dflt)"

definition json_bool :: "form \<Rightarrow> string \<Rightarrow> bool" where
  "json_bool f key = (case hm_get f key of
     Some v \<Rightarrow> v = ''1'' \<or> v = ''true'' \<or> v = ''yes''
   | None \<Rightarrow> False)"

definition env_bool_value :: "string \<Rightarrow> bool" where
  "env_bool_value v = (let t = to_ascii_lowercase (trim v) in
     t = ''1'' \<or> t = ''true'' \<or> t = ''yes'' \<or> t = ''on'')"

definition env_bool :: "env \<Rightarrow> string \<Rightarrow> bool \<Rightarrow> bool" where
  "env_bool ev name dflt = (case hm_get ev name of Some v \<Rightarrow> env_bool_value v | None \<Rightarrow> dflt)"

text \<open>\<open>GLOBACL_COMMITD_\<close> with \<open>GLOBACL_CONTROL_\<close> as the fallback.\<close>

definition commitd_env :: "env \<Rightarrow> string \<Rightarrow> string option" where
  "commitd_env ev name = first_field ev [''GLOBACL_COMMITD_'' @ name, ''GLOBACL_CONTROL_'' @ name]"

text \<open>An optional variable, parsed when it is set.\<close>

definition env_parsed :: "string option \<Rightarrow> (string \<Rightarrow> 'a res) \<Rightarrow> 'a \<Rightarrow> 'a res" where
  "env_parsed v parse dflt = (case v of Some t \<Rightarrow> parse t | None \<Rightarrow> Inr dflt)"

section \<open>Peers and replication\<close>

record control_peer =
  cp_node_id :: string
  cp_addr :: string

record replication_config =
  rc_cluster_id :: string
  rc_node_id :: string
  rc_initial_leader_id :: "string option"
  rc_peers :: "control_peer list"
  rc_quorum :: nat
  rc_heartbeat_interval_ms :: u64
  rc_election_timeout_ms :: u64
  rc_sync_interval_ms :: u64

definition is_clustered :: "replication_config \<Rightarrow> bool" where
  "is_clustered c = (1 < length (rc_peers c) \<or> 1 < rc_quorum c)"

definition peer_addr :: "replication_config \<Rightarrow> string \<Rightarrow> string option" where
  "peer_addr c node_id = map_option cp_addr (find (\<lambda>p. cp_node_id p = node_id) (rc_peers c))"

definition remote_peers :: "replication_config \<Rightarrow> control_peer list" where
  "remote_peers c = filter (\<lambda>p. cp_node_id p \<noteq> rc_node_id c) (rc_peers c)"

definition parse_peer :: "string \<Rightarrow> control_peer list \<Rightarrow> control_peer list res" where
  "parse_peer part peers = (case split_once (CHR ''='') part of
     None \<Rightarrow> Inl Parse
   | Some (node_id, addr) \<Rightarrow>
       if blank node_id \<or> blank addr then Inl Parse
       else if list_ex (\<lambda>p. cp_node_id p = trim node_id) peers then Inl Parse
       else if list_ex (\<lambda>p. cp_addr p = trim addr) peers then Inl Parse
       else Inr (peers @ [\<lparr>cp_node_id = trim node_id, cp_addr = trim addr\<rparr>]))"

definition parse_peers :: "string \<Rightarrow> control_peer list res" where
  "parse_peers v = rfold parse_peer (filter (\<lambda>p. p \<noteq> []) (map trim (split_on (CHR '','') v))) []"

text \<open>A node that is not among its peers is appended with its own address.\<close>

definition with_self :: "string \<Rightarrow> string \<Rightarrow> control_peer list \<Rightarrow> control_peer list" where
  "with_self node_id bind_addr peers =
     (let self = \<lparr>cp_node_id = node_id, cp_addr = bind_addr\<rparr>;
          peers = (if peers = [] then peers @ [self] else peers)
      in if \<not> list_ex (\<lambda>p. cp_node_id p = node_id) peers then peers @ [self] else peers)"

definition check_quorum :: "nat \<Rightarrow> control_peer list \<Rightarrow> unit res" where
  "check_quorum quorum peers =
     (if quorum = 0 \<or> length peers < quorum then Inl InvalidData
      else if 1 < length peers \<and> quorum \<le> length peers div 2 then Inl InvalidData
      else Inr ())"

text \<open>\<open>saturating_mul(3)\<close>.\<close>

definition check_timing :: "u64 \<Rightarrow> u64 \<Rightarrow> u64 \<Rightarrow> unit res" where
  "check_timing heartbeat election sync =
     (if heartbeat = 0 then Inl InvalidData
      else if unat election < min (unat heartbeat * 3) (2 ^ 64 - 1) then Inl InvalidData
      else if sync = 0 then Inl InvalidData
      else Inr ())"

definition replication_config :: "env \<Rightarrow> string \<Rightarrow> replication_config res" where
  "replication_config ev bind_addr =
     (let node_id = (case commitd_env ev ''NODE_ID'' of Some v \<Rightarrow> v
            | None \<Rightarrow> field_or ev ''HOSTNAME'' ''commitd-local'');
          cluster_id = (case commitd_env ev ''CLUSTER_ID'' of Some v \<Rightarrow> v | None \<Rightarrow> ''local'');
          initial_leader_id =
            (case (case commitd_env ev ''INITIAL_LEADER_ID'' of Some v \<Rightarrow> Some v
                   | None \<Rightarrow> commitd_env ev ''LEADER_ID'') of
               Some v \<Rightarrow> if blank v then None else Some v
             | None \<Rightarrow> None)
      in
      rbind (parse_peers (case commitd_env ev ''PEERS'' of Some v \<Rightarrow> v | None \<Rightarrow> [])) (\<lambda>peers.
      let peers = with_self node_id bind_addr peers in
      if (case initial_leader_id of
            Some l \<Rightarrow> \<not> list_ex (\<lambda>p. cp_node_id p = l) peers
          | None \<Rightarrow> False) then Inl InvalidData
      else
        rbind (env_parsed (commitd_env ev ''QUORUM'') parse_env_usize (length peers div 2 + 1)) (\<lambda>quorum.
        rbind (check_quorum quorum peers) (\<lambda>_.
        rbind (env_parsed (commitd_env ev ''HEARTBEAT_MS'') parse_env_u64 250) (\<lambda>heartbeat.
        rbind (env_parsed (commitd_env ev ''ELECTION_MS'') parse_env_u64 1200) (\<lambda>election.
        rbind (env_parsed (commitd_env ev ''SYNC_MS'') parse_env_u64 1000) (\<lambda>sync.
        rbind (check_timing heartbeat election sync) (\<lambda>_.
          Inr \<lparr>rc_cluster_id = cluster_id, rc_node_id = node_id,
               rc_initial_leader_id = initial_leader_id, rc_peers = peers, rc_quorum = quorum,
               rc_heartbeat_interval_ms = heartbeat, rc_election_timeout_ms = election,
               rc_sync_interval_ms = sync\<rparr>))))))))"

definition peer_token_config :: "env \<Rightarrow> replication_config \<Rightarrow> string option res" where
  "peer_token_config ev c =
     (let token = (case (case commitd_env ev ''PEER_TOKEN'' of Some v \<Rightarrow> Some v
                         | None \<Rightarrow> hm_get ev ''GLOBACL_PEER_TOKEN'') of
             Some v \<Rightarrow> if trim v = [] then None else Some (trim v)
           | None \<Rightarrow> None)
      in if is_clustered c \<and> token = None then Inl InvalidData else Inr token)"

section \<open>Compaction and publisher\<close>

record compaction_config =
  cc_min_log_entries :: nat
  cc_compact_on_startup :: bool

definition compaction_config :: "env \<Rightarrow> compaction_config res" where
  "compaction_config ev =
     rbind (env_parsed (commitd_env ev ''COMPACTION_MIN_LOG_ENTRIES'') parse_env_usize 10000) (\<lambda>n.
       Inr \<lparr>cc_min_log_entries = n,
            cc_compact_on_startup =
              (case commitd_env ev ''COMPACT_ON_STARTUP'' of Some v \<Rightarrow> env_bool_value v | None \<Rightarrow> True)\<rparr>)"

record publisher_config =
  pc_nats_addr :: string
  pc_stream :: string
  pc_subject_prefix :: string
  pc_publish_interval_ms :: u64
  pc_autocreate_stream :: bool

definition publisher_config :: "env \<Rightarrow> publisher_config option res" where
  "publisher_config ev =
     (let nats = first_field ev [''GLOBACL_NATS_ADDR'', ''GLOBACL_NATS_URL''];
          mode = (case first_field ev [''GLOBACL_COMMITD_PUBLISHER'', ''GLOBACL_PUBLISHER''] of
              Some v \<Rightarrow> v
            | None \<Rightarrow> if nats \<noteq> None then ''jetstream'' else ''none'');
          m = to_ascii_lowercase (trim mode)
      in if m \<in> set [[], ''none'', ''off'', ''disabled''] then Inr None
         else if m \<in> set [''jetstream'', ''nats'', ''nats_jetstream''] then
           rbind (env_parsed (hm_get ev ''GLOBACL_NATS_PUBLISH_MS'') parse_env_u64 250) (\<lambda>interval.
             Inr (Some \<lparr>pc_nats_addr = (case nats of Some v \<Rightarrow> v | None \<Rightarrow> ''127.0.0.1:4222''),
                        pc_stream = field_or ev ''GLOBACL_NATS_STREAM'' ''GLOBACL'',
                        pc_subject_prefix = field_or ev ''GLOBACL_NATS_SUBJECT_PREFIX'' ''globacl'',
                        pc_publish_interval_ms = interval,
                        pc_autocreate_stream = env_bool ev ''GLOBACL_NATS_AUTOCREATE'' True\<rparr>))
         else Inl Parse)"

section \<open>Requests between peers\<close>

text \<open>\<open>usize\<close> is 64 bits wide; the loop accumulates the differences of all bytes.\<close>

definition byte_at :: "bytes \<Rightarrow> nat \<Rightarrow> u8" where
  "byte_at bs i = (case vec_get bs i of Some b \<Rightarrow> b | None \<Rightarrow> 0)"

definition constant_time_eq :: "bytes \<Rightarrow> bytes \<Rightarrow> bool" where
  "constant_time_eq left right =
     (fold (\<lambda>i diff. diff OR ucast (byte_at left i XOR byte_at right i))
        [0..<max (length left) (length right)]
        ((word_of_nat (length left) :: u64) XOR word_of_nat (length right)) = 0)"

text \<open>\<open>require_peer_token\<close> without the response it writes.\<close>

definition peer_token_accepted :: "string option \<Rightarrow> string option \<Rightarrow> bool" where
  "peer_token_accepted expected provided = (case expected of
     None \<Rightarrow> True
   | Some e \<Rightarrow> constant_time_eq (as_bytes (case provided of Some v \<Rightarrow> v | None \<Rightarrow> [])) (as_bytes e))"

definition requires_leader :: "string \<Rightarrow> string \<Rightarrow> bool" where
  "requires_leader meth route = (meth = ''POST'' \<and>
     route \<in> set [''/v1/deny'', ''/v1/mutation'', ''/v1/rule'', ''/v1/canary'', ''/v1/snapshot'',
       ''/v1/rollback'', ''/v1/ack''])"

definition is_internal_route :: "string \<Rightarrow> bool" where
  "is_internal_route route =
     (prefix ''/internal/raft/'' route \<or> prefix ''/internal/replication/'' route)"

definition is_safe_snapshot_name :: "string \<Rightarrow> bool" where
  "is_safe_snapshot_name name =
     (name \<noteq> [] \<and> CHR ''/'' \<notin> set name \<and> char_of (92::nat) \<notin> set name \<and> suffix ''.gacl'' name \<and>
      list_all (\<lambda>c. is_ascii_alphanumeric c \<or> c = CHR ''.'' \<or> c = CHR ''_'' \<or> c = CHR ''-'') name)"

text \<open>\<open>u64\<close> arithmetic; the jitter of a node is at most one election timeout.\<close>

definition next_election_deadline_ms :: "u64 \<Rightarrow> string \<Rightarrow> u64 \<Rightarrow> u64" where
  "next_election_deadline_ms now_ms node_id election_timeout_ms =
     now_ms + election_timeout_ms + stable_node_jitter node_id mod max election_timeout_ms 1"

section \<open>Comparison of tokens\<close>

lemma fold_or_zero: "fold (\<lambda>i d. d OR f i) xs (d::u64) = 0 \<longleftrightarrow> d = 0 \<and> (\<forall>i \<in> set xs. f i = 0)"
proof (induction xs arbitrary: d)
  case (Cons x xs)
  have "d OR f x = 0 \<longleftrightarrow> d = 0 \<and> f x = 0" by (auto simp: bit_eq_iff bit_or_iff)
  with Cons show ?case by auto
qed simp

lemma xor_zero: "(a::'a::len word) XOR b = 0 \<longleftrightarrow> a = b"
  by (auto simp: bit_eq_iff bit_xor_iff)

lemma ucast_zero: "(ucast (b::u8) :: u64) = 0 \<longleftrightarrow> b = 0"
  using bit_imp_le_length [of b] by (force simp: bit_eq_iff bit_ucast_iff)

lemma constant_time_eq_bytes:
  assumes "length xs < 2 ^ 64" and "length ys < 2 ^ 64"
  shows "constant_time_eq xs ys \<longleftrightarrow> xs = ys"
proof -
  let ?n = "max (length xs) (length ys)"
  have len: "(word_of_nat (length xs) :: u64) = word_of_nat (length ys) \<longleftrightarrow> length xs = length ys"
    using assms by (simp add: word_of_nat_eq_iff take_bit_nat_eq_self)
  have "constant_time_eq xs ys \<longleftrightarrow> length xs = length ys \<and> (\<forall>i < ?n. byte_at xs i = byte_at ys i)"
    by (auto simp: constant_time_eq_def fold_or_zero xor_zero ucast_zero len)
  also have "\<dots> \<longleftrightarrow> xs = ys"
    by (auto simp: list_eq_iff_nth_eq byte_at_def vec_get_def)
  finally show ?thesis .
qed

section \<open>Majorities\<close>

text \<open>The contract of a quorum: in a valid configuration it is more than half of the nodes, so that
  two sets of that many nodes have a node in common.\<close>

locale quorum_system =
  fixes valid :: "'c \<Rightarrow> bool" and nodes :: "'c \<Rightarrow> 'a set" and quorum :: "'c \<Rightarrow> nat"
  assumes finite_nodes: "valid c \<Longrightarrow> finite (nodes c)"
    and more_than_half: "valid c \<Longrightarrow> card (nodes c) < 2 * quorum c"
begin

lemma quorums_meet:
  assumes "valid c" and "valid d" and "nodes c = nodes d"
    and "Q \<subseteq> nodes c" and "R \<subseteq> nodes d" and "quorum c \<le> card Q" and "quorum d \<le> card R"
  shows "Q \<inter> R \<noteq> {}"
proof
  assume "Q \<inter> R = {}"
  then have "card (Q \<union> R) = card Q + card R"
    using assms finite_nodes by (intro card_Un_disjoint) (auto intro: finite_subset)
  moreover have "card (Q \<union> R) \<le> card (nodes c)" using assms finite_nodes by (intro card_mono) auto
  ultimately show False using more_than_half [OF assms(1)] more_than_half [OF assms(2)] assms(3,6,7) by simp
qed

end

definition node_ids :: "replication_config \<Rightarrow> string set" where
  "node_ids c = cp_node_id ` set (rc_peers c)"

definition config_ok :: "replication_config \<Rightarrow> bool" where
  "config_ok c \<longleftrightarrow> distinct (map cp_node_id (rc_peers c)) \<and> rc_node_id c \<in> node_ids c \<and>
     length (rc_peers c) < 2 * rc_quorum c \<and> rc_quorum c \<le> length (rc_peers c) \<and>
     (\<forall>l. rc_initial_leader_id c = Some l \<longrightarrow> l \<in> node_ids c) \<and>
     0 < rc_heartbeat_interval_ms c \<and> rc_heartbeat_interval_ms c \<le> rc_election_timeout_ms c \<and>
     0 < rc_sync_interval_ms c"

interpretation config: quorum_system config_ok node_ids rc_quorum
proof
  fix c assume ok: "config_ok c"
  show "finite (node_ids c)" by (simp add: node_ids_def)
  have "card (node_ids c) = length (rc_peers c)"
    using ok distinct_card [of "map cp_node_id (rc_peers c)"] by (simp add: config_ok_def node_ids_def)
  with ok show "card (node_ids c) < 2 * rc_quorum c" by (simp add: config_ok_def)
qed

lemma parse_peer_ok:
  "parse_peer part ps = Inr ps' \<Longrightarrow> distinct (map cp_node_id ps) \<and> distinct (map cp_addr ps) \<Longrightarrow>
   distinct (map cp_node_id ps') \<and> distinct (map cp_addr ps')"
  by (auto simp: parse_peer_def list_ex_iff split: option.splits if_splits) metis+

lemma parse_peers_ok:
  assumes "parse_peers v = Inr ps"
  shows "distinct (map cp_node_id ps) \<and> distinct (map cp_addr ps)"
  using assms unfolding parse_peers_def
  by (rule rfold_invariant) (auto dest: parse_peer_ok)

lemma with_self_ok:
  "distinct (map cp_node_id ps) \<Longrightarrow> distinct (map cp_node_id (with_self n a ps)) \<and>
     n \<in> cp_node_id ` set (with_self n a ps)"
  by (auto simp: with_self_def Let_def list_ex_iff)

lemma check_quorum_ok:
  "check_quorum q ps = Inr () \<Longrightarrow> length ps < 2 * q \<and> q \<le> length ps"
  by (auto simp: check_quorum_def split: if_splits)

lemma check_timing_ok:
  "check_timing h e s = Inr () \<Longrightarrow> 0 < h \<and> h \<le> e \<and> 0 < s"
  using unat_u64_bound [of h] unat_u64_bound [of e]
  by (auto simp: check_timing_def word_neq_0_conv word_le_nat_alt split: if_splits)

lemma replication_config_ok:
  assumes "replication_config ev bind_addr = Inr c"
  shows "config_ok c"
proof -
  from assms obtain ps n l q h e s where ps: "parse_peers (case commitd_env ev ''PEERS'' of Some v \<Rightarrow> v | None \<Rightarrow> []) = Inr ps"
    and l: "\<not> (case l of Some l \<Rightarrow> \<not> list_ex (\<lambda>p. cp_node_id p = l) (with_self n bind_addr ps) | None \<Rightarrow> False)"
    and q: "check_quorum q (with_self n bind_addr ps) = Inr ()" and t: "check_timing h e s = Inr ()"
    and c: "rc_node_id c = n" "rc_peers c = with_self n bind_addr ps" "rc_initial_leader_id c = l"
      "rc_quorum c = q" "rc_heartbeat_interval_ms c = h" "rc_election_timeout_ms c = e"
      "rc_sync_interval_ms c = s"
    unfolding replication_config_def Let_def rbind_eq_Inr
    by (simp only: rbind_eq_Inr split: if_split_asm) fastforce
  have "\<forall>x. l = Some x \<longrightarrow> x \<in> node_ids c"
    using l by (auto simp: node_ids_def c list_ex_iff split: option.splits)
  with with_self_ok [of ps n bind_addr] parse_peers_ok [OF ps] check_quorum_ok [OF q] check_timing_ok [OF t]
  show ?thesis by (simp add: config_ok_def node_ids_def c)
qed

text \<open>C20: A configuration that is accepted is safe to run a cluster with: the peers have different
  names, the node and its initial leader are among them, heartbeats fit into the election timeout,
  and any two quorums of the nodes have a node in common.\<close>

theorem accepted_config_safe:
  assumes "replication_config ev bind_addr = Inr c"
  shows "config_ok c \<and> (\<forall>Q R. Q \<subseteq> node_ids c \<and> R \<subseteq> node_ids c \<and> rc_quorum c \<le> card Q \<and>
     rc_quorum c \<le> card R \<longrightarrow> Q \<inter> R \<noteq> {})"
  using replication_config_ok [OF assms] config.quorums_meet [of c c] by blast

definition sample_env :: env where
  "sample_env = [(''GLOBACL_COMMITD_NODE_ID'', ''a''), (''GLOBACL_COMMITD_PEERS'', ''a=h1,b=h2,c=h3'')]"

lemma sample_peers: "parse_peers ''a=h1,b=h2,c=h3'' =
  Inr [\<lparr>cp_node_id = ''a'', cp_addr = ''h1''\<rparr>, \<lparr>cp_node_id = ''b'', cp_addr = ''h2''\<rparr>,
       \<lparr>cp_node_id = ''c'', cp_addr = ''h3''\<rparr>]"
proof -
  have t: "trim ''a'' = ''a''" "trim ''b'' = ''b''" "trim ''c'' = ''c''" "trim ''h1'' = ''h1''"
    "trim ''h2'' = ''h2''" "trim ''h3'' = ''h3''" "trim ''a=h1'' = ''a=h1''" "trim ''b=h2'' = ''b=h2''"
    "trim ''c=h3'' = ''c=h3''"
    by (rule trim_graphic; simp add: graphic_def)+
  have "split_on (CHR '','') ''a=h1,b=h2,c=h3'' = [''a=h1'', ''b=h2'', ''c=h3'']" by simp
  then show ?thesis by (simp add: parse_peers_def parse_peer_def split_once_def blank_def t)
qed

lemma sample_config: "\<exists>c. replication_config sample_env ''h1'' = Inr c \<and> rc_quorum c = 2"
proof -
  have "commitd_env sample_env ''PEERS'' = Some ''a=h1,b=h2,c=h3''" "commitd_env sample_env ''NODE_ID'' = Some ''a''"
    "\<forall>n \<in> set [''CLUSTER_ID'', ''INITIAL_LEADER_ID'', ''LEADER_ID'', ''QUORUM'', ''HEARTBEAT_MS'', ''ELECTION_MS'',
       ''SYNC_MS'']. commitd_env sample_env n = None"
    by (simp_all add: commitd_env_def sample_env_def hm_get_def)
  then show ?thesis
    by (simp add: replication_config_def sample_peers with_self_def env_parsed_def check_quorum_def check_timing_def Let_def)
qed

theorem accepted_config_safe_witness:
  "\<exists>c. replication_config sample_env ''h1'' = Inr c \<and> config_ok c \<and> rc_quorum c = 2"
  using sample_config accepted_config_safe [of sample_env "''h1''"] by blast

text \<open>The comparison of peer tokens, which touches every byte of both, accepts exactly the
  expected token.\<close>

theorem peer_token_exact:
  assumes "length e < 2 ^ 64" and "length p < 2 ^ 64"
  shows "peer_token_accepted (Some e) (Some p) \<longleftrightarrow> p = e"
  using constant_time_eq_bytes [of "as_bytes p" "as_bytes e"] assms
  by (simp add: peer_token_accepted_def as_bytes_inj)

theorem peer_token_exact_witness:
  "\<not> peer_token_accepted (Some ''secret'') (Some ''secres'')"
  using peer_token_exact [of "''secret''" "''secres''"] by simp

end
