(* ===== verification/Signatures.thy ===== *)
theory Signatures
  imports Domain
begin

unbundle bit_operations_syntax

text \<open>
  Hexadecimal text, the signature envelope and the verifier with its key ring
  (\<open>globacl-core/src/lib/signatures.rs\<close> and the signature functions of \<open>rules.rs\<close>).  The Ed25519
  primitives and the JSON parser are parameters: \<open>ed_sign\<close> and \<open>ed_verify\<close> (which refuses a public
  key that is no point of the curve) and \<open>parse_json_fields\<close>, the map of the fields of an object.
  An external signing command is a function from the payload to the first word of its output or an error.

  Results: hexadecimal encoding and decoding are inverse, an accepted signature was made for a
  trusted key of an acceptable version, and what a signer writes is accepted by a verifier that
  trusts its key.
\<close>

section \<open>Hexadecimal text\<close>

definition hex_digit :: "nat \<Rightarrow> char" where
  "hex_digit n = ''0123456789abcdef'' ! n"

definition hex_encode :: "bytes \<Rightarrow> string" where
  "hex_encode bs = concat (map (\<lambda>b. [hex_digit (unat (drop_bit 4 b)), hex_digit (unat (b AND 0x0f))]) bs)"

definition hex_nibble :: "u8 \<Rightarrow> u8 res" where
  "hex_nibble b =
     (if 48 \<le> b \<and> b \<le> 57 then Inr (b - 48)
      else if 97 \<le> b \<and> b \<le> 102 then Inr (b - 97 + 10)
      else if 65 \<le> b \<and> b \<le> 70 then Inr (b - 65 + 10)
      else Inl Parse)"

text \<open>The loop over the slots of the array.\<close>

definition decode_hex_slot :: "bytes \<Rightarrow> nat \<Rightarrow> u8 res" where
  "decode_hex_slot t index =
     rbind (vec_index t (index * 2)) (\<lambda>a.
     rbind (hex_nibble a) (\<lambda>high.
     rbind (vec_index t (index * 2 + 1)) (\<lambda>b.
     rbind (hex_nibble b) (\<lambda>low. Inr (push_bit 4 high OR low)))))"

definition decode_hex_array :: "nat \<Rightarrow> string \<Rightarrow> bytes res" where
  "decode_hex_array n v =
     (let trimmed = (case strip_prefix ''hex:'' (trim v) of Some s \<Rightarrow> s | None \<Rightarrow> trim v)
      in if length trimmed \<noteq> n * 2 then Inl Parse
         else rmap (decode_hex_slot (as_bytes trimmed)) [0..<n])"

section \<open>Keys and envelopes\<close>

definition SIGNATURE_ALGORITHM :: string where
  "SIGNATURE_ALGORITHM = ''ed25519''"

definition DEFAULT_SIGNATURE_KEY_VERSION :: u64 where
  "DEFAULT_SIGNATURE_KEY_VERSION = 1"

record signature_envelope =
  se_algorithm :: string
  se_key_id :: string
  se_key_version :: u64
  se_signature :: string

record verification_key =
  vk_key_id :: string
  vk_key_version :: u64
  vk_public_key_hex :: string

record signature_verifier =
  sv_keys :: "(string, verification_key) hashmap"
  sv_min_key_version :: u64

datatype signature_provider = Ed25519PrivateKey string | ExternalCommand string

record signature_signer =
  ss_key_id :: string
  ss_key_version :: u64
  ss_provider :: signature_provider

definition verifier_add ::
  "verification_key \<Rightarrow> (string, verification_key) hashmap \<Rightarrow> (string, verification_key) hashmap res" where
  "verifier_add k keys =
     (if blank (vk_key_id k) then Inl InvalidData
      else rbind (decode_hex_array 32 (vk_public_key_hex k)) (\<lambda>_.
        if hm_contains keys (vk_key_id k) then Inl InvalidData
        else Inr (hm_insert (vk_key_id k) k keys)))"

definition verifier_new :: "verification_key list \<Rightarrow> u64 \<Rightarrow> signature_verifier res" where
  "verifier_new keys min_key_version =
     (if keys = [] then Inl InvalidData
      else rbind (rfold verifier_add keys hm_new) (\<lambda>by_id.
        Inr \<lparr>sv_keys = by_id, sv_min_key_version = min_key_version\<rparr>))"

text \<open>\<open>value.split([',', ';', '\n'])\<close>.\<close>

fun split_any :: "(char \<Rightarrow> bool) \<Rightarrow> string \<Rightarrow> string list" where
  "split_any p [] = [[]]"
| "split_any p (x # xs) =
     (if p x then [] # split_any p xs
      else case split_any p xs of [] \<Rightarrow> [[x]] | q # qs \<Rightarrow> (x # q) # qs)"

definition parse_public_key :: "string \<Rightarrow> verification_key res" where
  "parse_public_key part = (case split_once (CHR '':'') part of
     None \<Rightarrow> Inl Parse
   | Some (key_id, rest) \<Rightarrow>
       let (version, public_key) =
         (case split_once (CHR '':'') rest of
            Some (maybe_version, public_key) \<Rightarrow>
              (case parse_uint (2 ^ 64) maybe_version of
                 Some v \<Rightarrow> (word_of_nat v, public_key)
               | None \<Rightarrow> (DEFAULT_SIGNATURE_KEY_VERSION, rest))
          | None \<Rightarrow> (DEFAULT_SIGNATURE_KEY_VERSION, rest))
       in Inr \<lparr>vk_key_id = key_id, vk_key_version = version, vk_public_key_hex = public_key\<rparr>)"

definition parse_signature_public_keys :: "string \<Rightarrow> verification_key list res" where
  "parse_signature_public_keys v =
     rmap parse_public_key
       (filter (\<lambda>p. p \<noteq> [])
         (map trim (split_any (\<lambda>c. c = CHR '','' \<or> c = CHR '';'' \<or> c = CHR 0x0A) v)))"

definition parse_payload_signature :: "(bytes \<Rightarrow> form res) \<Rightarrow> bytes \<Rightarrow> signature_envelope res" where
  "parse_payload_signature parse_json_fields body =
     rbind (parse_json_fields body) (\<lambda>f.
     rbind (required f ''algorithm'') (\<lambda>algorithm.
     rbind (required f ''key_id'') (\<lambda>key_id.
     rbind (parse_u64 (hm_get f ''key_version'') 0) (\<lambda>key_version.
     rbind (required f ''signature'') (\<lambda>signature.
       Inr \<lparr>se_algorithm = algorithm, se_key_id = key_id, se_key_version = key_version,
            se_signature = signature\<rparr>)))))"

section \<open>Verification\<close>

type_synonym ed_verify = "bytes \<Rightarrow> bytes \<Rightarrow> bytes \<Rightarrow> bool res"

definition verify_payload_signature :: "ed_verify \<Rightarrow> string \<Rightarrow> bytes \<Rightarrow> string \<Rightarrow> bool res" where
  "verify_payload_signature ed_verify public_key_hex payload signature_hex =
     rbind (decode_hex_array 32 public_key_hex) (\<lambda>public_key.
     rbind (decode_hex_array 64 (trim signature_hex)) (\<lambda>signature.
       ed_verify public_key payload signature))"

definition verify_envelope ::
  "ed_verify \<Rightarrow> signature_verifier \<Rightarrow> bytes \<Rightarrow> signature_envelope \<Rightarrow> unit res" where
  "verify_envelope ed_verify v payload e =
     (if se_algorithm e \<noteq> SIGNATURE_ALGORITHM then Inl InvalidData
      else if se_key_version e < sv_min_key_version v then Inl InvalidData
      else case hm_get (sv_keys v) (se_key_id e) of
        None \<Rightarrow> Inl InvalidData
      | Some k \<Rightarrow>
          if se_key_version e \<noteq> 0 \<and> vk_key_version k \<noteq> 0 \<and> se_key_version e \<noteq> vk_key_version k
          then Inl InvalidData
          else rbind (verify_payload_signature ed_verify (vk_public_key_hex k) payload (se_signature e)) (\<lambda>good.
            if \<not> good then Inl InvalidData else Inr ()))"

definition verify_payload_signature_with_verifier ::
  "(bytes \<Rightarrow> form res) \<Rightarrow> ed_verify \<Rightarrow> signature_verifier \<Rightarrow> bytes \<Rightarrow> bytes \<Rightarrow> unit res" where
  "verify_payload_signature_with_verifier parse_json_fields ed_verify v payload body =
     rbind (parse_payload_signature parse_json_fields body) (verify_envelope ed_verify v payload)"

section \<open>Signing\<close>

definition signer_ed25519 :: "string \<Rightarrow> u64 \<Rightarrow> string \<Rightarrow> signature_signer res" where
  "signer_ed25519 key_id key_version private_key_hex =
     rbind (decode_hex_array 32 private_key_hex) (\<lambda>_.
       Inr \<lparr>ss_key_id = key_id, ss_key_version = key_version,
            ss_provider = Ed25519PrivateKey private_key_hex\<rparr>)"

text \<open>A command of white space only has no program to run.\<close>

definition signer_external :: "string \<Rightarrow> u64 \<Rightarrow> string \<Rightarrow> signature_signer res" where
  "signer_external key_id key_version command =
     (if blank command then Inl InvalidData
      else Inr \<lparr>ss_key_id = key_id, ss_key_version = key_version, ss_provider = ExternalCommand command\<rparr>)"

definition payload_signature_hex :: "(bytes \<Rightarrow> bytes \<Rightarrow> bytes) \<Rightarrow> string \<Rightarrow> bytes \<Rightarrow> string res" where
  "payload_signature_hex ed_sign private_key_hex payload =
     rbind (decode_hex_array 32 private_key_hex) (\<lambda>private_key.
       Inr (hex_encode (ed_sign private_key payload)))"

text \<open>The envelope, which is then written as a JSON object.\<close>

definition format_payload_signature_from_hex :: "string \<Rightarrow> u64 \<Rightarrow> string \<Rightarrow> signature_envelope res" where
  "format_payload_signature_from_hex key_id key_version signature_hex =
     rbind (decode_hex_array 64 signature_hex) (\<lambda>s.
       Inr \<lparr>se_algorithm = SIGNATURE_ALGORITHM, se_key_id = key_id, se_key_version = key_version,
            se_signature = hex_encode s\<rparr>)"

text \<open>\<open>run_command\<close> is the external command: the first word of its standard output, or an error.\<close>

definition external_payload_signature_hex :: "(string \<Rightarrow> bytes \<Rightarrow> string res) \<Rightarrow> string \<Rightarrow> bytes \<Rightarrow> string res"
  where
  "external_payload_signature_hex run_command command payload =
     rbind (run_command command payload) (\<lambda>first_word.
     rbind (decode_hex_array 64 first_word) (\<lambda>s. Inr (hex_encode s)))"

definition sign_payload ::
  "(bytes \<Rightarrow> bytes \<Rightarrow> bytes) \<Rightarrow> (string \<Rightarrow> bytes \<Rightarrow> string res) \<Rightarrow> signature_signer \<Rightarrow> bytes
   \<Rightarrow> signature_envelope res" where
  "sign_payload ed_sign run_command s payload =
     rbind (case ss_provider s of
              Ed25519PrivateKey k \<Rightarrow> payload_signature_hex ed_sign k payload
            | ExternalCommand c \<Rightarrow> external_payload_signature_hex run_command c payload)
       (format_payload_signature_from_hex (ss_key_id s) (ss_key_version s))"

section \<open>Hexadecimal text is read back\<close>

lemma nibble_less: "unat (drop_bit 4 (b::u8)) < 16" "unat (b AND 0x0f) < 16"
proof -
  have "unat (drop_bit 4 b) = unat b div 16"
    by (simp add: drop_bit_eq_div unat_div)
  then show "unat (drop_bit 4 b) < 16" using unat_u8_bound [of b] by simp
  have "b AND 0x0f \<le> 0x0f" by (rule word_and_le1)
  then show "unat (b AND 0x0f) < 16" by (simp add: word_le_nat_alt)
qed

lemma hex_digits:
  assumes "n < 16"
  shows "hex_nibble (byte_of_char (hex_digit n)) = Inr (word_of_nat n)"
proof -
  have "list_all (\<lambda>n. hex_nibble (byte_of_char (hex_digit n)) = Inr (word_of_nat n)) [0..<16]" by code_simp
  with assms show ?thesis by (simp only: list_all_iff set_upt) auto
qed

lemma hex_digit_graphic:
  assumes "n < 16"
  shows "graphic (hex_digit n)"
proof -
  have "list_all (\<lambda>n. graphic (hex_digit n)) [0..<16]" by code_simp
  with assms show ?thesis by (simp only: list_all_iff set_upt) auto
qed

lemma hex_digit_not_h:
  assumes "n < 16"
  shows "hex_digit n \<noteq> CHR ''h''"
proof -
  have "list_all (\<lambda>n. hex_digit n \<noteq> CHR ''h'') [0..<16]" by code_simp
  with assms show ?thesis by (simp only: list_all_iff set_upt) auto
qed

lemma nibbles_join: "push_bit 4 (drop_bit 4 b) OR (b AND 0x0f) = (b::u8)"
proof -
  have "b AND 0x0f = take_bit 4 b" by (simp add: take_bit_eq_mask mask_eq_exp_minus_1)
  then show ?thesis by (auto simp: bit_eq_iff bit_or_iff bit_push_bit_iff bit_drop_bit_eq bit_take_bit_iff)
qed

lemma hex_encode_Cons:
  "hex_encode (b # bs) = hex_digit (unat (drop_bit 4 b)) # hex_digit (unat (b AND 0x0f)) # hex_encode bs"
  by (simp add: hex_encode_def)

lemma length_hex_encode [simp]: "length (hex_encode bs) = 2 * length bs"
  by (induction bs) (simp_all add: hex_encode_def)

lemma hex_encode_nth:
  "i < length bs \<Longrightarrow> hex_encode bs ! (i * 2) = hex_digit (unat (drop_bit 4 (bs ! i))) \<and>
     hex_encode bs ! (i * 2 + 1) = hex_digit (unat (bs ! i AND 0x0f))"
proof (induction bs arbitrary: i)
  case (Cons b bs)
  then show ?case by (cases i) (simp_all add: hex_encode_Cons)
qed simp

lemma hex_encode_chars: "c \<in> set (hex_encode bs) \<Longrightarrow> graphic c \<and> c \<noteq> CHR ''h''"
proof (induction bs)
  case Nil
  then show ?case by (simp add: hex_encode_def)
next
  case (Cons b bs)
  then show ?case using nibble_less [of b] by (auto simp: hex_encode_Cons hex_digit_graphic hex_digit_not_h)
qed

lemma trim_hex [simp]: "trim (hex_encode bs) = hex_encode bs"
  by (rule trim_graphic) (auto dest: hex_encode_chars)

lemma hex_no_prefix [simp]: "strip_prefix ''hex:'' (hex_encode bs) = None"
proof -
  have "\<not> prefix ''hex:'' (hex_encode bs)" using hex_encode_chars [of "CHR ''h''" bs] by (auto simp: prefix_def)
  then show ?thesis by (simp add: strip_prefix_def)
qed

lemma decode_hex_encode: "length bs = n \<Longrightarrow> decode_hex_array n (hex_encode bs) = Inr bs"
proof -
  assume n: "length bs = n"
  have "decode_hex_slot (as_bytes (hex_encode bs)) i = Inr (bs ! i)" if "i < n" for i
    using that n hex_encode_nth [of i bs] nibble_less [of "bs ! i"] nibbles_join [of "bs ! i"]
    by (simp add: decode_hex_slot_def as_bytes_def hex_digits)
  then have "rmap (decode_hex_slot (as_bytes (hex_encode bs))) [0..<n] = Inr (map (\<lambda>i. bs ! i) [0..<n])"
    by (auto simp: rmap_eq_Inr list_all2_conv_all_nth)
  then show ?thesis using n map_nth [of bs] by (simp add: decode_hex_array_def)
qed

section \<open>What verification guarantees\<close>

lemma verifier_add_ok:
  "verifier_add k keys = Inr keys' \<Longrightarrow>
   keys' = hm_insert (vk_key_id k) k keys \<and> hm_get keys (vk_key_id k) = None \<and>
   is_ok (decode_hex_array 32 (vk_public_key_hex k)) \<and> \<not> blank (vk_key_id k)"
  by (auto simp: verifier_add_def rbind_eq_Inr hm_contains_def split: if_splits)

lemma verifier_add_all:
  "rfold verifier_add ks keys = Inr keys' \<Longrightarrow>
   (\<forall>k. hm_get keys' k = (case hm_get keys k of Some v \<Rightarrow> Some v
      | None \<Rightarrow> find (\<lambda>x. vk_key_id x = k) ks)) \<and> (\<forall>x \<in> set ks. \<not> blank (vk_key_id x))"
proof (induction ks arbitrary: keys)
  case Nil
  then show ?case by (auto split: option.splits)
next
  case (Cons x ks)
  then obtain mid where m: "verifier_add x keys = Inr mid" and r: "rfold verifier_add ks mid = Inr keys'"
    by (auto simp: rbind_eq_Inr)
  from Cons.IH [OF r] verifier_add_ok [OF m] show ?case by (auto split: option.splits)
qed

text \<open>C16: An accepted signature speaks for a configured key: the verifier holds a key under the name in
  the envelope that was given to it when it was built, the signature is an Ed25519 signature of
  exactly the payload under that key, the version in the envelope is at least the required
  minimum, and, for a key with a version, so is the version of the key itself.\<close>

theorem accepted_signature_trusted:
  assumes "verifier_new ks min_version = Inr v"
    and "verify_payload_signature_with_verifier parse ed_verify v payload body = Inr ()"
  shows "\<exists>e k pk sig. parse_payload_signature parse body = Inr e \<and> k \<in> set ks \<and> vk_key_id k = se_key_id e \<and>
    decode_hex_array 32 (vk_public_key_hex k) = Inr pk \<and>
    decode_hex_array 64 (trim (se_signature e)) = Inr sig \<and> ed_verify pk payload sig = Inr True \<and>
    min_version \<le> se_key_version e \<and>
    (se_key_version e \<noteq> 0 \<and> vk_key_version k \<noteq> 0 \<longrightarrow> min_version \<le> vk_key_version k)"
proof -
  from assms(1) obtain keys where keys: "rfold verifier_add ks hm_new = Inr keys"
    and v: "sv_keys v = keys" "sv_min_key_version v = min_version"
    by (auto simp: verifier_new_def rbind_eq_Inr split: if_splits)
  have get: "hm_get keys n = find (\<lambda>x. vk_key_id x = n) ks" for n
    using verifier_add_all [OF keys] by simp
  from assms(2) obtain e where e: "parse_payload_signature parse body = Inr e"
    and ve: "verify_envelope ed_verify v payload e = Inr ()"
    by (auto simp: verify_payload_signature_with_verifier_def rbind_eq_Inr)
  from ve obtain k where k: "hm_get keys (se_key_id e) = Some k"
    and ver: "min_version \<le> se_key_version e"
      "\<not> (se_key_version e \<noteq> 0 \<and> vk_key_version k \<noteq> 0 \<and> se_key_version e \<noteq> vk_key_version k)"
    and good: "verify_payload_signature ed_verify (vk_public_key_hex k) payload (se_signature e) = Inr True"
    by (auto simp: verify_envelope_def v rbind_eq_Inr not_less split: if_splits option.splits)
  from k have "k \<in> set ks" "vk_key_id k = se_key_id e" by (auto simp: get find_Some_iff)
  moreover from ver have "se_key_version e \<noteq> 0 \<and> vk_key_version k \<noteq> 0 \<longrightarrow> min_version \<le> vk_key_version k" by auto
  ultimately show ?thesis
    using e ver(1) good by (auto simp: verify_payload_signature_def rbind_eq_Inr)
qed

text \<open>What a signer writes, a verifier with the matching public key accepts.\<close>

lemma signed_accepted:
  assumes "decode_hex_array 32 sk_hex = Inr sk" and "decode_hex_array 32 pk_hex = Inr pk"
    and "\<And>p. length (ed_sign sk p) = 64" and "\<And>p. ed_verify pk p (ed_sign sk p) = Inr True"
    and "min_version \<le> version" and "hm_get (sv_keys v) key_id = Some k"
    and "vk_key_version k = version" and "vk_public_key_hex k = pk_hex" and "sv_min_key_version v = min_version"
    and "sign_payload ed_sign run \<lparr>ss_key_id = key_id, ss_key_version = version,
           ss_provider = Ed25519PrivateKey sk_hex\<rparr> payload = Inr e"
  shows "verify_envelope ed_verify v payload e = Inr ()"
  using assms
  by (auto simp: sign_payload_def payload_signature_hex_def format_payload_signature_from_hex_def
      decode_hex_encode verify_envelope_def verify_payload_signature_def rbind_eq_Inr SIGNATURE_ALGORITHM_def
      not_less)

text \<open>A key and a signature for the witnesses.\<close>

definition toy_hex :: string where
  "toy_hex = hex_encode (replicate 32 7)"

definition toy_sig :: string where
  "toy_sig = hex_encode (replicate 64 9)"

lemma toy_decode: "decode_hex_array 32 toy_hex = Inr (replicate 32 7)" "decode_hex_array 64 toy_sig = Inr (replicate 64 9)"
  unfolding toy_hex_def toy_sig_def by (rule decode_hex_encode, simp only: length_replicate)+

lemma toy_sig_text: "trim toy_sig = toy_sig" "\<not> blank toy_sig"
proof -
  show t: "trim toy_sig = toy_sig" by (simp only: toy_sig_def trim_hex)
  have "length toy_sig = 2 * 64" by (simp only: toy_sig_def length_hex_encode length_replicate)
  with t show "\<not> blank toy_sig" by (auto simp: blank_def)
qed



lemma witness_texts:
  "\<not> blank ''k''" "\<not> blank ''ed25519''" "\<not> blank ''3''" "trim ''3'' = ''3''"
  by (simp_all add: blank_def trim_graphic graphic_def)

lemma witness_number: "parse_uint 18446744073709551616 ''3'' = Some 3"
  by (simp add: parse_uint_def is_ascii_digit_def)

lemma witness_envelope:
  "parse_payload_signature (\<lambda>b. Inr [(''algorithm'', ''ed25519''), (''key_id'', ''k''),
     (''key_version'', ''3''), (''signature'', toy_sig)]) [] =
   Inr \<lparr>se_algorithm = ''ed25519'', se_key_id = ''k'', se_key_version = 3, se_signature = toy_sig\<rparr>"
  by (simp add: parse_payload_signature_def required_def hm_get_def parse_u64_def parse_bounded_def
      witness_texts witness_number toy_sig_text)

theorem accepted_signature_trusted_witness:
  "\<exists>v. verifier_new [\<lparr>vk_key_id = ''k'', vk_key_version = 3, vk_public_key_hex = toy_hex\<rparr>] 2 = Inr v \<and>
     (\<exists>e sig. parse_payload_signature (\<lambda>b. Inr [(''algorithm'', ''ed25519''), (''key_id'', ''k''),
        (''key_version'', ''3''), (''signature'', toy_sig)]) [] = Inr e \<and>
        2 \<le> se_key_version e \<and> decode_hex_array 64 (trim (se_signature e)) = Inr sig)"
proof -
  let ?k = "\<lparr>vk_key_id = ''k'', vk_key_version = 3, vk_public_key_hex = toy_hex\<rparr> :: verification_key"
  let ?p = "\<lambda>b :: bytes. Inr [(''algorithm'', ''ed25519''), (''key_id'', ''k''),
        (''key_version'', ''3''), (''signature'', toy_sig)] :: form res"
  let ?e = "\<lparr>se_algorithm = ''ed25519'', se_key_id = ''k'', se_key_version = 3, se_signature = toy_sig\<rparr>"
  let ?v = "\<lparr>sv_keys = hm_insert ''k'' ?k hm_new, sv_min_key_version = 2\<rparr>"
  have v: "verifier_new [?k] 2 = Inr ?v"
    by (simp add: verifier_new_def verifier_add_def toy_decode hm_contains_def witness_texts)
  have "verify_envelope (\<lambda>pk p s. Inr True) ?v [] ?e = Inr ()"
    by (simp add: verify_envelope_def verify_payload_signature_def toy_decode toy_sig_text SIGNATURE_ALGORITHM_def)
  then have "verify_payload_signature_with_verifier ?p (\<lambda>pk p s. Inr True) ?v [] [] = Inr ()"
    by (simp add: verify_payload_signature_with_verifier_def witness_envelope)
  from accepted_signature_trusted [OF v this] v show ?thesis by blast
qed

end
