(* ===== verification/Json.thy ===== *)
theory Json
  imports Domain
begin

text \<open>
  JSON bodies as string fields (\<open>globacl-core/src/lib/http.rs\<close>) and the acknowledgements that
  travel in them.  The text syntax of JSON belongs to the crate \<open>serde_json\<close>: its parser is the
  parameter \<open>from_json\<close> and its printer the parameter \<open>json_text\<close>; the values between them are the
  datatype \<open>json\<close>, with the constructors of \<open>serde_json::Value\<close>.
\<close>

datatype json_number = PosInt u64 | OtherNumber string

datatype json =
    JNull
  | JBool bool
  | JNumber json_number
  | JString string
  | JArray "json list"
  | JObject "(string \<times> json) list"

definition json_as_array :: "json \<Rightarrow> json list option" where
  "json_as_array v = (case v of JArray vs \<Rightarrow> Some vs | _ \<Rightarrow> None)"

definition json_as_object :: "json \<Rightarrow> (string \<times> json) list option" where
  "json_as_object v = (case v of JObject fs \<Rightarrow> Some fs | _ \<Rightarrow> None)"

definition json_as_u64 :: "json \<Rightarrow> u64 option" where
  "json_as_u64 v = (case v of JNumber (PosInt n) \<Rightarrow> Some n | _ \<Rightarrow> None)"

text \<open>\<open>Value::get\<close> with a name.\<close>

definition json_get :: "json \<Rightarrow> string \<Rightarrow> json option" where
  "json_get v name = (case v of JObject fs \<Rightarrow> map_of fs name | _ \<Rightarrow> None)"

definition parse_json_body :: "(string \<Rightarrow> json res) \<Rightarrow> bytes \<Rightarrow> json res" where
  "parse_json_body from_json body = rbind (ok_or Parse (from_utf8 body)) from_json"

definition json_number_text :: "json_number \<Rightarrow> string" where
  "json_number_text n = (case n of PosInt w \<Rightarrow> dec_string (unat w) | OtherNumber t \<Rightarrow> t)"

definition json_field_to_string :: "(json \<Rightarrow> string) \<Rightarrow> json \<Rightarrow> string" where
  "json_field_to_string json_text v = (case v of
     JNull \<Rightarrow> []
   | JBool b \<Rightarrow> if b then ''true'' else ''false''
   | JNumber n \<Rightarrow> json_number_text n
   | JString s \<Rightarrow> s
   | JArray _ \<Rightarrow> json_text v
   | JObject _ \<Rightarrow> json_text v)"

definition json_object_to_string_map :: "(json \<Rightarrow> string) \<Rightarrow> json \<Rightarrow> form res" where
  "json_object_to_string_map json_text v = (case json_as_object v of
     None \<Rightarrow> Inl Parse
   | Some fs \<Rightarrow>
       Inr (fold (\<lambda>(k, x). hm_insert k (json_field_to_string json_text x)) fs hm_new))"

definition parse_json_fields :: "(string \<Rightarrow> json res) \<Rightarrow> (json \<Rightarrow> string) \<Rightarrow> bytes \<Rightarrow> form res" where
  "parse_json_fields from_json json_text body =
     rbind (ok_or Parse (from_utf8 body)) (\<lambda>t.
     let trimmed = trim t in
     if \<not> prefix ''{'' trimmed then Inl Parse
     else rbind (from_json trimmed) (json_object_to_string_map json_text))"

section \<open>Acknowledgements\<close>

record pop_ack =
  pa_agent_id :: string
  pa_shard_id :: u16
  pa_seq :: u64
  pa_entries :: nat
  pa_applied_at_unix :: u64

text \<open>\<open>now\<close> is the reading of the clock for a missing time.\<close>

definition pop_ack_from_fields :: "u64 \<Rightarrow> form \<Rightarrow> pop_ack res" where
  "pop_ack_from_fields now f =
     rbind (required f ''agent_id'') (\<lambda>agent_id.
     rbind (parse_u16 (first_field f [''shard_id'', ''shard''])) (\<lambda>shard_id.
     rbind (parse_u64 (first_field f [''seq'', ''watermark'']) 0) (\<lambda>seq.
     rbind (parse_usize (hm_get f ''entries'') 0) (\<lambda>entries.
     rbind (parse_u64 (hm_get f ''applied_at_unix'') now) (\<lambda>applied_at_unix.
       Inr \<lparr>pa_agent_id = agent_id, pa_shard_id = shard_id, pa_seq = seq, pa_entries = entries,
            pa_applied_at_unix = applied_at_unix\<rparr>)))))"

text \<open>\<open>usize\<close> and \<open>u16\<close> values are printed as their number.\<close>

definition json_nat :: "nat \<Rightarrow> json" where
  "json_nat n = JNumber (PosInt (word_of_nat n))"

definition json_u64 :: "u64 \<Rightarrow> json" where
  "json_u64 w = JNumber (PosInt w)"

definition pop_ack_json :: "pop_ack \<Rightarrow> json" where
  "pop_ack_json a = JObject
     [(''agent_id'', JString (pa_agent_id a)), (''shard_id'', json_nat (unat (pa_shard_id a))),
      (''seq'', json_u64 (pa_seq a)), (''entries'', json_nat (pa_entries a)),
      (''applied_at_unix'', json_u64 (pa_applied_at_unix a))]"

record propagation_ack =
  pg_relay_id :: string
  pg_location :: string
  pg_agent_id :: string
  pg_shard_id :: u16
  pg_seq :: u64
  pg_entries :: nat
  pg_applied_at_unix :: u64
  pg_relay_received_at_unix :: u64

definition ack_from_pop_ack :: "string \<Rightarrow> string \<Rightarrow> pop_ack \<Rightarrow> u64 \<Rightarrow> propagation_ack" where
  "ack_from_pop_ack relay_id location a relay_received_at_unix =
     \<lparr>pg_relay_id = relay_id, pg_location = location, pg_agent_id = pa_agent_id a,
      pg_shard_id = pa_shard_id a, pg_seq = pa_seq a, pg_entries = pa_entries a,
      pg_applied_at_unix = pa_applied_at_unix a, pg_relay_received_at_unix = relay_received_at_unix\<rparr>"

text \<open>The two default times are two readings of the clock.\<close>

definition propagation_ack_from_fields :: "u64 \<Rightarrow> u64 \<Rightarrow> form \<Rightarrow> propagation_ack res" where
  "propagation_ack_from_fields now1 now2 f =
     rbind (required f ''relay_id'') (\<lambda>relay_id.
     rbind (required f ''location'') (\<lambda>location.
     rbind (required f ''agent_id'') (\<lambda>agent_id.
     rbind (parse_u16 (first_field f [''shard_id'', ''shard''])) (\<lambda>shard_id.
     rbind (parse_u64 (first_field f [''seq'', ''watermark'']) 0) (\<lambda>seq.
     rbind (parse_usize (hm_get f ''entries'') 0) (\<lambda>entries.
     rbind (parse_u64 (hm_get f ''applied_at_unix'') now1) (\<lambda>applied_at_unix.
     rbind (parse_u64 (hm_get f ''relay_received_at_unix'') now2) (\<lambda>received.
       Inr \<lparr>pg_relay_id = relay_id, pg_location = location, pg_agent_id = agent_id,
            pg_shard_id = shard_id, pg_seq = seq, pg_entries = entries,
            pg_applied_at_unix = applied_at_unix, pg_relay_received_at_unix = received\<rparr>))))))))"

definition propagation_ack_key :: "propagation_ack \<Rightarrow> string" where
  "propagation_ack_key a =
     pg_relay_id a @ '':'' @ pg_agent_id a @ '':'' @ dec_string (unat (pg_shard_id a))"

definition propagation_ack_json :: "propagation_ack \<Rightarrow> json" where
  "propagation_ack_json a = JObject
     [(''relay_id'', JString (pg_relay_id a)), (''location'', JString (pg_location a)),
      (''agent_id'', JString (pg_agent_id a)), (''shard_id'', json_nat (unat (pg_shard_id a))),
      (''seq'', json_u64 (pg_seq a)), (''entries'', json_nat (pg_entries a)),
      (''applied_at_unix'', json_u64 (pg_applied_at_unix a)),
      (''relay_received_at_unix'', json_u64 (pg_relay_received_at_unix a))]"

definition parse_propagation_ack_json ::
  "(json \<Rightarrow> string) \<Rightarrow> u64 \<Rightarrow> u64 \<Rightarrow> json \<Rightarrow> propagation_ack res" where
  "parse_propagation_ack_json json_text now1 now2 v =
     rbind (json_object_to_string_map json_text v) (propagation_ack_from_fields now1 now2)"

section \<open>What is written is read back\<close>

lemma parse_u64_dec: "n < 2 ^ 64 \<Longrightarrow> parse_u64 (Some (dec_string n)) d = Inr (word_of_nat n)"
proof -
  assume n: "n < 2 ^ 64"
  have t: "trim (dec_string n) = dec_string n" by (rule trim_graphic) (auto dest: dec_string_graphic)
  with n parse_dec_string [of n "2 ^ 64"] show ?thesis
    by (simp add: parse_u64_def parse_bounded_def blank_def)
qed

lemma parse_u16_dec: "n < 2 ^ 16 \<Longrightarrow> parse_u16 (Some (dec_string n)) = Inr (word_of_nat n)"
proof -
  assume n: "n < 2 ^ 16"
  have t: "trim (dec_string n) = dec_string n" by (rule trim_graphic) (auto dest: dec_string_graphic)
  with n parse_dec_string [of n "2 ^ 16"] show ?thesis
    by (simp add: parse_u16_def parse_bounded_def blank_def)
qed

lemma parse_usize_dec: "n < 2 ^ 64 \<Longrightarrow> parse_usize (Some (dec_string n)) d = Inr n"
proof -
  assume n: "n < 2 ^ 64"
  have t: "trim (dec_string n) = dec_string n" by (rule trim_graphic) (auto dest: dec_string_graphic)
  with n parse_dec_string [of n "2 ^ 64"] show ?thesis
    by (simp add: parse_usize_def parse_bounded_def blank_def)
qed

lemma json_nat_text: "n < 2 ^ 64 \<Longrightarrow> json_field_to_string jt (json_nat n) = dec_string n"
  by (simp add: json_nat_def json_field_to_string_def json_number_text_def unat_of_nat)

lemma json_u64_text: "json_field_to_string jt (json_u64 w) = dec_string (unat w)"
  by (simp add: json_u64_def json_field_to_string_def json_number_text_def)

lemma json_string_text: "json_field_to_string jt (JString s) = s"
  by (simp add: json_field_to_string_def)

lemma ack_json_roundtrip:
  assumes "\<not> blank (pg_relay_id a)" and "\<not> blank (pg_location a)" and "\<not> blank (pg_agent_id a)"
    and "pg_entries a < 2 ^ 64"
  shows "parse_propagation_ack_json jt now1 now2 (propagation_ack_json a) = Inr a"
proof -
  have "unat (pg_shard_id a) < 2 ^ 16" "unat (pg_seq a) < 2 ^ 64"
    "unat (pg_applied_at_unix a) < 2 ^ 64" "unat (pg_relay_received_at_unix a) < 2 ^ 64"
    using unat_u16_bound unat_u64_bound by auto
  then show ?thesis
    using assms unat_u16_bound [of "pg_shard_id a"]
    by (simp add: parse_propagation_ack_json_def propagation_ack_json_def json_object_to_string_map_def
        json_as_object_def propagation_ack_from_fields_def required_def json_string_text json_nat_text
        json_u64_text parse_u64_dec parse_u16_dec parse_usize_dec)
qed

end
