(* ===== verification/Snapshot_Manifest.thy ===== *)
theory Snapshot_Manifest
  imports Source Signatures Json
begin

text \<open>
  The manifest of a snapshot (\<open>SnapshotManifest\<close> of \<open>globacl-core/src/lib/signatures.rs\<close>, its JSON
  form in \<open>snapshots.rs\<close>) and the JSON form of watermarks (\<open>nats.rs\<close>).  SHA-256 is the parameter
  \<open>sha256\<close>, from bytes to bytes.

  Results: a manifest and a list of watermarks are read back from what was written, and the manifest
  made for a snapshot accepts this snapshot and its bytes.
\<close>

definition SNAPSHOT_MANIFEST_VERSION :: u16 where
  "SNAPSHOT_MANIFEST_VERSION = 1"

record snapshot_manifest =
  sm_manifest_version :: u16
  sm_format_version :: u16
  sm_created_at_unix :: u64
  sm_artifact_object :: string
  sm_artifact_signature_object :: string
  sm_artifact_bytes :: u64
  sm_artifact_sha256 :: string
  sm_shard_count :: u16
  sm_entry_count :: u64
  sm_rule_count :: u64
  sm_max_seq :: u64
  sm_watermarks :: "u64 list"

definition manifest_for_snapshot :: "snapshot \<Rightarrow> u64 \<Rightarrow> string \<Rightarrow> u64 \<Rightarrow> string \<Rightarrow> snapshot_manifest" where
  "manifest_for_snapshot sn created_at_unix artifact_object artifact_bytes artifact_sha256 =
     \<lparr>sm_manifest_version = SNAPSHOT_MANIFEST_VERSION, sm_format_version = FORMAT_VERSION,
      sm_created_at_unix = created_at_unix, sm_artifact_object = artifact_object,
      sm_artifact_signature_object = artifact_object @ ''.sig'', sm_artifact_bytes = artifact_bytes,
      sm_artifact_sha256 = artifact_sha256, sm_shard_count = sn_shard_count sn,
      sm_entry_count = word_of_nat (length (sn_entries sn)),
      sm_rule_count = word_of_nat (length (sn_rules sn)),
      sm_max_seq = max_or_zero (sn_watermarks sn), sm_watermarks = sn_watermarks sn\<rparr>"

definition is_safe_snapshot_object_name :: "string \<Rightarrow> bool" where
  "is_safe_snapshot_object_name name =
     (name \<noteq> [] \<and> \<not> prefix ''/'' name \<and> backslash \<notin> set name \<and> \<not> str_contains ''..'' name \<and>
      \<not> str_contains ''//'' name \<and> suffix ''.gacl'' name \<and>
      list_all (\<lambda>c. is_ascii_alphanumeric c \<or> c \<in> set ''/._-'') name)"

definition manifest_validate :: "snapshot_manifest \<Rightarrow> unit res" where
  "manifest_validate m =
     (if sm_manifest_version m \<noteq> SNAPSHOT_MANIFEST_VERSION then Inl InvalidData
      else if sm_format_version m \<noteq> FORMAT_VERSION then Inl InvalidData
      else if length (sm_watermarks m) \<noteq> unat (sm_shard_count m) then Inl InvalidData
      else if \<not> is_safe_snapshot_object_name (sm_artifact_object m) then Inl InvalidData
      else if sm_artifact_signature_object m \<noteq> sm_artifact_object m @ ''.sig'' then Inl InvalidData
      else if length (sm_artifact_sha256 m) \<noteq> 64 \<or> \<not> list_all is_ascii_hexdigit (sm_artifact_sha256 m)
      then Inl InvalidData
      else Inr ())"

definition snapshot_artifact_sha256_hex :: "(bytes \<Rightarrow> bytes) \<Rightarrow> bytes \<Rightarrow> string" where
  "snapshot_artifact_sha256_hex sha256 b = hex_encode (sha256 b)"

definition validate_artifact :: "(bytes \<Rightarrow> bytes) \<Rightarrow> snapshot_manifest \<Rightarrow> bytes \<Rightarrow> unit res" where
  "validate_artifact sha256 m artifact =
     rbind (manifest_validate m) (\<lambda>_.
       if word_of_nat (length artifact) \<noteq> sm_artifact_bytes m then Inl InvalidData
       else if snapshot_artifact_sha256_hex sha256 artifact \<noteq> sm_artifact_sha256 m then Inl InvalidData
       else Inr ())"

definition validate_manifest_snapshot :: "snapshot_manifest \<Rightarrow> snapshot \<Rightarrow> unit res" where
  "validate_manifest_snapshot m sn =
     rbind (manifest_validate m) (\<lambda>_.
     rbind (snapshot_validate sn) (\<lambda>_.
       if sn_shard_count sn \<noteq> sm_shard_count m then Inl InvalidData
       else if word_of_nat (length (sn_entries sn)) \<noteq> sm_entry_count m then Inl InvalidData
       else if word_of_nat (length (sn_rules sn)) \<noteq> sm_rule_count m then Inl InvalidData
       else if sn_watermarks sn \<noteq> sm_watermarks m then Inl InvalidData
       else Inr ()))"

definition immutable_snapshot_object_name :: "snapshot \<Rightarrow> string \<Rightarrow> string" where
  "immutable_snapshot_object_name sn artifact_sha256 =
     ''snapshots/max_seq_'' @ pad_dec 20 (unat (max_or_zero (sn_watermarks sn))) @ ''_sha256_'' @
     artifact_sha256 @ ''.gacl''"

section \<open>JSON\<close>

definition shard_field :: "nat \<Rightarrow> string" where
  "shard_field i = ''shard_'' @ pad_dec 4 i"

definition shard_fields :: "u64 list \<Rightarrow> (string \<times> json) list" where
  "shard_fields ws = map (\<lambda>i. (shard_field i, json_u64 (ws ! i))) [0..<length ws]"

definition encode_snapshot_manifest :: "snapshot_manifest \<Rightarrow> json" where
  "encode_snapshot_manifest m = JObject
     ([(''manifest_version'', json_nat (unat (sm_manifest_version m))),
       (''format_version'', json_nat (unat (sm_format_version m))),
       (''created_at_unix'', json_u64 (sm_created_at_unix m)),
       (''artifact_object'', JString (sm_artifact_object m)),
       (''artifact_signature_object'', JString (sm_artifact_signature_object m)),
       (''artifact_bytes'', json_u64 (sm_artifact_bytes m)),
       (''artifact_sha256'', JString (sm_artifact_sha256 m)),
       (''shard_count'', json_nat (unat (sm_shard_count m))),
       (''entry_count'', json_u64 (sm_entry_count m)),
       (''rule_count'', json_u64 (sm_rule_count m)),
       (''max_seq'', json_u64 (sm_max_seq m))] @ shard_fields (sm_watermarks m))"

text \<open>\<open>u16::try_from\<close>.\<close>

definition parse_u16_manifest :: "form \<Rightarrow> string \<Rightarrow> u16 res" where
  "parse_u16_manifest f key =
     rbind (parse_u64 (hm_get f key) 0) (\<lambda>v.
       if unat v < 2 ^ 16 then Inr (ucast v) else Inl Parse)"

definition read_shard_fields :: "form \<Rightarrow> nat \<Rightarrow> u64 list res" where
  "read_shard_fields f n = rmap (\<lambda>i. parse_u64 (hm_get f (shard_field i)) 0) [0..<n]"

text \<open>The fields of the object, then the checks.\<close>

definition decode_snapshot_manifest :: "(bytes \<Rightarrow> form res) \<Rightarrow> bytes \<Rightarrow> snapshot_manifest res" where
  "decode_snapshot_manifest parse_body b =
     rbind (parse_body b) (\<lambda>f.
     rbind (parse_u16_manifest f ''shard_count'') (\<lambda>shard_count.
     rbind (read_shard_fields f (unat shard_count)) (\<lambda>watermarks.
     rbind (parse_u16_manifest f ''manifest_version'') (\<lambda>manifest_version.
     rbind (parse_u16_manifest f ''format_version'') (\<lambda>format_version.
     rbind (parse_u64 (hm_get f ''created_at_unix'') 0) (\<lambda>created_at_unix.
     rbind (required f ''artifact_object'') (\<lambda>artifact_object.
     rbind (required f ''artifact_signature_object'') (\<lambda>artifact_signature_object.
     rbind (parse_u64 (hm_get f ''artifact_bytes'') 0) (\<lambda>artifact_bytes.
     rbind (required f ''artifact_sha256'') (\<lambda>artifact_sha256.
     rbind (parse_u64 (hm_get f ''entry_count'') 0) (\<lambda>entry_count.
     rbind (parse_u64 (hm_get f ''rule_count'') 0) (\<lambda>rule_count.
     rbind (parse_u64 (hm_get f ''max_seq'') 0) (\<lambda>max_seq.
     let m = \<lparr>sm_manifest_version = manifest_version, sm_format_version = format_version,
       sm_created_at_unix = created_at_unix, sm_artifact_object = artifact_object,
       sm_artifact_signature_object = artifact_signature_object, sm_artifact_bytes = artifact_bytes,
       sm_artifact_sha256 = artifact_sha256, sm_shard_count = shard_count, sm_entry_count = entry_count,
       sm_rule_count = rule_count, sm_max_seq = max_seq, sm_watermarks = watermarks\<rparr>
     in rbind (manifest_validate m) (\<lambda>_. Inr m))))))))))))))"

definition format_watermarks :: "u64 list \<Rightarrow> json" where
  "format_watermarks ws = JObject ((''shard_count'', json_nat (length ws)) # shard_fields ws)"

definition parse_watermarks :: "(bytes \<Rightarrow> form res) \<Rightarrow> bytes \<Rightarrow> u64 list res" where
  "parse_watermarks parse_body b =
     rbind (parse_body b) (\<lambda>f.
     rbind (parse_usize (hm_get f ''shard_count'') 0) (read_shard_fields f))"

section \<open>Reading the fields\<close>

lemma shard_field_inj: "shard_field i = shard_field j \<longleftrightarrow> i = j"
  by (simp add: shard_field_def pad_dec_inj)

lemma pad_dec_digits: "list_all is_ascii_digit (pad_dec w n)"
  using dec_string_digits by (auto simp: pad_dec_def Let_def list_all_iff is_ascii_digit_def)

lemma distinct_shard_fields: "distinct (map fst (shard_fields ws))"
  by (simp add: shard_fields_def comp_def distinct_map inj_on_def shard_field_inj)

definition insert_fields :: "(json \<Rightarrow> string) \<Rightarrow> (string \<times> json) list \<Rightarrow> form \<Rightarrow> form" where
  "insert_fields jt fs m = fold (\<lambda>(k, x). hm_insert k (json_field_to_string jt x)) fs m"

lemma string_map_object: "json_object_to_string_map jt (JObject fs) = Inr (insert_fields jt fs hm_new)"
  by (simp add: json_object_to_string_map_def json_as_object_def insert_fields_def)

lemma insert_fields_get:
  "distinct (map fst fs) \<Longrightarrow> (k, x) \<in> set fs \<Longrightarrow>
   hm_get (insert_fields jt fs m) k = Some (json_field_to_string jt x)"
  using hm.get_insert_all_distinct [of fst fs "(k, x)" "\<lambda>p. json_field_to_string jt (snd p)" m]
  by (simp add: insert_fields_def split_def)

lemma insert_fields_other: "k \<notin> fst ` set fs \<Longrightarrow> hm_get (insert_fields jt fs m) k = hm_get m k"
  using hm.get_insert_all_other [of k fst fs "\<lambda>p. json_field_to_string jt (snd p)" m]
  by (simp add: insert_fields_def split_def)

lemma insert_fields_append: "insert_fields jt (fs @ gs) m = insert_fields jt gs (insert_fields jt fs m)"
  by (simp add: insert_fields_def)

lemma shard_fields_get:
  assumes "i < length ws"
  shows "hm_get (insert_fields jt (shard_fields ws) m) (shard_field i) = Some (dec_string (unat (ws ! i)))"
proof -
  have "(shard_field i, json_u64 (ws ! i)) \<in> set (shard_fields ws)"
    using assms by (simp add: shard_fields_def)
  from insert_fields_get [OF distinct_shard_fields this] show ?thesis by (simp add: json_u64_text)
qed

lemma shard_fields_other:
  assumes "\<not> (prefix ''shard_'' k \<and> list_all is_ascii_digit (drop 6 k))"
  shows "hm_get (insert_fields jt (shard_fields ws) m) k = hm_get m k"
proof (rule insert_fields_other)
  show "k \<notin> fst ` set (shard_fields ws)"
    using assms pad_dec_digits by (auto simp: shard_fields_def shard_field_def)
qed

lemma read_shard_fields_ok:
  "read_shard_fields (insert_fields jt (shard_fields ws) m) (length ws) = Inr ws"
proof -
  have "parse_u64 (hm_get (insert_fields jt (shard_fields ws) m) (shard_field i)) 0 = Inr (ws ! i)"
    if "i < length ws" for i
    using that shard_fields_get [OF that] parse_u64_dec [of "unat (ws ! i)"] unat_u64_bound [of "ws ! i"] by simp
  then have "read_shard_fields (insert_fields jt (shard_fields ws) m) (length ws) = Inr (map ((!) ws) [0..<length ws])"
    by (simp add: read_shard_fields_def rmap_eq_Inr list_all2_conv_all_nth)
  then show ?thesis by (simp add: map_nth)
qed

section \<open>Properties\<close>

text \<open>Watermarks travel unchanged: what \<open>parse_watermarks\<close> reads from the object that
  \<open>format_watermarks\<close> builds is the same list, whatever its length, when the JSON crate delivers the
  object.\<close>

lemma watermarks_roundtrip:
  assumes "length ws < 2 ^ 64"
    and "parse_body b = json_object_to_string_map jt (format_watermarks ws)"
  shows "parse_watermarks parse_body b = Inr ws"
proof -
  let ?f = "insert_fields jt (shard_fields ws) (insert_fields jt [(''shard_count'', json_nat (length ws))] hm_new)"
  have f: "parse_body b = Inr ?f"
    using assms(2) insert_fields_append [of jt "[(''shard_count'', json_nat (length ws))]" "shard_fields ws" hm_new]
    by (simp add: format_watermarks_def string_map_object)
  have "hm_get ?f ''shard_count'' = Some (dec_string (length ws))"
    using assms(1) by (subst shard_fields_other) (simp_all add: is_ascii_digit_def insert_fields_def json_nat_text)
  then show ?thesis
    using assms(1) by (simp add: parse_watermarks_def f parse_usize_dec read_shard_fields_ok)
qed

lemma is_alnum_graphic: "is_ascii_alphanumeric c \<Longrightarrow> graphic c"
  by (auto simp: is_ascii_alphanumeric_def graphic_def Let_def)

lemma safe_name_text: "is_safe_snapshot_object_name n \<Longrightarrow> \<not> blank n \<and> \<not> blank (n @ ''.sig'')"
proof -
  assume s: "is_safe_snapshot_object_name n"
  then have "\<forall>c \<in> set n. graphic c"
    by (auto simp: is_safe_snapshot_object_name_def list_all_iff graphic_def dest!: is_alnum_graphic bspec)
  then have "trim n = n" "trim (n @ ''.sig'') = n @ ''.sig''" by (auto intro!: trim_graphic simp: graphic_def)
  with s show ?thesis by (simp add: blank_def is_safe_snapshot_object_name_def)
qed

lemma hex_text: "list_all is_ascii_hexdigit s \<Longrightarrow> length s = 64 \<Longrightarrow> \<not> blank s"
proof -
  assume "list_all is_ascii_hexdigit s" and n: "length s = 64"
  then have "trim s = s" by (intro trim_graphic) (auto simp: list_all_iff is_ascii_hexdigit_def graphic_def Let_def)
  with n show "\<not> blank s" by (auto simp: blank_def)
qed

lemma manifest_valid_iff:
  "manifest_validate m = Inr () \<longleftrightarrow>
     sm_manifest_version m = SNAPSHOT_MANIFEST_VERSION \<and> sm_format_version m = FORMAT_VERSION \<and>
     length (sm_watermarks m) = unat (sm_shard_count m) \<and> is_safe_snapshot_object_name (sm_artifact_object m) \<and>
     sm_artifact_signature_object m = sm_artifact_object m @ ''.sig'' \<and>
     length (sm_artifact_sha256 m) = 64 \<and> list_all is_ascii_hexdigit (sm_artifact_sha256 m)"
  by (simp add: manifest_validate_def)

lemma u64_of_u16: "unat (ucast (v::u16) :: u64) = unat v"
  using unat_u16_bound [of v] by (simp add: unsigned_ucast_eq take_bit_nat_eq_self)

lemma u16_of_u64: "ucast (ucast (v::u16) :: u64) = v"
  by (rule bit_word_eqI) (simp add: bit_simps)

lemma u16_field:
  assumes "hm_get f k = Some (dec_string (unat (v::u16)))"
  shows "parse_u16_manifest f k = Inr v"
proof -
  have b: "unat v < 2 ^ 16" using unat_u16_bound [of v] by simp
  then have "parse_u64 (hm_get f k) 0 = Inr (ucast v)"
    using assms parse_u64_dec [of "unat v" 0] by simp
  with b show ?thesis by (simp add: parse_u16_manifest_def u64_of_u16 u16_of_u64)
qed

lemma decode_from_fields:
  assumes "parse_body b = Inr f" and "manifest_validate m = Inr ()"
    and "parse_u16_manifest f ''manifest_version'' = Inr (sm_manifest_version m)"
    and "parse_u16_manifest f ''format_version'' = Inr (sm_format_version m)"
    and "parse_u16_manifest f ''shard_count'' = Inr (sm_shard_count m)"
    and "parse_u64 (hm_get f ''created_at_unix'') 0 = Inr (sm_created_at_unix m)"
    and "parse_u64 (hm_get f ''artifact_bytes'') 0 = Inr (sm_artifact_bytes m)"
    and "parse_u64 (hm_get f ''entry_count'') 0 = Inr (sm_entry_count m)"
    and "parse_u64 (hm_get f ''rule_count'') 0 = Inr (sm_rule_count m)"
    and "parse_u64 (hm_get f ''max_seq'') 0 = Inr (sm_max_seq m)"
    and "required f ''artifact_object'' = Inr (sm_artifact_object m)"
    and "required f ''artifact_signature_object'' = Inr (sm_artifact_signature_object m)"
    and "required f ''artifact_sha256'' = Inr (sm_artifact_sha256 m)"
    and "read_shard_fields f (unat (sm_shard_count m)) = Inr (sm_watermarks m)"
  shows "decode_snapshot_manifest parse_body b = Inr m"
  using assms by (cases m) (simp add: decode_snapshot_manifest_def)

lemma decode_encode_manifest:
  assumes "manifest_validate m = Inr ()"
    and "parse_body b = json_object_to_string_map jt (encode_snapshot_manifest m)"
  shows "decode_snapshot_manifest parse_body b = Inr m"
proof -
  note v = assms(1)[unfolded manifest_valid_iff]
  let ?named = "[(''manifest_version'', json_nat (unat (sm_manifest_version m))),
       (''format_version'', json_nat (unat (sm_format_version m))),
       (''created_at_unix'', json_u64 (sm_created_at_unix m)),
       (''artifact_object'', JString (sm_artifact_object m)),
       (''artifact_signature_object'', JString (sm_artifact_signature_object m)),
       (''artifact_bytes'', json_u64 (sm_artifact_bytes m)),
       (''artifact_sha256'', JString (sm_artifact_sha256 m)),
       (''shard_count'', json_nat (unat (sm_shard_count m))),
       (''entry_count'', json_u64 (sm_entry_count m)),
       (''rule_count'', json_u64 (sm_rule_count m)),
       (''max_seq'', json_u64 (sm_max_seq m))]"
  let ?f = "insert_fields jt (shard_fields (sm_watermarks m)) (insert_fields jt ?named hm_new)"
  have f: "parse_body b = Inr ?f"
    using assms(2) by (simp only: encode_snapshot_manifest_def string_map_object insert_fields_append)
  have get: "hm_get ?f k = Some (json_field_to_string jt x)" if "(k, x) \<in> set ?named" for k x
  proof -
    have "\<not> (prefix ''shard_'' k \<and> list_all is_ascii_digit (drop 6 k))" using that by (auto simp: is_ascii_digit_def)
    then have "hm_get ?f k = hm_get (insert_fields jt ?named hm_new) k" by (rule shard_fields_other)
    also have "\<dots> = Some (json_field_to_string jt x)" by (rule insert_fields_get [OF _ that]) simp
    finally show ?thesis .
  qed
  have u16: "json_field_to_string jt (json_nat (unat w)) = dec_string (unat w)" for w :: u16
    using unat_u16_bound [of w] by (simp add: json_nat_text)
  have w16: "parse_u16_manifest ?f k = Inr w" if "(k, json_nat (unat w)) \<in> set ?named" for k and w :: u16
    by (rule u16_field) (simp only: get [OF that] u16)
  have w64: "parse_u64 (hm_get ?f k) 0 = Inr w" if "(k, json_u64 w) \<in> set ?named" for k w
    using unat_u64_bound [of w] by (simp add: get [OF that] json_u64_text parse_u64_dec)
  have str: "required ?f k = Inr s" if "(k, JString s) \<in> set ?named" "\<not> blank s" for k s
    by (simp add: get [OF that(1)] that(2) json_string_text required_def)
  note texts = safe_name_text [of "sm_artifact_object m"] hex_text [of "sm_artifact_sha256 m"]
  show ?thesis
  proof (rule decode_from_fields [where f = ?f])
    show "required ?f ''artifact_object'' = Inr (sm_artifact_object m)"
      by (rule str) (use v texts in auto)
    show "required ?f ''artifact_signature_object'' = Inr (sm_artifact_signature_object m)"
      by (rule str) (use v texts in auto)
    show "required ?f ''artifact_sha256'' = Inr (sm_artifact_sha256 m)"
      by (rule str) (use v texts in auto)
    show "read_shard_fields ?f (unat (sm_shard_count m)) = Inr (sm_watermarks m)"
      using v read_shard_fields_ok [of jt "sm_watermarks m"] by simp
  qed (fact f assms(1) | (rule w16 w64, simp))+
qed

text \<open>A valid manifest is read back from its JSON form as it was written.\<close>

theorem manifest_roundtrip:
  assumes "manifest_validate m = Inr ()"
    and "parse_body b = json_object_to_string_map jt (encode_snapshot_manifest m)"
  shows "decode_snapshot_manifest parse_body b = Inr m"
  using assms by (rule decode_encode_manifest)

theorem manifest_roundtrip_witness:
  "\<exists>m. decode_snapshot_manifest (\<lambda>b. json_object_to_string_map (\<lambda>v. []) (encode_snapshot_manifest m)) [] = Inr m \<and>
     sm_artifact_bytes m = 3"
proof -
  have "manifest_validate (manifest_for_snapshot (source_snapshot (source_new 1 ''eu'')) 5 ''a.gacl'' 3
      (replicate 64 (CHR ''a''))) = Inr ()" by code_simp
  from manifest_roundtrip [OF this, where parse_body = "\<lambda>b. json_object_to_string_map (\<lambda>v. [])
      (encode_snapshot_manifest (manifest_for_snapshot (source_snapshot (source_new 1 ''eu'')) 5 ''a.gacl'' 3
        (replicate 64 (CHR ''a''))))" and jt = "\<lambda>v. []", OF refl]
  show ?thesis by (intro exI conjI) (assumption, simp add: manifest_for_snapshot_def)
qed

lemma hex_digit_hexdigit: "n < 16 \<Longrightarrow> is_ascii_hexdigit (hex_digit n)"
  by (auto simp: less_Suc_eq numeral_eq_Suc hex_digit_def is_ascii_hexdigit_def)

lemma hex_encode_hexdigits: "list_all is_ascii_hexdigit (hex_encode b)"
proof (induction b)
  case Nil
  then show ?case by (simp add: hex_encode_def)
next
  case (Cons x b)
  then show ?case using nibble_less [of x] by (simp add: hex_encode_Cons hex_digit_hexdigit)
qed

lemma immutable_name_safe:
  assumes "list_all is_ascii_hexdigit sha"
  shows "is_safe_snapshot_object_name (immutable_snapshot_object_name sn sha)"
proof -
  let ?d = "pad_dec 20 (unat (max_or_zero (sn_watermarks sn)))"
  have d: "is_ascii_digit c" if "c \<in> set ?d" for c using that pad_dec_digits by (auto simp: list_all_iff)
  have h: "is_ascii_hexdigit c" if "c \<in> set sha" for c using that assms by (auto simp: list_all_iff)
  have no: "count_list ?d c = 0 \<and> count_list sha c = 0" if "\<not> is_ascii_digit c" "\<not> is_ascii_hexdigit c" for c
    using that d h by (auto simp: count_list_0_iff)
  have "\<not> str_contains ''..'' (immutable_snapshot_object_name sn sha)"
    using no [of "CHR ''.''"] by (intro str_contains_twice)
      (simp add: immutable_snapshot_object_name_def is_ascii_digit_def is_ascii_hexdigit_def)
  moreover have "\<not> str_contains ''//'' (immutable_snapshot_object_name sn sha)"
    using no [of "CHR ''/''"] by (intro str_contains_twice)
      (simp add: immutable_snapshot_object_name_def is_ascii_digit_def is_ascii_hexdigit_def)
  moreover have "suffix ''.gacl'' (immutable_snapshot_object_name sn sha)"
    by (simp add: immutable_snapshot_object_name_def suffix_def)
  moreover have ok: "list_all (\<lambda>c. is_ascii_alphanumeric c \<or> c \<in> set ''/._-'') (immutable_snapshot_object_name sn sha)"
  proof -
    have "list_all is_ascii_alphanumeric ?d" "list_all is_ascii_alphanumeric sha"
      using d h by (simp_all add: list_all_iff digit_alnum hexdigit_alnum)
    then have "list_all (\<lambda>c. is_ascii_alphanumeric c \<or> c \<in> set ''/._-'') ?d"
      "list_all (\<lambda>c. is_ascii_alphanumeric c \<or> c \<in> set ''/._-'') sha"
      by (auto simp: list_all_iff)
    then show ?thesis
      by (simp add: immutable_snapshot_object_name_def) (simp add: is_ascii_alphanumeric_def)
  qed
  moreover have "backslash \<notin> set (immutable_snapshot_object_name sn sha)"
  proof
    assume "backslash \<in> set (immutable_snapshot_object_name sn sha)"
    with ok have "is_ascii_alphanumeric backslash \<or> backslash \<in> set ''/._-''" by (simp only: list_all_iff)
    moreover have "\<not> is_ascii_alphanumeric backslash" "backslash \<notin> set ''/._-''" by code_simp+
    ultimately show False by simp
  qed
  ultimately show ?thesis
    by (simp add: is_safe_snapshot_object_name_def) (simp add: immutable_snapshot_object_name_def)
qed

lemma hex_encode_inj: "hex_encode b = hex_encode c \<Longrightarrow> b = c"
proof -
  assume e: "hex_encode b = hex_encode c"
  then have "length (hex_encode b) = length (hex_encode c)" by (rule arg_cong)
  then have l: "length b = length c" unfolding length_hex_encode by (rule mult_left_cancel [THEN iffD1, rotated]) (rule numeral_neq_zero)
  have "(Inr b :: bytes res) = decode_hex_array (length c) (hex_encode b)" by (simp only: decode_hex_encode [OF l])
  also have "\<dots> = Inr c" unfolding e by (rule decode_hex_encode) (rule refl)
  finally show "b = c" by (simp only: sum.inject)
qed

lemma manifest_accepts:
  assumes "snapshot_validate sn = Inr ()" and "length (sha256 artifact) = 32"
    and "sha = snapshot_artifact_sha256_hex sha256 artifact"
    and "m = manifest_for_snapshot sn created_at (immutable_snapshot_object_name sn sha)
               (word_of_nat (length artifact)) sha"
  shows "validate_artifact sha256 m artifact = Inr () \<and> validate_manifest_snapshot m sn = Inr () \<and>
    (\<forall>other. validate_artifact sha256 m other = Inr () \<longrightarrow> sha256 other = sha256 artifact)"
proof -
  have sha: "length sha = 64" "list_all is_ascii_hexdigit sha"
    using assms(2,3) by (simp_all add: snapshot_artifact_sha256_hex_def hex_encode_hexdigits)
  then have v: "manifest_validate m = Inr ()"
    using assms(1,4) immutable_name_safe [OF sha(2), of sn]
    by (simp add: manifest_valid_iff manifest_for_snapshot_def snapshot_validate_def split: if_splits)
  have "sm_artifact_sha256 m = hex_encode (sha256 artifact)" "sm_artifact_bytes m = word_of_nat (length artifact)"
    using assms(3,4) by (simp_all add: manifest_for_snapshot_def snapshot_artifact_sha256_hex_def)
  then have "validate_artifact sha256 m other = Inr () \<longleftrightarrow>
      word_of_nat (length other) = (word_of_nat (length artifact) :: u64) \<and> sha256 other = sha256 artifact" for other
    using v by (auto simp: validate_artifact_def snapshot_artifact_sha256_hex_def dest: hex_encode_inj)
  moreover have "validate_manifest_snapshot m sn = Inr ()"
    using v assms(1,4) by (simp add: validate_manifest_snapshot_def manifest_for_snapshot_def)
  ultimately show ?thesis by simp
qed

text \<open>C23: The manifest written for a valid snapshot under its immutable object name accepts the
  snapshot and the artifact it was made for, and it accepts no artifact of another digest.\<close>

theorem manifest_binds_artifact:
  assumes "snapshot_validate sn = Inr ()" and "length (sha256 artifact) = 32"
    and "sha = snapshot_artifact_sha256_hex sha256 artifact"
    and "m = manifest_for_snapshot sn created_at (immutable_snapshot_object_name sn sha)
               (word_of_nat (length artifact)) sha"
  shows "validate_artifact sha256 m artifact = Inr () \<and> validate_manifest_snapshot m sn = Inr () \<and>
    (\<forall>other. validate_artifact sha256 m other = Inr () \<longrightarrow> sha256 other = sha256 artifact)"
  using assms by (rule manifest_accepts)

theorem manifest_binds_artifact_witness:
  "\<exists>m. validate_artifact (\<lambda>b. replicate 32 7) m [1, 2, 3] = Inr () \<and>
     validate_manifest_snapshot m (source_snapshot (source_new 2 ''eu'')) = Inr ()"
proof -
  have "snapshot_validate (source_snapshot (source_new 2 ''eu'')) = Inr ()" by code_simp
  from manifest_binds_artifact [OF this, of "\<lambda>b. replicate 32 7" "[1, 2, 3]", OF _ refl refl] show ?thesis by auto
qed

end
