(* ===== verification/Utc_Dates.thy ===== *)
theory Utc_Dates
  imports Rust_Str "HOL-Library.Signed_Division" "HOL-Library.Word"
begin

text \<open>
  Calendar dates for the request signatures of the object store
  (\<open>globacl-commitd/src/app/object_store.rs\<close>).  The 64-bit integers of the code are unbounded here:
  for a time in seconds that fits them, no intermediate value leaves their range.  Rust's division
  truncates, which is \<open>sdiv\<close>; the casts of the results are written out.

  Result: the arithmetic of \<open>civil_from_days\<close> is the Gregorian calendar, the reference being the
  successor function \<open>next_day\<close> on dates.
\<close>

definition civil_from_days :: "int \<Rightarrow> int \<times> int \<times> int" where
  "civil_from_days days_since_epoch =
     (let z = days_since_epoch + 719468;
          era = (if 0 \<le> z then z else z - 146096) sdiv 146097;
          doe = z - era * 146097;
          yoe = (doe - doe sdiv 1460 + doe sdiv 36524 - doe sdiv 146096) sdiv 365;
          y = yoe + era * 400;
          doy = doe - (365 * yoe + yoe sdiv 4 - yoe sdiv 100);
          mp = (5 * doy + 2) sdiv 153;
          d = doy - (153 * mp + 2) sdiv 5 + 1;
          m = mp + (if mp < 10 then 3 else - 9);
          year = y + (if m \<le> 2 then 1 else 0)
      in (signed_take_bit 31 year, take_bit 32 m, take_bit 32 d))"

text \<open>\<open>div_euclid\<close> and \<open>rem_euclid\<close> by a positive number are \<open>div\<close> and \<open>mod\<close>.\<close>

definition unix_utc_components :: "int \<Rightarrow> int \<times> int \<times> int \<times> int \<times> int \<times> int" where
  "unix_utc_components seconds =
     (let days = seconds div 86400;
          seconds_of_day = seconds mod 86400;
          (year, month, day) = civil_from_days days
      in (year, month, day, seconds_of_day div 3600, (seconds_of_day mod 3600) div 60, seconds_of_day mod 60))"

text \<open>The format \<open>{:0N}\<close> of a signed number: the sign counts.\<close>

definition pad_int :: "nat \<Rightarrow> int \<Rightarrow> string" where
  "pad_int w n = (if n < 0 then ''-'' @ pad_dec (w - 1) (nat (- n)) else pad_dec w (nat n))"

text \<open>\<open>now\<close> is the time in seconds, or \<open>None\<close> for a clock before the epoch.\<close>

definition aws_sigv4_dates :: "u64 option \<Rightarrow> (string \<times> string) res" where
  "aws_sigv4_dates now = (case now of
     None \<Rightarrow> Inl InvalidData
   | Some s \<Rightarrow>
       let (year, month, day, hour, minute, second) = unix_utc_components (sint s);
           date = pad_int 4 year @ pad_int 2 month @ pad_int 2 day
       in Inr (date, date @ ''T'' @ pad_int 2 hour @ pad_int 2 minute @ pad_int 2 second @ ''Z''))"

section \<open>The calendar\<close>

definition leap_year :: "int \<Rightarrow> bool" where
  "leap_year y \<longleftrightarrow> y mod 4 = 0 \<and> (y mod 100 \<noteq> 0 \<or> y mod 400 = 0)"

definition month_length :: "int \<Rightarrow> int \<Rightarrow> int" where
  "month_length y m =
     (if m = 2 then (if leap_year y then 29 else 28) else if m \<in> {4, 6, 9, 11} then 30 else 31)"

fun next_day :: "int \<times> int \<times> int \<Rightarrow> int \<times> int \<times> int" where
  "next_day (y, m, d) =
     (if d < month_length y m then (y, m, d + 1)
      else if m < 12 then (y, m + 1, 1)
      else (y + 1, 1, 1))"

section \<open>Years of an era\<close>

text \<open>An era has 400 years of 146097 days, counted from the first of March.\<close>

definition year_start :: "int \<Rightarrow> int" where
  "year_start k = 365 * k + k div 4 - k div 100 + k div 400"

definition year_index :: "int \<Rightarrow> int" where
  "year_index doe = (doe - doe div 1460 + doe div 36524 - doe div 146096) div 365"

definition month_day :: "int \<Rightarrow> int \<times> int" where
  "month_day doy = (let mp = (5 * doy + 2) div 153
     in (mp + (if mp < 10 then 3 else - 9), doy - (153 * mp + 2) div 5 + 1))"

lemma div_succ_le: "0 < c \<Longrightarrow> (n + 1) div c \<le> n div c + (1::int)"
  using zdiv_mono1 [of "n + 1" "n + c" c] div_add_self2 [of c n] by simp

lemma year_index_mono_step:
  assumes "0 \<le> n" and "n < 146096"
  shows "year_index n \<le> year_index (n + 1)"
proof (cases "n = 146095")
  case True
  then show ?thesis by (simp add: year_index_def)
next
  case False
  with assms have z: "n div 146096 = 0" "(n + 1) div 146096 = 0" by (simp_all add: div_pos_pos_trivial)
  have a: "(n + 1) div 1460 \<le> n div 1460 + 1" by (rule div_succ_le) simp
  have b: "n div 36524 \<le> (n + 1) div 36524" by (rule zdiv_mono1) simp_all
  have "n - n div 1460 + n div 36524 - 0 \<le> (n + 1) - (n + 1) div 1460 + (n + 1) div 36524 - 0"
    using a b by linarith
  then show ?thesis unfolding year_index_def z by (rule zdiv_mono1) simp
qed

lemma year_index_mono:
  assumes "0 \<le> a" and "a \<le> b" and "b \<le> 146096"
  shows "year_index a \<le> year_index b"
  using assms(2,3)
proof (induction b rule: int_ge_induct)
  case base
  then show ?case by simp
next
  case (step i)
  then show ?case using year_index_mono_step [of i] assms(1) by force
qed

lemma year_table:
  assumes "0 \<le> k" and "k < 400"
  shows "year_index (year_start k) = k" and "year_index (year_start (k + 1) - 1) = k"
    and "year_start (k + 1) - year_start k = (if leap_year (k + 1) then 366 else 365)"
proof -
  have "list_all (\<lambda>k. year_index (year_start k) = k \<and> year_index (year_start (k + 1) - 1) = k \<and>
      year_start (k + 1) - year_start k = (if leap_year (k + 1) then 366 else 365)) [0..399]" by code_simp
  then show "year_index (year_start k) = k" and "year_index (year_start (k + 1) - 1) = k"
    and "year_start (k + 1) - year_start k = (if leap_year (k + 1) then 366 else 365)"
    using assms by (simp_all only: list_all_iff set_upto) auto
qed

lemma month_table:
  assumes "0 \<le> r" and "r \<le> 365"
  shows "1 \<le> fst (month_day r) \<and> fst (month_day r) \<le> 12 \<and> 1 \<le> snd (month_day r) \<and> snd (month_day r) \<le> 31"
proof -
  have "list_all (\<lambda>r. 1 \<le> fst (month_day r) \<and> fst (month_day r) \<le> 12 \<and> 1 \<le> snd (month_day r) \<and>
      snd (month_day r) \<le> 31) [0..365]" by code_simp
  then show ?thesis using assms by (simp only: list_all_iff set_upto) auto
qed

definition month_days :: "int \<Rightarrow> int" where
  "month_days m = (if m = 2 then 28 else if m \<in> {4, 6, 9, 11} then 30 else 31)"

lemma month_step:
  assumes "0 \<le> r" and "r \<le> 363"
  shows "(if snd (month_day r) < month_days (fst (month_day r))
          then month_day (r + 1) = (fst (month_day r), snd (month_day r) + 1)
          else fst (month_day r) \<noteq> 2 \<and>
            month_day (r + 1) = (if fst (month_day r) < 12 then fst (month_day r) + 1 else 1, 1))"
proof -
  have "list_all (\<lambda>r. if snd (month_day r) < month_days (fst (month_day r))
          then month_day (r + 1) = (fst (month_day r), snd (month_day r) + 1)
          else fst (month_day r) \<noteq> 2 \<and>
            month_day (r + 1) = (if fst (month_day r) < 12 then fst (month_day r) + 1 else 1, 1)) [0..363]"
    by code_simp
  then show ?thesis using assms by (simp only: list_all_iff set_upto) auto
qed

section \<open>The formula and the calendar\<close>

text \<open>Day \<open>r\<close> of year \<open>k\<close> of era \<open>e\<close>.\<close>

definition date_at :: "int \<Rightarrow> int \<Rightarrow> int \<Rightarrow> int \<times> int \<times> int" where
  "date_at e k r = (e * 400 + k + (if fst (month_day r) \<le> 2 then 1 else 0), month_day r)"

definition in_year :: "int \<Rightarrow> int \<Rightarrow> int \<Rightarrow> bool" where
  "in_year e k r \<longleftrightarrow> 0 \<le> e \<and> 0 \<le> k \<and> k < 400 \<and> 0 \<le> r \<and> r < year_start (k + 1) - year_start k"

lemma sdiv_nonneg: "0 \<le> a \<Longrightarrow> 0 < b \<Longrightarrow> a sdiv b = a div (b::int)"
  by (cases "a = 0") (auto simp: signed_divide_int_def sgn_if)

lemma leap_period: "leap_year (e * 400 + y) = leap_year y"
proof -
  have "(e * 400 + y) mod 4 = y mod 4" "(e * 400 + y) mod 100 = y mod 100" "(e * 400 + y) mod 400 = y mod 400"
    using mod_mult_self3 [of "e * 100" 4 y] mod_mult_self3 [of "e * 4" 100 y] mod_mult_self3 [of e 400 y]
    by (simp_all add: mult.assoc)
  then show ?thesis by (simp only: leap_year_def)
qed

lemma year_bounds:
  assumes "in_year e k r"
  shows "r \<le> 365" and "0 \<le> year_start k" and "year_start k + r \<le> 146096"
    and "year_index (year_start k + r) = k"
proof -
  have k: "0 \<le> k" "k < 400" and r: "0 \<le> r" "r < year_start (k + 1) - year_start k"
    using assms by (simp_all add: in_year_def)
  have t: "year_start (k + 1) - year_start k \<le> 366" using year_table(3) [OF k] by (simp split: if_splits)
  with r show "r \<le> 365" by linarith
  have "list_all (\<lambda>k. 0 \<le> year_start k \<and> year_start (k + 1) \<le> 146097) [0..399]" by code_simp
  with k have b: "0 \<le> year_start k \<and> year_start (k + 1) \<le> 146097" by (simp only: list_all_iff set_upto) auto
  then show "0 \<le> year_start k" and "year_start k + r \<le> 146096" using r by linarith+
  have "year_index (year_start k) \<le> year_index (year_start k + r)" by (rule year_index_mono) (use b r in linarith)+
  moreover have "year_index (year_start k + r) \<le> year_index (year_start (k + 1) - 1)"
    by (rule year_index_mono) (use b r in linarith)+
  ultimately show "year_index (year_start k + r) = k" using year_table(1,2) [OF k] by linarith
qed

lemma civil_from_days_at:
  assumes "in_year e k r" and "e * 400 + k + 1 < 2 ^ 31"
  shows "civil_from_days (e * 146097 + year_start k + r - 719468) = date_at e k r"
proof -
  let ?s = "year_start k + r"
  note b = year_bounds [OF assms(1)]
  have p: "0 \<le> e" "0 \<le> k" "k < 400" "0 \<le> r" using assms(1) by (simp_all add: in_year_def)
  have s: "0 \<le> ?s" using b(2) p(4) by linarith
  have z: "0 \<le> e * 146097 + ?s" using p(1) s by simp
  have era: "(e * 146097 + ?s) sdiv 146097 = e"
    using z s b(3) div_mult_self3 [of 146097 e ?s] by (simp add: sdiv_nonneg div_pos_pos_trivial)
  have y: "(?s - ?s sdiv 1460 + ?s sdiv 36524 - ?s sdiv 146096) sdiv 365 = k"
  proof -
    have "?s div 1460 \<le> ?s" using zdiv_mono2 [OF s, of 1 1460] by simp
    moreover have "?s div 146096 \<le> ?s div 36524" using zdiv_mono2 [OF s, of 36524 146096] by simp
    ultimately have "0 \<le> ?s - ?s div 1460 + ?s div 36524 - ?s div 146096" by linarith
    with s b(4) show ?thesis by (simp add: sdiv_nonneg year_index_def)
  qed
  have doy: "?s - (365 * k + k sdiv 4 - k sdiv 100) = r"
    using p by (simp add: year_start_def sdiv_nonneg div_pos_pos_trivial)
  have mp: "(5 * r + 2) sdiv 153 = (5 * r + 2) div 153"
    "(153 * ((5 * r + 2) div 153) + 2) sdiv 5 = (153 * ((5 * r + 2) div 153) + 2) div 5"
    using p(4) by (simp_all add: sdiv_nonneg pos_imp_zdiv_nonneg_iff)
  have md: "month_day r = ((5 * r + 2) div 153 + (if (5 * r + 2) div 153 < 10 then 3 else - 9),
      r - (153 * ((5 * r + 2) div 153) + 2) div 5 + 1)" by (simp add: month_day_def Let_def)
  have zz: "e * 146097 + year_start k + r - 719468 + 719468 = e * 146097 + ?s"
    "e * 146097 + ?s - e * 146097 = ?s" by simp_all
  have "civil_from_days (e * 146097 + year_start k + r - 719468) =
      (signed_take_bit 31 (k + e * 400 + (if fst (month_day r) \<le> 2 then 1 else 0)),
       take_bit 32 (fst (month_day r)), take_bit 32 (snd (month_day r)))"
    unfolding civil_from_days_def Let_def zz if_P [OF z] era y doy mp md fst_conv snd_conv ..
  also have "\<dots> = date_at e k r"
  proof -
    have "signed_take_bit 31 (k + e * 400 + (if fst (month_day r) \<le> 2 then 1 else 0)) =
        k + e * 400 + (if fst (month_day r) \<le> 2 then 1 else 0)"
      using assms(2) p by (intro signed_take_bit_int_eq_self) auto
    moreover have "take_bit 32 (fst (month_day r)) = fst (month_day r)" "take_bit 32 (snd (month_day r)) = snd (month_day r)"
      using month_table [OF p(4) b(1)] by (auto intro!: take_bit_int_eq_self)
    ultimately show ?thesis by (simp add: date_at_def)
  qed
  finally show ?thesis .
qed

lemma next_in_calendar:
  assumes "in_year e k r"
  obtains e' k' r' where "in_year e' k' r'" and "next_day (date_at e k r) = date_at e' k' r'"
    and "e' * 146097 + year_start k' + r' = e * 146097 + year_start k + r + 1"
proof -
  have p: "0 \<le> e" "0 \<le> k" "k < 400" "0 \<le> r" "r < year_start (k + 1) - year_start k"
    using assms by (simp_all add: in_year_def)
  have len: "year_start (k + 1) - year_start k = (if leap_year (k + 1) then 366 else 365)"
    using year_table(3) [OF p(2,3)] .
  have leap: "leap_year (e * 400 + k + 1) = leap_year (k + 1)"
    using leap_period [of e "k + 1"] by (simp add: add.assoc)
  have ends: "month_day 0 = (3, 1)" "month_day 364 = (2, 28)" "month_day 365 = (2, 29)" by code_simp+
  show thesis
  proof (cases "r + 1 < year_start (k + 1) - year_start k")
    case True
    then have i: "in_year e k (r + 1)" using p by (simp add: in_year_def)
    have "next_day (date_at e k r) = date_at e k (r + 1)"
    proof (cases "r \<le> 363")
      case T: True
      obtain m d where md: "month_day r = (m, d)" by (cases "month_day r")
      then show ?thesis using month_step [OF p(4) T] month_table [OF p(4)] T
        by (auto simp: date_at_def month_days_def month_length_def split: if_splits)
    next
      case False
      then have "r = 364" "leap_year (k + 1)" using True len by (auto split: if_splits)
      then show ?thesis using leap by (simp add: date_at_def ends month_length_def)
    qed
    with i show thesis by (intro that [of e k "r + 1"]) simp_all
  next
    case False
    then have r: "r + 1 = year_start (k + 1) - year_start k" using p by simp
    have first: "next_day (date_at e k r) = (e * 400 + k + 1, 3, 1)"
      using r len leap ends by (auto simp: date_at_def month_length_def split: if_splits)
    show thesis
    proof (cases "k = 399")
      case True
      then show thesis using p r first
        by (intro that [of "e + 1" 0 0]) (simp_all add: in_year_def date_at_def ends year_start_def)
    next
      case F: False
      then have "in_year e (k + 1) 0" using p year_table(3) [of "k + 1"] by (simp add: in_year_def split: if_splits)
      then show thesis using r first
        by (intro that [of e "k + 1" 0]) (simp_all add: date_at_def ends)
    qed
  qed
qed

text \<open>C27: The date arithmetic of the request signatures is the Gregorian calendar: the date of day
  number \<open>n\<close> is reached from the first of January 1970 by \<open>n\<close> times the next day, for more than a
  billion years.\<close>

theorem civil_dates_correct:
  assumes "n < 700000000000"
  shows "civil_from_days (int n) = (next_day ^^ n) (1970, 1, 1)"
proof -
  have "\<exists>e k r. in_year e k r \<and> (next_day ^^ n) (1970, 1, 1) = date_at e k r \<and>
      int n + 719468 = e * 146097 + year_start k + r" for n
  proof (induction n)
    case 0
    have "in_year 4 369 306 \<and> (1970, 1, 1) = date_at 4 369 306 \<and> 719468 = 4 * 146097 + year_start 369 + 306"
      by code_simp
    then show ?case by (intro exI [of _ 4] exI [of _ 369] exI [of _ 306]) simp
  next
    case (Suc n)
    then obtain e k r where i: "in_year e k r" and d: "(next_day ^^ n) (1970, 1, 1) = date_at e k r"
      and n: "int n + 719468 = e * 146097 + year_start k + r" by auto
    from next_in_calendar [OF i] obtain e' k' r' where "in_year e' k' r'"
      and "next_day (date_at e k r) = date_at e' k' r'"
      and "e' * 146097 + year_start k' + r' = e * 146097 + year_start k + r + 1" .
    with d n show ?case by (intro exI [of _ e'] exI [of _ k'] exI [of _ r']) simp
  qed
  then obtain e k r where i: "in_year e k r" and d: "(next_day ^^ n) (1970, 1, 1) = date_at e k r"
    and n: "int n + 719468 = e * 146097 + year_start k + r" by blast
  have "e * 400 + k + 1 < 2 ^ 31" using assms n i year_bounds(2) [OF i] by (simp add: in_year_def)
  from civil_from_days_at [OF i this] show ?thesis unfolding d [symmetric] n [symmetric] by simp
qed

theorem civil_dates_correct_witness: "civil_from_days 20000 = (next_day ^^ 20000) (1970, 1, 1)"
  using civil_dates_correct [of 20000] by simp

end
