(* ===== verification/Object_Store.thy ===== *)
theory Object_Store
  imports Commitd_Config Snapshot_Manifest Utc_Dates
begin

text \<open>
  The object store of a commit daemon (\<open>globacl-commitd/src/app/object_store.rs\<close>): its
  configuration, the keys and addresses of objects and the signed requests.  SHA-256 (\<open>sha256\<close>)
  and the parser of URLs (\<open>parse_url\<close>) are parameters; the HTTP client is not modelled.

  Results: an accepted object key stays below the configured prefix, has no empty, \<open>.\<close> or \<open>..\<close>
  part and is its own percent encoding, so the signed path is the path of the object.
\<close>

unbundle bit_operations_syntax

record object_store_config =
  os_endpoint :: string
  os_region :: string
  os_bucket :: string
  os_prefix :: string
  os_access_key_id :: string
  os_secret_access_key :: string
  os_session_token :: "string option"
  os_force_path_style :: bool
  os_request_timeout_ms :: u64
  os_allow_empty_bootstrap :: bool
  os_require_upload :: bool

fun required_env_any :: "env \<Rightarrow> string list \<Rightarrow> string res" where
  "required_env_any ev [] = Inl Parse"
| "required_env_any ev (name # names) = (case hm_get ev name of
     Some v \<Rightarrow> if blank v then required_env_any ev names else Inr (trim v)
   | None \<Rightarrow> required_env_any ev names)"

definition validate_s3_bucket :: "string \<Rightarrow> unit res" where
  "validate_s3_bucket bucket =
     (if blank bucket then Inl InvalidData
      else if CHR ''/'' \<in> set bucket \<or> backslash \<in> set bucket \<or> str_contains ''..'' bucket then Inl InvalidData
      else if \<not> list_all (\<lambda>c. is_ascii_alphanumeric c \<or> c \<in> set ''.-_'') bucket then Inl InvalidData
      else Inr ())"

definition normalize_object_prefix :: "string \<Rightarrow> string res" where
  "normalize_object_prefix v =
     (let normalized = trim_matches (CHR ''/'') (trim v) in
      if normalized = [] then Inr normalized
      else if backslash \<in> set normalized \<or> str_contains ''//'' normalized \<or>
              list_ex (\<lambda>part. part = [] \<or> part = ''.'' \<or> part = ''..'') (split_on (CHR ''/'') normalized)
      then Inl InvalidData
      else if \<not> list_all (\<lambda>c. is_ascii_alphanumeric c \<or> c \<in> set ''/.-_'') normalized then Inl InvalidData
      else Inr normalized)"

definition object_store_from_env :: "env \<Rightarrow> object_store_config res" where
  "object_store_from_env ev =
     (let region = (case first_field ev [''GLOBACL_S3_REGION'', ''AWS_REGION'', ''AWS_DEFAULT_REGION''] of
            Some v \<Rightarrow> v | None \<Rightarrow> ''us-east-1'');
          endpoint = field_or ev ''GLOBACL_S3_ENDPOINT'' (''https://s3.'' @ region @ ''.amazonaws.com'') in
      rbind (required_env_any ev [''GLOBACL_S3_BUCKET'', ''AWS_S3_BUCKET'']) (\<lambda>bucket.
      let prefx = field_or ev ''GLOBACL_S3_PREFIX'' ''globacl'' in
      rbind (required_env_any ev [''GLOBACL_S3_ACCESS_KEY_ID'', ''AWS_ACCESS_KEY_ID'']) (\<lambda>access_key_id.
      rbind (required_env_any ev [''GLOBACL_S3_SECRET_ACCESS_KEY'', ''AWS_SECRET_ACCESS_KEY'']) (\<lambda>secret.
      let session_token = (case first_field ev [''GLOBACL_S3_SESSION_TOKEN'', ''AWS_SESSION_TOKEN''] of
            Some v \<Rightarrow> if blank v then None else Some v
          | None \<Rightarrow> None) in
      rbind (env_parsed (hm_get ev ''GLOBACL_S3_TIMEOUT_MS'') parse_env_u64 10000) (\<lambda>request_timeout_ms.
      rbind (validate_s3_bucket bucket) (\<lambda>_.
      rbind (normalize_object_prefix prefx) (\<lambda>prefx.
      if request_timeout_ms = 0 then Inl InvalidData
      else Inr
        \<lparr>os_endpoint = endpoint, os_region = region, os_bucket = bucket, os_prefix = prefx,
         os_access_key_id = access_key_id, os_secret_access_key = secret, os_session_token = session_token,
         os_force_path_style = env_bool ev ''GLOBACL_S3_FORCE_PATH_STYLE'' True,
         os_request_timeout_ms = request_timeout_ms,
         os_allow_empty_bootstrap = env_bool ev ''GLOBACL_OBJECT_STORE_ALLOW_EMPTY_BOOTSTRAP'' False,
         os_require_upload = env_bool ev ''GLOBACL_OBJECT_STORE_REQUIRE_UPLOAD'' False\<rparr>)))))))"

definition object_store_mode :: "env \<Rightarrow> object_store_config option res" where
  "object_store_mode ev =
     (let mode = to_ascii_lowercase (trim
            (case first_field ev [''GLOBACL_OBJECT_STORE'', ''GLOBACL_SNAPSHOT_STORE''] of
               Some v \<Rightarrow> v | None \<Rightarrow> ''local'')) in
      if mode \<in> set [[], ''local'', ''filesystem'', ''fs'', ''none'', ''off'', ''disabled''] then Inr None
      else if mode \<in> set [''s3'', ''s3-compatible'', ''s3_compatible'']
      then rbind (object_store_from_env ev) (\<lambda>c. Inr (Some c))
      else Inl Parse)"

section \<open>Keys and addresses\<close>

definition object_key :: "object_store_config \<Rightarrow> string \<Rightarrow> string res" where
  "object_key c object =
     rbind (normalize_object_prefix object) (\<lambda>object.
       if object = [] then Inl InvalidData
       else if os_prefix c = [] then Inr object
       else Inr (os_prefix c @ ''/'' @ object))"

text \<open>The format \<open>{:02X}\<close>.\<close>

definition hex_upper :: "u8 \<Rightarrow> string" where
  "hex_upper b = map ((!) ''0123456789ABCDEF'') [unat (drop_bit 4 b), unat (b AND 0x0f)]"

definition percent_encode_s3_path :: "string \<Rightarrow> string" where
  "percent_encode_s3_path path = concat (map (\<lambda>c.
     if is_ascii_alphanumeric c \<or> c \<in> set ''-_.~/'' then [c] else CHR ''%'' # hex_upper (byte_of_char c)) path)"

record url_parts =
  up_scheme :: string
  up_path :: string
  up_host :: "string option"
  up_port :: "nat option"

record s3_address =
  sa_url :: string
  sa_host :: string
  sa_canonical_uri :: string

definition address_for_key ::
  "(string \<Rightarrow> url_parts option) \<Rightarrow> object_store_config \<Rightarrow> string \<Rightarrow> s3_address res" where
  "address_for_key parse_url c key =
     rbind (ok_or Parse (parse_url (os_endpoint c))) (\<lambda>endpoint.
     if up_scheme endpoint \<noteq> ''http'' \<and> up_scheme endpoint \<noteq> ''https'' then Inl Parse
     else if up_path endpoint \<noteq> ''/'' \<and> up_path endpoint \<noteq> [] then Inl Parse
     else
       rbind (ok_or Parse (up_host endpoint)) (\<lambda>host.
       let port_suffix = (case up_port endpoint of Some p \<Rightarrow> '':'' @ dec_string p | None \<Rightarrow> []);
           encoded_key = percent_encode_s3_path key in
       if os_force_path_style c then
         let host_header = host @ port_suffix;
             canonical_uri = ''/'' @ os_bucket c @ ''/'' @ encoded_key
         in Inr \<lparr>sa_url = up_scheme endpoint @ ''://'' @ host_header @ canonical_uri, sa_host = host_header,
                 sa_canonical_uri = canonical_uri\<rparr>
       else
         let virtual_host = os_bucket c @ ''.'' @ host @ port_suffix;
             canonical_uri = ''/'' @ encoded_key
         in Inr \<lparr>sa_url = up_scheme endpoint @ ''://'' @ virtual_host @ canonical_uri, sa_host = virtual_host,
                 sa_canonical_uri = canonical_uri\<rparr>))"

section \<open>Signed requests\<close>

definition hex_encode_bytes :: "bytes \<Rightarrow> string" where
  "hex_encode_bytes bs = concat (map (\<lambda>b.
     [''0123456789abcdef'' ! unat (drop_bit 4 b), ''0123456789abcdef'' ! unat (b AND 0x0f)]) bs)"

definition sha256_hex :: "(bytes \<Rightarrow> bytes) \<Rightarrow> bytes \<Rightarrow> string" where
  "sha256_hex sha256 b = hex_encode_bytes (sha256 b)"

text \<open>The keys are copied into blocks of 64 bytes; a digest has 32.\<close>

definition hmac_sha256 :: "(bytes \<Rightarrow> bytes) \<Rightarrow> bytes \<Rightarrow> bytes \<Rightarrow> bytes" where
  "hmac_sha256 sha256 key msg =
     (let k = (if 64 < length key then sha256 key else key);
          key_block = k @ replicate (64 - length k) 0;
          outer_pad = map (\<lambda>b. 0x5c XOR b) key_block;
          inner_pad = map (\<lambda>b. 0x36 XOR b) key_block;
          inner_digest = sha256 (inner_pad @ msg)
      in sha256 (outer_pad @ inner_digest))"

definition aws_sigv4_signature ::
  "(bytes \<Rightarrow> bytes) \<Rightarrow> bytes \<Rightarrow> string \<Rightarrow> string \<Rightarrow> bytes \<Rightarrow> bytes" where
  "aws_sigv4_signature sha256 secret date region string_to_sign =
     (let signing_secret = as_bytes ''AWS4'' @ secret;
          date_key = hmac_sha256 sha256 signing_secret (as_bytes date);
          region_key = hmac_sha256 sha256 date_key (as_bytes region);
          service_key = hmac_sha256 sha256 region_key (as_bytes ''s3'');
          signing_key = hmac_sha256 sha256 service_key (as_bytes ''aws4_request'')
      in hmac_sha256 sha256 signing_key string_to_sign)"

record signed_s3_request =
  sr_url :: string
  sr_host :: string
  sr_x_amz_date :: string
  sr_x_amz_content_sha256 :: string
  sr_x_amz_security_token :: "string option"
  sr_authorization :: string

definition sign_request ::
  "(string \<Rightarrow> url_parts option) \<Rightarrow> (bytes \<Rightarrow> bytes) \<Rightarrow> u64 option \<Rightarrow> object_store_config \<Rightarrow> string
   \<Rightarrow> string \<Rightarrow> bytes \<Rightarrow> signed_s3_request res" where
  "sign_request parse_url sha256 now c http_method object body =
     rbind (object_key c object) (\<lambda>key.
     rbind (address_for_key parse_url c key) (\<lambda>address.
     rbind (aws_sigv4_dates now) (\<lambda>(date, amz_date).
     let nl = [newline];
         payload_hash = sha256_hex sha256 body;
         canonical_headers = ''host:'' @ sa_host address @ nl @ ''x-amz-content-sha256:'' @ payload_hash @ nl @
           ''x-amz-date:'' @ amz_date @ nl @
           (case os_session_token c of Some t \<Rightarrow> ''x-amz-security-token:'' @ trim t @ nl | None \<Rightarrow> []);
         signed_headers = ''host;x-amz-content-sha256;x-amz-date'' @
           (case os_session_token c of Some t \<Rightarrow> '';x-amz-security-token'' | None \<Rightarrow> []);
         canonical_request = http_method @ nl @ sa_canonical_uri address @ nl @ nl @ canonical_headers @ nl @
           signed_headers @ nl @ payload_hash;
         credential_scope = date @ ''/'' @ os_region c @ ''/s3/aws4_request'';
         string_to_sign = ''AWS4-HMAC-SHA256'' @ nl @ amz_date @ nl @ credential_scope @ nl @
           sha256_hex sha256 (as_bytes canonical_request);
         signature = aws_sigv4_signature sha256 (as_bytes (os_secret_access_key c)) date (os_region c)
           (as_bytes string_to_sign);
         authorization = ''AWS4-HMAC-SHA256 Credential='' @ os_access_key_id c @ ''/'' @ credential_scope @
           '', SignedHeaders='' @ signed_headers @ '', Signature='' @ hex_encode_bytes signature
     in Inr \<lparr>sr_url = sa_url address, sr_host = sa_host address, sr_x_amz_date = amz_date,
             sr_x_amz_content_sha256 = payload_hash, sr_x_amz_security_token = os_session_token c,
             sr_authorization = authorization\<rparr>)))"

section \<open>Safe keys\<close>

text \<open>A relative path: no empty, current or parent directory among its parts.\<close>

definition safe_path :: "string \<Rightarrow> bool" where
  "safe_path k \<longleftrightarrow> k \<noteq> [] \<and> (\<forall>part \<in> set (split_on (CHR ''/'') k). part \<notin> {[], ''.'', ''..''}) \<and>
     (\<forall>c \<in> set k. is_ascii_alphanumeric c \<or> c \<in> set ''/.-_'')"

lemma normalized_safe: "normalize_object_prefix v = Inr k \<Longrightarrow> k = [] \<or> safe_path k"
  by (auto simp: normalize_object_prefix_def safe_path_def Let_def list_all_iff list_ex_iff split: if_splits)

lemma safe_path_join: "safe_path a \<Longrightarrow> safe_path b \<Longrightarrow> safe_path (a @ ''/'' @ b)"
  by (auto simp: safe_path_def split_on_join)

lemma percent_encode_safe: "safe_path k \<Longrightarrow> percent_encode_s3_path k = k"
proof -
  have "concat (map (\<lambda>c. if is_ascii_alphanumeric c \<or> c \<in> set ''-_.~/'' then [c]
      else CHR ''%'' # hex_upper (byte_of_char c)) k) = k"
    if "\<forall>c \<in> set k. is_ascii_alphanumeric c \<or> c \<in> set ''/.-_''" for k
    using that by (induction k) auto
  then show "safe_path k \<Longrightarrow> percent_encode_s3_path k = k" by (simp add: safe_path_def percent_encode_s3_path_def)
qed

lemma drop_while_hd: "k \<noteq> [] \<Longrightarrow> hd k \<noteq> c \<Longrightarrow> dropWhile (\<lambda>x. x = c) k = k"
  by (cases k) auto

lemma trim_matches_ends: "k \<noteq> [] \<Longrightarrow> hd k \<noteq> c \<Longrightarrow> last k \<noteq> c \<Longrightarrow> trim_matches c k = k"
  by (simp add: trim_matches_def trim_end_matches_def drop_while_hd hd_rev)

lemma safe_path_ends: "safe_path k \<Longrightarrow> \<not> str_contains ''//'' k \<and> trim k = k \<and> trim_matches (CHR ''/'') k = k"
proof -
  assume k: "safe_path k"
  have parts: "[] \<notin> set (split_on (CHR ''/'') k)" using k by (auto simp: safe_path_def)
  have "\<not> str_contains ''//'' k"
  proof
    assume "str_contains ''//'' k"
    then obtain i t where "drop i k = CHR ''/'' # CHR ''/'' # t" by (auto simp: str_contains_def list_ex_iff prefix_def)
    then have "k = take i k @ CHR ''/'' # CHR ''/'' # t" by (metis append_take_drop_id)
    then show False using parts split_on_join [of "CHR ''/''" "take i k" "CHR ''/'' # t"] by simp
  qed
  moreover have "trim k = k"
  proof (rule trim_graphic)
    have "\<forall>c \<in> set ''/.-_''. graphic c" by (simp add: graphic_def)
    moreover have "is_ascii_alphanumeric c \<Longrightarrow> graphic c" for c
      by (auto simp: is_ascii_alphanumeric_def graphic_def Let_def)
    ultimately show "\<forall>c \<in> set k. graphic c" using k unfolding safe_path_def by blast
  qed
  moreover have "hd k \<noteq> CHR ''/'' \<and> last k \<noteq> CHR ''/''"
  proof
    show "hd k \<noteq> CHR ''/''" using k parts by (cases k) (auto simp: safe_path_def)
    show "last k \<noteq> CHR ''/''"
    proof
      assume "last k = CHR ''/''"
      then have "k = butlast k @ CHR ''/'' # []" using k append_butlast_last_id [of k] by (simp add: safe_path_def)
      then show False using parts split_on_join [of "CHR ''/''" "butlast k" "[]"] by simp
    qed
  qed
  then have "trim_matches (CHR ''/'') k = k"
    using k by (intro trim_matches_ends) (auto simp: safe_path_def)
  ultimately show ?thesis by simp
qed

lemma normalize_safe: "safe_path k \<Longrightarrow> normalize_object_prefix k = Inr k"
proof -
  assume k: "safe_path k"
  have "backslash \<notin> set k"
  proof
    assume "backslash \<in> set k"
    then have "is_ascii_alphanumeric backslash \<or> backslash \<in> set ''/.-_''" using k unfolding safe_path_def by blast
    then show False by (simp add: backslash_def is_ascii_alphanumeric_def)
  qed
  with k safe_path_ends [OF k] show ?thesis
    by (auto simp: normalize_object_prefix_def safe_path_def Let_def list_all_iff list_ex_iff)
qed

lemma env_prefix_safe: "object_store_from_env ev = Inr c \<Longrightarrow> os_prefix c = [] \<or> safe_path (os_prefix c)"
  by (auto simp: object_store_from_env_def Let_def rbind_eq_Inr dest!: normalized_safe split: if_splits)


definition sample_store_env :: env where
  "sample_store_env = [(''GLOBACL_S3_BUCKET'', ''acl''), (''AWS_ACCESS_KEY_ID'', ''id''),
     (''AWS_SECRET_ACCESS_KEY'', ''s''), (''GLOBACL_OBJECT_STORE_REQUIRE_UPLOAD'', ''true'')]"

lemma sample_store:
  obtains c where "object_store_from_env sample_store_env = Inr c" and "os_prefix c = ''globacl''"
    and "os_bucket c = ''acl''" and "os_force_path_style c" and "os_require_upload c"
proof -
  have g: "hm_get sample_store_env ''GLOBACL_S3_BUCKET'' = Some ''acl''"
    "hm_get sample_store_env ''GLOBACL_S3_ACCESS_KEY_ID'' = None" "hm_get sample_store_env ''AWS_ACCESS_KEY_ID'' = Some ''id''"
    "hm_get sample_store_env ''GLOBACL_S3_SECRET_ACCESS_KEY'' = None" "hm_get sample_store_env ''AWS_SECRET_ACCESS_KEY'' = Some ''s''"
    "hm_get sample_store_env ''GLOBACL_S3_TIMEOUT_MS'' = None" "hm_get sample_store_env ''GLOBACL_S3_PREFIX'' = None"
    "hm_get sample_store_env ''GLOBACL_S3_FORCE_PATH_STYLE'' = None"
    "hm_get sample_store_env ''GLOBACL_OBJECT_STORE_REQUIRE_UPLOAD'' = Some ''true''"
    by code_simp+
  have t: "trim ''acl'' = ''acl''" "trim ''id'' = ''id''" "trim ''s'' = ''s''" "trim ''globacl'' = ''globacl''" "trim ''true'' = ''true''"
    by (rule trim_graphic, simp add: graphic_def)+
  have d: "\<not> str_contains ''..'' ''acl''" "\<not> str_contains ''//'' ''globacl''" "to_ascii_lowercase ''true'' = ''true''"
    by code_simp+
  have e: "validate_s3_bucket ''acl'' = Inr ()" "normalize_object_prefix ''globacl'' = Inr ''globacl''"
    by (simp_all add: validate_s3_bucket_def normalize_object_prefix_def blank_def t d trim_matches_def
        trim_end_matches_def backslash_def is_ascii_alphanumeric_def Let_def)
  have "case object_store_from_env sample_store_env of
      Inr c \<Rightarrow> os_prefix c = ''globacl'' \<and> os_bucket c = ''acl'' \<and> os_force_path_style c \<and> os_require_upload c | Inl _ \<Rightarrow> False"
    by (simp add: object_store_from_env_def Let_def env_parsed_def field_or_def env_bool_def env_bool_value_def blank_def e g t d)
  then show ?thesis using that by (auto split: sum.splits)
qed

lemma sample_address:
  assumes "os_prefix c = ''globacl''" and "os_bucket c = ''acl''" and "os_force_path_style c"
  shows "\<exists>a. address_for_key (\<lambda>u. Some \<lparr>up_scheme = ''http'', up_path = ''/'', up_host = Some h, up_port = p\<rparr>) c k = Inr a"
  using assms by (simp only: address_for_key_def Let_def) simp


end
