(* ===== verification/Http.thy ===== *)
theory Http
  imports Json
begin

text \<open>
  HTTP messages between the services (\<open>globacl-core/src/lib/http.rs\<close>, the reader of responses of
  \<open>nats.rs\<close> and \<open>percent_decode\<close> of \<open>codec.rs\<close>).  A connection is what its reads deliver: a list of
  chunks, each of them bytes or a failed read; the end of the list is the closed connection.

  Result: whatever way the network cuts it into chunks, a request that one service writes is read by
  another with the same method, path, headers and body.
\<close>

section \<open>Query strings\<close>

text \<open>\<open>String::from_utf8_lossy\<close>: an invalid piece is replaced by U+FFFD.  The piece is the longest
  beginning of a character, one byte at least.\<close>

definition utf8_bad_len :: "bytes \<Rightarrow> nat" where
  "utf8_bad_len bs = (case bs of
     b0 # b1 # r \<Rightarrow>
       if 0xE0 \<le> b0 \<and> b0 \<le> 0xEF then (if utf8_second3 b0 b1 then 2 else 1)
       else if 0xF0 \<le> b0 \<and> b0 \<le> 0xF4 then
         (if utf8_second4 b0 b1 then (case r of b2 # _ \<Rightarrow> if utf8_cont b2 then 3 else 2 | [] \<Rightarrow> 2) else 1)
       else 1
   | _ \<Rightarrow> 1)"

lemma utf8_bad_len_pos: "0 < utf8_bad_len bs"
  by (simp add: utf8_bad_len_def split: list.splits)

function from_utf8_lossy :: "bytes \<Rightarrow> string" where
  "from_utf8_lossy bs =
     (if bs = [] then []
      else if utf8_width bs \<noteq> 0
      then str_of_bytes (take (utf8_width bs) bs) @ from_utf8_lossy (drop (utf8_width bs) bs)
      else map char_of [0xEF, 0xBF, 0xBD :: nat] @ from_utf8_lossy (drop (utf8_bad_len bs) bs))"
  by pat_completeness auto
termination
  by (relation "measure length") (auto simp: utf8_bad_len_pos)

declare from_utf8_lossy.simps [simp del]

text \<open>\<open>str::is_char_boundary\<close>; a slice panics elsewhere.\<close>

definition char_boundary :: "string \<Rightarrow> nat \<Rightarrow> bool" where
  "char_boundary s i =
     (i = 0 \<or> i = length s \<or> (i < length s \<and> \<not> utf8_cont (byte_of_char (s ! i))))"

definition hex_value :: "char \<Rightarrow> nat" where
  "hex_value c = (let n = of_char c in if n \<le> 57 then n - 48 else if n \<le> 70 then n - 55 else n - 87)"

text \<open>\<open>u8::from_str_radix(_, 16)\<close> on two characters; a plus sign may come first.\<close>

definition from_hex_radix :: "string \<Rightarrow> u8 option" where
  "from_hex_radix s =
     (let digits = (case s of c # cs \<Rightarrow> if c = CHR ''+'' then cs else s | [] \<Rightarrow> []) in
      if digits \<noteq> [] \<and> list_all is_ascii_hexdigit digits
      then Some (word_of_nat (foldl (\<lambda>v c. 16 * v + hex_value c) 0 digits))
      else None)"

function percent_loop :: "string \<Rightarrow> nat \<Rightarrow> bytes \<Rightarrow> bytes res" where
  "percent_loop v i out =
     (if length v \<le> i then Inr out
      else if v ! i = CHR ''+'' then percent_loop v (i + 1) (out @ [32])
      else if v ! i = CHR ''%'' \<and> i + 2 < length v then
        (if \<not> char_boundary v (i + 1) \<or> \<not> char_boundary v (i + 3) then Inl Panic
         else case from_hex_radix (take 2 (drop (i + 1) v)) of
           Some hex \<Rightarrow> percent_loop v (i + 3) (out @ [hex])
         | None \<Rightarrow> percent_loop v (i + 1) (out @ [byte_of_char (v ! i)]))
      else percent_loop v (i + 1) (out @ [byte_of_char (v ! i)]))"
  by pat_completeness auto
termination
  by (relation "measure (\<lambda>(v, i, out). length v - i)") auto

declare percent_loop.simps [simp del]

definition percent_decode :: "string \<Rightarrow> string res" where
  "percent_decode v = rbind (percent_loop v 0 []) (\<lambda>out. Inr (from_utf8_lossy out))"

definition query_pair :: "string \<Rightarrow> form \<Rightarrow> form res" where
  "query_pair pair params =
     (let (key, v) = (case split_once (CHR ''='') pair of Some kv \<Rightarrow> kv | None \<Rightarrow> (pair, [])) in
      rbind (percent_decode key) (\<lambda>k.
      rbind (percent_decode v) (\<lambda>x. Inr (hm_insert k x params))))"

definition parse_query_path :: "string \<Rightarrow> (string \<times> form) res" where
  "parse_query_path path =
     (let (route, query) = (case split_once (CHR ''?'') path of Some rq \<Rightarrow> rq | None \<Rightarrow> (path, [])) in
      rbind (rfold query_pair (filter (\<lambda>p. p \<noteq> []) (split_on (CHR ''&'') query)) hm_new) (\<lambda>params.
        Inr (route, params)))"

section \<open>Requests\<close>

definition MAX_HTTP_BODY_BYTES :: nat where
  "MAX_HTTP_BODY_BYTES = 1024 * 1024"

definition crlf :: string where
  "crlf = [carriage_return, newline]"

record http_request =
  hq_method :: string
  hq_path :: string
  hq_headers :: form
  hq_body :: bytes

definition request_header :: "http_request \<Rightarrow> string \<Rightarrow> string option" where
  "request_header r name = hm_get (hq_headers r) (to_ascii_lowercase name)"

definition bearer_token :: "http_request \<Rightarrow> string option" where
  "bearer_token r = (case request_header r ''authorization'' of
     None \<Rightarrow> None
   | Some v \<Rightarrow>
       (case (case strip_prefix ''Bearer '' (trim v) of
                Some t \<Rightarrow> Some t | None \<Rightarrow> strip_prefix ''bearer '' (trim v)) of
          None \<Rightarrow> None
        | Some t \<Rightarrow> if trim t = [] then None else Some (trim t)))"

definition authorization_forward_header :: "http_request \<Rightarrow> (string \<times> string) option" where
  "authorization_forward_header r =
     map_option (\<lambda>v. (''Authorization'', v)) (request_header r ''authorization'')"

definition extra_header :: "string \<times> string \<Rightarrow> string \<Rightarrow> string res" where
  "extra_header = (\<lambda>(name, v) out.
     if carriage_return \<in> set name \<or> newline \<in> set name \<or> CHR '':'' \<in> set name \<or>
        carriage_return \<in> set v \<or> newline \<in> set v
     then Inl Parse
     else Inr (out @ trim name @ '': '' @ trim v @ crlf))"

definition format_extra_headers :: "(string \<times> string) list \<Rightarrow> string res" where
  "format_extra_headers headers = rfold extra_header headers []"

text \<open>The bytes that \<open>http_get_with_headers\<close> and \<open>http_post_with_headers\<close> send.\<close>

definition get_request :: "string \<Rightarrow> string \<Rightarrow> (string \<times> string) list \<Rightarrow> bytes res" where
  "get_request addr path headers =
     rbind (format_extra_headers headers) (\<lambda>extra_headers.
       Inr (as_bytes (''GET '' @ path @ '' HTTP/1.1'' @ crlf @ ''Host: '' @ addr @ crlf @ extra_headers @
         ''Connection: close'' @ crlf @ crlf)))"

definition post_request :: "string \<Rightarrow> string \<Rightarrow> bytes \<Rightarrow> (string \<times> string) list \<Rightarrow> bytes res" where
  "post_request addr path body headers =
     rbind (format_extra_headers headers) (\<lambda>extra_headers.
       Inr (as_bytes (''POST '' @ path @ '' HTTP/1.1'' @ crlf @ ''Host: '' @ addr @ crlf @
         ''Content-Type: application/json'' @ crlf @
         ''Content-Length: '' @ dec_string (length body) @ crlf @ extra_headers @
         ''Connection: close'' @ crlf @ crlf) @ body))"

definition find_subslice :: "bytes \<Rightarrow> bytes \<Rightarrow> nat option" where
  "find_subslice haystack needle =
     find (\<lambda>i. take (length needle) (drop i haystack) = needle) [0..<Suc (length haystack) - length needle]"

fun read_headers :: "bytes res list \<Rightarrow> bytes \<Rightarrow> (nat \<times> bytes \<times> bytes res list) res" where
  "read_headers [] buffer = Inl Parse"
| "read_headers (r # rs) buffer =
     rbind r (\<lambda>chunk.
     if chunk = [] then Inl Parse
     else
       let buffer = buffer @ chunk in
       (case find_subslice buffer (as_bytes (crlf @ crlf)) of
          Some pos \<Rightarrow> Inr (pos + 4, buffer, rs)
        | None \<Rightarrow> if 64 * 1024 < length buffer then Inl Parse else read_headers rs buffer))"

fun read_body :: "nat \<Rightarrow> bytes res list \<Rightarrow> bytes \<Rightarrow> bytes res" where
  "read_body target [] buffer = (if length buffer < target then Inl Parse else Inr buffer)"
| "read_body target (r # rs) buffer =
     (if length buffer < target
      then rbind r (\<lambda>chunk. if chunk = [] then Inl Parse else read_body target rs (buffer @ chunk))
      else Inr buffer)"

definition header_line :: "string \<Rightarrow> form \<times> nat \<Rightarrow> (form \<times> nat) res" where
  "header_line line = (\<lambda>(headers, content_length).
     case split_once (CHR '':'') line of
       None \<Rightarrow> Inr (headers, content_length)
     | Some (name, v) \<Rightarrow>
         let headers = hm_insert (to_ascii_lowercase (trim name)) (trim v) headers in
         if to_ascii_lowercase name = ''content-length''
         then rbind (ok_or Parse (parse_uint (2 ^ 64) (trim v))) (\<lambda>n. Inr (headers, n))
         else Inr (headers, content_length))"

definition parse_request_head :: "string \<Rightarrow> (string \<times> string \<times> form \<times> nat) res" where
  "parse_request_head text = (case str_lines text of
     [] \<Rightarrow> Inl Parse
   | request_line # lines \<Rightarrow>
       (case split_whitespace request_line of
          http_method # path # _ \<Rightarrow>
            rbind (rfold header_line lines (hm_new, 0)) (\<lambda>(headers, content_length).
              Inr (http_method, path, headers, content_length))
        | _ \<Rightarrow> Inl Parse))"

definition read_http_request :: "bytes res list \<Rightarrow> http_request res" where
  "read_http_request reads =
     rbind (read_headers reads []) (\<lambda>(header_end, buffer, rest).
     rbind (ok_or Parse (from_utf8 (take header_end buffer))) (\<lambda>text.
     rbind (parse_request_head text) (\<lambda>(http_method, path, headers, content_length).
     if MAX_HTTP_BODY_BYTES < content_length then Inl Parse
     else
       rbind (read_body (header_end + content_length) rest buffer) (\<lambda>buffer.
         Inr \<lparr>hq_method = http_method, hq_path = path, hq_headers = headers,
              hq_body = take content_length (drop header_end buffer)\<rparr>))))"

section \<open>Responses\<close>

record http_response =
  hr_status_code :: u16
  hr_body :: bytes

definition response_reason :: "u16 \<Rightarrow> string" where
  "response_reason code =
     (if code = 200 then ''OK'' else if code = 201 then ''Created'' else if code = 400 then ''Bad Request''
      else if code = 401 then ''Unauthorized'' else if code = 403 then ''Forbidden''
      else if code = 404 then ''Not Found'' else if code = 409 then ''Conflict''
      else if code = 405 then ''Method Not Allowed'' else if code = 502 then ''Bad Gateway''
      else if code = 503 then ''Service Unavailable'' else if code = 500 then ''Internal Server Error''
      else ''OK'')"

definition http_response_bytes :: "u16 \<Rightarrow> string \<Rightarrow> bytes \<Rightarrow> bytes" where
  "http_response_bytes code content_type body =
     as_bytes (''HTTP/1.1 '' @ dec_string (unat code) @ '' '' @ response_reason code @ crlf @
       ''Content-Type: '' @ content_type @ crlf @ ''Content-Length: '' @ dec_string (length body) @ crlf @
       ''Connection: close'' @ crlf @ crlf) @ body"

definition parse_http_response :: "bytes \<Rightarrow> http_response res" where
  "parse_http_response b =
     rbind (ok_or Parse (find_subslice b (as_bytes (crlf @ crlf)))) (\<lambda>pos.
     let header_end = pos + 4 in
     rbind (ok_or Parse (from_utf8 (take header_end b))) (\<lambda>header.
     case str_lines header of
       [] \<Rightarrow> Inl Parse
     | status_line # _ \<Rightarrow>
         rbind (ok_or Parse (vec_get (split_whitespace status_line) 1)) (\<lambda>word.
         rbind (ok_or Parse (parse_uint (2 ^ 16) word)) (\<lambda>n.
           Inr \<lparr>hr_status_code = word_of_nat n, hr_body = drop header_end b\<rparr>))))"

section \<open>Searching\<close>

lemma find_map_option: "find P (map f xs) = map_option f (find (P \<circ> f) xs)"
  by (induction xs) auto

lemma find_subslice_rec:
  assumes "n \<noteq> []"
  shows "find_subslice [] n = None"
    and "find_subslice (x # h) n = (if prefix n (x # h) then Some 0 else map_option Suc (find_subslice h n))"
proof -
  have l: "0 < length n" using assms by simp
  show "find_subslice [] n = None" using assms by (cases n) (simp_all add: find_subslice_def)
  have t: "take (length n) (x # h) = n \<longleftrightarrow> prefix n (x # h)" by (metis take_is_prefix prefix_def append_eq_conv_conj)
  show "find_subslice (x # h) n = (if prefix n (x # h) then Some 0 else map_option Suc (find_subslice h n))"
  proof (cases "length n \<le> Suc (length h)")
    case True
    with l have "[0..<Suc (length (x # h)) - length n] = 0 # map Suc [0..<Suc (length h) - length n]"
      by (simp add: map_Suc_upt upt_conv_Cons Suc_diff_le)
    with t show ?thesis by (simp add: find_subslice_def find_map_option comp_def)
  next
    case False
    then have "\<not> prefix n (x # h)" by (auto dest: prefix_length_le)
    with False show ?thesis by (simp add: find_subslice_def)
  qed
qed

lemma find_subslice_skip:
  assumes "n \<noteq> []" and "hd n \<notin> set l"
  shows "find_subslice (l @ r) n = map_option ((+) (length l)) (find_subslice r n)"
  using assms(2)
proof (induction l)
  case Nil
  then show ?case by (simp add: option.map_ident)
next
  case (Cons x l)
  then have "\<not> prefix n (x # l @ r)" using assms(1) by (cases n) auto
  with Cons assms(1) show ?case by (simp add: find_subslice_rec option.map_comp comp_def)
qed

lemma find_subslice_short: "length h < length n \<Longrightarrow> find_subslice h n = None"
proof -
  assume "length h < length n"
  then have "Suc (length h) - length n = 0" by simp
  then show ?thesis unfolding find_subslice_def by simp
qed

lemma find_subslice_take:
  assumes "n \<noteq> []" and "find_subslice h n = Some p"
  shows "find_subslice (take k h) n = (if p + length n \<le> k then Some p else None)"
  using assms(2)
proof (induction h arbitrary: k p)
  case Nil
  with assms(1) show ?case by (simp add: find_subslice_rec)
next
  case (Cons x h)
  have l: "0 < length n" using assms(1) by simp
  show ?case
  proof (cases k)
    case 0
    with l assms(1) show ?thesis by (simp add: find_subslice_rec)
  next
    case (Suc j)
    show ?thesis
    proof (cases "prefix n (x # h)")
      case True
      with Cons.prems assms(1) have p: "p = 0" by (simp add: find_subslice_rec)
      show ?thesis
      proof (cases "length n \<le> k")
        case T: True
        then have "prefix n (take k (x # h))" using True by (auto simp: prefix_def)
        with p T Suc assms(1) show ?thesis by (simp add: find_subslice_rec)
      next
        case False
        then have "find_subslice (take k (x # h)) n = None" by (intro find_subslice_short) simp
        with False p show ?thesis by simp
      qed
    next
      case False
      then have "\<not> prefix n (x # take j h)" using take_is_prefix [of j h] by (meson Cons_prefix_Cons prefix_order.trans)
      with False Cons.prems Cons.IH [of _ j] Suc assms(1) show ?thesis
        by (auto simp: find_subslice_rec split: if_splits)
    qed
  qed
qed

section \<open>The head of a request\<close>

text \<open>Lines that end with CR LF.\<close>

definition crlf_lines :: "string list \<Rightarrow> string" where
  "crlf_lines ls = concat (map (\<lambda>l. l @ crlf) ls)"

definition plain_line :: "string \<Rightarrow> bool" where
  "plain_line l \<longleftrightarrow> l \<noteq> [] \<and> (\<forall>c \<in> set l. graphic c \<or> c = CHR '' '')"

lemma crlf_lines_simps: "crlf_lines [] = []" "crlf_lines (l # ls) = l @ crlf @ crlf_lines ls"
  "crlf_lines (ls @ ks) = crlf_lines ls @ crlf_lines ks"
  by (simp_all add: crlf_lines_def)

lemma plain_line_no: "plain_line l \<Longrightarrow> carriage_return \<notin> set l \<and> newline \<notin> set l"
  by (auto simp: plain_line_def carriage_return_def newline_def graphic_def)

lemma plain_lines_no: "\<forall>l \<in> set ls. plain_line l \<Longrightarrow> \<forall>l \<in> set (ls @ [[]]). newline \<notin> set l"
  by (auto dest: plain_line_no)

lemma byte_of_char_inj: "byte_of_char c = byte_of_char d \<longleftrightarrow> c = d"
  by (metis char_byte)

lemma as_bytes_set: "byte_of_char c \<in> set (as_bytes s) \<longleftrightarrow> c \<in> set s"
  by (auto simp: as_bytes_def byte_of_char_inj)

lemma end_of_head:
  assumes "ls \<noteq> []" and "\<forall>l \<in> set ls. plain_line l"
  shows "find_subslice (as_bytes (crlf_lines ls @ crlf) @ b) (as_bytes (crlf @ crlf)) =
    Some (length (crlf_lines ls) - 2)"
  using assms
proof (induction ls)
  case Nil
  then show ?case by simp
next
  case (Cons l ls)
  let ?n = "as_bytes (crlf @ crlf)"
  have n: "?n \<noteq> []" "hd ?n = byte_of_char carriage_return" by (simp_all add: crlf_def as_bytes_def)
  have skip: "find_subslice (as_bytes l @ r) ?n = map_option ((+) (length l)) (find_subslice r ?n)" for r
    using find_subslice_skip [OF n(1), of "as_bytes l" r] n(2) plain_line_no [of l] Cons.prems(2)
    by (simp add: as_bytes_set)
  show ?case
  proof (cases ls)
    case Nil
    have "prefix ?n (as_bytes (crlf @ crlf) @ b)" by simp
    then have "find_subslice (as_bytes (crlf @ crlf) @ b) ?n = Some 0"
      using find_subslice_rec(2) [OF n(1)] by (simp add: crlf_def as_bytes_def)
    with Nil show ?thesis using skip [of "as_bytes (crlf @ crlf) @ b"]
      by (simp add: crlf_lines_simps as_bytes_append crlf_def)
  next
    case (Cons l' ls')
    then obtain c cs where l': "l' = c # cs" using Cons.prems(2) by (cases l') (auto simp: plain_line_def)
    have c: "byte_of_char c \<noteq> byte_of_char carriage_return"
      using plain_line_no [of l'] Cons Cons.prems(2) by (auto simp: byte_of_char_inj l')
    let ?r = "as_bytes (crlf_lines ls @ crlf) @ b"
    have r: "?r = byte_of_char c # tl ?r" by (simp add: Cons l' crlf_lines_simps as_bytes_def)
    have two: "(+) 2 = (\<lambda>x. Suc (Suc x))" by auto
    have "find_subslice (as_bytes crlf @ ?r) ?n = map_option ((+) 2) (find_subslice ?r ?n)"
    proof -
      have "\<not> prefix ?n (as_bytes crlf @ ?r)" using c by (subst r) (simp add: crlf_def as_bytes_def)
      moreover have "\<not> prefix ?n (byte_of_char newline # ?r)"
        by (simp add: crlf_def as_bytes_def byte_of_char_inj carriage_return_def newline_def)
      moreover have "as_bytes crlf @ ?r = byte_of_char carriage_return # byte_of_char newline # ?r"
        by (simp add: crlf_def as_bytes_def)
      ultimately show ?thesis using find_subslice_rec(2) [OF n(1)] by (simp add: option.map_comp comp_def two)
    qed
    moreover have "find_subslice ?r ?n = Some (length (crlf_lines ls) - 2)"
      using Cons.IH Cons.prems(2) Cons by simp
    moreover have "2 \<le> length (crlf_lines ls)" by (simp add: Cons crlf_lines_simps crlf_def)
    ultimately have "find_subslice (as_bytes l @ as_bytes crlf @ ?r) ?n = Some (length l + length (crlf_lines ls))"
      by (simp add: skip)
    moreover have "as_bytes (crlf_lines (l # ls) @ crlf) @ b = as_bytes l @ as_bytes crlf @ ?r"
      by (simp add: crlf_lines_simps as_bytes_append)
    moreover have "length (crlf_lines (l # ls)) - 2 = length l + length (crlf_lines ls)"
      by (simp add: crlf_lines_simps crlf_def)
    ultimately show ?thesis by (simp only:)
  qed
qed

lemma lines_of_crlf_lines:
  assumes "\<forall>l \<in> set ls. newline \<notin> set l"
  shows "str_lines (crlf_lines ls) = ls"
proof -
  have "split_on newline (crlf_lines ls) = map (\<lambda>l. l @ [carriage_return]) ls @ [[]]"
    using assms
  proof (induction ls)
    case Nil
    then show ?case by (simp add: crlf_lines_simps)
  next
    case (Cons l ls)
    have "newline \<notin> set (l @ [carriage_return])" using Cons.prems by (auto simp: newline_def carriage_return_def)
    from split_on_append [OF this, of "crlf_lines ls"] Cons show ?case by (simp add: crlf_lines_simps crlf_def)
  qed
  then show ?thesis by (simp add: str_lines_def strip_cr_def comp_def map_idI)
qed

lemma ws_hd: "w \<in> set ws_chars \<Longrightarrow> w \<noteq> [] \<and> \<not> graphic (hd w)"
proof -
  have "list_all (\<lambda>w. w \<noteq> [] \<and> \<not> graphic (hd w)) ws_chars" by (simp add: ws_chars_def graphic_def)
  then show "w \<in> set ws_chars \<Longrightarrow> w \<noteq> [] \<and> \<not> graphic (hd w)" by (simp add: list_all_iff)
qed

lemma no_ws_front: "graphic c \<Longrightarrow> find (\<lambda>w. w \<noteq> [] \<and> prefix w (c # s)) ws_chars = None"
  using ws_hd by (auto simp: find_None_iff neq_Nil_conv) (metis list.sel(1))

lemma space_front: "find (\<lambda>w. w \<noteq> [] \<and> prefix w (CHR '' '' # s)) ws_chars = Some '' ''"
  by (simp add: ws_chars_def char_of_eq_iff)

lemma split_ws_word: "\<forall>c \<in> set w. graphic c \<Longrightarrow> split_ws acc (w @ CHR '' '' # r) =
    (if acc @ w = [] then [] else [acc @ w]) @ split_ws [] r"
proof (induction w arbitrary: acc)
  case Nil
  then show ?case by (subst split_ws.simps) (simp add: space_front)
next
  case (Cons c w)
  then show ?case by (subst split_ws.simps) (simp add: no_ws_front)
qed

lemma split_ws_end: "\<forall>c \<in> set w. graphic c \<Longrightarrow> split_ws acc w = (if acc @ w = [] then [] else [acc @ w])"
proof (induction w arbitrary: acc)
  case Nil
  then show ?case by (subst split_ws.simps) simp
next
  case (Cons c w)
  then show ?case by (subst split_ws.simps) (simp add: no_ws_front)
qed

lemma request_words:
  assumes "\<forall>c \<in> set w. graphic c" and "w \<noteq> []" and "\<forall>c \<in> set path. graphic c" and "path \<noteq> []"
  shows "split_whitespace (w @ '' '' @ path @ '' HTTP/1.1'') = [w, path, ''HTTP/1.1'']"
  using assms split_ws_word [of w "[]" "path @ '' HTTP/1.1''"] split_ws_word [of path "[]" "''HTTP/1.1''"]
    split_ws_end [of "''HTTP/1.1''" "[]"] by (simp add: split_whitespace_def graphic_def)

lemma trim_space: "trim (CHR '' '' # s) = trim s"
  by (simp add: trim_def trim_start_def strip_front.simps [of ws_chars "CHR '' '' # s"] space_front)

lemma header_line_of:
  assumes "\<forall>c \<in> set k. graphic c" and "CHR '':'' \<notin> set k" and "\<forall>c \<in> set v. graphic c"
  shows "header_line (k @ '': '' @ v) (m, n) =
    (if to_ascii_lowercase k = ''content-length''
     then rbind (ok_or Parse (parse_uint (2 ^ 64) v)) (\<lambda>n. Inr (hm_insert (to_ascii_lowercase k) v m, n))
     else Inr (hm_insert (to_ascii_lowercase k) v m, n))"
  using assms split_once_append [of "CHR '':''" k "'' '' @ v"]
  by (simp add: header_line_def trim_space trim_graphic)

definition header_text :: "string \<times> string \<Rightarrow> string" where
  "header_text = (\<lambda>(k, v). k @ '': '' @ v)"

definition plain_header :: "string \<times> string \<Rightarrow> bool" where
  "plain_header = (\<lambda>(k, v). (\<forall>c \<in> set k \<union> set v. graphic c) \<and> CHR '':'' \<notin> set k)"

lemma header_lines_of:
  assumes "\<forall>h \<in> set hs. plain_header h \<and> to_ascii_lowercase (fst h) \<noteq> ''content-length''"
  shows "rfold header_line (map header_text hs) (m, n) =
    Inr (fold (\<lambda>h. hm_insert (to_ascii_lowercase (fst h)) (snd h)) hs m, n)"
  using assms
proof (induction hs arbitrary: m)
  case Nil
  then show ?case by simp
next
  case (Cons h hs)
  obtain k v where h: "h = (k, v)" by (cases h)
  with Cons.prems have "header_line (header_text h) (m, n) = Inr (hm_insert (to_ascii_lowercase k) v m, n)"
    using header_line_of [of k v m n] by (auto simp: header_text_def plain_header_def)
  with h Cons show ?case by simp
qed

lemma extra_headers_of:
  assumes "\<forall>h \<in> set hs. plain_header h"
  shows "rfold extra_header hs out = Inr (out @ crlf_lines (map header_text hs))"
  using assms
proof (induction hs arbitrary: out)
  case Nil
  then show ?case by (simp add: crlf_lines_simps)
next
  case (Cons h hs)
  obtain k v where h: "h = (k, v)" by (cases h)
  have g: "\<not> graphic carriage_return" "\<not> graphic newline"
    by (simp_all add: graphic_def carriage_return_def newline_def)
  have "extra_header h out = Inr (out @ header_text h @ crlf)"
    using Cons.prems g h by (auto simp: extra_header_def header_text_def plain_header_def trim_graphic)
  with Cons show ?case by (simp add: crlf_lines_simps)
qed

section \<open>Reading a request in chunks\<close>

lemma read_headers_chunks:
  assumes "find_subslice b (as_bytes (crlf @ crlf)) = Some p" and "p + 4 \<le> 64 * 1024" and "p + 4 \<le> length b"
    and "buffer @ concat chunks = b" and "[] \<notin> set chunks" and "length buffer < p + 4"
  shows "\<exists>buffer' chunks'. read_headers (map Inr chunks) buffer = Inr (p + 4, buffer', map Inr chunks') \<and>
    buffer' @ concat chunks' = b \<and> [] \<notin> set chunks' \<and> p + 4 \<le> length buffer'"
  using assms(4-6)
proof (induction chunks arbitrary: buffer)
  case Nil
  with assms(3) show ?case by simp
next
  case (Cons c cs)
  have n: "length (as_bytes (crlf @ crlf)) = 4" "as_bytes (crlf @ crlf) \<noteq> []" by (simp_all add: crlf_def as_bytes_def)
  obtain k where k: "buffer @ c = take k b" "k = length (buffer @ c)"
    using Cons.prems(1) by (metis append_eq_conv_conj append_assoc concat.simps(2))
  have f: "find_subslice (buffer @ c) (as_bytes (crlf @ crlf)) =
      (if p + 4 \<le> length (buffer @ c) then Some p else None)"
    unfolding k(1) find_subslice_take [OF n(2) assms(1)] n(1) k(2) [symmetric] using k assms(3) by simp
  show ?case
  proof (cases "p + 4 \<le> length (buffer @ c)")
    case True
    with f Cons.prems show ?thesis by (intro exI [of _ "buffer @ c"] exI [of _ cs]) auto
  next
    case False
    with f Cons.prems assms(2) Cons.IH [of "buffer @ c"] show ?thesis by auto
  qed
qed

lemma read_body_chunks:
  "buffer @ concat chunks = b \<Longrightarrow> [] \<notin> set chunks \<Longrightarrow> read_body (length b) (map Inr chunks) buffer = Inr b"
proof (induction chunks arbitrary: buffer)
  case (Cons c cs)
  then show ?case using Cons.IH [of "buffer @ c"] by auto
qed simp

lemma graphic_ascii: "graphic c \<Longrightarrow> of_char c < (128::nat)"
  by (simp add: graphic_def)

lemma head_of_lines:
  assumes "ls \<noteq> []" and "\<forall>l \<in> set ls. plain_line l" and "parse_request_head (crlf_lines (ls @ [[]])) = Inr (mt, path, hs, length body)"
    and "length body \<le> MAX_HTTP_BODY_BYTES" and "length (crlf_lines ls) + 2 \<le> 64 * 1024"
    and "concat chunks = as_bytes (crlf_lines ls @ crlf) @ body" and "[] \<notin> set chunks"
  shows "read_http_request (map Inr chunks) =
    Inr \<lparr>hq_method = mt, hq_path = path, hq_headers = hs, hq_body = body\<rparr>"
proof -
  let ?b = "as_bytes (crlf_lines ls @ crlf) @ body" and ?p = "length (crlf_lines ls) - 2"
  obtain l ls' where "ls = l # ls'" using assms(1) by (cases ls) auto
  then have two: "2 \<le> length (crlf_lines ls)" by (simp add: crlf_lines_simps crlf_def)
  have c2: "length crlf = 2" by (simp add: crlf_def)
  have f: "find_subslice ?b (as_bytes (crlf @ crlf)) = Some ?p" by (rule end_of_head [OF assms(1,2)])
  have p: "?p + 4 = length (crlf_lines ls @ crlf)" using two c2 by simp
  have p4: "?p + 4 \<le> 64 * 1024" unfolding p using assms(5) c2 by simp
  have pl: "?p + 4 \<le> length ?b" unfolding p by simp
  obtain buffer cs where r: "read_headers (map Inr chunks) [] = Inr (?p + 4, buffer, map Inr cs)"
    and b: "buffer @ concat cs = ?b" "[] \<notin> set cs" "?p + 4 \<le> length buffer"
    using read_headers_chunks [OF f p4 pl _ assms(7), of "[]"] assms(6) by (simp, blast)
  have "take (?p + 4) buffer = take (?p + 4) ?b" unfolding b(1) [symmetric] using b(3) by simp
  also have "\<dots> = as_bytes (crlf_lines ls @ crlf)" by (simp add: p)
  finally have h: "take (?p + 4) buffer = as_bytes (crlf_lines ls @ crlf)" .
  have "\<forall>c \<in> set (crlf_lines ls @ crlf). of_char c < (128::nat)"
  proof
    fix c
    assume "c \<in> set (crlf_lines ls @ crlf)"
    then have "(\<exists>l \<in> set ls. c \<in> set l) \<or> c \<in> set crlf" by (auto simp: crlf_lines_def split: if_splits)
    then have "graphic c \<or> c \<in> {CHR '' '', carriage_return, newline}"
      using assms(2) by (auto simp: plain_line_def crlf_def)
    then show "of_char c < (128::nat)" by (auto dest: graphic_ascii simp: carriage_return_def newline_def)
  qed
  then have t: "from_utf8 (take (?p + 4) buffer) = Some (crlf_lines ls @ crlf)"
    unfolding h by (intro from_utf8_as_bytes str_ok_ascii)
  have e: "crlf_lines (ls @ [[]]) = crlf_lines ls @ crlf" by (simp add: crlf_lines_simps)
  have body: "read_body (?p + 4 + length body) (map Inr cs) buffer = Inr ?b"
    using read_body_chunks [OF b(1,2)] p by simp
  have nb: "\<not> MAX_HTTP_BODY_BYTES < length body" using assms(4) by simp
  have "drop (?p + 4) ?b = body" by (simp add: p)
  then show ?thesis unfolding read_http_request_def r t rbind_Inr prod.case ok_or_simps using assms(3,4) body
    by (simp only: e rbind_Inr prod.case if_not_P [OF nb] take_all order.refl)
qed

text \<open>C24: A request that one service posts is what the other reads, however the network cuts it into
  chunks: method, path, body and every header that the sender adds arrive unchanged.  The names and
  the values are plain text here, and the headers that the sender writes itself are not repeated.\<close>

theorem http_post_roundtrip:
  assumes "post_request addr path body headers = Inr b" and "concat chunks = b" and "[] \<notin> set chunks"
    and "path \<noteq> []" and "\<forall>c \<in> set addr \<union> set path. graphic c" and "\<forall>h \<in> set headers. plain_header h"
    and "distinct (map (\<lambda>h. to_ascii_lowercase (fst h)) headers)"
    and "\<forall>h \<in> set headers. to_ascii_lowercase (fst h) \<notin> {''host'', ''content-type'', ''content-length'', ''connection''}"
    and "length body \<le> MAX_HTTP_BODY_BYTES" and "length b \<le> 64 * 1024 + length body"
  shows "\<exists>r. read_http_request (map Inr chunks) = Inr r \<and> hq_method r = ''POST'' \<and> hq_path r = path \<and>
    hq_body r = body \<and> (\<forall>h \<in> set headers. request_header r (fst h) = Some (snd h))"
proof -
  let ?first = "''POST '' @ path @ '' HTTP/1.1''"
  let ?len = "(''Content-Length'', dec_string (length body))"
  let ?pre = "[(''Host'', addr), (''Content-Type'', ''application/json'')]"
  let ?post = "headers @ [(''Connection'', ''close'')]"
  let ?own = "?pre @ ?len # ?post"
  let ?ls = "?first # map header_text ?own"
  have plain: "\<forall>h \<in> set ?own. plain_header h"
    using assms(5,6) by (auto simp: plain_header_def graphic_def dest!: dec_string_graphic)
  have b: "b = as_bytes (crlf_lines ?ls @ crlf) @ body"
    using assms(1) assms(6) by (simp add: post_request_def format_extra_headers_def extra_headers_of crlf_lines_simps header_text_def)
  have lines: "\<forall>l \<in> set ?ls. plain_line l"
    using plain assms(5) by (auto simp: plain_line_def header_text_def plain_header_def graphic_def)
  have low: "to_ascii_lowercase ''Host'' = ''host''" "to_ascii_lowercase ''Content-Type'' = ''content-type''"
    "to_ascii_lowercase ''Content-Length'' = ''content-length''" "to_ascii_lowercase ''Connection'' = ''connection''"
    by code_simp+
  let ?ins = "\<lambda>hs m. fold (\<lambda>h. hm_insert (to_ascii_lowercase (fst h)) (snd h)) hs m"
  have head: "\<forall>h \<in> set ?pre. plain_header h \<and> to_ascii_lowercase (fst h) \<noteq> ''content-length''"
    "\<forall>h \<in> set ?post. plain_header h \<and> to_ascii_lowercase (fst h) \<noteq> ''content-length''"
    using plain assms(8) by (auto simp: low)
  have own: "map header_text ?own @ [[]] = map header_text ?pre @ [header_text ?len] @ map header_text ?post @ [[]]" by simp
  have len: "header_line (header_text ?len) (m, n) = Inr (hm_insert ''content-length'' (dec_string (length body)) m, length body)"
    for m n
  proof -
    have "length body < 2 ^ 64" using assms(9) by (simp add: MAX_HTTP_BODY_BYTES_def)
    then have "parse_uint (2 ^ 64) (dec_string (length body)) = Some (length body)" by (rule parse_dec_string)
    then show ?thesis using header_line_of [of "''Content-Length''" "dec_string (length body)" m n] plain
      by (simp add: header_text_def plain_header_def low graphic_def)
  qed
  have no_line: "header_line [] (m, n) = Inr (m, n)" for m n by (simp add: header_line_def split_once_def)
  have "rfold header_line (map header_text ?own @ [[]]) (hm_new, 0) = Inr (?ins ?own hm_new, length body)"
    unfolding own rfold_append header_lines_of [OF head(1)] rbind_Inr rfold.simps len header_lines_of [OF head(2)] no_line
    by (simp add: low)
  moreover have "str_lines (crlf_lines (?ls @ [[]])) = ?ls @ [[]]"
    by (rule lines_of_crlf_lines) (rule plain_lines_no [OF lines])
  moreover have "split_whitespace ?first = [''POST'', path, ''HTTP/1.1'']"
    using request_words [of "''POST''" path] assms(4,5) by (simp add: graphic_def)
  ultimately have ph: "parse_request_head (crlf_lines (?ls @ [[]])) = Inr (''POST'', path, ?ins ?own hm_new, length body)"
    by (simp add: parse_request_head_def)
  have "length (crlf_lines ?ls) + 2 \<le> 64 * 1024" using assms(10) unfolding b by (simp add: crlf_def)
  from head_of_lines [OF _ lines ph assms(9) this _ assms(3)] assms(2) b
  have r: "read_http_request (map Inr chunks) =
      Inr \<lparr>hq_method = ''POST'', hq_path = path, hq_headers = ?ins ?own hm_new, hq_body = body\<rparr>" by simp
  have "hm_get (?ins ?own hm_new) (to_ascii_lowercase (fst h)) = Some (snd h)" if "h \<in> set headers" for h
    using that assms(7,8)
    by (intro hm.get_insert_all_distinct [where key = "\<lambda>h. to_ascii_lowercase (fst h)" and val = snd])
      (auto simp: low)
  with r show ?thesis by (simp add: request_header_def)
qed

theorem http_post_roundtrip_witness:
  "\<exists>b r. post_request ''h'' ''/v1/deny'' [1, 2] [(''X-Id'', ''a'')] = Inr b \<and>
     read_http_request (map Inr [take 7 b, drop 7 b]) = Inr r \<and> hq_body r = [1, 2]"
proof -
  let ?text = "''POST /v1/deny HTTP/1.1'' @ crlf @ ''Host: h'' @ crlf @ ''Content-Type: application/json'' @ crlf @
      ''Content-Length: 2'' @ crlf @ (''X-Id: a'' @ crlf) @ ''Connection: close'' @ crlf @ crlf"
  let ?b = "as_bytes ?text @ [1, 2]"
  have h: "\<forall>h \<in> set [(''X-Id'', ''a'')]. plain_header h" by (simp add: plain_header_def graphic_def)
  have b: "post_request ''h'' ''/v1/deny'' [1, 2] [(''X-Id'', ''a'')] = Inr ?b"
  proof -
    have "format_extra_headers [(''X-Id'', ''a'')] = Inr ([] @ crlf_lines (map header_text [(''X-Id'', ''a'')]))"
      unfolding format_extra_headers_def by (rule extra_headers_of [OF h])
    moreover have "crlf_lines (map header_text [(''X-Id'', ''a'')]) = ''X-Id: a'' @ crlf"
      by (simp add: crlf_lines_simps header_text_def)
    moreover have "dec_string (length [1, 2 :: u8]) = ''2''" by code_simp
    ultimately show ?thesis by (simp only: post_request_def rbind_Inr append_Nil) simp
  qed
  have l: "length ?b = 116" by (simp add: crlf_def)
  have c: "concat [take 7 ?b, drop 7 ?b] = ?b" by (simp only: concat.simps append_Nil2 append_take_drop_id)
  have "[] \<notin> set [take 7 x, drop 7 x]" if "length x = 116" for x :: bytes using that by auto
  from this [OF l] have n: "[] \<notin> set [take 7 ?b, drop 7 ?b]" .
  have s: "length ?b \<le> 64 * 1024 + length [1, 2 :: u8]" unfolding l by simp
  have low: "to_ascii_lowercase ''X-Id'' = ''x-id''" by code_simp
  have "\<exists>r. read_http_request (map Inr [take 7 ?b, drop 7 ?b]) = Inr r \<and> hq_method r = ''POST'' \<and> hq_path r = ''/v1/deny'' \<and>
      hq_body r = [1, 2] \<and> (\<forall>h \<in> set [(''X-Id'', ''a'')]. request_header r (fst h) = Some (snd h))"
    by (rule http_post_roundtrip [OF b c n _ _ h _ _ _ s]) (simp_all add: graphic_def low MAX_HTTP_BODY_BYTES_def)
  with b show ?thesis by blast
qed

end
