(* ===== verification/Effects.thy ===== *)
theory Effects
  imports Prelude
begin

text \<open>
  Methods that change a state and may fail.  In Rust a change made before an early return stays:
  the outcome of such a method is its result together with the state it leaves, whether the
  result is an error or not.  The combinators follow the code: \<open>abind\<close> is sequencing with \<open>?\<close>,
  \<open>attempt\<close> is a match on the result, \<open>afor\<close> a loop that an error leaves.

  The locale \<open>progress\<close> is the contract of everything that only moves a state forward along a
  preorder; the components instantiate it with their own orders.
\<close>

type_synonym ('s, 'a) act = "'s \<Rightarrow> 'a res \<times> 's"

definition ret :: "'a \<Rightarrow> ('s, 'a) act" where
  "ret x = (\<lambda>s. (Inr x, s))"

definition raise :: "gerror \<Rightarrow> ('s, 'a) act" where
  "raise e = (\<lambda>s. (Inl e, s))"

definition lift_res :: "'a res \<Rightarrow> ('s, 'a) act" where
  "lift_res r = (\<lambda>s. (r, s))"

definition abind :: "('s, 'a) act \<Rightarrow> ('a \<Rightarrow> ('s, 'b) act) \<Rightarrow> ('s, 'b) act" where
  "abind m f = (\<lambda>s. case m s of (Inl e, s') \<Rightarrow> (Inl e, s') | (Inr x, s') \<Rightarrow> f x s')"

definition gets :: "('s \<Rightarrow> 'a) \<Rightarrow> ('s, 'a) act" where
  "gets f = (\<lambda>s. (Inr (f s), s))"

definition modify :: "('s \<Rightarrow> 's) \<Rightarrow> ('s, unit) act" where
  "modify f = (\<lambda>s. (Inr (), f s))"

definition attempt :: "('s, 'a) act \<Rightarrow> ('s, 'a res) act" where
  "attempt m = (\<lambda>s. case m s of (r, s') \<Rightarrow> (Inr r, s'))"

fun afor :: "('a \<Rightarrow> ('s, unit) act) \<Rightarrow> 'a list \<Rightarrow> ('s, unit) act" where
  "afor f [] = ret ()"
| "afor f (x # xs) = abind (f x) (\<lambda>_. afor f xs)"

named_theorems act_simps \<open>unfolding of the combinators\<close>

lemma act_unfold [simp, act_simps]:
  "ret x s = (Inr x, s)" "raise e s = (Inl e, s)" "lift_res r s = (r, s)"
  "gets f s = (Inr (f s), s)" "modify g s = (Inr (), g s)"
  "attempt m s = (Inr (fst (m s)), snd (m s))"
  by (simp_all add: ret_def raise_def lift_res_def gets_def modify_def attempt_def split: prod.splits)

lemma abind_app [act_simps]:
  "abind m f s = (case m s of (Inl e, s') \<Rightarrow> (Inl e, s') | (Inr x, s') \<Rightarrow> f x s')"
  by (simp add: abind_def)

lemma abind_simps [simp]:
  "m s = (Inl e, s') \<Longrightarrow> abind m f s = (Inl e, s')"
  "m s = (Inr x, s') \<Longrightarrow> abind m f s = f x s'"
  by (simp_all add: abind_def)

lemma abind_steps [simp]:
  "abind (ret x) f = f x" "abind (raise e) f = raise e" "abind (lift_res (Inr x)) f = f x"
  "abind (lift_res (Inl e)) f = raise e" "abind (gets g) f s = f (g s) s" "abind (modify h) k s = k () (h s)"
  by (auto simp: abind_def fun_eq_iff)

lemma abind_Inr:
  "abind m f s = (Inr y, s') \<longleftrightarrow> (\<exists>x t. m s = (Inr x, t) \<and> f x t = (Inr y, s'))"
  by (auto simp: abind_def split: prod.splits sum.splits)

lemma abind_cases:
  assumes "abind m f s = (r, s')"
  obtains (failed) e where "m s = (Inl e, s')" and "r = Inl e"
  | (passed) x t where "m s = (Inr x, t)" and "f x t = (r, s')"
  using assms by (auto simp: abind_def split: prod.splits sum.splits)

lemma abind_assoc: "abind (abind m f) g = abind m (\<lambda>x. abind (f x) g)"
  by (auto simp: abind_def fun_eq_iff split: prod.splits sum.splits)

section \<open>Forward progress\<close>

text \<open>Whatever its result, the method leaves a state that is related to the one it found.\<close>

definition moves :: "('s \<Rightarrow> 's \<Rightarrow> bool) \<Rightarrow> ('s, 'a) act \<Rightarrow> bool" where
  "moves R m \<longleftrightarrow> (\<forall>s. R s (snd (m s)))"

lemma movesD: "moves R m \<Longrightarrow> m s = (r, s') \<Longrightarrow> R s s'"
  unfolding moves_def by (metis snd_conv)

locale progress =
  fixes R :: "'s \<Rightarrow> 's \<Rightarrow> bool"
  assumes refl: "R s s" and trans: "R s t \<Longrightarrow> R t u \<Longrightarrow> R s u"
begin

lemma pure: "moves R (ret x)" "moves R (raise e)" "moves R (lift_res r)" "moves R (gets f)"
  by (simp_all add: moves_def refl)

lemma modified: "(\<And>s. R s (f s)) \<Longrightarrow> moves R (modify f)"
  by (simp add: moves_def)

lemma bound: "moves R m \<Longrightarrow> (\<And>x. moves R (f x)) \<Longrightarrow> moves R (abind m f)"
  unfolding moves_def abind_def by (auto split: prod.splits sum.splits) (metis snd_conv trans)+

lemma attempted: "moves R m \<Longrightarrow> moves R (attempt m)"
  by (simp add: moves_def)

lemma looped: "(\<And>x. moves R (f x)) \<Longrightarrow> moves R (afor f xs)"
  by (induction xs) (auto intro: pure bound)

lemmas intros = pure modified bound attempted looped

end

end
