(* ===== verification/Node.thy ===== *)
theory Node
  imports Source Shard_Logs Object_Store Auth Effects
begin

text \<open>
  The state of a commit daemon, the struct \<open>App\<close> of \<open>globacl-commitd/src/app/bootstrap.rs\<close>: the
  source of truth, the consensus state, the acknowledgements and the statuses that are behind
  mutexes, the configuration, and, in place of the paths, the directory they point to.

  The directory is a record of its own, since a restart keeps it and nothing else.  Small files
  that are JSON objects are kept as their field map.  \<open>dk_writes\<close> says how the coming writes of the
  operating system end: all succeed, unless the list says otherwise for the next ones.  A refused
  write changes no visible file (files are written beside their target and renamed); only an
  append can be cut off, after some number of bytes.  Reads do not fail.
\<close>

datatype consensus_role = Follower | Candidate | Leader

definition role_as_str :: "consensus_role \<Rightarrow> string" where
  "role_as_str r = (case r of Follower \<Rightarrow> ''follower'' | Candidate \<Rightarrow> ''candidate'' | Leader \<Rightarrow> ''leader'')"

record consensus_state =
  cs_current_term :: u64
  cs_voted_for :: "string option"
  cs_role :: consensus_role
  cs_leader_id :: "string option"
  cs_last_leader_contact_ms :: u64
  cs_election_deadline_ms :: u64

record sync_status =
  ss_last_peer_sync_unix :: u64
  ss_sync_errors :: u64

record publisher_status =
  ps_last_published :: "u64 list"
  ps_last_publish_unix :: u64
  ps_publish_errors :: u64

record canary_status =
  ca_op_id :: string
  ca_key :: string
  ca_shard_id :: u16
  ca_seq :: u64
  ca_created_at_unix :: u64
  ca_expires_at :: u64

text \<open>The outcome of a write: complete, refused, or cut off after some bytes.\<close>

datatype write_outcome = Written | Refused | CutOff nat

record disk =
  dk_writes :: "write_outcome list"
  dk_consensus :: "form option"
  dk_pending :: "(u16 \<times> u64, bytes) hashmap"
  dk_logs :: log_dir
  dk_bundles :: bundle_dir
  dk_idempotency :: "bytes option"
  dk_files :: "(string, bytes) hashmap"
  dk_objects :: "(string, bytes) hashmap"
  dk_offsets :: "form option"
  dk_acks :: bytes
  dk_audit :: bytes

text \<open>A message for one peer: its address, the route and the body.\<close>

record peer_post =
  pp_addr :: string
  pp_route :: string
  pp_headers :: "(string \<times> string) list"
  pp_body :: bytes

record node =
  nd_config :: replication_config
  nd_compaction :: compaction_config
  nd_publisher :: "publisher_config option"
  nd_peer_token :: "string option"
  nd_signer :: signature_signer
  nd_object_store :: "object_store_config option"
  nd_auth :: auth_config
  nd_source :: source
  nd_consensus :: consensus_state
  nd_canary :: "canary_status option"
  nd_sync :: sync_status
  nd_published :: publisher_status
  nd_acks :: "(string, propagation_ack) hashmap"
  nd_disk :: disk
  nd_posts :: "peer_post list"

type_synonym 'a step = "(node, 'a) act"

section \<open>Access to the parts\<close>

definition on_disk :: "(disk \<Rightarrow> disk) \<Rightarrow> node \<Rightarrow> node" where
  "on_disk f s = s\<lparr>nd_disk := f (nd_disk s)\<rparr>"

definition on_consensus :: "(consensus_state \<Rightarrow> consensus_state) \<Rightarrow> node \<Rightarrow> node" where
  "on_consensus f s = s\<lparr>nd_consensus := f (nd_consensus s)\<rparr>"

definition on_source :: "(source \<Rightarrow> source) \<Rightarrow> node \<Rightarrow> node" where
  "on_source f s = s\<lparr>nd_source := f (nd_source s)\<rparr>"

lemma on_parts [simp]:
  "nd_disk (on_disk f s) = f (nd_disk s)" "nd_consensus (on_disk f s) = nd_consensus s"
  "nd_source (on_disk f s) = nd_source s" "nd_config (on_disk f s) = nd_config s"
  "nd_disk (on_consensus g s) = nd_disk s" "nd_consensus (on_consensus g s) = g (nd_consensus s)"
  "nd_source (on_consensus g s) = nd_source s" "nd_config (on_consensus g s) = nd_config s"
  "nd_disk (on_source h s) = nd_disk s" "nd_consensus (on_source h s) = nd_consensus s"
  "nd_source (on_source h s) = h (nd_source s)" "nd_config (on_source h s) = nd_config s"
  by (simp_all add: on_disk_def on_consensus_def on_source_def)

text \<open>A method of the source of truth, under its lock.\<close>

definition source_act :: "(source \<Rightarrow> (source \<times> 'a) res) \<Rightarrow> 'a step" where
  "source_act f = (\<lambda>s. case f (nd_source s) of
     Inl e \<Rightarrow> (Inl e, s)
   | Inr (src, x) \<Rightarrow> (Inr x, s\<lparr>nd_source := src\<rparr>))"

section \<open>Writes\<close>

text \<open>A file that is replaced as a whole.\<close>

definition replace_file :: "(disk \<Rightarrow> disk) \<Rightarrow> unit step" where
  "replace_file f = (\<lambda>s. case dk_writes (nd_disk s) of
     [] \<Rightarrow> (Inr (), on_disk f s)
   | w # ws \<Rightarrow>
       let s = on_disk (\<lambda>d. d\<lparr>dk_writes := ws\<rparr>) s in
       if w = Written then (Inr (), on_disk f s) else (Inl Io, s))"

text \<open>An append, of which \<open>f n\<close> writes at most the first \<open>n\<close> bytes.\<close>

definition append_file :: "(nat option \<Rightarrow> disk \<Rightarrow> disk) \<Rightarrow> unit step" where
  "append_file f = (\<lambda>s. case dk_writes (nd_disk s) of
     [] \<Rightarrow> (Inr (), on_disk (f None) s)
   | w # ws \<Rightarrow>
       let s = on_disk (\<lambda>d. d\<lparr>dk_writes := ws\<rparr>) s in
       (case w of
          Written \<Rightarrow> (Inr (), on_disk (f None) s)
        | Refused \<Rightarrow> (Inl Io, s)
        | CutOff n \<Rightarrow> (Inl Io, on_disk (f (Some n)) s)))"

lemma replace_file_frame:
  assumes "replace_file f s = (r, s')"
  shows "nd_source s' = nd_source s" "nd_consensus s' = nd_consensus s" "nd_config s' = nd_config s"
  using assms by (auto simp: replace_file_def Let_def split: list.splits if_splits)

lemma replace_file_cases:
  assumes "replace_file f s = (r, s')"
  obtains (written) ws where "r = Inr ()" and "s' = on_disk (\<lambda>d. f (d\<lparr>dk_writes := ws\<rparr>)) s"
  | (refused) ws where "r = Inl Io" and "s' = on_disk (\<lambda>d. d\<lparr>dk_writes := ws\<rparr>) s"
proof (cases "dk_writes (nd_disk s)")
  case Nil
  then have "d = nd_disk s \<Longrightarrow> d\<lparr>dk_writes := []\<rparr> = d" for d by simp
  then have "on_disk (\<lambda>d. f (d\<lparr>dk_writes := []\<rparr>)) s = on_disk f s" by (simp add: on_disk_def)
  with Nil assms show ?thesis by (intro written [of "[]"]) (auto simp: replace_file_def)
next
  case (Cons w ws)
  with assms written [of ws] refused [of ws] show ?thesis
    by (auto simp: replace_file_def on_disk_def Let_def split: if_splits)
qed

lemma replace_file_good:
  "dk_writes (nd_disk s) = [] \<Longrightarrow> replace_file f s = (Inr (), on_disk f s)"
  by (simp add: replace_file_def)

lemma append_file_good:
  "dk_writes (nd_disk s) = [] \<Longrightarrow> append_file f s = (Inr (), on_disk (f None) s)"
  by (simp add: append_file_def)

section \<open>Consensus state on disk\<close>

definition consensus_form :: "consensus_state \<Rightarrow> form" where
  "consensus_form c =
     [(''current_term'', dec_string (unat (cs_current_term c))),
      (''voted_for'', case cs_voted_for c of Some v \<Rightarrow> v | None \<Rightarrow> [])]"

definition persist_consensus_state :: "consensus_state \<Rightarrow> unit step" where
  "persist_consensus_state c = replace_file (\<lambda>d. d\<lparr>dk_consensus := Some (consensus_form c)\<rparr>)"

text \<open>\<open>now1\<close> and \<open>now2\<close> are the readings of the clock for the last contact and for the deadline.\<close>

definition load_consensus_state ::
  "u64 \<Rightarrow> u64 \<Rightarrow> replication_config \<Rightarrow> form option \<Rightarrow> consensus_state res" where
  "load_consensus_state now1 now2 c file =
     rbind (case file of
              None \<Rightarrow> Inr (0, None)
            | Some f \<Rightarrow> rbind (parse_json_u64 f ''current_term'' 0) (\<lambda>t.
                Inr (t, case hm_get f ''voted_for'' of
                          Some v \<Rightarrow> if v = [] then None else Some v
                        | None \<Rightarrow> None))) (\<lambda>(current_term, voted_for).
     let role = (if length (rc_peers c) = 1 then Leader else Follower) in
       Inr \<lparr>cs_current_term = max current_term 1, cs_voted_for = voted_for, cs_role = role,
            cs_leader_id = (if role = Leader then Some (rc_node_id c) else rc_initial_leader_id c),
            cs_last_leader_contact_ms = now1,
            cs_election_deadline_ms =
              next_election_deadline_ms now2 (rc_node_id c) (rc_election_timeout_ms c)\<rparr>)"

lemma load_persisted:
  assumes "0 < cs_current_term c"
  shows "load_consensus_state n1 n2 cfg (Some (consensus_form c)) =
    Inr \<lparr>cs_current_term = cs_current_term c,
         cs_voted_for = (case cs_voted_for c of Some v \<Rightarrow> if v = [] then None else Some v | None \<Rightarrow> None),
         cs_role = (if length (rc_peers cfg) = 1 then Leader else Follower),
         cs_leader_id = (if length (rc_peers cfg) = 1 then Some (rc_node_id cfg) else rc_initial_leader_id cfg),
         cs_last_leader_contact_ms = n1,
         cs_election_deadline_ms = next_election_deadline_ms n2 (rc_node_id cfg) (rc_election_timeout_ms cfg)\<rparr>"
proof -
  have "parse_uint (2 ^ 64) (dec_string (unat (cs_current_term c))) = Some (unat (cs_current_term c))"
    using unat_u64_bound [of "cs_current_term c"] by (intro parse_dec_string) simp
  moreover have "max (cs_current_term c) 1 = cs_current_term c"
    using inc_le [OF assms] by (simp add: max_absorb1)
  ultimately show ?thesis
    by (simp add: load_consensus_state_def consensus_form_def parse_json_u64_def parse_query_u64_def hm_get_def
        split: option.splits)
qed

section \<open>Sample nodes\<close>

definition sample_cfg :: "string \<Rightarrow> replication_config" where
  "sample_cfg n = \<lparr>rc_cluster_id = ''eu'', rc_node_id = n, rc_initial_leader_id = None,
     rc_peers = [\<lparr>cp_node_id = ''a'', cp_addr = ''h1''\<rparr>, \<lparr>cp_node_id = ''b'', cp_addr = ''h2''\<rparr>,
                 \<lparr>cp_node_id = ''c'', cp_addr = ''h3''\<rparr>],
     rc_quorum = 2, rc_heartbeat_interval_ms = 250, rc_election_timeout_ms = 1200,
     rc_sync_interval_ms = 1000\<rparr>"

definition empty_disk :: disk where
  "empty_disk = \<lparr>dk_writes = [], dk_consensus = None, dk_pending = hm_new, dk_logs = hm_new,
     dk_bundles = hm_new, dk_idempotency = None, dk_files = hm_new, dk_objects = hm_new,
     dk_offsets = None, dk_acks = [], dk_audit = []\<rparr>"

definition fresh_node :: "replication_config \<Rightarrow> node" where
  "fresh_node c = \<lparr>nd_config = c, nd_compaction = \<lparr>cc_min_log_entries = 10000, cc_compact_on_startup = True\<rparr>,
     nd_publisher = None, nd_peer_token = Some ''token'',
     nd_signer = \<lparr>ss_key_id = ''k'', ss_key_version = 1, ss_provider = Ed25519PrivateKey toy_hex\<rparr>,
     nd_object_store = None, nd_auth = auth_disabled, nd_source = source_new 1 (rc_cluster_id c),
     nd_consensus = \<lparr>cs_current_term = 1, cs_voted_for = None, cs_role = Follower, cs_leader_id = None,
       cs_last_leader_contact_ms = 0, cs_election_deadline_ms = next_election_deadline_ms 0 (rc_node_id c) (rc_election_timeout_ms c)\<rparr>,
     nd_canary = None, nd_sync = \<lparr>ss_last_peer_sync_unix = 0, ss_sync_errors = 0\<rparr>,
     nd_published = \<lparr>ps_last_published = [0], ps_last_publish_unix = 0, ps_publish_errors = 0\<rparr>,
     nd_acks = hm_new, nd_disk = empty_disk, nd_posts = []\<rparr>"

abbreviation sample_node :: "string \<Rightarrow> node" where
  "sample_node n \<equiv> fresh_node (sample_cfg n)"

lemma fresh_parts [simp]:
  "nd_config (fresh_node c) = c" "cs_current_term (nd_consensus (fresh_node c)) = 1"
  "cs_voted_for (nd_consensus (fresh_node c)) = None" "cs_role (nd_consensus (fresh_node c)) = Follower"
  "dk_writes (nd_disk (fresh_node c)) = []" "dk_consensus (nd_disk (fresh_node c)) = None"
  by (simp_all add: fresh_node_def empty_disk_def)

end
