(* ===== verification/Pending_Store.thy ===== *)
theory Pending_Store
  imports Node
begin

text \<open>
  The mutations a node has prepared but not committed (\<open>globacl-commitd/src/app/storage.rs\<close>): one
  file for each shard and sequence number, which is the key the model keeps them under
  (\<open>pending_mutation_path\<close> gives the name; the format is injective).  Files with another extension,
  such as the temporary ones, are never read.
\<close>

definition pending_mutation_path :: "mutation \<Rightarrow> string" where
  "pending_mutation_path m =
     ''shard_'' @ pad_dec 4 (unat (mu_shard m)) @ ''_seq_'' @ pad_dec 20 (unat (mu_seq m)) @ ''.gmut''"

definition pending_key :: "mutation \<Rightarrow> u16 \<times> u64" where
  "pending_key m = (mu_shard m, mu_seq m)"

definition put_pending :: "mutation \<Rightarrow> unit step" where
  "put_pending m = replace_file (\<lambda>d. d\<lparr>dk_pending := hm_insert (pending_key m) (encode_mutation m) (dk_pending d)\<rparr>)"

definition write_pending_mutation :: "mutation \<Rightarrow> unit step" where
  "write_pending_mutation m =
     abind (gets (\<lambda>s. hm_get (dk_pending (nd_disk s)) (pending_key m))) (\<lambda>file.
     case file of
       None \<Rightarrow> put_pending m
     | Some b \<Rightarrow>
         abind (lift_res (decode_mutation b)) (\<lambda>existing.
           if existing = m then ret ()
           else if ci_epoch (mu_commit_id existing) < ci_epoch (mu_commit_id m) then put_pending m
           else raise InvalidData))"

definition load_pending_mutations :: "disk \<Rightarrow> mutation list res" where
  "load_pending_mutations d =
     rbind (rmap decode_mutation (hm_values (dk_pending d))) (\<lambda>ms.
       Inr (sort_by (\<lambda>x y. ord_cmp (mu_shard x, mu_seq x, ci_epoch (mu_commit_id x))
                                    (mu_shard y, mu_seq y, ci_epoch (mu_commit_id y))) ms))"

definition ensure_pending_mutation :: "disk \<Rightarrow> mutation \<Rightarrow> unit res" where
  "ensure_pending_mutation d m = (case hm_get (dk_pending d) (pending_key m) of
     None \<Rightarrow> Inl InvalidData
   | Some b \<Rightarrow> rbind (decode_mutation b) (\<lambda>existing. if existing \<noteq> m then Inl InvalidData else Inr ()))"

text \<open>A file that is not there counts as removed.\<close>

definition remove_pending_mutation :: "mutation \<Rightarrow> unit step" where
  "remove_pending_mutation m =
     abind (gets (\<lambda>s. hm_get (dk_pending (nd_disk s)) (pending_key m))) (\<lambda>file.
     case file of
       None \<Rightarrow> ret ()
     | Some _ \<Rightarrow> replace_file (\<lambda>d. d\<lparr>dk_pending := hm_remove (pending_key m) (dk_pending d)\<rparr>))"

text \<open>The log position that a node reports in an election: the watermarks of the source of truth,
  raised to the prepared mutations of its own cluster.\<close>

definition raise_to_pending :: "string \<Rightarrow> mutation \<Rightarrow> u64 list \<times> u64 \<Rightarrow> u64 list \<times> u64" where
  "raise_to_pending cluster_id m = (\<lambda>(watermarks, log_len).
     if ci_source_region (mu_commit_id m) \<noteq> cluster_id then (watermarks, log_len)
     else case vec_get watermarks (unat (mu_shard m)) of
       None \<Rightarrow> (watermarks, log_len)
     | Some w \<Rightarrow>
         if w < mu_seq m then (watermarks[unat (mu_shard m) := mu_seq m], log_len + 1)
         else (watermarks, log_len))"

definition local_log_status :: "node \<Rightarrow> (u64 \<times> u64 \<times> u64 list) res" where
  "local_log_status s =
     rbind (load_pending_mutations (nd_disk s)) (\<lambda>ms.
     let (watermarks, log_len) = fold (raise_to_pending (rc_cluster_id (nd_config s))) ms
           (so_watermarks (nd_source s), word_of_nat (length (so_mutations (nd_source s))))
     in Inr (max_or_zero watermarks, log_len, watermarks))"

section \<open>What is pending\<close>

lemma put_pending_frame:
  assumes "put_pending m s = (r, s')"
  shows "nd_source s' = nd_source s" "nd_consensus s' = nd_consensus s" "nd_config s' = nd_config s"
    "dk_consensus (nd_disk s') = dk_consensus (nd_disk s)"
  using assms by (auto simp: put_pending_def elim!: replace_file_cases)

lemma write_pending_cases:
  assumes "write_pending_mutation m s = (r, s')"
  obtains (same) "s' = s" and "r = Inr () \<Longrightarrow>
      \<exists>b. hm_get (dk_pending (nd_disk s)) (pending_key m) = Some b \<and> decode_mutation b = Inr m"
  | (put) "put_pending m s = (r, s')"
  using assms
  by (auto simp: write_pending_mutation_def act_simps split: option.splits sum.splits if_splits)

lemma write_pending_frame:
  assumes "write_pending_mutation m s = (r, s')"
  shows "nd_source s' = nd_source s" "nd_consensus s' = nd_consensus s" "nd_config s' = nd_config s"
    "dk_consensus (nd_disk s') = dk_consensus (nd_disk s)"
  using assms by (auto elim!: write_pending_cases dest: put_pending_frame)

text \<open>A successful write leaves exactly this mutation prepared at its place.\<close>

lemma written_pending:
  assumes "write_pending_mutation m s = (Inr (), s')" and "wire_mutation m"
  shows "ensure_pending_mutation (nd_disk s') m = Inr ()"
  using assms(1)
proof (cases rule: write_pending_cases)
  case same
  then show ?thesis by (auto simp: ensure_pending_mutation_def)
next
  case put
  then have "hm_get (dk_pending (nd_disk s')) (pending_key m) = Some (encode_mutation m)"
    by (auto simp: put_pending_def elim!: replace_file_cases)
  with assms(2) show ?thesis by (simp add: ensure_pending_mutation_def decode_encode_mutation)
qed

lemma raise_to_pending_length:
  "length (fst (fold (raise_to_pending c) ms p)) = length (fst p)"
  by (induction ms arbitrary: p) (auto simp: raise_to_pending_def split: option.splits)

lemma raise_to_pending_mono:
  "i < length (fst p) \<Longrightarrow> fst p ! i \<le> fst (fold (raise_to_pending c) ms p) ! i"
proof (induction ms arbitrary: p)
  case Nil
  then show ?case by simp
next
  case (Cons m ms)
  have "length (fst (raise_to_pending c m p)) = length (fst p)"
    using raise_to_pending_length [of c "[m]" p] by simp
  moreover have "fst p ! i \<le> fst (raise_to_pending c m p) ! i"
    using Cons.prems
    by (cases p) (auto simp: raise_to_pending_def vec_get_def nth_list_update split: option.splits)
  ultimately show ?case using Cons.IH [of "raise_to_pending c m p"] Cons.prems by fastforce
qed

lemma raise_to_pending_covers:
  assumes "m \<in> set ms" and "ci_source_region (mu_commit_id m) = c" and "unat (mu_shard m) < length (fst p)"
  shows "mu_seq m \<le> fst (fold (raise_to_pending c) ms p) ! unat (mu_shard m)"
  using assms(1,3)
proof (induction ms arbitrary: p)
  case (Cons x ms)
  have len: "length (fst (raise_to_pending c x p)) = length (fst p)"
    using raise_to_pending_length [of c "[x]" p] by simp
  show ?case
  proof (cases "x = m")
    case True
    have "mu_seq m \<le> fst (raise_to_pending c m p) ! unat (mu_shard m)"
      using Cons.prems(2) assms(2) by (cases p) (auto simp: raise_to_pending_def vec_get_def)
    with True len Cons.prems(2) raise_to_pending_mono [of "unat (mu_shard m)" "raise_to_pending c x p" c ms]
    show ?thesis by fastforce
  next
    case False
    with Cons len show ?thesis by simp
  qed
qed simp

end
