(* ===== verification/Consensus.thy ===== *)
theory Consensus
  imports Pending_Store Http
begin

text \<open>
  Leadership of a commit daemon (\<open>globacl-commitd/src/app/consensus.rs\<close> and the functions of
  \<open>commit.rs\<close> and \<open>config.rs\<close> that touch the consensus state).  A handler is one atomic step of its
  node; an election is the step \<open>election_begin\<close>, one step \<open>count_vote\<close> for each answer of a peer,
  and the step \<open>election_finish\<close>, since the code holds no lock while it waits for its peers.
  \<open>now1\<close> and \<open>now2\<close> are readings of the clock; \<open>parse_body\<close> is \<open>parse_json_fields\<close>.
\<close>

type_synonym body_parser = "bytes \<Rightarrow> form res"

section \<open>Checks\<close>

definition ensure_peer_cluster :: "replication_config \<Rightarrow> form \<Rightarrow> unit res" where
  "ensure_peer_cluster c f =
     rbind (required_json_field f ''cluster_id'') (\<lambda>cluster_id.
       if cluster_id = rc_cluster_id c then Inr () else Inl InvalidData)"

definition ensure_remote_peer_id :: "replication_config \<Rightarrow> string \<Rightarrow> unit res" where
  "ensure_remote_peer_id c node_id =
     (if node_id = rc_node_id c then Inl InvalidData
      else if peer_addr c node_id \<noteq> None then Inr ()
      else Inl InvalidData)"

definition is_write_leader :: "node \<Rightarrow> bool" where
  "is_write_leader s = (if \<not> is_clustered (nd_config s) then True else cs_role (nd_consensus s) = Leader)"

definition current_leader_peer :: "node \<Rightarrow> (string \<times> string) option" where
  "current_leader_peer s = (case cs_leader_id (nd_consensus s) of
     None \<Rightarrow> None
   | Some node_id \<Rightarrow> map_option (\<lambda>addr. (node_id, addr)) (peer_addr (nd_config s) node_id))"

definition ensure_write_authority :: "node \<Rightarrow> u64 res" where
  "ensure_write_authority s =
     (if cs_role (nd_consensus s) = Leader then Inr (cs_current_term (nd_consensus s)) else Inl InvalidData)"

section \<open>Changes of the consensus state\<close>

definition persist_consensus :: "unit step" where
  "persist_consensus = (\<lambda>s. persist_consensus_state (nd_consensus s) s)"

text \<open>The deadline of the next election.\<close>

definition election_deadline :: "replication_config \<Rightarrow> u64 \<Rightarrow> u64" where
  "election_deadline c now = next_election_deadline_ms now (rc_node_id c) (rc_election_timeout_ms c)"

text \<open>A node that follows: the last contact is now, and the deadline moves.\<close>

definition follow :: "u64 \<Rightarrow> u64 \<Rightarrow> string option \<Rightarrow> node \<Rightarrow> node" where
  "follow now1 now2 leader_id s = on_consensus (\<lambda>k. k\<lparr>cs_role := Follower, cs_leader_id := leader_id,
     cs_last_leader_contact_ms := now1, cs_election_deadline_ms := election_deadline (nd_config s) now2\<rparr>) s"

text \<open>A newer term voids the vote.\<close>

definition adopt_term :: "u64 \<Rightarrow> node \<Rightarrow> node" where
  "adopt_term term s = on_consensus (\<lambda>k.
     if cs_current_term k < term then k\<lparr>cs_current_term := term, cs_voted_for := None\<rparr> else k) s"

definition step_down_to_term :: "u64 \<Rightarrow> u64 \<Rightarrow> u64 \<Rightarrow> string option \<Rightarrow> unit step" where
  "step_down_to_term now1 now2 term leader_id =
     abind (modify (\<lambda>s. follow now1 now2 leader_id (adopt_term term s))) (\<lambda>_. persist_consensus)"

definition ensure_mutation_term :: "u64 \<Rightarrow> u64 \<Rightarrow> mutation \<Rightarrow> unit step" where
  "ensure_mutation_term now1 now2 m =
     abind (gets (\<lambda>s. cs_current_term (nd_consensus s))) (\<lambda>current_term.
     let epoch = ci_epoch (mu_commit_id m) in
     if epoch < current_term then raise InvalidData
     else if current_term < epoch then
       abind (modify (\<lambda>s. follow now1 now2 None (adopt_term epoch s))) (\<lambda>_. persist_consensus)
     else ret ())"

definition ensure_replication_leader :: "u64 \<Rightarrow> u64 \<Rightarrow> mutation \<Rightarrow> string \<Rightarrow> unit step" where
  "ensure_replication_leader now1 now2 m leader_id =
     abind (gets nd_config) (\<lambda>c.
     let leader_id = trim leader_id in
     if leader_id = [] then raise InvalidData
     else if leader_id = rc_node_id c then raise InvalidData
     else if peer_addr c leader_id = None then raise InvalidData
     else
       abind (gets nd_consensus) (\<lambda>k.
       let mutation_term = ci_epoch (mu_commit_id m) in
       if mutation_term < cs_current_term k then raise InvalidData
       else if mutation_term = cs_current_term k \<and>
               (case cs_leader_id k of Some known \<Rightarrow> known \<noteq> leader_id | None \<Rightarrow> False)
       then raise InvalidData
       else
         abind (modify (\<lambda>s. follow now1 now2 (Some leader_id) (adopt_term mutation_term s))) (\<lambda>_.
           persist_consensus)))"

section \<open>Answering peers\<close>

text \<open>\<open>from_json\<close> is the JSON parser.\<close>

definition vote_watermarks :: "(string \<Rightarrow> json res) \<Rightarrow> form \<Rightarrow> u64 list option res" where
  "vote_watermarks from_json f = (case hm_get f ''watermarks'' of
     None \<Rightarrow> Inr None
   | Some raw \<Rightarrow>
       if raw = [] then Inr None
       else
         rbind (from_json raw) (\<lambda>v.
         rbind (ok_or Parse (json_as_array v)) (\<lambda>vs.
         rbind (rmap (\<lambda>v. ok_or Parse (json_as_u64 v)) vs) (\<lambda>ws. Inr (Some ws)))))"

definition vote_up_to_date :: "u64 list option \<Rightarrow> u64 \<Rightarrow> u64 \<Rightarrow> u64 \<times> u64 \<times> u64 list \<Rightarrow> bool" where
  "vote_up_to_date watermarks last_seq log_len = (\<lambda>(local_last_seq, local_log_len, local_watermarks).
     case watermarks of
       Some ws \<Rightarrow> length ws = length local_watermarks \<and>
         list_all (\<lambda>(candidate, loc). loc \<le> candidate) (zip ws local_watermarks)
     | None \<Rightarrow> local_last_seq < last_seq \<or> local_last_seq = last_seq \<and> local_log_len \<le> log_len)"

definition can_vote :: "u64 \<Rightarrow> string \<Rightarrow> bool \<Rightarrow> consensus_state \<Rightarrow> bool" where
  "can_vote candidate_term candidate_id up_to_date k =
     (candidate_term = cs_current_term k \<and> up_to_date \<and>
      (case cs_leader_id k of Some l \<Rightarrow> l = candidate_id | None \<Rightarrow> True) \<and>
      (case cs_voted_for k of Some v \<Rightarrow> v = candidate_id | None \<Rightarrow> True))"

definition bool_text :: "bool \<Rightarrow> string" where
  "bool_text b = (if b then ''true'' else ''false'')"

definition vote_reply :: "u64 \<Rightarrow> bool \<Rightarrow> form" where
  "vote_reply term granted = [(''term'', dec_string (unat term)), (''vote_granted'', bool_text granted)]"

definition heartbeat_reply :: "u64 \<Rightarrow> bool \<Rightarrow> form" where
  "heartbeat_reply term success = [(''term'', dec_string (unat term)), (''success'', bool_text success)]"

text \<open>The part of \<open>handle_request_vote\<close> under the lock of the consensus state.\<close>

definition decide_vote ::
  "(string \<Rightarrow> json res) \<Rightarrow> u64 \<Rightarrow> u64 \<Rightarrow> form \<Rightarrow> u64 \<Rightarrow> string \<Rightarrow> u64 \<Rightarrow> u64 \<Rightarrow> u64 \<times> u64 \<times> u64 list
   \<Rightarrow> form step" where
  "decide_vote from_json now1 now2 f candidate_term candidate_id last_seq log_len status =
     abind (modify (\<lambda>s. if cs_current_term (nd_consensus s) < candidate_term
       then on_consensus (\<lambda>k. k\<lparr>cs_role := Follower, cs_leader_id := None\<rparr>) (adopt_term candidate_term s)
       else s)) (\<lambda>_.
     abind (lift_res (vote_watermarks from_json f)) (\<lambda>watermarks.
     abind (gets nd_consensus) (\<lambda>k.
     let granted = can_vote candidate_term candidate_id
           (vote_up_to_date watermarks last_seq log_len status) k in
     abind (if granted then
              abind (modify (\<lambda>s. on_consensus (\<lambda>k. k\<lparr>cs_voted_for := Some candidate_id\<rparr>)
                (follow now1 now2 None s))) (\<lambda>_. persist_consensus)
            else if cs_current_term k \<le> candidate_term then persist_consensus
            else ret ()) (\<lambda>_.
       gets (\<lambda>s. vote_reply (cs_current_term (nd_consensus s)) granted)))))"

definition handle_request_vote :: "(string \<Rightarrow> json res) \<Rightarrow> u64 \<Rightarrow> u64 \<Rightarrow> form \<Rightarrow> form step" where
  "handle_request_vote from_json now1 now2 f =
     abind (gets nd_config) (\<lambda>c.
     abind (lift_res (ensure_peer_cluster c f)) (\<lambda>_.
     abind (lift_res (parse_json_u64 f ''term'' 0)) (\<lambda>candidate_term.
     abind (lift_res (required_json_field f ''candidate_id'')) (\<lambda>candidate_id.
     abind (lift_res (ensure_remote_peer_id c candidate_id)) (\<lambda>_.
     abind (lift_res (parse_json_u64 f ''last_seq'' 0)) (\<lambda>last_seq.
     abind (lift_res (parse_json_u64 f ''log_len'' 0)) (\<lambda>log_len.
     abind (gets local_log_status) (\<lambda>status.
     abind (lift_res status) (\<lambda>status.
       decide_vote from_json now1 now2 f candidate_term candidate_id last_seq log_len status)))))))))"

definition handle_heartbeat :: "u64 \<Rightarrow> u64 \<Rightarrow> form \<Rightarrow> form step" where
  "handle_heartbeat now1 now2 f =
     abind (gets nd_config) (\<lambda>c.
     abind (lift_res (ensure_peer_cluster c f)) (\<lambda>_.
     abind (lift_res (parse_json_u64 f ''term'' 0)) (\<lambda>leader_term.
     abind (lift_res (required_json_field f ''leader_id'')) (\<lambda>leader_id.
     abind (lift_res (ensure_remote_peer_id c leader_id)) (\<lambda>_.
     abind (gets nd_consensus) (\<lambda>k.
     let higher_term = cs_current_term k < leader_term;
         same_term = (leader_term = cs_current_term k);
         conflicting_leader = same_term \<and>
           (case cs_leader_id k of Some known \<Rightarrow> known \<noteq> leader_id | None \<Rightarrow> False);
         accepted = higher_term \<or> same_term \<and> \<not> conflicting_leader
     in abind (if accepted then
                 abind (modify (\<lambda>s. follow now1 now2 (Some leader_id) (adopt_term leader_term s))) (\<lambda>_.
                   persist_consensus)
               else ret ()) (\<lambda>_.
          gets (\<lambda>s. heartbeat_reply (cs_current_term (nd_consensus s)) accepted))))))))"

section \<open>Elections\<close>

definition candidate_state :: "u64 \<Rightarrow> node \<Rightarrow> node" where
  "candidate_state now s = on_consensus (\<lambda>k.
     \<lparr>cs_current_term = cs_current_term k + 1, cs_voted_for = Some (rc_node_id (nd_config s)),
      cs_role = Candidate, cs_leader_id = None, cs_last_leader_contact_ms = 0,
      cs_election_deadline_ms = election_deadline (nd_config s) now\<rparr>) s"

text \<open>\<open>checked_add\<close> fails at the largest term.\<close>

definition election_begin :: "u64 \<Rightarrow> (u64 \<times> u64 \<times> u64 \<times> u64 list) step" where
  "election_begin now =
     abind (gets local_log_status) (\<lambda>status.
     abind (lift_res status) (\<lambda>(last_seq, log_len, watermarks).
     abind (gets (\<lambda>s. cs_current_term (nd_consensus s))) (\<lambda>current_term.
     if current_term = - 1 then raise InvalidData
     else
       abind (modify (candidate_state now)) (\<lambda>_.
       abind persist_consensus (\<lambda>_.
       gets (\<lambda>s. (cs_current_term (nd_consensus s), last_seq, log_len, watermarks)))))))"

definition vote_request :: "replication_config \<Rightarrow> u64 \<times> u64 \<times> u64 \<times> u64 list \<Rightarrow> json" where
  "vote_request c = (\<lambda>(term, last_seq, log_len, watermarks). JObject
     [(''cluster_id'', JString (rc_cluster_id c)), (''term'', json_u64 term),
      (''candidate_id'', JString (rc_node_id c)), (''last_seq'', json_u64 last_seq),
      (''log_len'', json_u64 log_len), (''watermarks'', JArray (map json_u64 watermarks))])"

text \<open>The answer of one peer: \<open>None\<close> when the election ends because of a newer term.\<close>

definition count_vote ::
  "body_parser \<Rightarrow> u64 \<Rightarrow> u64 \<Rightarrow> u64 \<Rightarrow> http_response res \<Rightarrow> nat \<Rightarrow> nat option step" where
  "count_vote parse_body now1 now2 term answer votes = (case answer of
     Inl _ \<Rightarrow> ret (Some votes)
   | Inr response \<Rightarrow>
       if hr_status_code response \<noteq> 200 then ret (Some votes)
       else
         abind (lift_res (parse_body (hr_body response))) (\<lambda>f.
         abind (lift_res (parse_json_u64 f ''term'' term)) (\<lambda>peer_term.
         if term < peer_term then
           abind (step_down_to_term now1 now2 peer_term None) (\<lambda>_. ret None)
         else ret (Some (if json_bool f ''vote_granted'' then votes + 1 else votes)))))"

fun collect_votes ::
  "body_parser \<Rightarrow> u64 \<Rightarrow> u64 \<Rightarrow> u64 \<Rightarrow> http_response res list \<Rightarrow> nat \<Rightarrow> nat option step" where
  "collect_votes parse_body now1 now2 term [] votes = ret (Some votes)"
| "collect_votes parse_body now1 now2 term (a # as) votes =
     abind (count_vote parse_body now1 now2 term a votes) (\<lambda>v.
     case v of
       None \<Rightarrow> ret None
     | Some n \<Rightarrow> collect_votes parse_body now1 now2 term as n)"

text \<open>The candidate becomes the leader when it has a quorum and is still the candidate of its term.\<close>

definition election_finish :: "u64 \<Rightarrow> u64 \<Rightarrow> nat \<Rightarrow> bool step" where
  "election_finish now term votes =
     abind (gets (\<lambda>s. rc_quorum (nd_config s) \<le> votes \<and> cs_current_term (nd_consensus s) = term \<and>
       cs_role (nd_consensus s) = Candidate)) (\<lambda>won.
     if won then
       abind (modify (\<lambda>s. on_consensus (\<lambda>k. k\<lparr>cs_role := Leader,
         cs_leader_id := Some (rc_node_id (nd_config s)), cs_last_leader_contact_ms := now\<rparr>) s)) (\<lambda>_.
       abind persist_consensus (\<lambda>_. ret True))
     else ret False)"

text \<open>A whole election, with the answers of the peers in the order they are asked.\<close>

definition run_election ::
  "body_parser \<Rightarrow> u64 \<Rightarrow> u64 \<Rightarrow> u64 \<Rightarrow> http_response res list \<Rightarrow> bool step" where
  "run_election parse_body now1 now2 now3 answers =
     abind (election_begin now1) (\<lambda>(term, _).
     abind (collect_votes parse_body now2 now3 term answers 1) (\<lambda>v.
     case v of
       None \<Rightarrow> ret False
     | Some votes \<Rightarrow> election_finish now2 term votes))"

definition heartbeat_request :: "replication_config \<Rightarrow> u64 \<Rightarrow> json" where
  "heartbeat_request c term = JObject
     [(''cluster_id'', JString (rc_cluster_id c)), (''term'', json_u64 term),
      (''leader_id'', JString (rc_node_id c))]"

text \<open>The answers of the peers to a round of heartbeats: a newer term ends the round.\<close>

fun read_heartbeat_answers :: "body_parser \<Rightarrow> u64 \<Rightarrow> u64 \<Rightarrow> u64 \<Rightarrow> http_response res list \<Rightarrow> unit step" where
  "read_heartbeat_answers parse_body now1 now2 term [] = ret ()"
| "read_heartbeat_answers parse_body now1 now2 term (a # as) =
     (case (case a of
              Inl _ \<Rightarrow> None
            | Inr response \<Rightarrow>
                if hr_status_code response \<noteq> 200 then None
                else case rbind (parse_body (hr_body response)) (\<lambda>f. parse_json_u64 f ''term'' term) of
                  Inl _ \<Rightarrow> None
                | Inr peer_term \<Rightarrow> if term < peer_term then Some peer_term else None) of
        Some peer_term \<Rightarrow> abind (attempt (step_down_to_term now1 now2 peer_term None)) (\<lambda>_. ret ())
      | None \<Rightarrow> read_heartbeat_answers parse_body now1 now2 term as)"

definition send_heartbeats :: "body_parser \<Rightarrow> u64 \<Rightarrow> u64 \<Rightarrow> http_response res list \<Rightarrow> unit step" where
  "send_heartbeats parse_body now1 now2 answers =
     abind (gets nd_consensus) (\<lambda>k.
     if cs_role k = Leader
     then read_heartbeat_answers parse_body now1 now2 (cs_current_term k) answers
     else ret ())"

end
