(* ===== verification/Election_Safety.thy ===== *)
theory Election_Safety
  imports Consensus
begin

text \<open>
  At most one leader per term.  The machine \<open>cluster_step\<close> interleaves the steps of all nodes of a
  cluster: elections with their votes arriving one by one, handlers that are called with any
  request at all, any other work of a node, failing writes, and restarts from disk at any moment.
  About the network it says one thing: an answer that grants a vote was given by the peer it is
  attributed to, to this candidate, for this term; answers may be lost, late, or never given.

  The argument is the classical one: a vote is on disk before it is answered, terms only grow, and
  two quorums share a node (\<open>config.quorums_meet\<close>).
\<close>

section \<open>Votes only move forward\<close>

definition vote_of :: "consensus_state \<Rightarrow> u64 \<times> string option" where
  "vote_of k = (cs_current_term k, cs_voted_for k)"

text \<open>The order in which the vote of a node can change.\<close>

definition vote_le :: "u64 \<times> string option \<Rightarrow> u64 \<times> string option \<Rightarrow> bool" where
  "vote_le x y \<longleftrightarrow> fst x < fst y \<or> fst x = fst y \<and> (snd x = None \<or> snd y = snd x)"

lemma vote_le_refl [simp]: "vote_le x x"
  by (simp add: vote_le_def)

lemma vote_le_trans: "vote_le x y \<Longrightarrow> vote_le y z \<Longrightarrow> vote_le x z"
  unfolding vote_le_def by (elim disjE conjE) (auto intro: order_less_trans)

lemma vote_le_term: "vote_le x y \<Longrightarrow> fst x \<le> fst y"
  by (auto simp: vote_le_def)

abbreviation mem_vote :: "node \<Rightarrow> u64 \<times> string option" where
  "mem_vote s \<equiv> vote_of (nd_consensus s)"

abbreviation saved :: "node \<Rightarrow> form option" where
  "saved s \<equiv> dk_consensus (nd_disk s)"

definition named :: "node \<Rightarrow> bool" where
  "named s \<longleftrightarrow> rc_node_id (nd_config s) \<noteq> [] \<and> cs_voted_for (nd_consensus s) \<noteq> Some []"

text \<open>What every step of a node keeps: the vote moves forward, and what is saved is either as
  before or a vote between the old one and the new one.\<close>

definition vote_step :: "node \<Rightarrow> node \<Rightarrow> bool" where
  "vote_step s s' \<longleftrightarrow> nd_config s' = nd_config s \<and> vote_le (mem_vote s) (mem_vote s') \<and>
     (named s \<longrightarrow> named s') \<and>
     (saved s' = saved s \<or>
      (\<exists>k. saved s' = Some (consensus_form k) \<and> vote_le (mem_vote s) (vote_of k) \<and>
         vote_le (vote_of k) (mem_vote s') \<and> (named s \<longrightarrow> cs_voted_for k \<noteq> Some [])))"

lemma vote_step_refl [simp]: "vote_step s s"
  by (simp add: vote_step_def)

lemma vote_step_trans:
  assumes st: "vote_step s t" and tu: "vote_step t u"
  shows "vote_step s u"
proof -
  from st tu have le: "vote_le (mem_vote s) (mem_vote t)" "vote_le (mem_vote t) (mem_vote u)"
    by (simp_all add: vote_step_def)
  from st tu have frame: "nd_config u = nd_config s" "named s \<longrightarrow> named t" "named s \<longrightarrow> named u"
    by (auto simp: vote_step_def)
  have "saved u = saved s \<or> (\<exists>k. saved u = Some (consensus_form k) \<and> vote_le (mem_vote s) (vote_of k) \<and>
      vote_le (vote_of k) (mem_vote u) \<and> (named s \<longrightarrow> cs_voted_for k \<noteq> Some []))"
  proof (cases "saved u = saved t")
    case True
    with st vote_le_trans [OF _ le(2)] show ?thesis unfolding vote_step_def by fastforce
  next
    case False
    with tu frame(2) vote_le_trans [OF le(1)] show ?thesis unfolding vote_step_def by fastforce
  qed
  with vote_le_trans [OF le] frame show ?thesis by (simp add: vote_step_def)
qed

interpretation vote: progress vote_step
  by unfold_locales (auto intro: vote_step_trans)

text \<open>A node leads or stands for election only by its own steps.\<close>

definition role_step :: "node \<Rightarrow> node \<Rightarrow> bool" where
  "role_step s s' \<longleftrightarrow> cs_role (nd_consensus s') = Follower \<or>
     cs_role (nd_consensus s') = cs_role (nd_consensus s) \<and>
     cs_current_term (nd_consensus s') = cs_current_term (nd_consensus s)"

interpretation role: progress role_step
  by unfold_locales (auto simp: role_step_def)

lemma persisted:
  assumes "persist_consensus s = (r, s')"
  shows "nd_consensus s' = nd_consensus s" "nd_config s' = nd_config s"
    "saved s' = saved s \<or> saved s' = Some (consensus_form (nd_consensus s))"
    "r = Inr () \<Longrightarrow> saved s' = Some (consensus_form (nd_consensus s))"
  using assms by (auto simp: persist_consensus_def persist_consensus_state_def elim!: replace_file_cases)

lemma persist_moves [simp]: "moves vote_step persist_consensus" "moves role_step persist_consensus"
proof -
  show "moves vote_step persist_consensus"
    unfolding moves_def
  proof
    fix s
    obtain r s' where "persist_consensus s = (r, s')" by fastforce
    from persisted(1-3) [OF this] this show "vote_step s (snd (persist_consensus s))"
      by (auto simp: vote_step_def named_def)
  qed
  show "moves role_step persist_consensus"
    unfolding moves_def
  proof
    fix s
    obtain r s' where "persist_consensus s = (r, s')" by fastforce
    from persisted(1) [OF this] this show "role_step s (snd (persist_consensus s))"
      by (simp add: role_step_def)
  qed
qed

lemma follow_moves:
  "vote_step s (follow n1 n2 l s)" "vote_step s (adopt_term t s)"
  "vote_step s (follow n1 n2 l (adopt_term t s))" "role_step s (follow n1 n2 l (adopt_term t s))"
  by (auto simp: vote_step_def follow_def adopt_term_def vote_of_def vote_le_def named_def role_step_def)

lemmas moves_intros = vote.intros role.intros follow_moves

lemma step_down_moves: "moves vote_step (step_down_to_term n1 n2 t l)" "moves role_step (step_down_to_term n1 n2 t l)"
  by (auto simp: step_down_to_term_def intro!: moves_intros)

lemma mutation_term_moves: "moves vote_step (ensure_mutation_term n1 n2 m)" "moves role_step (ensure_mutation_term n1 n2 m)"
  by (auto simp: ensure_mutation_term_def Let_def intro!: moves_intros)

lemma replication_leader_moves:
  "moves vote_step (ensure_replication_leader n1 n2 m l)" "moves role_step (ensure_replication_leader n1 n2 m l)"
  by (auto simp: ensure_replication_leader_def Let_def intro!: moves_intros)

lemma heartbeat_moves: "moves vote_step (handle_heartbeat n1 n2 f)" "moves role_step (handle_heartbeat n1 n2 f)"
  by (auto simp: handle_heartbeat_def Let_def intro!: moves_intros)

lemma count_vote_moves: "moves vote_step (count_vote pb n1 n2 t a v)" "moves role_step (count_vote pb n1 n2 t a v)"
  by (auto simp: count_vote_def intro!: moves_intros step_down_moves split: sum.split)

section \<open>Granting votes\<close>

text \<open>What the part of the handler under the lock leaves: the vote moved forward, and if it was
  granted, it is for this candidate and on disk.\<close>

lemma decide_vote_moves:
  assumes "decide_vote fj n1 n2 f ct cid ls ll st s = (r, s')" and "cid \<noteq> []"
  shows "vote_step s s'" and "role_step s s'"
    and "r = Inr reply \<Longrightarrow> json_bool reply ''vote_granted'' \<Longrightarrow>
      mem_vote s' = (ct, Some cid) \<and> saved s' = Some (consensus_form (nd_consensus s'))"
proof -
  let ?t = "if cs_current_term (nd_consensus s) < ct
       then on_consensus (\<lambda>k. k\<lparr>cs_role := Follower, cs_leader_id := None\<rparr>) (adopt_term ct s) else s"
  let ?g = "\<lambda>w. can_vote ct cid (vote_up_to_date w ls ll st) (nd_consensus ?t)"
  let ?u = "on_consensus (\<lambda>k. k\<lparr>cs_voted_for := Some cid\<rparr>) (follow n1 n2 None ?t)"
  have t: "vote_step s ?t" "role_step s ?t"
    by (auto simp: vote_step_def role_step_def adopt_term_def vote_of_def vote_le_def named_def)
  have u: "vote_step ?t ?u" "role_step ?t ?u" if "?g w" for w
    using that assms(2)
    by (auto simp: vote_step_def role_step_def follow_def can_vote_def vote_of_def vote_le_def named_def
        split: option.splits)
  have u_vote: "mem_vote ?u = (ct, Some cid)" if "?g w" for w
    using that by (simp add: can_vote_def follow_def vote_of_def split: if_splits)
  have d: "decide_vote fj n1 n2 f ct cid ls ll st s =
      abind (lift_res (vote_watermarks fj f)) (\<lambda>w.
        abind (if ?g w then abind (modify (\<lambda>s. on_consensus (\<lambda>k. k\<lparr>cs_voted_for := Some cid\<rparr>)
                 (follow n1 n2 None s))) (\<lambda>_. persist_consensus)
               else if cs_current_term (nd_consensus ?t) \<le> ct then persist_consensus else ret ()) (\<lambda>_.
          gets (\<lambda>s. vote_reply (cs_current_term (nd_consensus s)) (?g w)))) ?t"
    by (simp add: decide_vote_def Let_def abind_def)
  have "vote_step s s' \<and> role_step s s' \<and> (\<forall>reply. r = Inr reply \<longrightarrow> json_bool reply ''vote_granted'' \<longrightarrow>
      mem_vote s' = (ct, Some cid) \<and> saved s' = Some (consensus_form (nd_consensus s')))"
  proof (cases "vote_watermarks fj f")
    case (Inl e)
    with assms(1) d t show ?thesis by auto
  next
    case (Inr w)
    have no: "\<not> json_bool (vote_reply x False) ''vote_granted''" for x
      by (simp add: json_bool_def vote_reply_def hm_get_def bool_text_def)
    show ?thesis
    proof (cases "?g w")
      case True
      obtain q s'' where p: "persist_consensus ?u = (q, s'')" by fastforce
      have "vote_step ?u s''" "role_step ?u s''" using movesD [OF persist_moves(1) p] movesD [OF persist_moves(2) p] by auto
      with t u [OF True] have moved: "vote_step s s''" "role_step s s''"
        by (meson vote_step_trans role.trans)+
      have "nd_consensus s'' = nd_consensus ?u" "q = Inr () \<Longrightarrow> saved s'' = Some (consensus_form (nd_consensus ?u))"
        using persisted [OF p] by auto
      moreover have "s' = s''" "r = Inr reply \<Longrightarrow> q = Inr ()" for reply
        using assms(1) d Inr True p by (auto simp: abind_def split: sum.splits)
      ultimately show ?thesis using moved u_vote [OF True] by (auto simp: vote_of_def)
    next
      case False
      show ?thesis
      proof (cases "cs_current_term (nd_consensus ?t) \<le> ct")
        case True
        obtain q s'' where p: "persist_consensus ?t = (q, s'')" by fastforce
        have "vote_step ?t s''" "role_step ?t s''" using movesD [OF persist_moves(1) p] movesD [OF persist_moves(2) p] by auto
        with t have "vote_step s s''" "role_step s s''" by (meson vote_step_trans role.trans)+
        moreover have "s' = s''" "r = Inr reply \<Longrightarrow> \<not> json_bool reply ''vote_granted''" for reply
          using assms(1) d Inr False True p no by (auto simp: abind_def split: sum.splits)
        ultimately show ?thesis by blast
      next
        case le: False
        then show ?thesis using assms(1) d Inr False no t by (auto simp: abind_def split: sum.splits)
      qed
    qed
  qed
  then show "vote_step s s'" "role_step s s'"
    "r = Inr reply \<Longrightarrow> json_bool reply ''vote_granted'' \<Longrightarrow>
      mem_vote s' = (ct, Some cid) \<and> saved s' = Some (consensus_form (nd_consensus s'))" by auto
qed

text \<open>The request of a vote, as the handler reads it.\<close>

definition request_term :: "form \<Rightarrow> u64" where
  "request_term f = (case parse_json_u64 f ''term'' 0 of Inr t \<Rightarrow> t | Inl _ \<Rightarrow> 0)"

definition request_candidate :: "form \<Rightarrow> string" where
  "request_candidate f = (case hm_get f ''candidate_id'' of Some c \<Rightarrow> c | None \<Rightarrow> [])"

lemma request_vote_moves:
  assumes "handle_request_vote fj n1 n2 f s = (r, s')"
  shows "vote_step s s'" and "role_step s s'"
    and "r = Inr reply \<Longrightarrow> json_bool reply ''vote_granted'' \<Longrightarrow>
      mem_vote s' = (request_term f, Some (request_candidate f)) \<and>
      saved s' = Some (consensus_form (nd_consensus s'))"
proof -
  have "(\<exists>e. r = Inl e \<and> s' = s) \<or>
    (\<exists>ls ll st. request_candidate f \<noteq> [] \<and>
      decide_vote fj n1 n2 f (request_term f) (request_candidate f) ls ll st s = (r, s'))"
    using assms
    by (auto simp: handle_request_vote_def abind_def request_term_def request_candidate_def
        required_json_field_def split: sum.splits option.splits if_splits)
  then have "vote_step s s' \<and> role_step s s' \<and>
    (\<forall>reply. r = Inr reply \<longrightarrow> json_bool reply ''vote_granted'' \<longrightarrow>
      mem_vote s' = (request_term f, Some (request_candidate f)) \<and>
      saved s' = Some (consensus_form (nd_consensus s')))"
  proof (elim disjE exE conjE)
    fix ls ll st
    assume c: "request_candidate f \<noteq> []"
      and d: "decide_vote fj n1 n2 f (request_term f) (request_candidate f) ls ll st s = (r, s')"
    from decide_vote_moves [OF d c] show ?thesis by blast
  qed (simp add: role.refl)
  then show "vote_step s s'" "role_step s s'"
    "r = Inr reply \<Longrightarrow> json_bool reply ''vote_granted'' \<Longrightarrow>
      mem_vote s' = (request_term f, Some (request_candidate f)) \<and>
      saved s' = Some (consensus_form (nd_consensus s'))" by auto
qed

section \<open>Standing for election\<close>

lemma election_begin_moves:
  assumes "election_begin now s = (r, s')"
  shows "vote_step s s'" and "cs_role (nd_consensus s') = Leader \<Longrightarrow> role_step s s'"
    and "r = Inr (t, x) \<Longrightarrow> mem_vote s' = (t, Some (rc_node_id (nd_config s))) \<and>
      saved s' = Some (consensus_form (nd_consensus s'))"
proof -
  have "(\<exists>e. r = Inl e \<and> s' = s) \<or>
    (cs_current_term (nd_consensus s) \<noteq> - 1 \<and>
     (\<exists>q. persist_consensus (candidate_state now s) = (q, s') \<and>
       (\<forall>y. r = Inr y \<longrightarrow> q = Inr () \<and> fst y = cs_current_term (nd_consensus s'))))"
    using assms
    by (auto simp: election_begin_def abind_def split: sum.splits if_splits prod.splits)
  then show "vote_step s s'" "cs_role (nd_consensus s') = Leader \<Longrightarrow> role_step s s'"
    "r = Inr (t, x) \<Longrightarrow> mem_vote s' = (t, Some (rc_node_id (nd_config s))) \<and>
      saved s' = Some (consensus_form (nd_consensus s'))"
  proof (atomize (full), elim disjE exE conjE, goal_cases)
    case (2 q)
    let ?c = "candidate_state now s"
    have "vote_step s ?c"
      using u64_succ_gt [OF 2(1)] by (auto simp: vote_step_def candidate_state_def vote_of_def vote_le_def named_def)
    moreover have "vote_step ?c s'" by (rule movesD [OF persist_moves(1) 2(2)])
    ultimately have "vote_step s s'" by (rule vote_step_trans)
    moreover have "nd_consensus s' = nd_consensus ?c" using persisted [OF 2(2)] by simp
    moreover have "r = Inr (t, x) \<Longrightarrow> q = Inr () \<and> t = cs_current_term (nd_consensus s')"
      using 2(3) by (cases x) auto
    ultimately show ?case using persisted(4) [OF 2(2)] by (auto simp: candidate_state_def vote_of_def)
  qed (simp add: role.refl)
qed

lemma election_finish_moves:
  assumes "election_finish now term votes s = (r, s')"
  shows "vote_step s s'"
    and "role_step s s' \<or> (rc_quorum (nd_config s) \<le> votes \<and> cs_current_term (nd_consensus s) = term \<and>
      cs_role (nd_consensus s') = Leader \<and> cs_current_term (nd_consensus s') = term)"
proof -
  let ?l = "on_consensus (\<lambda>k. k\<lparr>cs_role := Leader, cs_leader_id := Some (rc_node_id (nd_config s)),
      cs_last_leader_contact_ms := now\<rparr>) s"
  have "s' = s \<or> (\<exists>q. persist_consensus ?l = (q, s')) \<and> rc_quorum (nd_config s) \<le> votes \<and>
      cs_current_term (nd_consensus s) = term"
    using assms by (auto simp: election_finish_def abind_def split: sum.splits if_splits prod.splits)
  then have "vote_step s s' \<and> (role_step s s' \<or> (rc_quorum (nd_config s) \<le> votes \<and>
      cs_current_term (nd_consensus s) = term \<and> cs_role (nd_consensus s') = Leader \<and>
      cs_current_term (nd_consensus s') = term))"
  proof (elim disjE exE conjE)
    fix q assume p: "persist_consensus ?l = (q, s')" and w: "rc_quorum (nd_config s) \<le> votes"
      "cs_current_term (nd_consensus s) = term"
    have "vote_step s ?l" by (auto simp: vote_step_def vote_of_def named_def)
    moreover have "vote_step ?l s'" by (rule movesD [OF persist_moves(1) p])
    ultimately have "vote_step s s'" by (rule vote_step_trans)
    with w persisted(1) [OF p] show ?thesis by simp
  qed (simp add: role.refl)
  then show "vote_step s s'" "role_step s s' \<or> (rc_quorum (nd_config s) \<le> votes \<and>
      cs_current_term (nd_consensus s) = term \<and> cs_role (nd_consensus s') = Leader \<and>
      cs_current_term (nd_consensus s') = term)" by auto
qed

section \<open>The cluster\<close>

text \<open>An election that is under way: its term, the votes counted so far, and the peers that have
  not answered yet; \<open>el_voters\<close> records who the counted votes are from.\<close>

record election =
  el_term :: u64
  el_votes :: nat
  el_peers :: "string list"
  el_voters :: "string set"

text \<open>\<open>cl_granted\<close> records every vote that was ever granted: the voter, the candidate and the term.\<close>

record cluster =
  cl_nodes :: "string \<Rightarrow> node"
  cl_elections :: "string \<Rightarrow> election option"
  cl_granted :: "(string \<times> string \<times> u64) set"

definition put_node :: "string \<Rightarrow> node \<Rightarrow> cluster \<Rightarrow> cluster" where
  "put_node n s c = c\<lparr>cl_nodes := (cl_nodes c)(n := s)\<rparr>"

definition put_election :: "string \<Rightarrow> election option \<Rightarrow> cluster \<Rightarrow> cluster" where
  "put_election n e c = c\<lparr>cl_elections := (cl_elections c)(n := e)\<rparr>"

definition add_vote :: "string \<Rightarrow> string \<Rightarrow> u64 \<Rightarrow> cluster \<Rightarrow> cluster" where
  "add_vote voter candidate term c = c\<lparr>cl_granted := insert (voter, candidate, term) (cl_granted c)\<rparr>"

lemma put_simps:
  "cl_nodes (put_node n s c) = (cl_nodes c)(n := s)" "cl_elections (put_node n s c) = cl_elections c"
  "cl_granted (put_node n s c) = cl_granted c" "cl_nodes (put_election n e c) = cl_nodes c"
  "cl_elections (put_election n e c) = (cl_elections c)(n := e)" "cl_granted (put_election n e c) = cl_granted c"
  "cl_nodes (add_vote p d t c) = cl_nodes c" "cl_elections (add_vote p d t c) = cl_elections c"
  "cl_granted (add_vote p d t c) = insert (p, d, t) (cl_granted c)"
  by (simp_all add: put_node_def put_election_def add_vote_def)

definition granted_in :: "form res \<Rightarrow> bool" where
  "granted_in r = (case r of Inr reply \<Rightarrow> json_bool reply ''vote_granted'' | Inl _ \<Rightarrow> False)"

definition remote_ids :: "node \<Rightarrow> string list" where
  "remote_ids s = map cp_node_id (remote_peers (nd_config s))"

definition voters_after :: "nat \<Rightarrow> election \<Rightarrow> string \<Rightarrow> string set" where
  "voters_after v e p = (if v = el_votes e then el_voters e else insert p (el_voters e))"

text \<open>The steps.  \<open>cl_work\<close> is everything else a node does: it leaves its consensus state alone, in
  memory and on disk.\<close>

inductive cluster_step :: "string set \<Rightarrow> cluster \<Rightarrow> cluster \<Rightarrow> bool" for N where
  cl_vote: "n \<in> N \<Longrightarrow> handle_request_vote fj n1 n2 f (cl_nodes c n) = (r, s) \<Longrightarrow>
    c' = (if granted_in r then add_vote n (request_candidate f) (request_term f) (put_node n s c)
          else put_node n s c) \<Longrightarrow> cluster_step N c c'"
| cl_heartbeat: "n \<in> N \<Longrightarrow> handle_heartbeat n1 n2 f (cl_nodes c n) = (r, s) \<Longrightarrow>
    cluster_step N c (put_node n s c)"
| cl_step_down: "n \<in> N \<Longrightarrow> step_down_to_term n1 n2 t l (cl_nodes c n) = (u, s) \<Longrightarrow>
    cluster_step N c (put_node n s c)"
| cl_mutation_term: "n \<in> N \<Longrightarrow> ensure_mutation_term n1 n2 m (cl_nodes c n) = (u, s) \<Longrightarrow>
    cluster_step N c (put_node n s c)"
| cl_replication_leader: "n \<in> N \<Longrightarrow> ensure_replication_leader n1 n2 m l (cl_nodes c n) = (u, s) \<Longrightarrow>
    cluster_step N c (put_node n s c)"
| cl_begin: "n \<in> N \<Longrightarrow> cl_elections c n = None \<Longrightarrow> election_begin n1 (cl_nodes c n) = (Inr (t, x), s) \<Longrightarrow>
    c' = put_election n (Some \<lparr>el_term = t, el_votes = 1, el_peers = remote_ids s, el_voters = {n}\<rparr>)
           (add_vote n n t (put_node n s c)) \<Longrightarrow> cluster_step N c c'"
| cl_begin_fails: "n \<in> N \<Longrightarrow> cl_elections c n = None \<Longrightarrow> election_begin n1 (cl_nodes c n) = (Inl e, s) \<Longrightarrow>
    cluster_step N c (put_node n s c)"
| cl_answer: "n \<in> N \<Longrightarrow> cl_elections c n = Some e \<Longrightarrow> el_peers e = p # ps \<Longrightarrow>
    count_vote pb n1 n2 (el_term e) a (el_votes e) (cl_nodes c n) = (Inr (Some v), s) \<Longrightarrow>
    (v \<noteq> el_votes e \<longrightarrow> (p, n, el_term e) \<in> cl_granted c) \<Longrightarrow>
    c' = put_election n (Some \<lparr>el_term = el_term e, el_votes = v, el_peers = ps,
           el_voters = voters_after v e p\<rparr>) (put_node n s c) \<Longrightarrow> cluster_step N c c'"
| cl_answer_ends: "n \<in> N \<Longrightarrow> cl_elections c n = Some e \<Longrightarrow>
    count_vote pb n1 n2 (el_term e) a (el_votes e) (cl_nodes c n) = (q, s) \<Longrightarrow> \<nexists>v. q = Inr (Some v) \<Longrightarrow>
    cluster_step N c (put_election n None (put_node n s c))"
| cl_finish: "n \<in> N \<Longrightarrow> cl_elections c n = Some e \<Longrightarrow> el_peers e = [] \<Longrightarrow>
    election_finish n1 (el_term e) (el_votes e) (cl_nodes c n) = (b, s) \<Longrightarrow>
    cluster_step N c (put_election n None (put_node n s c))"
| cl_restart: "n \<in> N \<Longrightarrow> load_consensus_state n1 n2 (nd_config (cl_nodes c n)) (saved (cl_nodes c n)) = Inr k \<Longrightarrow>
    nd_config s = nd_config (cl_nodes c n) \<Longrightarrow> nd_consensus s = k \<Longrightarrow> saved s = saved (cl_nodes c n) \<Longrightarrow>
    cluster_step N c (put_election n None (put_node n s c))"
| cl_work: "n \<in> N \<Longrightarrow> nd_config s = nd_config (cl_nodes c n) \<Longrightarrow>
    nd_consensus s = nd_consensus (cl_nodes c n) \<Longrightarrow> saved s = saved (cl_nodes c n) \<Longrightarrow>
    cluster_step N c (put_node n s c)"

text \<open>A cluster starts with an accepted configuration on every node, over the same nodes, and nothing
  on disk.\<close>

definition cluster_start :: "string set \<Rightarrow> cluster \<Rightarrow> bool" where
  "cluster_start N c \<longleftrightarrow> cl_granted c = {} \<and> (\<forall>n. cl_elections c n = None) \<and>
     (\<forall>n \<in> N. let s = cl_nodes c n in config_ok (nd_config s) \<and> node_ids (nd_config s) = N \<and>
        rc_node_id (nd_config s) = n \<and> n \<noteq> [] \<and> saved s = None \<and>
        (\<exists>n1 n2. load_consensus_state n1 n2 (nd_config s) None = Inr (nd_consensus s)))"

abbreviation cluster_run :: "string set \<Rightarrow> cluster \<Rightarrow> cluster \<Rightarrow> bool" where
  "cluster_run N \<equiv> (cluster_step N)\<^sup>*\<^sup>*"

definition leads :: "cluster \<Rightarrow> string \<Rightarrow> u64 \<Rightarrow> bool" where
  "leads c n t \<longleftrightarrow> cs_role (nd_consensus (cl_nodes c n)) = Leader \<and>
     cs_current_term (nd_consensus (cl_nodes c n)) = t"

section \<open>The invariant\<close>

definition saved_ok :: "node \<Rightarrow> bool" where
  "saved_ok s \<longleftrightarrow> (\<forall>f. saved s = Some f \<longrightarrow> (\<exists>k. f = consensus_form k \<and> 0 < cs_current_term k \<and>
     cs_voted_for k \<noteq> Some [] \<and> vote_le (vote_of k) (mem_vote s)))"

definition node_ok :: "node \<Rightarrow> bool" where
  "node_ok s \<longleftrightarrow> named s \<and> 0 < cs_current_term (nd_consensus s) \<and> saved_ok s"

text \<open>A vote that a node can never take back.\<close>

definition vote_kept :: "node \<Rightarrow> u64 \<Rightarrow> string \<Rightarrow> bool" where
  "vote_kept s t d \<longleftrightarrow> vote_le (t, Some d) (mem_vote s) \<and>
     (\<exists>k. saved s = Some (consensus_form k) \<and> cs_voted_for k \<noteq> Some [] \<and> vote_le (t, Some d) (vote_of k))"

definition nodes_ok :: "string set \<Rightarrow> cluster \<Rightarrow> bool" where
  "nodes_ok N c \<longleftrightarrow> (\<forall>n \<in> N. let s = cl_nodes c n in config_ok (nd_config s) \<and> node_ids (nd_config s) = N \<and>
     rc_node_id (nd_config s) = n \<and> node_ok s)"

definition votes_ok :: "string set \<Rightarrow> cluster \<Rightarrow> bool" where
  "votes_ok N c \<longleftrightarrow> (\<forall>p d t. (p, d, t) \<in> cl_granted c \<longrightarrow> p \<in> N \<and> vote_kept (cl_nodes c p) t d) \<and>
     (\<forall>p d d' t. (p, d, t) \<in> cl_granted c \<longrightarrow> (p, d', t) \<in> cl_granted c \<longrightarrow> d = d')"

definition election_ok :: "string set \<Rightarrow> cluster \<Rightarrow> string \<Rightarrow> election \<Rightarrow> bool" where
  "election_ok N c n e \<longleftrightarrow> distinct (el_peers e) \<and> set (el_peers e) \<subseteq> N \<and> finite (el_voters e) \<and>
     el_voters e \<subseteq> N - set (el_peers e) \<and> card (el_voters e) = el_votes e \<and>
     (\<forall>p \<in> el_voters e. (p, n, el_term e) \<in> cl_granted c)"

definition elected :: "string set \<Rightarrow> cluster \<Rightarrow> string \<Rightarrow> u64 \<Rightarrow> bool" where
  "elected N c n t \<longleftrightarrow> N = {n} \<or> (\<exists>Q \<subseteq> N. rc_quorum (nd_config (cl_nodes c n)) \<le> card Q \<and>
     (\<forall>p \<in> Q. (p, n, t) \<in> cl_granted c))"

definition cluster_ok :: "string set \<Rightarrow> cluster \<Rightarrow> bool" where
  "cluster_ok N c \<longleftrightarrow> nodes_ok N c \<and> votes_ok N c \<and>
     (\<forall>n e. n \<in> N \<longrightarrow> cl_elections c n = Some e \<longrightarrow> election_ok N c n e) \<and>
     (\<forall>n t. n \<in> N \<longrightarrow> leads c n t \<longrightarrow> elected N c n t)"

lemma node_ok_step:
  assumes "node_ok s" and "vote_step s s'"
  shows "node_ok s'"
proof -
  from assms have n: "named s" "named s'" and le: "vote_le (mem_vote s) (mem_vote s')"
    and pos: "0 < cs_current_term (nd_consensus s)"
    by (auto simp: node_ok_def vote_step_def)
  from le have pos': "cs_current_term (nd_consensus s) \<le> cs_current_term (nd_consensus s')"
    by (auto simp: vote_le_def vote_of_def)
  have "saved_ok s'"
  proof (cases "saved s' = saved s")
    case True
    have "vote_le (vote_of k) (mem_vote s')" if "vote_le (vote_of k) (mem_vote s)" for k
      using that le by (rule vote_le_trans)
    with True assms(1) show ?thesis unfolding node_ok_def saved_ok_def by metis
  next
    case False
    with assms(2) n obtain k where k: "saved s' = Some (consensus_form k)" "vote_le (mem_vote s) (vote_of k)"
      "vote_le (vote_of k) (mem_vote s')" "cs_voted_for k \<noteq> Some []"
      by (auto simp: vote_step_def)
    moreover have "0 < cs_current_term k" using k(2) pos by (auto simp: vote_le_def vote_of_def)
    ultimately show ?thesis by (auto simp: saved_ok_def)
  qed
  with n pos pos' show ?thesis by (auto simp: node_ok_def)
qed

lemma vote_kept_step:
  assumes "vote_kept s t d" and "vote_step s s'" and "named s"
  shows "vote_kept s' t d"
proof -
  from assms(2) have le: "vote_le (mem_vote s) (mem_vote s')" by (simp add: vote_step_def)
  have "\<exists>k. saved s' = Some (consensus_form k) \<and> cs_voted_for k \<noteq> Some [] \<and> vote_le (t, Some d) (vote_of k)"
  proof (cases "saved s' = saved s")
    case True
    with assms(1) show ?thesis by (simp add: vote_kept_def)
  next
    case False
    with assms(2,3) obtain k where k: "saved s' = Some (consensus_form k)" "vote_le (mem_vote s) (vote_of k)"
      "cs_voted_for k \<noteq> Some []"
      by (auto simp: vote_step_def)
    from assms(1) have "vote_le (t, Some d) (mem_vote s)" by (simp add: vote_kept_def)
    with k vote_le_trans show ?thesis by blast
  qed
  with assms(1) vote_le_trans [OF _ le] show ?thesis by (auto simp: vote_kept_def)
qed

lemma form_inj:
  assumes "consensus_form k = consensus_form k'" and "cs_voted_for k \<noteq> Some []" and "cs_voted_for k' \<noteq> Some []"
  shows "vote_of k = vote_of k'"
  using assms by (auto simp: consensus_form_def dec_string_inj vote_of_def word_unat_eq_iff split: option.splits)

lemma elected_step:
  assumes "elected N c n t" and "cl_granted c \<subseteq> cl_granted c'"
    and "nd_config (cl_nodes c' n) = nd_config (cl_nodes c n)"
  shows "elected N c' n t"
  using assms unfolding elected_def by (simp; blast)

text \<open>A step of one node.\<close>

lemma put_node_ok:
  assumes ok: "cluster_ok N c" and n: "n \<in> N" and moved: "vote_step (cl_nodes c n) s"
    and lead: "cs_role (nd_consensus s) = Leader \<Longrightarrow> elected N c n (cs_current_term (nd_consensus s))"
  shows "cluster_ok N (put_node n s c)"
proof -
  let ?c = "put_node n s c"
  from ok n have nk: "node_ok (cl_nodes c n)" by (simp add: cluster_ok_def nodes_ok_def Let_def)
  have cfg: "nd_config s = nd_config (cl_nodes c n)" using moved by (simp add: vote_step_def)
  have "nodes_ok N ?c"
    using ok n node_ok_step [OF nk moved] cfg by (auto simp: cluster_ok_def nodes_ok_def put_node_def Let_def)
  moreover have "votes_ok N ?c"
    using ok vote_kept_step [OF _ moved] nk
    by (auto simp: cluster_ok_def votes_ok_def put_node_def node_ok_def)
  moreover have "election_ok N ?c m e" if "m \<in> N" "cl_elections ?c m = Some e" for m e
    using ok that by (auto simp: cluster_ok_def election_ok_def put_node_def)
  moreover have "elected N ?c m t" if "m \<in> N" "leads ?c m t" for m t
  proof (cases "m = n")
    case True
    with that lead elected_step [of N c n t ?c] cfg show ?thesis by (simp add: leads_def put_node_def)
  next
    case False
    with that ok have "elected N c m t" by (auto simp: cluster_ok_def leads_def put_node_def)
    with False elected_step [of N c m t ?c] show ?thesis by (simp add: put_node_def)
  qed
  ultimately show ?thesis by (simp add: cluster_ok_def)
qed

lemma role_step_elected:
  assumes "cluster_ok N c" and "n \<in> N" and "role_step (cl_nodes c n) s" and "cs_role (nd_consensus s) = Leader"
  shows "elected N c n (cs_current_term (nd_consensus s))"
  using assms by (auto simp: role_step_def cluster_ok_def leads_def)

lemma put_node_quiet:
  assumes "cluster_ok N c" and "n \<in> N" and "vote_step (cl_nodes c n) s" and "role_step (cl_nodes c n) s"
  shows "cluster_ok N (put_node n s c)"
  using put_node_ok [OF assms(1-3)] role_step_elected [OF assms(1,2,4)] by blast

lemma add_vote_ok:
  assumes ok: "cluster_ok N c" and n: "n \<in> N" and mem: "mem_vote (cl_nodes c n) = (t, Some d)"
    and sv: "saved (cl_nodes c n) = Some (consensus_form (nd_consensus (cl_nodes c n)))"
  shows "cluster_ok N (add_vote n d t c)"
proof -
  let ?c = "add_vote n d t c"
  have "named (cl_nodes c n)" using ok n by (simp add: cluster_ok_def nodes_ok_def node_ok_def Let_def)
  then have kept: "vote_kept (cl_nodes c n) t d" using mem sv by (auto simp: vote_kept_def named_def)
  have same: "d' = d" if "(n, d', t) \<in> cl_granted c" for d'
  proof -
    from ok that have "vote_kept (cl_nodes c n) t d'" by (simp add: cluster_ok_def votes_ok_def)
    with mem show ?thesis by (simp add: vote_kept_def vote_le_def)
  qed
  have "nodes_ok N ?c" using ok by (simp add: cluster_ok_def nodes_ok_def add_vote_def)
  moreover have "votes_ok N ?c"
    using ok kept same n unfolding cluster_ok_def votes_ok_def add_vote_def by (auto; blast)
  moreover have "election_ok N ?c m e" if "m \<in> N" "cl_elections ?c m = Some e" for m e
    using ok that by (auto simp: cluster_ok_def election_ok_def add_vote_def)
  moreover have "elected N ?c m u" if "m \<in> N" "leads ?c m u" for m u
    using ok that elected_step [of N c m u ?c] by (auto simp: cluster_ok_def leads_def add_vote_def)
  ultimately show ?thesis by (simp add: cluster_ok_def)
qed

lemma put_election_ok:
  assumes "cluster_ok N c" and "\<And>x. e = Some x \<Longrightarrow> election_ok N c n x"
  shows "cluster_ok N (put_election n e c)"
  using assms
  by (auto simp: cluster_ok_def put_election_def nodes_ok_def votes_ok_def election_ok_def leads_def elected_def)

lemma count_vote_value:
  "count_vote pb n1 n2 t a v s = (Inr (Some w), s') \<Longrightarrow> s' = s \<and> (w = v \<or> w = v + 1)"
  by (auto simp: count_vote_def abind_def split: sum.splits if_splits prod.splits)

lemma restarted_vote:
  assumes "load_consensus_state n1 n2 (nd_config s) (saved s) = Inr k" and "node_ok s"
  shows "0 < cs_current_term k" and "cs_voted_for k \<noteq> Some []"
    and "saved s = None \<or> (\<exists>k'. saved s = Some (consensus_form k') \<and> cs_voted_for k' \<noteq> Some [] \<and> vote_of k = vote_of k')"
    and "cs_role k = Leader \<Longrightarrow> length (rc_peers (nd_config s)) = 1"
proof -
  have "0 < cs_current_term k \<and> cs_voted_for k \<noteq> Some [] \<and>
    (saved s = None \<or> (\<exists>k'. saved s = Some (consensus_form k') \<and> cs_voted_for k' \<noteq> Some [] \<and> vote_of k = vote_of k')) \<and>
    (cs_role k = Leader \<longrightarrow> length (rc_peers (nd_config s)) = 1)"
  proof (cases "saved s")
    case None
    with assms(1) show ?thesis by (auto simp: load_consensus_state_def Let_def split: if_splits)
  next
    case (Some f)
    with assms(2) obtain k' where k': "f = consensus_form k'" "0 < cs_current_term k'" "cs_voted_for k' \<noteq> Some []"
      by (auto simp: node_ok_def saved_ok_def)
    have "(case cs_voted_for k' of Some v \<Rightarrow> if v = [] then None else Some v | None \<Rightarrow> None) = cs_voted_for k'"
      using k'(3) by (auto split: option.splits)
    with assms(1) Some k'(1) load_persisted [OF k'(2)] have "vote_of k = vote_of k'"
      "cs_role k = Leader \<longrightarrow> length (rc_peers (nd_config s)) = 1"
      by (auto simp: vote_of_def split: if_splits)
    with Some k' show ?thesis by (auto simp: vote_of_def)
  qed
  then show "0 < cs_current_term k" "cs_voted_for k \<noteq> Some []"
    "saved s = None \<or> (\<exists>k'. saved s = Some (consensus_form k') \<and> cs_voted_for k' \<noteq> Some [] \<and> vote_of k = vote_of k')"
    "cs_role k = Leader \<Longrightarrow> length (rc_peers (nd_config s)) = 1" by auto
qed

lemma restarted_node:
  assumes "load_consensus_state n1 n2 (nd_config s) (saved s) = Inr k" and ok: "node_ok s"
    and s': "nd_config s' = nd_config s" "nd_consensus s' = k" "saved s' = saved s"
  shows "node_ok s'" and "vote_kept s t d \<Longrightarrow> vote_kept s' t d"
proof -
  note r = restarted_vote [OF assms(1) ok]
  have "saved_ok s'"
  proof (cases "saved s")
    case None
    with s' show ?thesis by (simp add: saved_ok_def)
  next
    case (Some f)
    with r(3) obtain k' where k': "f = consensus_form k'" "vote_of k = vote_of k'" "cs_voted_for k' \<noteq> Some []" by auto
    then have "0 < cs_current_term k'" using r(1) by (simp add: vote_of_def)
    with Some k' s' show ?thesis by (auto simp: saved_ok_def)
  qed
  with ok r(1,2) s' show "node_ok s'" by (simp add: node_ok_def named_def)
  assume "vote_kept s t d"
  then obtain k'' where k'': "saved s = Some (consensus_form k'')" "cs_voted_for k'' \<noteq> Some []"
    "vote_le (t, Some d) (vote_of k'')" by (auto simp: vote_kept_def)
  with r(3) obtain k' where "consensus_form k'' = consensus_form k'" "cs_voted_for k' \<noteq> Some []" "vote_of k = vote_of k'"
    by auto
  with form_inj k'' have "vote_of k = vote_of k''" by metis
  with k'' s' show "vote_kept s' t d" by (auto simp: vote_kept_def)
qed

lemma restart_ok:
  assumes ok: "cluster_ok N c" and n: "n \<in> N"
    and load: "load_consensus_state n1 n2 (nd_config (cl_nodes c n)) (saved (cl_nodes c n)) = Inr k"
    and s: "nd_config s = nd_config (cl_nodes c n)" "nd_consensus s = k" "saved s = saved (cl_nodes c n)"
  shows "cluster_ok N (put_node n s c)"
proof -
  let ?c = "put_node n s c"
  from ok n have nk: "node_ok (cl_nodes c n)" and cfg: "config_ok (nd_config (cl_nodes c n))"
    "node_ids (nd_config (cl_nodes c n)) = N" "rc_node_id (nd_config (cl_nodes c n)) = n"
    by (simp_all add: cluster_ok_def nodes_ok_def Let_def)
  note r = restarted_node [OF load nk s]
  have "nodes_ok N ?c" using ok n r(1) s(1) by (auto simp: cluster_ok_def nodes_ok_def put_node_def Let_def)
  moreover have "votes_ok N ?c"
    using ok r(2) unfolding cluster_ok_def votes_ok_def put_node_def by auto
  moreover have "election_ok N ?c m e" if "m \<in> N" "cl_elections ?c m = Some e" for m e
    using ok that by (auto simp: cluster_ok_def election_ok_def put_node_def)
  moreover have "elected N ?c m t" if "m \<in> N" "leads ?c m t" for m t
  proof (cases "m = n")
    case True
    with that s(2) have "cs_role k = Leader" by (simp add: leads_def put_node_def)
    from restarted_vote(4) [OF load nk this] cfg(2,3) n have "N = {n}"
      by (auto simp: node_ids_def length_Suc_conv)
    with True show ?thesis by (simp add: elected_def)
  next
    case False
    with that ok have "elected N c m t" by (auto simp: cluster_ok_def leads_def put_node_def)
    with False elected_step [of N c m t ?c] show ?thesis by (simp add: put_node_def)
  qed
  ultimately show ?thesis by (simp add: cluster_ok_def)
qed

section \<open>Every step keeps the invariant\<close>

lemma remote_ids_ok:
  assumes "config_ok (nd_config s)"
  shows "distinct (remote_ids s)" and "set (remote_ids s) = node_ids (nd_config s) - {rc_node_id (nd_config s)}"
proof -
  have "distinct (map cp_node_id (rc_peers (nd_config s)))" using assms by (simp add: config_ok_def)
  then show "distinct (remote_ids s)" by (simp add: remote_ids_def remote_peers_def distinct_map_filter)
  show "set (remote_ids s) = node_ids (nd_config s) - {rc_node_id (nd_config s)}"
    by (auto simp: remote_ids_def remote_peers_def node_ids_def)
qed

lemma begin_ok:
  assumes ok: "cluster_ok N c" and n: "n \<in> N" and b: "election_begin n1 (cl_nodes c n) = (Inr (t, x), s)"
  shows "cluster_ok N (put_election n (Some \<lparr>el_term = t, el_votes = 1, el_peers = remote_ids s, el_voters = {n}\<rparr>)
           (add_vote n n t (put_node n s c)))"
proof -
  note m = election_begin_moves [OF b]
  from ok n have cfg: "config_ok (nd_config (cl_nodes c n))" "node_ids (nd_config (cl_nodes c n)) = N"
    "rc_node_id (nd_config (cl_nodes c n)) = n" by (simp_all add: cluster_ok_def nodes_ok_def Let_def)
  have put: "cluster_ok N (put_node n s c)"
    using put_node_ok [OF ok n m(1)] role_step_elected [OF ok n m(2)] by blast
  have "mem_vote s = (t, Some n)" "saved s = Some (consensus_form (nd_consensus s))"
    using m(3) [OF refl] cfg(3) by auto
  then have v: "cluster_ok N (add_vote n n t (put_node n s c))"
    using add_vote_ok [OF put n] by (simp add: put_node_def)
  have s: "nd_config s = nd_config (cl_nodes c n)" using m(1) by (simp add: vote_step_def)
  let ?e = "\<lparr>el_term = t, el_votes = 1, el_peers = remote_ids s, el_voters = {n}\<rparr>"
  have "election_ok N (add_vote n n t (put_node n s c)) n ?e"
    using remote_ids_ok [of s] cfg n unfolding s election_ok_def by (simp add: add_vote_def)
  with v show ?thesis by (intro put_election_ok) auto
qed

lemma answer_ok:
  assumes ok: "cluster_ok N c" and n: "n \<in> N" and e: "cl_elections c n = Some e" "el_peers e = p # ps"
    and a: "count_vote pb n1 n2 (el_term e) a (el_votes e) (cl_nodes c n) = (Inr (Some v), s)"
    and g: "v \<noteq> el_votes e \<longrightarrow> (p, n, el_term e) \<in> cl_granted c"
  shows "cluster_ok N (put_election n (Some \<lparr>el_term = el_term e, el_votes = v, el_peers = ps,
           el_voters = voters_after v e p\<rparr>) (put_node n s c))"
proof -
  have s: "s = cl_nodes c n" and v: "v = el_votes e \<or> v = el_votes e + 1" using count_vote_value [OF a] by auto
  from s have "put_node n s c = c" by (simp add: put_node_def)
  moreover from ok n e(1) have eo: "election_ok N c n e" by (simp add: cluster_ok_def)
  have "election_ok N c n \<lparr>el_term = el_term e, el_votes = v, el_peers = ps, el_voters = voters_after v e p\<rparr>"
  proof (cases "v = el_votes e")
    case True
    with eo e(2) show ?thesis by (auto simp: election_ok_def voters_after_def)
  next
    case False
    with v have v': "v = el_votes e + 1" by simp
    have "p \<notin> el_voters e" "finite (el_voters e)" using eo e(2) by (auto simp: election_ok_def)
    then have "card (insert p (el_voters e)) = Suc (card (el_voters e))" by simp
    with eo e(2) g False v' show ?thesis unfolding election_ok_def voters_after_def
      by auto
  qed
  ultimately show ?thesis using ok by (auto intro!: put_election_ok)
qed

lemma finish_ok:
  assumes ok: "cluster_ok N c" and n: "n \<in> N" and e: "cl_elections c n = Some e" "el_peers e = []"
    and f: "election_finish n1 (el_term e) (el_votes e) (cl_nodes c n) = (b, s)"
  shows "cluster_ok N (put_election n None (put_node n s c))"
proof -
  note m = election_finish_moves [OF f]
  have "elected N c n (cs_current_term (nd_consensus s))" if l: "cs_role (nd_consensus s) = Leader"
    using m(2)
  proof
    assume "role_step (cl_nodes c n) s"
    from role_step_elected [OF ok n this l] show ?thesis .
  next
    assume w: "rc_quorum (nd_config (cl_nodes c n)) \<le> el_votes e \<and>
      cs_current_term (nd_consensus (cl_nodes c n)) = el_term e \<and>
      cs_role (nd_consensus s) = Leader \<and> cs_current_term (nd_consensus s) = el_term e"
    from ok n e(1) have "election_ok N c n e" by (simp add: cluster_ok_def)
    with w show ?thesis unfolding elected_def election_ok_def by (intro disjI2 exI [of _ "el_voters e"]) auto
  qed
  then show ?thesis by (intro put_election_ok put_node_ok [OF ok n m(1)]) auto
qed

lemma cluster_step_ok:
  assumes "cluster_step N c c'" and ok: "cluster_ok N c"
  shows "cluster_ok N c'"
  using assms(1)
proof cases
  case (cl_vote n fj n1 n2 f r s)
  note m = request_vote_moves [OF cl_vote(2)]
  have put: "cluster_ok N (put_node n s c)" by (rule put_node_quiet [OF ok cl_vote(1) m(1,2)])
  show ?thesis
  proof (cases "granted_in r")
    case True
    then have "mem_vote s = (request_term f, Some (request_candidate f))"
      "saved s = Some (consensus_form (nd_consensus s))"
      using m(3) by (auto simp: granted_in_def split: sum.splits)
    with add_vote_ok [OF put cl_vote(1)] True cl_vote(3) show ?thesis by (simp add: put_node_def)
  next
    case False
    with put cl_vote(3) show ?thesis by simp
  qed
next
  case (cl_heartbeat n n1 n2 f r s)
  with put_node_quiet [OF ok] movesD [OF heartbeat_moves(1)] movesD [OF heartbeat_moves(2)] show ?thesis by blast
next
  case (cl_step_down n n1 n2 t l u s)
  with put_node_quiet [OF ok] movesD [OF step_down_moves(1)] movesD [OF step_down_moves(2)] show ?thesis by blast
next
  case (cl_mutation_term n n1 n2 m u s)
  with put_node_quiet [OF ok] movesD [OF mutation_term_moves(1)] movesD [OF mutation_term_moves(2)]
  show ?thesis by blast
next
  case (cl_replication_leader n n1 n2 m l u s)
  with put_node_quiet [OF ok] movesD [OF replication_leader_moves(1)] movesD [OF replication_leader_moves(2)]
  show ?thesis by blast
next
  case (cl_begin n n1 t x s)
  with begin_ok [OF ok] show ?thesis by simp
next
  case (cl_begin_fails n n1 e s)
  note m = election_begin_moves [OF cl_begin_fails(4)]
  show ?thesis unfolding cl_begin_fails(1)
    using put_node_ok [OF ok cl_begin_fails(2) m(1)] role_step_elected [OF ok cl_begin_fails(2) m(2)] by blast
next
  case (cl_answer n e p ps pb n1 n2 a v s)
  with answer_ok [OF ok] show ?thesis by simp
next
  case (cl_answer_ends n e pb n1 n2 a q s)
  with put_node_quiet [OF ok] movesD [OF count_vote_moves(1)] movesD [OF count_vote_moves(2)] show ?thesis
    by (auto intro!: put_election_ok)
next
  case (cl_finish n e n1 b s)
  with finish_ok [OF ok] show ?thesis by simp
next
  case (cl_restart n n1 n2 k s)
  with restart_ok [OF ok] show ?thesis by (auto intro!: put_election_ok)
next
  case (cl_work n s)
  have "vote_step (cl_nodes c n) s" "role_step (cl_nodes c n) s"
    using cl_work by (auto simp: vote_step_def role_step_def named_def)
  with put_node_quiet [OF ok cl_work(2)] cl_work(1) show ?thesis by simp
qed

lemma fresh_consensus:
  "load_consensus_state n1 n2 cfg None = Inr k \<Longrightarrow> cs_current_term k = 1 \<and> cs_voted_for k = None \<and>
     (cs_role k = Leader \<longrightarrow> length (rc_peers cfg) = 1)"
  by (auto simp: load_consensus_state_def Let_def split: if_splits)

lemma cluster_start_ok:
  assumes "cluster_start N c"
  shows "cluster_ok N c"
proof -
  have node: "config_ok (nd_config (cl_nodes c n))" "node_ids (nd_config (cl_nodes c n)) = N"
    "rc_node_id (nd_config (cl_nodes c n)) = n" "n \<noteq> []" "saved (cl_nodes c n) = None"
    "\<exists>n1 n2. load_consensus_state n1 n2 (nd_config (cl_nodes c n)) None = Inr (nd_consensus (cl_nodes c n))"
    if "n \<in> N" for n
    using assms that by (auto simp: cluster_start_def Let_def)
  have loaded: "cs_current_term (nd_consensus (cl_nodes c n)) = 1" "cs_voted_for (nd_consensus (cl_nodes c n)) = None"
    "cs_role (nd_consensus (cl_nodes c n)) = Leader \<longrightarrow> length (rc_peers (nd_config (cl_nodes c n))) = 1"
    if "n \<in> N" for n
    using node(6) [OF that] by (auto dest: fresh_consensus)
  have "node_ok (cl_nodes c n)" if "n \<in> N" for n
    using node [OF that] loaded [OF that] by (simp add: node_ok_def named_def saved_ok_def)
  with node have "nodes_ok N c" by (simp add: nodes_ok_def Let_def)
  moreover have "elected N c n t" if n: "n \<in> N" and l: "leads c n t" for n t
  proof -
    have "length (rc_peers (nd_config (cl_nodes c n))) = 1" using loaded(3) [OF n] l by (simp add: leads_def)
    with node(2,3) [OF n] n have "N = {n}" by (auto simp: node_ids_def length_Suc_conv)
    then show ?thesis by (simp add: elected_def)
  qed
  ultimately show ?thesis using assms by (simp add: cluster_ok_def cluster_start_def votes_ok_def)
qed

lemma cluster_run_ok: "cluster_run N c c' \<Longrightarrow> cluster_ok N c \<Longrightarrow> cluster_ok N c'"
  by (induction rule: rtranclp_induct) (auto intro: cluster_step_ok)

lemma cluster_step_grants:
  "cluster_step N c c' \<Longrightarrow> cl_granted c \<subseteq> cl_granted c'"
  by (induction rule: cluster_step.induct) (auto simp: put_node_def put_election_def add_vote_def)

lemma cluster_run_grants: "cluster_run N c c' \<Longrightarrow> cl_granted c \<subseteq> cl_granted c'"
  by (induction rule: rtranclp_induct) (auto dest: cluster_step_grants)

text \<open>C21: A term has at most one leader, ever: in a cluster whose nodes run accepted configurations
  over the same nodes, whatever requests arrive, however answers are delayed or lost, whichever
  writes fail and whenever nodes restart, if one node leads in a term then no other node leads in
  that term, now or later.\<close>

theorem one_leader_per_term:
  assumes "cluster_start N c0" and "cluster_run N c0 c" and "cluster_run N c c'"
    and "a \<in> N" and "b \<in> N" and "leads c a t" and "leads c' b t"
  shows "a = b"
proof -
  have ok: "cluster_ok N c" "cluster_ok N c'"
    using cluster_run_ok cluster_start_ok assms(1-3) by blast+
  from ok assms(4-7) have e: "elected N c a t" "elected N c' b t" by (simp_all add: cluster_ok_def)
  show ?thesis
  proof (cases "N = {a} \<or> N = {b}")
    case True
    with assms(4,5) show ?thesis by auto
  next
    case False
    with e obtain Q R where Q: "Q \<subseteq> N" "rc_quorum (nd_config (cl_nodes c a)) \<le> card Q"
      "\<forall>p \<in> Q. (p, a, t) \<in> cl_granted c"
      and R: "R \<subseteq> N" "rc_quorum (nd_config (cl_nodes c' b)) \<le> card R" "\<forall>p \<in> R. (p, b, t) \<in> cl_granted c'"
      unfolding elected_def by blast
    have "config_ok (nd_config (cl_nodes c a))" "node_ids (nd_config (cl_nodes c a)) = N"
      "config_ok (nd_config (cl_nodes c' b))" "node_ids (nd_config (cl_nodes c' b)) = N"
      using ok assms(4,5) by (simp_all add: cluster_ok_def nodes_ok_def Let_def)
    with config.quorums_meet Q R have "Q \<inter> R \<noteq> {}" by metis
    then obtain p where "(p, a, t) \<in> cl_granted c'" "(p, b, t) \<in> cl_granted c'"
      using Q(3) R(3) cluster_run_grants [OF assms(3)] by blast
    with ok(2) show ?thesis by (auto simp: cluster_ok_def votes_ok_def)
  qed
qed

end
