(* ===== verification/Election_Live.thy ===== *)
theory Election_Live
  imports Election_Safety
begin

text \<open>
  Elections that succeed: a node that is not behind gets the vote of every node of an older term,
  and a candidate that a quorum votes for becomes the leader.  A small cluster shows that the
  hypotheses of these properties, and of the safety of elections, can be met.
\<close>

section \<open>Getting a vote\<close>

lemma request_fields:
  assumes "json_object_to_string_map jt (vote_request c (t, ls, ll, ws)) = Inr f"
  shows "hm_get f ''cluster_id'' = Some (rc_cluster_id c)" "hm_get f ''term'' = Some (dec_string (unat t))"
    "hm_get f ''candidate_id'' = Some (rc_node_id c)" "hm_get f ''last_seq'' = Some (dec_string (unat ls))"
    "hm_get f ''log_len'' = Some (dec_string (unat ll))"
    "hm_get f ''watermarks'' = Some (jt (JArray (map json_u64 ws)))"
  using assms
  by (auto simp: json_object_to_string_map_def vote_request_def json_as_object_def json_string_text json_u64_text
      json_field_to_string_def [of _ "JArray _"])

lemma read_decimal: "hm_get f k = Some (dec_string (unat (t::u64))) \<Longrightarrow> parse_json_u64 f k d = Inr t"
  using parse_dec_string [of "unat t" "2 ^ 64"] unat_u64_bound [of t]
  by (simp add: parse_json_u64_def parse_query_u64_def)

lemma vote_watermarks_read:
  assumes "fj (jt (JArray (map json_u64 ws))) = Inr (JArray (map json_u64 ws))" and "jt (JArray (map json_u64 ws)) \<noteq> []"
    and "hm_get f ''watermarks'' = Some (jt (JArray (map json_u64 ws)))"
  shows "vote_watermarks fj f = Inr (Some ws)"
proof -
  have "rmap (\<lambda>v. ok_or Parse (json_as_u64 v)) (map json_u64 ws) = Inr ws"
    by (induction ws) (simp_all add: json_as_u64_def json_u64_def)
  with assms show ?thesis by (simp add: vote_watermarks_def json_as_array_def)
qed

lemma gets_vote:
  assumes "json_object_to_string_map jt (vote_request c (t, ls, ll, ws)) = Inr f"
    and "fj (jt (JArray (map json_u64 ws))) = Inr (JArray (map json_u64 ws))"
    and "jt (JArray (map json_u64 ws)) \<noteq> []"
    and "rc_cluster_id c = rc_cluster_id (nd_config s)" and "rc_cluster_id c \<noteq> []" and "rc_node_id c \<noteq> []"
    and "rc_node_id c \<noteq> rc_node_id (nd_config s)" and "peer_addr (nd_config s) (rc_node_id c) \<noteq> None"
    and "cs_current_term (nd_consensus s) < t"
    and "local_log_status s = Inr (lls, lll, lws)" and "list_all2 (\<le>) lws ws"
    and "dk_writes (nd_disk s) = []"
  shows "\<exists>s'. handle_request_vote fj now1 now2 f s = (Inr (vote_reply t True), s') \<and>
    cs_voted_for (nd_consensus s') = Some (rc_node_id c) \<and> cs_current_term (nd_consensus s') = t \<and>
    dk_consensus (nd_disk s') = Some (consensus_form (nd_consensus s'))"
proof -
  note f = request_fields [OF assms(1)]
  have up: "vote_up_to_date (Some ws) ls ll (lls, lll, lws)"
    using assms(11) by (fastforce simp: vote_up_to_date_def list_all2_conv_all_nth list_all_iff set_zip)
  have "handle_request_vote fj now1 now2 f s = decide_vote fj now1 now2 f t (rc_node_id c) ls ll (lls, lll, lws) s"
    using assms(4-8,10) f
    by (simp add: handle_request_vote_def ensure_peer_cluster_def required_json_field_def read_decimal
        ensure_remote_peer_id_def)
  then show ?thesis
    using assms(9,12) up vote_watermarks_read [where fj = fj and jt = jt and ws = ws, OF assms(2,3) f(6)]
    by (simp add: decide_vote_def Let_def can_vote_def adopt_term_def follow_def persist_consensus_def
        persist_consensus_state_def replace_file_good abind_def)
qed

text \<open>A candidate of a newer term that knows at least as much as the voter, shard by shard and
  prepared mutations included, gets the vote: the answer grants it in the term of the candidate,
  and the vote is on the disk of the voter when the answer is given.\<close>

theorem vote_granted:
  assumes "json_object_to_string_map jt (vote_request c (t, ls, ll, ws)) = Inr f"
    and "fj (jt (JArray (map json_u64 ws))) = Inr (JArray (map json_u64 ws))"
    and "jt (JArray (map json_u64 ws)) \<noteq> []"
    and "rc_cluster_id c = rc_cluster_id (nd_config s)" and "rc_cluster_id c \<noteq> []" and "rc_node_id c \<noteq> []"
    and "rc_node_id c \<noteq> rc_node_id (nd_config s)" and "peer_addr (nd_config s) (rc_node_id c) \<noteq> None"
    and "cs_current_term (nd_consensus s) < t"
    and "local_log_status s = Inr (lls, lll, lws)" and "list_all2 (\<le>) lws ws"
    and "dk_writes (nd_disk s) = []"
  shows "\<exists>s'. handle_request_vote fj now1 now2 f s = (Inr (vote_reply t True), s') \<and>
    cs_voted_for (nd_consensus s') = Some (rc_node_id c) \<and> cs_current_term (nd_consensus s') = t \<and>
    dk_consensus (nd_disk s') = Some (consensus_form (nd_consensus s'))"
  by (rule gets_vote [where fj = fj and jt = jt and ws = ws, OF assms])

section \<open>Winning\<close>

text \<open>An answer that does not end the election, and one that grants the vote.\<close>

definition answer_fields :: "body_parser \<Rightarrow> http_response res \<Rightarrow> form option" where
  "answer_fields parse_body a = (case a of
     Inl _ \<Rightarrow> None
   | Inr response \<Rightarrow>
       if hr_status_code response \<noteq> 200 then None
       else case parse_body (hr_body response) of Inl _ \<Rightarrow> None | Inr f \<Rightarrow> Some f)"

definition grants :: "body_parser \<Rightarrow> http_response res \<Rightarrow> bool" where
  "grants parse_body a = (case answer_fields parse_body a of None \<Rightarrow> False | Some f \<Rightarrow> json_bool f ''vote_granted'')"

definition harmless :: "body_parser \<Rightarrow> u64 \<Rightarrow> http_response res \<Rightarrow> bool" where
  "harmless parse_body t a = (case a of
     Inl _ \<Rightarrow> True
   | Inr response \<Rightarrow> hr_status_code response \<noteq> 200 \<or>
       (case rbind (parse_body (hr_body response)) (\<lambda>f. parse_json_u64 f ''term'' t) of
          Inl _ \<Rightarrow> False | Inr pt \<Rightarrow> pt \<le> t))"

lemma collect_harmless:
  "list_all (harmless pb t) as \<Longrightarrow>
   collect_votes pb n1 n2 t as v s = (Inr (Some (v + length (filter (grants pb) as))), s)"
proof (induction as arbitrary: v)
  case Nil
  then show ?case by simp
next
  case (Cons a as)
  have "count_vote pb n1 n2 t a v s = (Inr (Some (if grants pb a then v + 1 else v)), s)"
    using Cons.prems
    by (auto simp: count_vote_def harmless_def grants_def answer_fields_def split: sum.splits)
  with Cons show ?case by simp
qed

text \<open>C22: An election makes progress: when the disk works and a quorum, the candidate included, votes
  for a node that stands for election, then the node leads in a new term, which is on its disk,
  whatever the other peers answer short of a newer term.\<close>

theorem election_succeeds:
  assumes "local_log_status s = Inr st" and "cs_current_term (nd_consensus s) \<noteq> - 1"
    and "dk_writes (nd_disk s) = []"
    and "list_all (harmless pb (cs_current_term (nd_consensus s) + 1)) answers"
    and "rc_quorum (nd_config s) \<le> 1 + length (filter (grants pb) answers)"
  shows "\<exists>s'. run_election pb n1 n2 n3 answers s = (Inr True, s') \<and>
    cs_role (nd_consensus s') = Leader \<and> cs_leader_id (nd_consensus s') = Some (rc_node_id (nd_config s)) \<and>
    cs_current_term (nd_consensus s') = cs_current_term (nd_consensus s) + 1 \<and>
    dk_consensus (nd_disk s') = Some (consensus_form (nd_consensus s'))"
proof -
  let ?c = "candidate_state n1 s"
  let ?t = "cs_current_term (nd_consensus s) + 1"
  obtain ls ll ws where st: "st = (ls, ll, ws)" by (cases st)
  let ?d = "on_disk (\<lambda>d. d\<lparr>dk_consensus := Some (consensus_form (nd_consensus ?c))\<rparr>) ?c"
  have c: "dk_writes (nd_disk ?c) = []" "nd_config ?c = nd_config s"
    "cs_current_term (nd_consensus ?c) = ?t" "cs_role (nd_consensus ?c) = Candidate"
    using assms(3) by (simp_all add: candidate_state_def)
  have "election_begin n1 s = (Inr (?t, ls, ll, ws), ?d)"
    using assms(1,2) c by (simp add: election_begin_def st persist_consensus_def persist_consensus_state_def
        replace_file_good abind_def)
  then show ?thesis
    using collect_harmless [OF assms(4)] assms(5) c
    by (simp add: run_election_def election_finish_def persist_consensus_def persist_consensus_state_def
        replace_file_good abind_def)
qed

section \<open>A cluster of three\<close>

lemma fresh_status: "local_log_status (fresh_node c) = Inr (0, 0, [0])"
  by (simp add: local_log_status_def fresh_node_def empty_disk_def load_pending_mutations_def hm_values_def
      hm_keys_def hm_new_def source_new_def Let_def)

abbreviation sample_request_json :: json where
  "sample_request_json \<equiv> vote_request (sample_cfg ''a'') (2, 0, 0, [0])"

definition sample_text :: "json \<Rightarrow> string" where
  "sample_text v = ''[0]''"

definition sample_parser :: "string \<Rightarrow> json res" where
  "sample_parser t = Inr (JArray [json_u64 0])"

lemma sample_request: "\<exists>f. json_object_to_string_map sample_text sample_request_json = Inr f"
  by (simp add: json_object_to_string_map_def vote_request_def json_as_object_def)

lemma sample_watermarks: "sample_parser (sample_text (JArray (map json_u64 [0]))) = Inr (JArray (map json_u64 [0]))"
  "sample_text (JArray (map json_u64 [0])) \<noteq> []"
  by (simp_all add: sample_parser_def sample_text_def)

lemma sample_cluster: "rc_cluster_id (sample_cfg x) = ''eu''" "rc_node_id (sample_cfg x) = x"
  "peer_addr (sample_cfg y) ''a'' \<noteq> None" "rc_quorum (sample_cfg x) = 2"
  by (simp_all add: sample_cfg_def peer_addr_def)

lemma sample_vote:
  assumes "json_object_to_string_map sample_text sample_request_json = Inr f"
  shows "\<exists>s'. handle_request_vote sample_parser 5 5 f (sample_node ''b'') = (Inr (vote_reply 2 True), s') \<and>
    cs_voted_for (nd_consensus s') = Some (rc_node_id (sample_cfg ''a'')) \<and> cs_current_term (nd_consensus s') = 2 \<and>
    dk_consensus (nd_disk s') = Some (consensus_form (nd_consensus s'))"
  by (rule gets_vote [where fj = sample_parser and jt = sample_text and ws = "[0]",
      OF assms sample_watermarks _ _ _ _ _ _ fresh_status]) (simp_all add: sample_cluster)

theorem vote_granted_witness:
  "\<exists>f s'. json_object_to_string_map sample_text sample_request_json = Inr f \<and>
     handle_request_vote sample_parser 5 5 f (sample_node ''b'') = (Inr (vote_reply 2 True), s') \<and>
     cs_voted_for (nd_consensus s') = Some ''a''"
proof -
  obtain f where f: "json_object_to_string_map sample_text sample_request_json = Inr f" using sample_request by blast
  have "\<exists>s'. handle_request_vote sample_parser 5 5 f (sample_node ''b'') = (Inr (vote_reply 2 True), s') \<and>
    cs_voted_for (nd_consensus s') = Some (rc_node_id (sample_cfg ''a'')) \<and> cs_current_term (nd_consensus s') = 2 \<and>
    dk_consensus (nd_disk s') = Some (consensus_form (nd_consensus s'))"
    by (rule vote_granted [where fj = sample_parser and jt = sample_text and ws = "[0]",
      OF f sample_watermarks _ _ _ _ _ _ fresh_status]) (simp_all add: sample_cluster)
  with f show ?thesis by (auto simp: sample_cluster)
qed

abbreviation sample_answers :: "http_response res list" where
  "sample_answers \<equiv> [Inr \<lparr>hr_status_code = 200, hr_body = []\<rparr>, Inl Io]"

abbreviation granting_body :: body_parser where
  "granting_body \<equiv> \<lambda>b. Inr (vote_reply 2 True)"

lemma granting:
  "parse_json_u64 (vote_reply 2 True) ''term'' d = Inr 2" "json_bool (vote_reply 2 True) ''vote_granted''"
  using read_decimal [of "vote_reply 2 True" "''term''" 2]
  by (simp_all add: json_bool_def vote_reply_def hm_get_def bool_text_def)

theorem election_succeeds_witness:
  "\<exists>s'. run_election granting_body 5 5 5 sample_answers (sample_node ''a'') = (Inr True, s') \<and>
    cs_role (nd_consensus s') = Leader \<and> cs_current_term (nd_consensus s') = 2"
proof -
  have "list_all (harmless granting_body (cs_current_term (nd_consensus (sample_node ''a'')) + 1)) sample_answers"
    "rc_quorum (nd_config (sample_node ''a'')) \<le> 1 + length (filter (grants granting_body) sample_answers)"
    by (simp_all add: harmless_def grants_def answer_fields_def granting sample_cluster)
  from election_succeeds [OF fresh_status _ _ this, of 5 5 5] show ?thesis by auto
qed

section \<open>A run that elects a leader\<close>

abbreviation sample_ids :: "string set" where
  "sample_ids \<equiv> {''a'', ''b'', ''c''}"

definition sample_start :: cluster where
  "sample_start = \<lparr>cl_nodes = sample_node, cl_elections = \<lambda>_. None, cl_granted = {}\<rparr>"

lemma sample_start_ok: "cluster_start sample_ids sample_start"
proof -
  have "config_ok (sample_cfg n)" "node_ids (sample_cfg n) = sample_ids" if "n \<in> sample_ids" for n
    using that by (auto simp: config_ok_def node_ids_def sample_cfg_def)
  moreover have "load_consensus_state 0 0 (sample_cfg n) None = Inr (nd_consensus (sample_node n))" for n
    by (simp add: load_consensus_state_def Let_def fresh_node_def election_deadline_def) (simp add: sample_cfg_def)
  then have "\<exists>n1 n2. load_consensus_state n1 n2 (sample_cfg n) None = Inr (nd_consensus (sample_node n))" for n
    by blast
  ultimately show ?thesis
    by (auto simp: cluster_start_def sample_start_def Let_def sample_cluster)
qed

lemma sample_begin:
  "\<exists>s. election_begin 5 (sample_node ''a'') = (Inr (2, 0, 0, [0]), s) \<and> nd_config s = sample_cfg ''a'' \<and>
     cs_current_term (nd_consensus s) = 2 \<and> cs_role (nd_consensus s) = Candidate \<and> dk_writes (nd_disk s) = []"
proof -
  let ?c = "candidate_state 5 (sample_node ''a'')"
  have c: "dk_writes (nd_disk ?c) = []" "nd_config ?c = sample_cfg ''a''"
    "cs_current_term (nd_consensus ?c) = 2" "cs_role (nd_consensus ?c) = Candidate"
    by (simp_all add: candidate_state_def)
  then show ?thesis
    by (simp add: election_begin_def fresh_status persist_consensus_def persist_consensus_state_def
        replace_file_good abind_def)
qed

lemma sample_remote: "nd_config s = sample_cfg ''a'' \<Longrightarrow> remote_ids s = [''b'', ''c'']"
  by (simp add: remote_ids_def remote_peers_def sample_cfg_def)

lemma sample_finish:
  assumes "nd_config s = sample_cfg ''a''" and "cs_current_term (nd_consensus s) = 2"
    and "cs_role (nd_consensus s) = Candidate" and "dk_writes (nd_disk s) = []"
  shows "\<exists>s'. election_finish 5 2 2 s = (Inr True, s') \<and> cs_role (nd_consensus s') = Leader \<and>
    cs_current_term (nd_consensus s') = 2"
  using assms by (simp add: election_finish_def persist_consensus_def persist_consensus_state_def
      replace_file_good abind_def sample_cluster)

lemma sample_run: "\<exists>c. cluster_run sample_ids sample_start c \<and> leads c ''a'' 2"
proof -
  obtain f where f: "json_object_to_string_map sample_text sample_request_json = Inr f" using sample_request by blast
  obtain sa where sa: "election_begin 5 (sample_node ''a'') = (Inr (2, 0, 0, [0]), sa)" "nd_config sa = sample_cfg ''a''"
    "cs_current_term (nd_consensus sa) = 2" "cs_role (nd_consensus sa) = Candidate" "dk_writes (nd_disk sa) = []"
    using sample_begin by blast
  obtain sb where sb: "handle_request_vote sample_parser 5 5 f (sample_node ''b'') = (Inr (vote_reply 2 True), sb)"
    using sample_vote [OF f] by blast
  obtain sl where sl: "election_finish 5 2 2 sa = (Inr True, sl)" "cs_role (nd_consensus sl) = Leader"
    "cs_current_term (nd_consensus sl) = 2" using sample_finish [OF sa(2-5)] by blast
  have rq: "request_candidate f = ''a''" "request_term f = 2"
    using request_fields [OF f] read_decimal [of f "''term''" 2 0]
    by (simp_all add: request_candidate_def request_term_def sample_cluster)
  let ?e1 = "\<lparr>el_term = 2, el_votes = 1, el_peers = [''b'', ''c''], el_voters = {''a''}\<rparr>"
  let ?e2 = "\<lparr>el_term = 2, el_votes = 2, el_peers = [''c''], el_voters = {''b'', ''a''}\<rparr>"
  let ?e3 = "\<lparr>el_term = 2, el_votes = 2, el_peers = [], el_voters = {''b'', ''a''}\<rparr>"
  define c1 where "c1 = put_election ''a'' (Some ?e1) (add_vote ''a'' ''a'' 2 (put_node ''a'' sa sample_start))"
  have s1: "cluster_step sample_ids sample_start c1"
    by (rule cl_begin [where n = "''a''" and t = 2 and s = sa, unfolded sample_remote [OF sa(2)]])
      (use sa(1) in \<open>simp_all add: sample_start_def c1_def\<close>)
  have p1: "cl_nodes c1 ''a'' = sa" "cl_nodes c1 ''b'' = sample_node ''b''" "cl_elections c1 ''a'' = Some ?e1"
    by (simp_all add: c1_def put_simps) (simp add: sample_start_def)
  define c2 where "c2 = add_vote ''b'' ''a'' 2 (put_node ''b'' sb c1)"
  have s2: "cluster_step sample_ids c1 c2"
    by (rule cl_vote [where n = "''b''" and fj = sample_parser and f = f and s = sb
          and r = "Inr (vote_reply 2 True)"])
      (use sb rq granting p1 in \<open>simp_all add: c2_def granted_in_def\<close>)
  have p2: "cl_nodes c2 ''a'' = sa" "cl_elections c2 ''a'' = Some ?e1" "(''b'', ''a'', 2) \<in> cl_granted c2"
    by (simp_all add: c2_def put_simps p1)
  define c3 where "c3 = put_election ''a'' (Some ?e2) (put_node ''a'' sa c2)"
  have "count_vote granting_body 5 5 2 (Inr \<lparr>hr_status_code = 200, hr_body = []\<rparr>) 1 sa = (Inr (Some 2), sa)"
    by (simp add: count_vote_def granting)
  then have s3: "cluster_step sample_ids c2 c3"
    by (intro cl_answer [where n = "''a''" and p = "''b''" and ps = "[''c'']" and v = 2 and s = sa and e = ?e1])
      (use p2 in \<open>simp_all add: c3_def voters_after_def\<close>)
  have p3: "cl_nodes c3 ''a'' = sa" "cl_elections c3 ''a'' = Some ?e2" by (simp_all add: c3_def put_simps)
  define c4 where "c4 = put_election ''a'' (Some ?e3) (put_node ''a'' sa c3)"
  have "count_vote granting_body 5 5 2 (Inl Io) 2 sa = (Inr (Some 2), sa)" by (simp add: count_vote_def)
  then have s4: "cluster_step sample_ids c3 c4"
    by (intro cl_answer [where n = "''a''" and p = "''c''" and ps = "[]" and v = 2 and s = sa and e = ?e2])
      (use p3 in \<open>simp_all add: c4_def voters_after_def\<close>)
  have p4: "cl_nodes c4 ''a'' = sa" "cl_elections c4 ''a'' = Some ?e3" by (simp_all add: c4_def put_simps)
  define c5 where "c5 = put_election ''a'' None (put_node ''a'' sl c4)"
  have s5: "cluster_step sample_ids c4 c5"
    unfolding c5_def by (rule cl_finish [where n = "''a''" and e = ?e3 and b = "Inr True"]) (use sl(1) p4 in simp_all)
  note next_step = rtranclp.rtrancl_into_rtrancl [of "cluster_step sample_ids"]
  have "cluster_run sample_ids sample_start c5"
    by (rule next_step [OF next_step [OF next_step [OF next_step [OF r_into_rtranclp [of "cluster_step sample_ids", OF s1] s2] s3] s4] s5])
  moreover have "leads c5 ''a'' 2" using sl(2,3) by (simp add: leads_def c5_def put_simps)
  ultimately show ?thesis by blast
qed

theorem one_leader_per_term_witness:
  "\<exists>c. cluster_run sample_ids sample_start c \<and> leads c ''a'' 2 \<and> (\<forall>b \<in> sample_ids. leads c b 2 \<longrightarrow> b = ''a'')"
proof -
  obtain c where c: "cluster_run sample_ids sample_start c" "leads c ''a'' 2" using sample_run by blast
  have "b = ''a''" if "b \<in> sample_ids" "leads c b 2" for b
    using one_leader_per_term [OF sample_start_ok c(1) rtranclp.rtrancl_refl _ that(1) c(2) that(2)] by simp
  with c show ?thesis by blast
qed

end
