(* ===== verification/Publication.thy ===== *)
theory Publication
  imports Payload_Store
begin

text \<open>
  What a publication leaves in the object store, and that a node without local state restores from
  it the snapshot that was published.
\<close>

section \<open>Single steps\<close>

text \<open>Outside the payload files, the object store and the outcomes of writes nothing changes.\<close>

definition rest_of_disk :: "disk \<Rightarrow> disk" where
  "rest_of_disk d = d\<lparr>dk_writes := [], dk_files := [], dk_objects := []\<rparr>"

definition same_rest :: "node \<Rightarrow> node \<Rightarrow> bool" where
  "same_rest s s' \<longleftrightarrow> on_disk rest_of_disk s = on_disk rest_of_disk s'"

interpretation payload: progress same_rest
  by unfold_locales (simp_all add: same_rest_def)

lemma same_rest_parts:
  assumes "same_rest s s'"
  shows "nd_config s' = nd_config s" "nd_signer s' = nd_signer s" "nd_object_store s' = nd_object_store s"
    "nd_source s' = nd_source s" "nd_consensus s' = nd_consensus s" "nd_compaction s' = nd_compaction s"
    "nd_publisher s' = nd_publisher s" "nd_published s' = nd_published s" "nd_acks s' = nd_acks s"
    "nd_posts s' = nd_posts s" "rest_of_disk (nd_disk s') = rest_of_disk (nd_disk s)"
  using assms by (cases s; cases s'; simp add: same_rest_def on_disk_def)+

lemma rest_of_disk_parts:
  assumes "rest_of_disk d' = rest_of_disk d"
  shows "dk_logs d' = dk_logs d" "dk_pending d' = dk_pending d" "dk_bundles d' = dk_bundles d"
    "dk_idempotency d' = dk_idempotency d" "dk_consensus d' = dk_consensus d" "dk_acks d' = dk_acks d"
  using assms by (cases d; cases d'; simp add: rest_of_disk_def)+

lemma replace_file_same_rest:
  assumes f: "\<And>d. rest_of_disk (f d) = rest_of_disk d"
  shows "moves same_rest (replace_file f)"
  unfolding moves_def
proof
  fix s
  obtain r s' where rf: "replace_file f s = (r, s')" by (cases "replace_file f s")
  have w: "rest_of_disk (d\<lparr>dk_writes := ws\<rparr>) = rest_of_disk d" for d ws
    by (simp add: rest_of_disk_def)
  from rf show "same_rest s (snd (replace_file f s))"
    by (cases rule: replace_file_cases) (simp_all add: rf same_rest_def on_disk_def f w)
qed

lemma write_payload_moves: "moves same_rest (write_payload_file p b)"
  unfolding write_payload_file_def by (intro replace_file_same_rest) (simp add: rest_of_disk_def)

lemma write_signed_moves: "moves same_rest (write_signed_payload_file w p b)"
  unfolding write_signed_payload_file_def by (intro payload.intros write_payload_moves)

lemma read_file_moves: "moves same_rest (read_file p)"
  by (simp add: moves_def read_file_def payload.refl)

lemma put_object_moves: "moves same_rest (put_object w now c ob b)"
  unfolding put_object_def
proof (intro payload.intros)
  fix url
  let ?p = "replace_file (\<lambda>d. d\<lparr>dk_objects := hm_insert url b (dk_objects d)\<rparr>)"
  have "moves same_rest ?p" by (intro replace_file_same_rest) (simp add: rest_of_disk_def)
  from movesD [OF this]
  have "snd (case ?p s of (Inl _, s') \<Rightarrow> (Inl InvalidData, s') | (Inr _, s') \<Rightarrow> (Inr (), s')) = snd (?p s) \<and>
      same_rest s (snd (?p s))" for s
    by (cases "?p s") (auto split: sum.splits)
  then show "moves same_rest (\<lambda>s. case ?p s of (Inl _, s') \<Rightarrow> (Inl InvalidData, s') | (Inr _, s') \<Rightarrow> (Inr (), s'))"
    by (simp add: moves_def)
qed

lemma publish_moves: "moves same_rest (publish_snapshot_to_object_store w now store p)"
  unfolding publish_snapshot_to_object_store_def
  by (cases store) (auto intro!: payload.intros put_object_moves)

lemma publish_best_effort_moves: "moves same_rest (publish_snapshot_to_object_store_best_effort w now store p)"
  unfolding publish_snapshot_to_object_store_best_effort_def
  by (cases store) (auto intro!: payload.intros publish_moves split: sum.split)

lemma publication_moves: "moves same_rest (write_snapshot_manifest_publication w now sn)"
  unfolding write_snapshot_manifest_publication_def Let_def
  by (intro payload.intros write_signed_moves read_file_moves publish_best_effort_moves)

lemma persist_latest_moves: "moves same_rest (persist_latest_snapshot w now sn)"
  unfolding persist_latest_snapshot_def write_signed_snapshot_file_def persist_snapshot_manifest_def
  by (intro payload.intros write_signed_moves publication_moves)

lemma persist_archived_moves: "moves same_rest (persist_archived_snapshot w now sn name)"
  unfolding persist_archived_snapshot_def write_signed_snapshot_file_def persist_snapshot_manifest_def
  by (intro payload.intros write_signed_moves publication_moves)

section \<open>Addresses of objects\<close>

lemma object_url_eq:
  "object_url w now c m ob b = rbind (object_key c ob) (\<lambda>key.
     rbind (address_for_key (wd_parse_url w) c key) (\<lambda>a. Inr (sa_url a)))"
  by (cases "object_key c ob"; cases "aws_sigv4_dates (Some now)")
    (auto simp: object_url_def sign_request_def aws_sigv4_dates_def Let_def rbind_assoc split: prod.splits)

lemma address_url:
  assumes "address_for_key parse_url c key = Inr a"
  shows "\<exists>base. \<forall>key. \<exists>a. address_for_key parse_url c key = Inr a \<and> sa_url a = base @ percent_encode_s3_path key"
proof -
  obtain ep host where ep: "parse_url (os_endpoint c) = Some ep" "up_host ep = Some host"
    "up_scheme ep = ''http'' \<or> up_scheme ep = ''https''" "up_path ep = ''/'' \<or> up_path ep = []"
    using assms by (auto simp: address_for_key_def rbind_eq_Inr ok_or_def split: option.splits if_splits)
  let ?port = "case up_port ep of Some p \<Rightarrow> '':'' @ dec_string p | None \<Rightarrow> []"
  let ?base = "up_scheme ep @ ''://'' @ (if os_force_path_style c then host @ ?port @ ''/'' @ os_bucket c @ ''/''
    else os_bucket c @ ''.'' @ host @ ?port @ ''/'')"
  have "\<exists>a. address_for_key parse_url c key = Inr a \<and> sa_url a = ?base @ percent_encode_s3_path key" for key
    unfolding address_for_key_def Let_def ep(1) ok_or_def option.case rbind_Inr ep(2)
    using ep(3,4) by (auto simp del: append_Cons simp: ep(2))
  then show ?thesis by blast
qed

lemma safe_key:
  assumes "os_prefix c = [] \<or> safe_path (os_prefix c)" and "safe_path ob"
  obtains key where "object_key c ob = Inr key" and "percent_encode_s3_path key = key"
    and "key = (if os_prefix c = [] then ob else os_prefix c @ ''/'' @ ob)"
proof (rule that [OF _ _ refl])
  have ne: "ob \<noteq> []" using assms(2) by (simp add: safe_path_def)
  show "object_key c ob = Inr (if os_prefix c = [] then ob else os_prefix c @ ''/'' @ ob)"
    by (simp add: object_key_def normalize_safe [OF assms(2)] ne)
  show "percent_encode_s3_path (if os_prefix c = [] then ob else os_prefix c @ ''/'' @ ob) =
      (if os_prefix c = [] then ob else os_prefix c @ ''/'' @ ob)"
    by (rule percent_encode_safe) (use assms safe_path_join [OF _ assms(2)] in auto)
qed

lemma object_url_inj:
  assumes p: "os_prefix c = [] \<or> safe_path (os_prefix c)" and "safe_path ob" and "safe_path ob'"
    and "object_url w now c m ob b = Inr u" and "object_url w now' c m' ob' b' = Inr u"
  shows "ob = ob'"
proof -
  obtain k where k: "object_key c ob = Inr k" "percent_encode_s3_path k = k"
    "k = (if os_prefix c = [] then ob else os_prefix c @ ''/'' @ ob)" by (rule safe_key [OF p assms(2)])
  obtain k' where k': "object_key c ob' = Inr k'" "percent_encode_s3_path k' = k'"
    "k' = (if os_prefix c = [] then ob' else os_prefix c @ ''/'' @ ob')" by (rule safe_key [OF p assms(3)])
  obtain a where a: "address_for_key (wd_parse_url w) c k = Inr a" "u = sa_url a"
    using assms(4) by (auto simp: object_url_eq k(1) rbind_eq_Inr)
  obtain a' where a': "address_for_key (wd_parse_url w) c k' = Inr a'" "u = sa_url a'"
    using assms(5) by (auto simp: object_url_eq k'(1) rbind_eq_Inr)
  from address_url [OF a(1)] obtain base
    where base: "\<forall>key. \<exists>a. address_for_key (wd_parse_url w) c key = Inr a \<and> sa_url a = base @ percent_encode_s3_path key"
    by blast
  have "k = k'" using base [rule_format, of k] base [rule_format, of k'] a a' k(2) k'(2) by auto
  then show ?thesis by (simp add: k(3) k'(3) split: if_splits)
qed

lemma put_object_done:
  assumes "put_object w now c ob b s = (Inr (), s')"
  obtains u where "object_url w now c ''PUT'' ob b = Inr u"
    and "dk_objects (nd_disk s') = hm_insert u b (dk_objects (nd_disk s))"
proof -
  from assms obtain u where u: "object_url w now c ''PUT'' ob b = Inr u"
    and p: "replace_file (\<lambda>d. d\<lparr>dk_objects := hm_insert u b (dk_objects d)\<rparr>) s = (Inr (), s')"
    by (cases "object_url w now c ''PUT'' ob b") (auto simp: put_object_def split: prod.splits sum.splits)
  from p have "dk_objects (nd_disk s') = hm_insert u b (dk_objects (nd_disk s))"
    by (cases rule: replace_file_cases) auto
  with u show ?thesis by (rule that)
qed

text \<open>The object \<open>ob\<close> has the content \<open>b\<close>.\<close>

definition stored :: "world \<Rightarrow> object_store_config \<Rightarrow> node \<Rightarrow> string \<Rightarrow> bytes \<Rightarrow> bool" where
  "stored w c s ob b \<longleftrightarrow> (\<exists>u. object_url w 0 c [] ob [] = Inr u \<and> hm_get (dk_objects (nd_disk s)) u = Some b)"

lemma put_object_stores:
  assumes "put_object w now c ob b s = (Inr (), s')" and "os_prefix c = [] \<or> safe_path (os_prefix c)"
    and "safe_path ob"
  shows "stored w c s' ob b"
    and "safe_path x \<Longrightarrow> x \<noteq> ob \<Longrightarrow> stored w c s x y \<Longrightarrow> stored w c s' x y"
proof -
  from assms(1) obtain u where u: "object_url w now c ''PUT'' ob b = Inr u"
    and d: "dk_objects (nd_disk s') = hm_insert u b (dk_objects (nd_disk s))" by (rule put_object_done)
  have u0: "object_url w 0 c [] ob [] = Inr u" using u by (simp add: object_url_eq)
  then show "stored w c s' ob b" by (simp add: stored_def d)
  show "stored w c s' x y" if x: "safe_path x" "x \<noteq> ob" "stored w c s x y"
  proof -
    from x(3) obtain v where v: "object_url w 0 c [] x [] = Inr v" "hm_get (dk_objects (nd_disk s)) v = Some y"
      by (auto simp: stored_def)
    have "v \<noteq> u" using object_url_inj [OF assms(2) x(1) assms(3) v(1)] u0 x(2) by auto
    with v show ?thesis by (auto simp: stored_def d)
  qed
qed

lemma get_stored:
  assumes "stored w c s ob b"
  shows "get_optional_object w now c ob s = (Inr (Some b), s)" "get_object w now c ob s = (Inr b, s)"
  using assms by (auto simp: stored_def get_object_def get_optional_object_def object_url_eq abind_app)

section \<open>Names\<close>

lemma split_on_none: "c \<notin> set s \<Longrightarrow> split_on c s = [s]"
  by (induction s) auto

lemma safe_part_path:
  assumes "s \<noteq> []" and "\<forall>c \<in> set s. is_ascii_alphanumeric c \<or> c \<in> set ''_-''"
  shows "safe_path s" "safe_path (s @ ''.gacl'')" "safe_path (s @ ''.manifest'')" "safe_path (s @ ''.gacl.sig'')"
    "safe_path (s @ ''.manifest.sig'')"
proof -
  have slash: "CHR ''/'' \<notin> set s" using assms(2) by (auto simp: is_ascii_alphanumeric_def)
  have ok: "safe_path (s @ e)" if "\<forall>c \<in> set e. is_ascii_alphanumeric c \<or> c \<in> set ''.-_''" "CHR ''/'' \<notin> set e"
      "length e = 0 \<or> 2 < length e" for e
  proof -
    have "s @ e \<noteq> ''.'' \<and> s @ e \<noteq> ''..''"
      using assms that(3) by (cases s; cases e) (auto simp: is_ascii_alphanumeric_def Cons_eq_append_conv)
    then show ?thesis using assms that(1,2) slash by (auto simp: safe_path_def split_on_none)
  qed
  show "safe_path s" using ok [of "[]"] by simp
  show "safe_path (s @ ''.gacl'')" "safe_path (s @ ''.manifest'')" "safe_path (s @ ''.gacl.sig'')"
    "safe_path (s @ ''.manifest.sig'')"
    by (rule ok; simp add: is_ascii_alphanumeric_def)+
qed

lemma pad_dec_alnum: "\<forall>c \<in> set (pad_dec w n). is_ascii_alphanumeric c"
  using pad_dec_digits by (auto simp: list_all_iff digit_alnum)

lemma hex_alnum: "list_all is_ascii_hexdigit s \<Longrightarrow> \<forall>c \<in> set s. is_ascii_alphanumeric c"
  by (auto simp: list_all_iff hexdigit_alnum)

lemma artifact_object_safe:
  assumes "list_all is_ascii_hexdigit sha"
  shows "safe_path (immutable_snapshot_object_name sn sha)"
    "safe_path (immutable_snapshot_object_name sn sha @ ''.sig'')"
proof -
  let ?s = "''max_seq_'' @ pad_dec 20 (unat (max_or_zero (sn_watermarks sn))) @ ''_sha256_'' @ sha"
  have s: "?s \<noteq> []" "\<forall>c \<in> set ?s. is_ascii_alphanumeric c \<or> c \<in> set ''_-''"
    using pad_dec_alnum [of 20] hex_alnum [OF assms] by (auto, simp_all add: is_ascii_alphanumeric_def)
  have d: "safe_path ''snapshots''" by (rule safe_part_path(1)) (simp_all add: is_ascii_alphanumeric_def)
  show "safe_path (immutable_snapshot_object_name sn sha)"
    using safe_path_join [OF d safe_part_path(2) [OF s]] by (simp add: immutable_snapshot_object_name_def)
  show "safe_path (immutable_snapshot_object_name sn sha @ ''.sig'')"
    using safe_path_join [OF d safe_part_path(4) [OF s]] by (simp add: immutable_snapshot_object_name_def)
qed

lemma manifest_object_safe:
  assumes "list_all is_ascii_hexdigit (sm_artifact_sha256 m)" and "snapshot_manifest_file_name m = Inr name"
  shows "safe_path (''manifests/'' @ name)" "safe_path (''manifests/'' @ name @ ''.sig'')"
proof -
  let ?s = "''epoch_'' @ pad_dec 20 (unat (sm_created_at_unix m)) @ ''_seq_'' @ pad_dec 20 (unat (sm_max_seq m)) @
        ''_sha256_'' @ take 16 (sm_artifact_sha256 m)"
  have n: "name = ?s @ ''.manifest''" using assms(2) by (simp add: snapshot_manifest_file_name_def split: if_splits)
  have s: "?s \<noteq> []" "\<forall>c \<in> set ?s. is_ascii_alphanumeric c \<or> c \<in> set ''_-''"
    using pad_dec_alnum [of 20] hex_alnum [OF assms(1)] by (auto dest: in_set_takeD, simp_all add: is_ascii_alphanumeric_def)
  have d: "safe_path ''manifests''" by (rule safe_part_path(1)) (simp_all add: is_ascii_alphanumeric_def)
  show "safe_path (''manifests/'' @ name)" "safe_path (''manifests/'' @ name @ ''.sig'')"
    using safe_path_join [OF d safe_part_path(3) [OF s]] safe_path_join [OF d safe_part_path(5) [OF s]] by (simp_all add: n)
qed

lemma latest_object_safe: "safe_path LATEST_MANIFEST_OBJECT" "safe_path LATEST_MANIFEST_SIGNATURE_OBJECT"
proof -
  have d: "safe_path ''manifests''" by (rule safe_part_path(1)) (simp_all add: is_ascii_alphanumeric_def)
  have l: "safe_path ''latest.manifest''" "safe_path ''latest.manifest.sig''"
    using safe_part_path(3,5) [of "''latest''"] by (simp_all add: is_ascii_alphanumeric_def)
  show "safe_path LATEST_MANIFEST_OBJECT" "safe_path LATEST_MANIFEST_SIGNATURE_OBJECT"
    using safe_path_join [OF d l(1)] safe_path_join [OF d l(2)]
    by (simp_all add: LATEST_MANIFEST_OBJECT_def LATEST_MANIFEST_SIGNATURE_OBJECT_def)
qed

section \<open>Publication and restoration\<close>

lemma publish_stores:
  assumes "publish_snapshot_to_object_store w now (Some c) p s = (Inr (), s')"
    and c: "os_prefix c = [] \<or> safe_path (os_prefix c)"
    and h: "list_all is_ascii_hexdigit (sm_artifact_sha256 (pu_manifest p))"
    and a: "sm_artifact_object (pu_manifest p) = immutable_snapshot_object_name sn sha"
      "sm_artifact_signature_object (pu_manifest p) = immutable_snapshot_object_name sn sha @ ''.sig''"
    and sha: "list_all is_ascii_hexdigit sha"
  shows "stored w c s' LATEST_MANIFEST_OBJECT (pu_latest_manifest_payload p)"
    and "stored w c s' (immutable_snapshot_object_name sn sha) (pu_artifact_payload p)"
    and "stored w c s' (immutable_snapshot_object_name sn sha @ ''.sig'') (pu_artifact_signature_payload p)"
    and "stored w c s' LATEST_MANIFEST_SIGNATURE_OBJECT (pu_latest_manifest_signature_payload p)"
proof -
  let ?a = "immutable_snapshot_object_name sn sha"
  from assms(1) obtain name s1 s2 s3 s4 s5 where n: "snapshot_manifest_file_name (pu_manifest p) = Inr name"
    and puts: "put_object w now c ?a (pu_artifact_payload p) s = (Inr (), s1)"
      "put_object w now c (?a @ ''.sig'') (pu_artifact_signature_payload p) s1 = (Inr (), s2)"
      "put_object w now c (''manifests/'' @ name) (pu_immutable_manifest_payload p) s2 = (Inr (), s3)"
      "put_object w now c (''manifests/'' @ name @ ''.sig'') (pu_immutable_manifest_signature_payload p) s3 = (Inr (), s4)"
      "put_object w now c LATEST_MANIFEST_OBJECT (pu_latest_manifest_payload p) s4 = (Inr (), s5)"
      "put_object w now c LATEST_MANIFEST_SIGNATURE_OBJECT (pu_latest_manifest_signature_payload p) s5 = (Inr (), s')"
    by (auto simp: publish_snapshot_to_object_store_def snapshot_manifest_object_name_def abind_Inr rbind_eq_Inr a)
  note o = artifact_object_safe [OF sha, of sn]
  have apart: "?a \<noteq> ''manifests/'' @ x" "?a @ ''.sig'' \<noteq> ''manifests/'' @ x" for x
    by (simp_all add: immutable_snapshot_object_name_def)
  have latest: "LATEST_MANIFEST_OBJECT = ''manifests/'' @ ''latest.manifest''"
    "LATEST_MANIFEST_SIGNATURE_OBJECT = ''manifests/'' @ ''latest.manifest.sig''"
    "LATEST_MANIFEST_OBJECT \<noteq> LATEST_MANIFEST_SIGNATURE_OBJECT"
    by (simp_all add: LATEST_MANIFEST_OBJECT_def LATEST_MANIFEST_SIGNATURE_OBJECT_def)
  note ns = manifest_object_safe [OF h n]
  note st = put_object_stores [OF _ c]
  show "stored w c s' LATEST_MANIFEST_SIGNATURE_OBJECT (pu_latest_manifest_signature_payload p)"
    by (rule st(1) [OF puts(6) latest_object_safe(2)])
  show "stored w c s' LATEST_MANIFEST_OBJECT (pu_latest_manifest_payload p)"
    by (rule st(2) [OF puts(6) latest_object_safe(2) latest_object_safe(1) latest(3)])
      (rule st(1) [OF puts(5) latest_object_safe(1)])
  have keep: "stored w c s' x y" if "stored w c s2 x y" "safe_path x" "\<And>n. x \<noteq> ''manifests/'' @ n" for x y
  proof -
    have "stored w c s3 x y" by (rule st(2) [OF puts(3) ns(1) that(2) that(3) that(1)])
    then have "stored w c s4 x y" by (rule st(2) [OF puts(4) ns(2) that(2) that(3)])
    then have "stored w c s5 x y" using that(3) by (intro st(2) [OF puts(5) latest_object_safe(1) that(2)]) (simp only: latest(1) not_False_eq_True)
    then show ?thesis using that(3) by (intro st(2) [OF puts(6) latest_object_safe(2) that(2)]) (simp only: latest(2) not_False_eq_True)
  qed
  have "stored w c s2 ?a (pu_artifact_payload p)"
    by (rule st(2) [OF puts(2) o(2) o(1)]) (simp, rule st(1) [OF puts(1) o(1)])
  then show "stored w c s' ?a (pu_artifact_payload p)" using o(1) apart(1) by (rule keep)
  have "stored w c s2 (?a @ ''.sig'') (pu_artifact_signature_payload p)" by (rule st(1) [OF puts(2) o(2)])
  then show "stored w c s' (?a @ ''.sig'') (pu_artifact_signature_payload p)" using o(2) apart(2) by (rule keep)
qed

text \<open>The nine writes of the restoration.\<close>

lemma write_payload_good:
  "dk_writes (nd_disk s) = [] \<Longrightarrow>
    write_payload_file p b s = (Inr (), on_disk (\<lambda>d. d\<lparr>dk_files := hm_insert p b (dk_files d)\<rparr>) s)"
  by (simp add: write_payload_file_def replace_file_good)

lemma restore_stored:
  assumes got: "get_optional_object w now c LATEST_MANIFEST_OBJECT s = (Inr (Some mb), s)"
      "get_object w now c (sm_artifact_object m) s = (Inr ab, s)"
      "get_object w now c (sm_artifact_signature_object m) s = (Inr asig, s)"
      "get_object w now c LATEST_MANIFEST_SIGNATURE_OBJECT s = (Inr msig, s)"
    and dec: "decode_snapshot_manifest (json_body w) mb = Inr m" "manifest_validate m = Inr ()"
      "validate_artifact (wd_sha256 w) m ab = Inr ()" "decode_snapshot ab = Inr sn"
      "validate_manifest_snapshot m sn = Inr ()" "snapshot_manifest_file_name m = Inr name"
    and good: "dk_writes (nd_disk s) = []"
  shows "\<exists>s'. restore_latest_snapshot_from_object_store w now c s = (Inr True, s') \<and>
    hm_get (dk_files (nd_disk s')) latest_path = Some ab \<and>
    hm_get (dk_files (nd_disk s')) (signature_path latest_path) = Some asig \<and>
    hm_get (dk_files (nd_disk s')) latest_manifest_path = Some mb \<and>
    hm_get (dk_files (nd_disk s')) (signature_path latest_manifest_path) = Some msig"
  unfolding restore_latest_snapshot_from_object_store_def
  by (simp add: got dec Let_def write_payload_good good signature_path_def latest_path_def latest_manifest_path_def)

text \<open>A publication that must upload and that succeeds has stored what it says.\<close>

lemma publication_stored:
  assumes "write_snapshot_manifest_publication w now sn s = (Inr m, s')"
    and "nd_object_store s = Some c" and "os_require_upload c"
    and c: "os_prefix c = [] \<or> safe_path (os_prefix c)"
    and "sha = snapshot_artifact_sha256_hex (wd_sha256 w) (encode_snapshot sn)"
    and hex: "list_all is_ascii_hexdigit sha"
  obtains name asig msig where
    "m = manifest_for_snapshot sn now (immutable_snapshot_object_name sn sha)
           (word_of_nat (length (encode_snapshot sn))) sha"
    and "snapshot_manifest_file_name m = Inr name"
    and "stored w c s' LATEST_MANIFEST_OBJECT (json_bytes w (encode_snapshot_manifest m))"
    and "stored w c s' (sm_artifact_object m) (encode_snapshot sn)"
    and "stored w c s' (sm_artifact_signature_object m) asig"
    and "stored w c s' LATEST_MANIFEST_SIGNATURE_OBJECT msig"
proof -
  let ?m = "manifest_for_snapshot sn now (immutable_snapshot_object_name sn sha)
    (word_of_nat (length (encode_snapshot sn))) sha"
  obtain x1 s1 as s2 name s3 x4 s4 im s5 x6 s6 lm s7 store s8 p t x9 where
    r: "write_signed_payload_file w (object_path (immutable_snapshot_object_name sn sha)) (encode_snapshot sn) s = (Inr x1, s1)"
      "read_file (signature_path (object_path (immutable_snapshot_object_name sn sha))) s1 = (Inr as, s2)"
      "lift_res (snapshot_manifest_file_name ?m) s2 = (Inr name, s3)"
      "write_signed_payload_file w (manifest_path name) (json_bytes w (encode_snapshot_manifest ?m)) s3 = (Inr x4, s4)"
      "read_file (signature_path (manifest_path name)) s4 = (Inr im, s5)"
      "write_signed_payload_file w latest_manifest_path (json_bytes w (encode_snapshot_manifest ?m)) s5 = (Inr x6, s6)"
      "read_file (signature_path latest_manifest_path) s6 = (Inr lm, s7)"
      "gets nd_object_store s7 = (Inr store, s8)"
    and p: "publish_snapshot_to_object_store_best_effort w now store p s8 = (Inr x9, t)" "ret ?m t = (Inr m, s')"
    and pu: "pu_manifest p = ?m" "pu_artifact_payload p = encode_snapshot sn"
      "pu_latest_manifest_payload p = json_bytes w (encode_snapshot_manifest ?m)"
    using assms(1) unfolding write_snapshot_manifest_publication_def Let_def assms(5) [symmetric] abind_Inr
    by (elim exE conjE) (rule that; (assumption | rule snapshot_publication.select_convs))
  have m: "m = ?m" and ts: "t = s'" "s3 = s2" "s8 = s7" "store = nd_object_store s7"
    and name: "snapshot_manifest_file_name ?m = Inr name" using p(2) r(3,8) by auto
  note mv = movesD [OF write_signed_moves r(1)] movesD [OF read_file_moves r(2)] movesD [OF write_signed_moves r(4)]
    movesD [OF read_file_moves r(5)] movesD [OF write_signed_moves r(6)] movesD [OF read_file_moves r(7)]
  have "nd_object_store s7 = Some c" using mv [THEN same_rest_parts(3)] assms(2) ts(2) by simp
  with p ts have st: "publish_snapshot_to_object_store w now (Some c) p s7 = (Inr (), s')"
    using assms(3) by (auto simp: publish_snapshot_to_object_store_best_effort_def abind_Inr prod_eq_iff split: sum.splits if_splits)
  have f: "sm_artifact_sha256 ?m = sha" "sm_artifact_object ?m = immutable_snapshot_object_name sn sha"
    "sm_artifact_signature_object ?m = immutable_snapshot_object_name sn sha @ ''.sig''"
    by (simp_all add: manifest_for_snapshot_def)
  note ps = publish_stores [OF st c, of sn sha, unfolded pu f, OF hex refl refl hex]
  show ?thesis by (rule that [OF m]) (use ps f name m in simp_all)
qed

text \<open>When writes and signatures succeed, so does the publication: \<open>works\<close> says that a method returns a
  result and keeps the assumption.\<close>

definition works :: "('s \<Rightarrow> bool) \<Rightarrow> ('s, 'a) act \<Rightarrow> bool" where
  "works P m \<longleftrightarrow> (\<forall>s. P s \<longrightarrow> (\<exists>x s'. m s = (Inr x, s') \<and> P s'))"

lemma works_bind: "works P m \<Longrightarrow> (\<And>x. works P (f x)) \<Longrightarrow> works P (abind m f)"
  unfolding works_def by (metis abind_simps(2))

lemma works_pure: "works P (ret x)" "works P (lift_res (Inr x))" "works P (gets g)"
  by (simp_all add: works_def)

definition ready :: "world \<Rightarrow> object_store_config option \<Rightarrow> node \<Rightarrow> bool" where
  "ready w store s \<longleftrightarrow> dk_writes (nd_disk s) = [] \<and> nd_object_store s = store \<and>
     (\<forall>b. \<exists>sig. signature_text w (nd_signer s) b = Inr sig)"

definition store_ok :: "world \<Rightarrow> object_store_config option \<Rightarrow> bool" where
  "store_ok w store \<longleftrightarrow> (\<forall>c. store = Some c \<longrightarrow> (os_prefix c = [] \<or> safe_path (os_prefix c)) \<and>
     (\<exists>k a. address_for_key (wd_parse_url w) c k = Inr a))"

lemma write_and_read_works:
  assumes "\<And>x. works (ready w c) (f x)"
  shows "works (ready w c) (abind (write_signed_payload_file w p b) (\<lambda>_. abind (read_file (signature_path p)) f))"
  unfolding works_def
proof (intro allI impI)
  fix s
  assume s: "ready w c s"
  then obtain sig where sig: "signature_text w (nd_signer s) b = Inr sig" by (auto simp: ready_def)
  let ?s = "on_disk (\<lambda>d. d\<lparr>dk_files := hm_insert (signature_path p) (as_bytes sig) (hm_insert p b (dk_files d))\<rparr>) s"
  have "write_signed_payload_file w p b s = (Inr (), ?s)"
    using s sig by (simp add: write_signed_payload_file_def write_payload_good ready_def) (simp add: on_disk_def write_payload_good)
  moreover have "read_file (signature_path p) ?s = (Inr (as_bytes sig), ?s)" by (simp add: read_file_def ok_or_def)
  moreover have "ready w c ?s" using s by (simp add: ready_def) (simp add: on_disk_def)
  ultimately show "\<exists>x s'. abind (write_signed_payload_file w p b) (\<lambda>_. abind (read_file (signature_path p)) f) s = (Inr x, s') \<and>
      ready w c s'"
    using assms unfolding works_def by simp
qed

lemma put_object_works:
  assumes "os_prefix c = [] \<or> safe_path (os_prefix c)" and "safe_path ob"
    and "address_for_key (wd_parse_url w) c k = Inr a"
  shows "works (ready w c') (put_object w now c ob b)"
  unfolding works_def
proof (intro allI impI)
  fix s
  assume s: "ready w c' s"
  obtain key where key: "object_key c ob = Inr key" by (rule safe_key [OF assms(1,2)])
  from address_url [OF assms(3)] obtain a' where "address_for_key (wd_parse_url w) c key = Inr a'" by blast
  with key have "object_url w now c ''PUT'' ob b = Inr (sa_url a')" by (simp add: object_url_eq)
  with s show "\<exists>x s'. put_object w now c ob b s = (Inr x, s') \<and> ready w c' s'"
    by (simp add: put_object_def replace_file_good ready_def) (simp add: on_disk_def)
qed

lemma publication_works:
  assumes store: "store_ok w store" and "length (wd_sha256 w (encode_snapshot sn)) = 32"
  shows "works (ready w store) (write_snapshot_manifest_publication w now sn)"
proof -
  define sha where "sha = snapshot_artifact_sha256_hex (wd_sha256 w) (encode_snapshot sn)"
  have hex: "list_all is_ascii_hexdigit sha" by (simp add: sha_def snapshot_artifact_sha256_hex_def hex_encode_hexdigits)
  have "length sha = 64" using assms(2) by (simp add: sha_def snapshot_artifact_sha256_hex_def)
  let ?m = "manifest_for_snapshot sn now (immutable_snapshot_object_name sn sha) (word_of_nat (length (encode_snapshot sn))) sha"
  have f: "sm_artifact_sha256 ?m = sha" "sm_artifact_object ?m = immutable_snapshot_object_name sn sha"
    "sm_artifact_signature_object ?m = immutable_snapshot_object_name sn sha @ ''.sig''"
    by (simp_all add: manifest_for_snapshot_def)
  obtain name where n: "snapshot_manifest_file_name ?m = Inr name"
    using \<open>length sha = 64\<close> by (simp add: snapshot_manifest_file_name_def f)
  have "works (ready w store) (publish_snapshot_to_object_store w now (Some c) p)"
    if p: "pu_manifest p = ?m" and "store = Some c" for p c
  proof -
    from store that(2) obtain k a where c: "os_prefix c = [] \<or> safe_path (os_prefix c)" "address_for_key (wd_parse_url w) c k = Inr a"
      by (auto simp: store_ok_def)
    note puts = put_object_works [OF c(1) _ c(2)]
    show ?thesis
      unfolding publish_snapshot_to_object_store_def option.case p f snapshot_manifest_object_name_def n rbind_Inr abind_steps
      by (intro works_bind works_pure puts artifact_object_safe [OF hex] latest_object_safe manifest_object_safe(1) [OF _ n])
        (use manifest_object_safe(2) [OF _ n] hex in \<open>simp_all add: f\<close>)
  qed
  then have p: "works (ready w store) (publish_snapshot_to_object_store_best_effort w now store p)" if "pu_manifest p = ?m" for p
    using that by (cases store) (fastforce simp: works_def publish_snapshot_to_object_store_best_effort_def abind_app)+
  have g: "works (ready w store) (abind (gets nd_object_store) f)" if "works (ready w store) (f store)" for f :: "_ \<Rightarrow> _ step"
    using that by (simp add: works_def ready_def)
  show ?thesis
    unfolding write_snapshot_manifest_publication_def Let_def sha_def [symmetric] n abind_steps(3)
    by (intro write_and_read_works g works_bind [OF p] works_pure) simp_all
qed

lemma publication_manifest:
  assumes "write_snapshot_manifest_publication w now sn s = (Inr m, s')"
    and "sha = snapshot_artifact_sha256_hex (wd_sha256 w) (encode_snapshot sn)"
  shows "m = manifest_for_snapshot sn now (immutable_snapshot_object_name sn sha)
    (word_of_nat (length (encode_snapshot sn))) sha"
  using assms(1) unfolding write_snapshot_manifest_publication_def Let_def assms(2) [symmetric] abind_Inr
  by (elim exE conjE) simp

text \<open>C28: A node without local state that starts on the object store of a node that published a
  snapshot, under the same store configuration with uploads required, has this snapshot and its
  manifest on its disk before it loads its source of truth.\<close>

theorem publish_then_restore:
  assumes "object_store_from_env ev = Inr c" and "nd_object_store s = Some c" and "os_require_upload c"
    and "write_snapshot_manifest_publication w now sn s = (Inr m, s')"
    and "wire_snapshot sn" and "snapshot_validate sn = Inr ()" and "length (wd_sha256 w (encode_snapshot sn)) = 32"
    and "json_body w (json_bytes w (encode_snapshot_manifest m)) =
      json_object_to_string_map (wd_json_text w) (encode_snapshot_manifest m)"
    and "dk_objects (nd_disk t) = dk_objects (nd_disk s')" and "dk_writes (nd_disk t) = []"
    and "\<not> local_source_state_exists (nd_disk t)"
  shows "\<exists>t' b. restore_snapshot_before_load w later (Some c) t = (Inr (), t') \<and>
    hm_get (dk_files (nd_disk t')) latest_path = Some b \<and> decode_snapshot b = Inr sn \<and>
    hm_get (dk_files (nd_disk t')) latest_manifest_path = Some (json_bytes w (encode_snapshot_manifest m))"
proof -
  define sha where "sha = snapshot_artifact_sha256_hex (wd_sha256 w) (encode_snapshot sn)"
  have hex: "list_all is_ascii_hexdigit sha" by (simp add: sha_def snapshot_artifact_sha256_hex_def hex_encode_hexdigits)
  obtain name asig msig where m: "m = manifest_for_snapshot sn now (immutable_snapshot_object_name sn sha)
           (word_of_nat (length (encode_snapshot sn))) sha" and n: "snapshot_manifest_file_name m = Inr name"
    and st: "stored w c s' LATEST_MANIFEST_OBJECT (json_bytes w (encode_snapshot_manifest m))"
      "stored w c s' (sm_artifact_object m) (encode_snapshot sn)"
      "stored w c s' (sm_artifact_signature_object m) asig" "stored w c s' LATEST_MANIFEST_SIGNATURE_OBJECT msig"
    by (rule publication_stored [OF assms(4,2,3) env_prefix_safe [OF assms(1)] sha_def hex])
  have same: "stored w c t ob b \<longleftrightarrow> stored w c s' ob b" for ob b by (simp add: stored_def assms(9))
  note got = st [folded same, THEN get_stored(1)] st [folded same, THEN get_stored(2)]
  have acc: "validate_artifact (wd_sha256 w) m (encode_snapshot sn) = Inr ()" "validate_manifest_snapshot m sn = Inr ()"
    using manifest_accepts [OF assms(6,7) sha_def m] by simp_all
  then have v: "manifest_validate m = Inr ()" by (cases "manifest_validate m") (auto simp: validate_manifest_snapshot_def)
  have "decode_snapshot (encode_snapshot sn) = Inr sn" using decode_encode_snapshot [OF assms(5), of "[]"] by simp
  moreover have "decode_snapshot_manifest (json_body w) (json_bytes w (encode_snapshot_manifest m)) = Inr m"
    by (rule decode_encode_manifest [OF v]) (rule assms(8))
  ultimately have "\<exists>t'. restore_latest_snapshot_from_object_store w later c t = (Inr True, t') \<and>
      hm_get (dk_files (nd_disk t')) latest_path = Some (encode_snapshot sn) \<and>
      decode_snapshot (encode_snapshot sn) = Inr sn \<and>
      hm_get (dk_files (nd_disk t')) latest_manifest_path = Some (json_bytes w (encode_snapshot_manifest m))"
    using restore_stored [OF got(1) got(6) got(7) got(8) _ v acc(1) _ acc(2) n assms(10)] by blast
  with assms(11) show ?thesis
    by (auto simp: restore_snapshot_before_load_def)
qed

text \<open>The witness: a node with the sample store that publishes an empty source.\<close>

definition sample_snapshot :: snapshot where
  "sample_snapshot = source_snapshot (source_new 1 ''eu'')"

definition sample_manifest :: snapshot_manifest where
  "sample_manifest = manifest_for_snapshot sample_snapshot 9
     (immutable_snapshot_object_name sample_snapshot (hex_encode (replicate 32 7)))
     (word_of_nat (length (encode_snapshot sample_snapshot))) (hex_encode (replicate 32 7))"

definition sample_world :: world where
  "sample_world = \<lparr>wd_sha256 = (\<lambda>_. replicate 32 7), wd_ed_sign = (\<lambda>_ _. replicate 64 9),
     wd_run_command = (\<lambda>_ _. Inl Io), wd_from_json = (\<lambda>_. Inr (encode_snapshot_manifest sample_manifest)),
     wd_json_text = (\<lambda>_. ''{}''), wd_parse_url = (\<lambda>_. Some \<lparr>up_scheme = ''http'', up_path = ''/'',
       up_host = Some ''s3.local'', up_port = Some 9000\<rparr>)\<rparr>"

theorem publish_then_restore_witness:
  "\<exists>c s m s' t' b. write_snapshot_manifest_publication sample_world 9 sample_snapshot s = (Inr m, s') \<and>
     restore_snapshot_before_load sample_world 11 (Some c)
       (on_disk (\<lambda>d. d\<lparr>dk_objects := dk_objects (nd_disk s')\<rparr>) (sample_node ''b'')) = (Inr (), t') \<and>
     hm_get (dk_files (nd_disk t')) latest_path = Some b \<and> decode_snapshot b = Inr sample_snapshot"
proof -
  obtain c where c: "object_store_from_env sample_store_env = Inr c" "os_prefix c = ''globacl''" "os_bucket c = ''acl''"
    "os_force_path_style c" "os_require_upload c" by (rule sample_store)
  let ?w = sample_world
  let ?s = "sample_node ''a''\<lparr>nd_object_store := Some c\<rparr>"
  have sha: "length (wd_sha256 ?w (encode_snapshot sample_snapshot)) = 32" by (simp add: sample_world_def)
  have "signature_text ?w (nd_signer ?s) b = Inr ''{}''" for b
    by (simp add: signature_text_def fresh_node_def sign_payload_def payload_signature_hex_def toy_decode sample_world_def
        format_payload_signature_from_hex_def decode_hex_encode)
  then have ready: "ready ?w (Some c) ?s" by (simp add: ready_def)
  obtain a where a: "address_for_key (wd_parse_url ?w) c ''k'' = Inr a"
    using sample_address [OF c(2-4), of "''s3.local''" "Some 9000" "''k''"] by (simp add: sample_world_def) blast
  obtain m s' where p: "write_snapshot_manifest_publication ?w 9 sample_snapshot ?s = (Inr m, s')"
    using publication_works [of ?w "Some c", OF _ sha] env_prefix_safe [OF c(1)] a ready
    unfolding works_def store_ok_def by blast
  have "m = sample_manifest"
    using publication_manifest [OF p refl] by (simp add: sample_manifest_def sample_world_def snapshot_artifact_sha256_hex_def)
  moreover have "trim ''{}'' = ''{}''" by (rule trim_graphic) (simp add: graphic_def)
  moreover have "str_ok ''{}''" by code_simp
  ultimately have j: "json_body ?w (json_bytes ?w (encode_snapshot_manifest m)) =
      json_object_to_string_map (wd_json_text ?w) (encode_snapshot_manifest m)"
    by (simp add: parse_json_fields_def sample_world_def ok_or_def)
  have "sn_watermarks sample_snapshot = [0]" "sn_shard_count sample_snapshot = 1" "sn_entries sample_snapshot = []"
    "sn_rules sample_snapshot = []" by code_simp+
  then have sn: "wire_snapshot sample_snapshot" "snapshot_validate sample_snapshot = Inr ()"
    by (simp_all add: wire_snapshot_def snapshot_validate_def)
  let ?t = "on_disk (\<lambda>d. d\<lparr>dk_objects := dk_objects (nd_disk s')\<rparr>) (sample_node ''b'')"
  have t: "dk_objects (nd_disk ?t) = dk_objects (nd_disk s')" "dk_writes (nd_disk ?t) = []"
    "\<not> local_source_state_exists (nd_disk ?t)"
    by (simp_all add: local_source_state_exists_def fresh_node_def empty_disk_def hm_contains_def) (simp add: hm_new_def)
  from publish_then_restore [OF c(1) _ c(5) p sn sha j t, of 11] obtain t' b where
    "restore_snapshot_before_load ?w 11 (Some c) ?t = (Inr (), t')"
    "hm_get (dk_files (nd_disk t')) latest_path = Some b" "decode_snapshot b = Inr sample_snapshot"
    by (auto simp: c(5))
  with p show ?thesis by blast
qed

end
