(* ===== verification/Replication.thy ===== *)
theory Replication
  imports Publication Consensus
begin

text \<open>
  The replication of mutations (\<open>globacl-commitd/src/app/commit.rs\<close>, the persistence functions of
  \<open>storage.rs\<close> and the peer requests of \<open>config.rs\<close>).

  The source of truth is locked while a mutation is replicated, so a commit is one step of the
  node, except that the consensus state may change while the answers of the peers are awaited:
  \<open>meanwhile\<close> says what the other threads do then.  The answers come in the order of their arrival;
  a list that ends early stands for the timeout.  Requests to peers are collected in \<open>nd_posts\<close>.
  \<open>now\<close> is the reading of the clock for publications.
\<close>

section \<open>Persistence\<close>

definition persist_mutation :: "mutation \<Rightarrow> unit step" where
  "persist_mutation m =
     abind (append_file (\<lambda>cut d. d\<lparr>dk_logs := (case cut of
         None \<Rightarrow> append_mutation_to_log m (dk_logs d)
       | Some n \<Rightarrow> hm_insert (mu_shard m) (log_bytes (dk_logs d) (mu_shard m) @ take n (encode_record m)) (dk_logs d))\<rparr>))
       (\<lambda>_. replace_file (\<lambda>d. d\<lparr>dk_bundles :=
              write_delta_bundle_file (mu_shard m) (mu_seq m) (mu_seq m) [m] (dk_bundles d)\<rparr>))"

definition persist_idempotency_snapshot :: "mutation list \<Rightarrow> unit step" where
  "persist_idempotency_snapshot ms = replace_file (\<lambda>d. d\<lparr>dk_idempotency := Some (encode_mutation_stream ms)\<rparr>)"

definition compaction_watermarks_for_snapshot :: "node \<Rightarrow> source \<Rightarrow> snapshot \<Rightarrow> u64 list res" where
  "compaction_watermarks_for_snapshot s src sn =
     (let watermarks = (case nd_publisher s of
          None \<Rightarrow> sn_watermarks sn
        | Some _ \<Rightarrow> map (\<lambda>(i, w). min w (vec_get_or 0 (ps_last_published (nd_published s)) i))
                       (enumerate 0 (sn_watermarks sn)))
      in rmap (\<lambda>(i, w). rbind (vec_index (so_compacted src) i) (\<lambda>c. Inr (max w c))) (enumerate 0 watermarks))"

text \<open>\<open>compact_logs_to_watermarks\<close> on the disk: one file after the other is read, then replaced.\<close>

definition compact_shard_file :: "u64 list \<Rightarrow> u16 \<Rightarrow> unit step" where
  "compact_shard_file ws i =
     abind (lift_res (vec_index ws (unat i))) (\<lambda>w.
     abind (gets (\<lambda>s. read_shard_log (dk_logs (nd_disk s)) i)) (\<lambda>r.
     abind (lift_res r) (\<lambda>ms.
       replace_file (\<lambda>d. d\<lparr>dk_logs := write_shard_log i (filter (\<lambda>m. w < mu_seq m) ms) (dk_logs d)\<rparr>))))"

definition compact_log_files :: "u16 \<Rightarrow> u64 list \<Rightarrow> unit step" where
  "compact_log_files shard_count ws =
     (if length ws \<noteq> unat shard_count then raise InvalidData else afor (compact_shard_file ws) (shard_ids shard_count))"

definition compact_mutation_logs_locked :: "world \<Rightarrow> u64 \<Rightarrow> unit step" where
  "compact_mutation_logs_locked w now =
     abind (gets nd_source) (\<lambda>src.
     let sn = source_snapshot src in
     abind (gets (\<lambda>s. compaction_watermarks_for_snapshot s src sn)) (\<lambda>r.
     abind (lift_res r) (\<lambda>compaction_watermarks.
     abind (persist_latest_snapshot w now sn) (\<lambda>_.
     abind (persist_idempotency_snapshot (idempotency_mutations src)) (\<lambda>_.
     abind (compact_log_files (so_shard_count src) compaction_watermarks) (\<lambda>_.
       source_act (\<lambda>src. rbind (compact_mutation_history compaction_watermarks src) (\<lambda>src. Inr (src, ())))))))))"

definition log_is_short :: "node \<Rightarrow> bool" where
  "log_is_short s = (cc_min_log_entries (nd_compaction s) = 0 \<or>
     length (so_mutations (nd_source s)) < cc_min_log_entries (nd_compaction s))"

definition maybe_compact_mutation_logs :: "world \<Rightarrow> u64 \<Rightarrow> unit step" where
  "maybe_compact_mutation_logs w now =
     abind (gets log_is_short) (\<lambda>short. if short then ret () else compact_mutation_logs_locked w now)"

definition compact_mutation_logs :: "world \<Rightarrow> u64 \<Rightarrow> bool \<Rightarrow> unit step" where
  "compact_mutation_logs w now force =
     abind (gets log_is_short) (\<lambda>short. if \<not> force \<and> short then ret () else compact_mutation_logs_locked w now)"

definition archive_name_for_mutation :: "mutation \<Rightarrow> string" where
  "archive_name_for_mutation m =
     ''epoch_'' @ pad_dec 20 (unat (mu_committed_at_unix m)) @ ''_shard_'' @ pad_dec 4 (unat (mu_shard m)) @
     ''_seq_'' @ pad_dec 20 (unat (mu_seq m))"

definition apply_prepared_mutation :: "world \<Rightarrow> u64 \<Rightarrow> mutation \<Rightarrow> apply_status step" where
  "apply_prepared_mutation w now m =
     abind (gets (\<lambda>s. mu_seq m \<le> vec_get_or 0 (so_watermarks (nd_source s)) (unat (mu_shard m)))) (\<lambda>already.
     abind (if already then ret () else persist_mutation m) (\<lambda>_.
     abind (source_act (apply_replicated_mutation m)) (\<lambda>status.
     abind (if status = Applied then
              abind (gets (\<lambda>s. source_snapshot (nd_source s))) (\<lambda>sn.
              abind (persist_latest_snapshot w now sn) (\<lambda>_.
              abind (persist_archived_snapshot w now sn (archive_name_for_mutation m)) (\<lambda>_.
                maybe_compact_mutation_logs w now)))
            else ret ()) (\<lambda>_.
     abind (remove_pending_mutation m) (\<lambda>_. ret status)))))"

section \<open>Requests to peers\<close>

definition PEER_TOKEN_HEADER :: string where "PEER_TOKEN_HEADER = ''X-Globacl-Peer-Token''"
definition LEADER_ID_HEADER :: string where "LEADER_ID_HEADER = ''X-Globacl-Leader-Id''"

definition peer_header_values :: "node \<Rightarrow> (string \<times> string) list" where
  "peer_header_values s = (case nd_peer_token s of None \<Rightarrow> [] | Some token \<Rightarrow> [(PEER_TOKEN_HEADER, token)])"

definition replication_header_values :: "node \<Rightarrow> (string \<times> string) list" where
  "replication_header_values s = peer_header_values s @ [(LEADER_ID_HEADER, rc_node_id (nd_config s))]"

text \<open>The loop over the answers: \<open>pending\<close> peers have not answered yet.\<close>

fun count_replicated :: "nat \<Rightarrow> nat \<Rightarrow> http_response res list \<Rightarrow> nat \<Rightarrow> nat" where
  "count_replicated quorum 0 answers n = n"
| "count_replicated quorum (Suc pending) [] n = n"
| "count_replicated quorum (Suc pending) (a # as) n =
     (if quorum \<le> n then n
      else count_replicated quorum pending as
             (case a of Inr r \<Rightarrow> if hr_status_code r = 200 then n + 1 else n | Inl _ \<Rightarrow> n))"

definition post_to_all :: "string \<Rightarrow> bytes \<Rightarrow> (node \<Rightarrow> (string \<times> string) list) \<Rightarrow> unit step" where
  "post_to_all route payload headers = modify (\<lambda>s. s\<lparr>nd_posts := nd_posts s @
     map (\<lambda>p. \<lparr>pp_addr = cp_addr p, pp_route = route, pp_headers = headers s, pp_body = payload\<rparr>)
       (remote_peers (nd_config s))\<rparr>)"

definition post_to_remote_peers_best_effort ::
  "string \<Rightarrow> bytes \<Rightarrow> (node \<Rightarrow> (string \<times> string) list) \<Rightarrow> unit step" where
  "post_to_remote_peers_best_effort route payload headers = post_to_all route payload headers"

definition post_to_remote_peers_until_quorum ::
  "string \<Rightarrow> bytes \<Rightarrow> (node \<Rightarrow> (string \<times> string) list) \<Rightarrow> (node \<Rightarrow> node) \<Rightarrow> http_response res list \<Rightarrow> nat step"
  where
  "post_to_remote_peers_until_quorum route payload headers meanwhile answers =
     abind (gets nd_config) (\<lambda>c.
     if rc_quorum c \<le> 1 \<or> remote_peers c = [] then ret 1
     else
       abind (post_to_all route payload headers) (\<lambda>_.
       abind (modify meanwhile) (\<lambda>_.
         ret (count_replicated (rc_quorum c) (length (remote_peers c)) answers 1))))"

section \<open>The leader\<close>

definition commit_on_peers :: "mutation \<Rightarrow> unit step" where
  "commit_on_peers m =
     abind (gets (\<lambda>s. is_clustered (nd_config s))) (\<lambda>clustered.
     if \<not> clustered then ret ()
     else post_to_remote_peers_best_effort ''/internal/replication/commit'' (encode_mutation m) replication_header_values)"

definition abort_on_peers :: "mutation \<Rightarrow> unit step" where
  "abort_on_peers m =
     post_to_remote_peers_best_effort ''/internal/replication/abort'' (encode_mutation m) replication_header_values"

definition prepare_on_quorum :: "(node \<Rightarrow> node) \<Rightarrow> http_response res list \<Rightarrow> mutation \<Rightarrow> unit step" where
  "prepare_on_quorum meanwhile answers m =
     abind (gets nd_config) (\<lambda>c.
     if \<not> is_clustered c then ret ()
     else
       abind (post_to_remote_peers_until_quorum ''/internal/replication/prepare'' (encode_mutation m)
                replication_header_values meanwhile answers) (\<lambda>prepared.
       if rc_quorum c \<le> prepared then ret ()
       else abind (abort_on_peers m) (\<lambda>_. raise InvalidData)))"

definition write_authority :: "u64 step" where
  "write_authority = abind (gets ensure_write_authority) lift_res"

definition commit_prepared_outcome ::
  "world \<Rightarrow> u64 \<Rightarrow> (node \<Rightarrow> node) \<Rightarrow> http_response res list \<Rightarrow> commit_outcome \<Rightarrow> commit_outcome step" where
  "commit_prepared_outcome w now meanwhile answers outcome =
     (if co_duplicate outcome then ret outcome
      else
        let m = co_mutation outcome in
        abind write_authority (\<lambda>term.
        if ci_epoch (mu_commit_id m) \<noteq> term then raise InvalidData
        else
          abind (prepare_on_quorum meanwhile answers m) (\<lambda>_.
          abind write_authority (\<lambda>term.
          if ci_epoch (mu_commit_id m) \<noteq> term then abind (abort_on_peers m) (\<lambda>_. raise InvalidData)
          else
            abind (apply_prepared_mutation w now m) (\<lambda>_.
            abind (commit_on_peers m) (\<lambda>_. ret outcome))))))"

text \<open>\<open>now0\<close> is the time of the mutation.\<close>

definition commit_request ::
  "world \<Rightarrow> u64 \<Rightarrow> u64 \<Rightarrow> (node \<Rightarrow> node) \<Rightarrow> http_response res list \<Rightarrow> deny_request \<Rightarrow> commit_outcome step" where
  "commit_request w now0 now meanwhile answers r =
     abind write_authority (\<lambda>term.
     abind (modify (on_source (set_epoch term))) (\<lambda>_.
     abind (gets (\<lambda>s. prepare_commit now0 r (nd_source s))) (\<lambda>outcome.
     abind (lift_res outcome) (\<lambda>outcome.
       commit_prepared_outcome w now meanwhile answers outcome))))"

definition commit_rule_request ::
  "world \<Rightarrow> u64 \<Rightarrow> u64 \<Rightarrow> (node \<Rightarrow> node) \<Rightarrow> http_response res list \<Rightarrow> rule_request \<Rightarrow> commit_outcome step" where
  "commit_rule_request w now0 now meanwhile answers r =
     abind write_authority (\<lambda>term.
     abind (modify (on_source (set_epoch term))) (\<lambda>_.
     abind (gets (\<lambda>s. prepare_rule_commit now0 r (nd_source s))) (\<lambda>outcome.
     abind (lift_res outcome) (\<lambda>outcome.
       commit_prepared_outcome w now meanwhile answers outcome))))"

text \<open>The synthetic entry that shows that commits work.\<close>

definition canary_request :: "u64 \<Rightarrow> deny_request" where
  "canary_request now =
     \<lparr>dr_op_id = ''canary-'' @ dec_string (unat now), dr_tenant_id = ''globacl'', dr_namespace = ''canary'',
      dr_key = ''sentinel-'' @ dec_string (unat now), dr_action = Deny, dr_priority = 0,
      dr_reason_code = ''synthetic_canary'', dr_expires_at = now + 120, dr_created_by = ''globacl-commitd'',
      dr_delivery_priority = P0\<rparr>"

definition commit_canary ::
  "world \<Rightarrow> u64 \<Rightarrow> u64 \<Rightarrow> u64 \<Rightarrow> (node \<Rightarrow> node) \<Rightarrow> http_response res list \<Rightarrow> canary_status step" where
  "commit_canary w now now0 now' meanwhile answers =
     (let r = canary_request now in
      abind (commit_request w now0 now' meanwhile answers r) (\<lambda>outcome.
      let status = \<lparr>ca_op_id = dr_op_id r, ca_key = dr_key r, ca_shard_id = mu_shard (co_mutation outcome),
        ca_seq = mu_seq (co_mutation outcome), ca_created_at_unix = now, ca_expires_at = now + 120\<rparr>
      in abind (modify (\<lambda>s. s\<lparr>nd_canary := Some status\<rparr>)) (\<lambda>_. ret status)))"

definition format_canary_status :: "canary_status \<Rightarrow> json" where
  "format_canary_status c = JObject
     [(''status'', JString ''ok''), (''op_id'', JString (ca_op_id c)), (''tenant_id'', JString ''globacl''),
      (''namespace'', JString ''canary''), (''key'', JString (ca_key c)),
      (''shard_id'', json_nat (unat (ca_shard_id c))), (''seq'', json_u64 (ca_seq c)),
      (''created_at_unix'', json_u64 (ca_created_at_unix c)), (''expires_at'', json_u64 (ca_expires_at c)),
      (''delivery_priority'', JString ''p0'')]"

section \<open>Followers\<close>

definition ensure_same_cluster :: "node \<Rightarrow> mutation \<Rightarrow> unit res" where
  "ensure_same_cluster s m =
     (if ci_source_region (mu_commit_id m) = rc_cluster_id (nd_config s) then Inr () else Inl InvalidData)"

definition same_cluster :: "mutation \<Rightarrow> unit step" where
  "same_cluster m = abind (gets (\<lambda>s. ensure_same_cluster s m)) lift_res"

definition prepare_replicated_mutation :: "u64 \<Rightarrow> u64 \<Rightarrow> mutation \<Rightarrow> unit step" where
  "prepare_replicated_mutation now1 now2 m =
     abind (same_cluster m) (\<lambda>_.
     abind (ensure_mutation_term now1 now2 m) (\<lambda>_.
     abind (gets (\<lambda>s. vec_get (so_watermarks (nd_source s)) (unat (mu_shard m)))) (\<lambda>current.
     abind (lift_res (ok_or InvalidData current)) (\<lambda>current_seq.
     if mu_seq m \<le> current_seq then ret ()
     else
       let expected_seq = current_seq + 1 in
       if mu_seq m \<noteq> expected_seq then raise (Gap (mu_shard m) expected_seq (mu_seq m))
       else write_pending_mutation m))))"

definition prepare_replicated_mutation_from_leader :: "u64 \<Rightarrow> u64 \<Rightarrow> mutation \<Rightarrow> string \<Rightarrow> unit step" where
  "prepare_replicated_mutation_from_leader now1 now2 m leader_id =
     abind (same_cluster m) (\<lambda>_.
     abind (ensure_replication_leader now1 now2 m leader_id) (\<lambda>_.
       prepare_replicated_mutation now1 now2 m))"

definition commit_replicated_mutation :: "world \<Rightarrow> u64 \<Rightarrow> u64 \<Rightarrow> u64 \<Rightarrow> mutation \<Rightarrow> bool \<Rightarrow> apply_status step" where
  "commit_replicated_mutation w now now1 now2 m require_pending =
     abind (same_cluster m) (\<lambda>_.
     abind (ensure_mutation_term now1 now2 m) (\<lambda>_.
     abind (gets (\<lambda>s. mu_seq m \<le> vec_get_or 0 (so_watermarks (nd_source s)) (unat (mu_shard m)))) (\<lambda>already.
     abind (if require_pending \<and> \<not> already
            then abind (gets (\<lambda>s. ensure_pending_mutation (nd_disk s) m)) lift_res
            else ret ()) (\<lambda>_.
       apply_prepared_mutation w now m))))"

definition commit_replicated_mutation_from_leader ::
  "world \<Rightarrow> u64 \<Rightarrow> u64 \<Rightarrow> u64 \<Rightarrow> mutation \<Rightarrow> bool \<Rightarrow> string \<Rightarrow> apply_status step" where
  "commit_replicated_mutation_from_leader w now now1 now2 m require_pending leader_id =
     abind (same_cluster m) (\<lambda>_.
     abind (ensure_replication_leader now1 now2 m leader_id) (\<lambda>_.
       commit_replicated_mutation w now now1 now2 m require_pending))"

definition abort_replicated_mutation_from_leader :: "u64 \<Rightarrow> u64 \<Rightarrow> mutation \<Rightarrow> string \<Rightarrow> unit step" where
  "abort_replicated_mutation_from_leader now1 now2 m leader_id =
     abind (same_cluster m) (\<lambda>_.
     abind (ensure_replication_leader now1 now2 m leader_id) (\<lambda>_.
       remove_pending_mutation m))"

section \<open>Loading after a restart\<close>

text \<open>The records above the snapshot; an index outside of the watermarks panics.\<close>

definition tail_of :: "u64 list \<Rightarrow> mutation list \<Rightarrow> mutation list res" where
  "tail_of ws ms = rfilter (\<lambda>m. rbind (vec_index ws (unat (mu_shard m))) (\<lambda>w. Inr (w < mu_seq m))) ms"

definition load_source_of_truth :: "disk \<Rightarrow> u16 \<Rightarrow> string \<Rightarrow> u64 list option \<Rightarrow> source res" where
  "load_source_of_truth d shard_count cluster_id publisher_offsets = (case hm_get (dk_files d) latest_path of
     Some b \<Rightarrow>
       rbind (decode_snapshot b) (\<lambda>sn.
       rbind (snapshot_validate sn) (\<lambda>_.
       if sn_shard_count sn \<noteq> shard_count then Inl InvalidData
       else
         rbind (load_all_logs (dk_logs d) shard_count) (\<lambda>all_log_mutations.
         let replayed = source_from_mutations shard_count cluster_id all_log_mutations in
         if publisher_offsets \<noteq> None \<and> all_log_mutations \<noteq> [] \<and>
            (case replayed of Inr r \<Rightarrow> so_watermarks r = sn_watermarks sn | Inl _ \<Rightarrow> False)
         then replayed
         else
           rbind (case dk_idempotency d of
                    Some f \<Rightarrow> rbind (decode_mutation_stream f) (\<lambda>ms. Inr (ms @ all_log_mutations))
                  | None \<Rightarrow> Inr all_log_mutations) (\<lambda>idempotency_mutations.
           case publisher_offsets of
             Some offsets \<Rightarrow>
               if length offsets \<noteq> unat shard_count then Inl InvalidData
               else source_from_snapshot_and_retained_history shard_count cluster_id sn idempotency_mutations
                      all_log_mutations (map2 min offsets (sn_watermarks sn))
           | None \<Rightarrow>
               rbind (tail_of (sn_watermarks sn) all_log_mutations) (\<lambda>tail_mutations.
                 source_from_snapshot_and_mutations shard_count cluster_id sn idempotency_mutations
                   tail_mutations)))))
   | None \<Rightarrow>
       rbind (load_all_logs (dk_logs d) shard_count) (source_from_mutations shard_count cluster_id))"

section \<open>Queries\<close>

definition query_from_seq :: "form \<Rightarrow> u64 res" where
  "query_from_seq q = (case first_field q [''from_seq'', ''from''] of
     Some v \<Rightarrow> parse_query_u64 v | None \<Rightarrow> Inr 0)"

definition compacted_seq_for_query :: "node \<Rightarrow> form \<Rightarrow> u64 option res" where
  "compacted_seq_for_query s q =
     rbind (required_query_u16 q ''shard'') (\<lambda>shard_id.
     rbind (query_from_seq q) (\<lambda>from_seq.
       Inr (mutation_history_compacted (nd_source s) shard_id from_seq)))"

definition mutations_for_query :: "node \<Rightarrow> form \<Rightarrow> mutation list res" where
  "mutations_for_query s q =
     rbind (required_query_u16 q ''shard'') (\<lambda>shard_id.
     rbind (query_from_seq q) (\<lambda>from_seq.
     rbind (case first_field q [''delivery_priority'', ''channel''] of
              Some v \<Rightarrow> rbind (priority_from_name v) (\<lambda>p. Inr (Some p))
            | None \<Rightarrow> Inr None) (\<lambda>priority_filter.
     let ms = source_mutations_for_shard (nd_source s) shard_id from_seq in
       Inr (case priority_filter of
              Some p \<Rightarrow> filter (\<lambda>m. mu_delivery_priority m = p) ms
            | None \<Rightarrow> ms))))"

definition delta_bundle_for_query :: "node \<Rightarrow> form \<Rightarrow> mutation list res" where
  "delta_bundle_for_query s q =
     rbind (required_query_u16 q ''shard'') (\<lambda>shard_id.
     rbind (query_from_seq q) (\<lambda>from_seq.
     rbind (case first_field q [''to_seq'', ''to''] of
              Some v \<Rightarrow> parse_query_u64 v
            | None \<Rightarrow> Inr (- 1)) (\<lambda>to_seq.
       Inr (filter (\<lambda>m. mu_seq m \<le> to_seq) (source_mutations_for_shard (nd_source s) shard_id from_seq)))))"

definition blast_radius_override_enabled :: "form \<Rightarrow> bool" where
  "blast_radius_override_enabled f =
     (case first_field f [''override_blast_radius'', ''blast_radius_override'', ''two_person_approved''] of
        Some v \<Rightarrow> to_ascii_lowercase (trim v) \<in> set [''1'', ''true'', ''yes'']
      | None \<Rightarrow> False)"

end
