(* ===== verification/Durability.thy ===== *)
theory Durability
  imports Replication Restore
begin

text \<open>
  What survives a restart.  A node without a publisher loads its source of truth from the latest
  snapshot, the shard logs and the idempotency file; \<open>holds d src\<close> says that these files of the
  directory \<open>d\<close> hold the content of \<open>src\<close>, \<open>ahead d m src\<close> that a record of the log is ahead of
  the snapshot by the mutation \<open>m\<close>.  Every write of \<open>apply_prepared_mutation\<close> keeps one of the two,
  so that a crash between any two of them loses nothing and invents nothing.
\<close>

section \<open>Content\<close>

definition same_content :: "source \<Rightarrow> source \<Rightarrow> bool" where
  "same_content s t \<longleftrightarrow> so_shard_count s = so_shard_count t \<and> source_view s = source_view t \<and>
     hm_get (so_op_index s) = hm_get (so_op_index t)"

definition indexed :: "source \<Rightarrow> mutation \<Rightarrow> bool" where
  "indexed s m \<longleftrightarrow> hm_get (so_op_index s) (mu_op_id m) = Some m"

lemma find_by_key:
  assumes "hm_ok m" and "\<forall>k v. hm_get m k = Some v \<longrightarrow> key v = k"
  shows "find (\<lambda>v. key v = k) (rev (hm_values m)) = hm_get m k"
proof (cases "hm_get m k")
  case None
  then have "\<not> (\<exists>v \<in> set (hm_values m). key v = k)" using assms by (auto simp: hm_values_set)
  with None show ?thesis by (simp add: find_None_iff)
next
  case (Some v)
  then have "v \<in> set (hm_values m)" "key v = k" using assms by (auto simp: hm_values_set)
  then have "find (\<lambda>v. key v = k) (rev (hm_values m)) \<noteq> None" by (auto simp: find_None_iff)
  then obtain u where u: "find (\<lambda>v. key v = k) (rev (hm_values m)) = Some u" by auto
  then have "u \<in> set (hm_values m)" "key u = k" by (auto simp: find_Some_iff rev_nth)
  then have "hm_get m k = Some u" using assms by (auto simp: hm_values_set)
  with u show ?thesis by simp
qed

lemma put_snapshot_content:
  assumes "source_shape s"
  shows "hm_get (put_entries (hm_values (so_entries s)) hm_new) = hm_get (so_entries s)"
    and "hm_get (put_rules (hm_values (so_rules s)) hm_new) = hm_get (so_rules s)"
  using assms
  by (auto simp: fun_eq_iff put_entries_get put_rules_get find_by_key source_shape_def entries_ok_def rules_ok_def
      split: option.splits)

lemma insert_all_indexed:
  assumes "\<forall>m \<in> set ms. f (mu_op_id m) = Some m" and "\<forall>k m. hm_get (so_op_index s) k = Some m \<longrightarrow> f k = Some m"
  shows "\<exists>ix. rfold insert_op_index ms s = Inr (s\<lparr>so_op_index := ix\<rparr>) \<and>
    (\<forall>k. hm_get ix k = (if \<exists>m \<in> set ms. mu_op_id m = k then f k else hm_get (so_op_index s) k))"
  using assms
proof (induction ms arbitrary: s)
  case Nil
  then show ?case by (intro exI [of _ "so_op_index s"]) simp
next
  case (Cons m ms)
  show ?case
  proof (cases "hm_get (so_op_index s) (mu_op_id m)")
    case None
    let ?s = "s\<lparr>so_op_index := hm_insert (mu_op_id m) m (so_op_index s)\<rparr>"
    have step: "insert_op_index m s = Inr ?s" using None by (simp add: insert_op_index_def)
    have "\<forall>k x. hm_get (so_op_index ?s) k = Some x \<longrightarrow> f k = Some x" using Cons.prems by auto
    with Cons.IH [of ?s] Cons.prems(1) obtain ix where "rfold insert_op_index ms ?s = Inr (?s\<lparr>so_op_index := ix\<rparr>)"
      "\<forall>k. hm_get ix k = (if \<exists>m \<in> set ms. mu_op_id m = k then f k else hm_get (so_op_index ?s) k)" by auto
    with step Cons.prems(1) show ?thesis by (intro exI [of _ ix]) auto
  next
    case (Some x)
    with Cons.prems have "x = m" by force
    with Some have step: "insert_op_index m s = Inr s" by (simp add: insert_op_index_def)
    from Cons.IH [of s] Cons.prems obtain ix where "rfold insert_op_index ms s = Inr (s\<lparr>so_op_index := ix\<rparr>)"
      "\<forall>k. hm_get ix k = (if \<exists>m \<in> set ms. mu_op_id m = k then f k else hm_get (so_op_index s) k)" by auto
    with step Cons.prems(1) Some \<open>x = m\<close> show ?thesis by (intro exI [of _ ix]) auto
  qed
qed

section \<open>The files of the source of truth\<close>

definition idempotency_list :: "disk \<Rightarrow> mutation list res" where
  "idempotency_list d = (case dk_idempotency d of Some f \<Rightarrow> decode_mutation_stream f | None \<Rightarrow> Inr [])"

definition shard_log :: "disk \<Rightarrow> u16 \<Rightarrow> mutation list" where
  "shard_log d i = (case read_shard_log (dk_logs d) i of Inr ms \<Rightarrow> ms | Inl _ \<Rightarrow> [])"

text \<open>The logs are readable, and together with the idempotency file they hold the index of \<open>src\<close>.\<close>

definition archived :: "disk \<Rightarrow> source \<Rightarrow> bool" where
  "archived d src \<longleftrightarrow>
     (\<forall>i < so_shard_count src. \<exists>ms. read_shard_log (dk_logs d) i = Inr ms \<and>
        (\<forall>m \<in> set ms. wire_record m \<and> mu_shard m = i \<and> indexed src m)) \<and>
     (\<exists>ms. idempotency_list d = Inr ms \<and> (\<forall>m \<in> set ms. indexed src m) \<and>
        (\<forall>m. indexed src m \<longrightarrow> m \<in> set ms \<or> m \<in> set (shard_log d (mu_shard m))))"

text \<open>What the formats of the files can hold.\<close>

definition storable :: "source \<Rightarrow> bool" where
  "storable src \<longleftrightarrow> wire_snapshot (source_snapshot src) \<and> snapshot_validate (source_snapshot src) = Inr () \<and>
     length (so_op_index src) < 2 ^ 64 \<and> (\<forall>m. indexed src m \<longrightarrow> wire_record m)"

definition latest_is :: "disk \<Rightarrow> source \<Rightarrow> bool" where
  "latest_is d src \<longleftrightarrow> hm_get (dk_files d) latest_path = Some (encode_snapshot (source_snapshot src))"

definition holds :: "disk \<Rightarrow> source \<Rightarrow> bool" where
  "holds d src \<longleftrightarrow> source_ok src \<and> storable src \<and> archived d src \<and> latest_is d src"

definition logs_above :: "disk \<Rightarrow> u16 \<Rightarrow> u64 list \<Rightarrow> mutation list" where
  "logs_above d n ws = filter (\<lambda>m. ws ! unat (mu_shard m) < mu_seq m) (concat (map (shard_log d) (shard_ids n)))"

text \<open>\<open>old\<close> is the source before, \<open>src\<close> the one after the mutation.\<close>

definition ahead :: "disk \<Rightarrow> mutation \<Rightarrow> source \<Rightarrow> source \<Rightarrow> bool" where
  "ahead d m old src \<longleftrightarrow> source_ok old \<and> storable old \<and> source_ok src \<and> storable src \<and>
     apply_replicated_mutation m old = Inr (src, Applied) \<and> archived d src \<and> latest_is d old \<and>
     logs_above d (so_shard_count old) (so_watermarks old) = [m]"

section \<open>Loading\<close>

lemma archived_logs:
  assumes "archived d src"
  shows "load_all_logs (dk_logs d) (so_shard_count src) = Inr (concat (map (shard_log d) (shard_ids (so_shard_count src))))"
    and "\<forall>m \<in> set (concat (map (shard_log d) (shard_ids (so_shard_count src)))).
      indexed src m \<and> mu_shard m < so_shard_count src"
proof -
  have r: "read_shard_log (dk_logs d) i = Inr (shard_log d i) \<and> (\<forall>m \<in> set (shard_log d i). mu_shard m = i \<and> indexed src m)"
    if "i < so_shard_count src" for i
    using assms that by (fastforce simp: archived_def shard_log_def)
  then show "load_all_logs (dk_logs d) (so_shard_count src) = Inr (concat (map (shard_log d) (shard_ids (so_shard_count src))))"
    by (intro load_all_logs_ok) simp
  show "\<forall>m \<in> set (concat (map (shard_log d) (shard_ids (so_shard_count src)))). indexed src m \<and> mu_shard m < so_shard_count src"
    using r by (auto simp: set_shard_ids)
qed

lemma tail_of_ok:
  "\<forall>m \<in> set ms. unat (mu_shard m) < length ws \<Longrightarrow>
    tail_of ws ms = Inr (filter (\<lambda>m. ws ! unat (mu_shard m) < mu_seq m) ms)"
  unfolding tail_of_def by (induction ms) (auto simp: vec_index_eq_Inr)

text \<open>Loading, when the snapshot is the one of \<open>old\<close>.\<close>

lemma load_unfolded:
  assumes "archived d src" and "latest_is d old" and "source_ok old" and "storable old"
    and "so_shard_count old = so_shard_count src" and "source_ok src"
  shows "\<exists>ms. load_source_of_truth d (so_shard_count src) region None =
      source_from_snapshot_and_mutations (so_shard_count src) region (source_snapshot old) ms
        (logs_above d (so_shard_count src) (so_watermarks old)) \<and>
    set ms = {m. indexed src m}"
proof -
  let ?n = "so_shard_count src"
  let ?logs = "concat (map (shard_log d) (shard_ids ?n))"
  have len: "length (so_watermarks old) = unat ?n" using assms(3,5) by (simp add: source_ok_def history_ok_def)
  note logs = archived_logs [OF assms(1)]
  obtain ms where ms: "idempotency_list d = Inr ms" "\<forall>m \<in> set ms. indexed src m"
    "\<forall>m. indexed src m \<longrightarrow> m \<in> set ms \<or> m \<in> set (shard_log d (mu_shard m))"
    using assms(1) by (auto simp: archived_def)
  have "decode_snapshot (encode_snapshot (source_snapshot old)) = Inr (source_snapshot old)"
    using decode_encode_snapshot [of "source_snapshot old" "[]"] assms(4) by (simp add: storable_def)
  moreover have "sn_shard_count (source_snapshot old) = ?n" "sn_watermarks (source_snapshot old) = so_watermarks old"
    using assms(5) by (simp_all add: source_snapshot_def)
  moreover have "tail_of (so_watermarks old) ?logs = Inr (logs_above d ?n (so_watermarks old))"
    unfolding logs_above_def using logs(2) len by (intro tail_of_ok) (auto simp: word_less_nat_alt)
  moreover have "(case dk_idempotency d of Some f \<Rightarrow> rbind (decode_mutation_stream f) (\<lambda>ms. Inr (ms @ ?logs))
      | None \<Rightarrow> Inr ?logs) = Inr (ms @ ?logs)"
    using ms(1) by (auto simp: idempotency_list_def split: option.splits)
  ultimately have "load_source_of_truth d ?n region None = source_from_snapshot_and_mutations ?n region
      (source_snapshot old) (ms @ ?logs) (logs_above d ?n (so_watermarks old))"
    using assms(2,4) logs(1) by (simp add: load_source_of_truth_def latest_is_def storable_def)
  moreover have "indexed src m \<Longrightarrow> m \<in> set (ms @ ?logs)" for m
  proof -
    assume i: "indexed src m"
    then have "covered (so_watermarks src) m" "length (so_watermarks src) = unat ?n"
      using assms(6) by (auto simp: indexed_def source_ok_def source_shape_def index_covered_def)
    then have "mu_shard m \<in> set (shard_ids ?n)" by (simp add: covered_def set_shard_ids word_less_nat_alt)
    then show "m \<in> set (ms @ ?logs)" using ms(3) i by auto
  qed
  then have "set (ms @ ?logs) = {m. indexed src m}" using ms(2) logs(2) unfolding set_append by blast
  ultimately show ?thesis by blast
qed

text \<open>After the index has been filled.\<close>

lemma snapshot_indexed:
  assumes "source_ok old" and "so_shard_count old = so_shard_count src" and "set ms = {m. indexed src m}"
    and "index_ok (so_op_index src)"
  shows "\<exists>t. rfold insert_op_index ms (source_with_snapshot (so_shard_count src) region (source_snapshot old) cs) = Inr t \<and>
    so_shard_count t = so_shard_count src \<and> source_view t = source_view old \<and>
    hm_get (so_op_index t) = hm_get (so_op_index src)"
proof -
  let ?n = "so_shard_count src"
  let ?s = "source_with_snapshot ?n region (source_snapshot old) cs"
  have new: "so_op_index ?s = hm_new" by (simp add: source_with_snapshot_def source_new_def Let_def)
  obtain ix where ix: "rfold insert_op_index ms ?s = Inr (?s\<lparr>so_op_index := ix\<rparr>)"
    "\<forall>k. hm_get ix k = (if \<exists>m \<in> set ms. mu_op_id m = k then hm_get (so_op_index src) k else None)"
    using insert_all_indexed [of ms "hm_get (so_op_index src)" ?s] assms(3) unfolding new hm_get_new indexed_def by blast
  have "hm_get ix k = hm_get (so_op_index src) k" for k
  proof (cases "hm_get (so_op_index src) k")
    case None
    with ix(2) show ?thesis by simp
  next
    case (Some m)
    then have "mu_op_id m = k" using assms(4) by (simp add: index_ok_def)
    with Some have "m \<in> set ms" by (simp add: assms(3) indexed_def)
    with ix(2) \<open>mu_op_id m = k\<close> Some show ?thesis by auto
  qed
  then have "hm_get ix = hm_get (so_op_index src)" by (rule ext)
  moreover have "max ?n 1 = ?n"
    using inc_le [of 0 ?n] assms(1,2) by (simp add: source_ok_def max_absorb1)
  then have "so_shard_count ?s = ?n" "source_view ?s = source_view old"
    using put_snapshot_content [OF source_ok_shape [OF assms(1)]]
    by (simp_all add: source_with_snapshot_def source_new_def source_view_def source_snapshot_def Let_def)
  ultimately show ?thesis using ix(1) by (auto simp: source_view_def)
qed

lemma holds_loads:
  assumes "holds d src"
  shows "\<exists>t. load_source_of_truth d (so_shard_count src) region None = Inr t \<and> same_content t src"
proof -
  have a: "source_ok src" "storable src" "archived d src" "latest_is d src" using assms by (auto simp: holds_def)
  obtain ms where ms: "load_source_of_truth d (so_shard_count src) region None =
      source_from_snapshot_and_mutations (so_shard_count src) region (source_snapshot src) ms
        (logs_above d (so_shard_count src) (so_watermarks src))" "set ms = {m. indexed src m}"
    using load_unfolded [OF a(3,4,1,2) refl a(1)] by blast
  have ix: "index_ok (so_op_index src)" "index_covered (so_watermarks src) (so_op_index src)"
    using a(1) by (auto simp: source_ok_def source_shape_def)
  have "\<not> so_watermarks src ! unat (mu_shard m) < mu_seq m" if "indexed src m" for m
    using ix(2) that by (auto simp: indexed_def index_covered_def covered_def not_less)
  then have "logs_above d (so_shard_count src) (so_watermarks src) = []"
    using archived_logs(2) [OF a(3)] by (auto simp: logs_above_def filter_empty_conv)
  moreover obtain t where "rfold insert_op_index ms (source_with_snapshot (so_shard_count src) region (source_snapshot src)
      (sn_watermarks (source_snapshot src))) = Inr t" "so_shard_count t = so_shard_count src"
    "source_view t = source_view src" "hm_get (so_op_index t) = hm_get (so_op_index src)"
    using snapshot_indexed [OF a(1) refl ms(2) ix(1)] by blast
  ultimately show ?thesis using a(2) ms(1)
    by (auto simp: source_from_snapshot_and_mutations_def same_content_def storable_def) (simp add: source_snapshot_def)
qed

lemma ahead_loads:
  assumes "ahead d m old src"
  shows "\<exists>t. load_source_of_truth d (so_shard_count src) region None = Inr t \<and> same_content t src"
proof -
  have a: "source_ok old" "storable old" "source_ok src" "archived d src" "latest_is d old"
    "apply_replicated_mutation m old = Inr (src, Applied)"
    "logs_above d (so_shard_count old) (so_watermarks old) = [m]" using assms by (auto simp: ahead_def)
  obtain t0 where t0: "apply_committed_mutation m old = Inr t0" "src = record_mutation m t0"
    using a(6) by (cases rule: apply_replicated_cases) auto
  then have n: "so_shard_count old = so_shard_count src"
    by (auto simp: apply_committed_mutation_ok record_mutation_def push_mutation_def)
  have ixm: "hm_get (so_op_index src) (mu_op_id m) = Some m" by (simp add: t0(2) record_mutation_def push_mutation_def)
  have view: "source_view src = view_apply m (source_view old)"
    using source_replica.view_step [OF source_ok_shape [OF a(1)] a(6)] .
  have ix: "index_ok (so_op_index src)" using a(3) by (auto simp: source_ok_def source_shape_def)
  obtain ms where ms: "load_source_of_truth d (so_shard_count src) region None =
      source_from_snapshot_and_mutations (so_shard_count src) region (source_snapshot old) ms [m]"
      "set ms = {m. indexed src m}"
    using load_unfolded [OF a(4,5,1,2) n a(3)] a(7) by (auto simp: n)
  obtain t where t: "rfold insert_op_index ms (source_with_snapshot (so_shard_count src) region (source_snapshot old)
      (sn_watermarks (source_snapshot old))) = Inr t" "so_shard_count t = so_shard_count src"
    "source_view t = source_view old" "hm_get (so_op_index t) = hm_get (so_op_index src)"
    using snapshot_indexed [OF a(1) n ms(2) ix] by blast
  have w: "so_watermarks t = so_watermarks old" using t(3) by (simp add: source_view_def)
  then obtain u where u: "apply_committed_mutation m t = Inr u"
    using t0(1) t(2) n by (auto simp: apply_committed_mutation_ok)
  then have uf: "source_view u = view_apply m (source_view t)" "so_op_index u = so_op_index t" "so_shard_count u = so_shard_count t"
    using view_apply_content [where m = m and s = t] by (auto simp: apply_committed_mutation_ok source_view_def)
  have "insert_op_index m u = Inr u" using ixm t(4) uf(2) by (simp add: insert_op_index_def fun_eq_iff)
  with u have "apply_loaded_mutation m t = Inr (push_mutation m u)" by (simp add: apply_loaded_mutation_def)
  with t(1) a(2) ms(1) n have "load_source_of_truth d (so_shard_count src) region None = Inr (push_mutation m u)"
    by (simp add: source_from_snapshot_and_mutations_def storable_def) (simp add: source_snapshot_def)
  moreover have "same_content (push_mutation m u) src"
    using uf t view by (simp add: same_content_def push_mutation_def source_view_def)
  ultimately show ?thesis by blast
qed

section \<open>Steps on the files\<close>

text \<open>Only these files matter.\<close>

definition same_files :: "disk \<Rightarrow> disk \<Rightarrow> bool" where
  "same_files d d' \<longleftrightarrow> hm_get (dk_files d') latest_path = hm_get (dk_files d) latest_path \<and>
     dk_logs d' = dk_logs d \<and> dk_idempotency d' = dk_idempotency d"

lemma same_files_kept:
  assumes "same_files d d'"
  shows "archived d' src = archived d src" "latest_is d' src = latest_is d src" "logs_above d' = logs_above d"
    "holds d' src = holds d src" "ahead d' m old src = ahead d m old src"
proof -
  have "shard_log d' = shard_log d" "idempotency_list d' = idempotency_list d"
    using assms by (auto simp: same_files_def shard_log_def [abs_def] idempotency_list_def)
  then have "archived d' = archived d" "latest_is d' = latest_is d" "logs_above d' = logs_above d"
    using assms by (auto simp: same_files_def archived_def [abs_def] latest_is_def [abs_def] logs_above_def [abs_def])
  then show "archived d' src = archived d src" "latest_is d' src = latest_is d src" "logs_above d' = logs_above d"
    "holds d' src = holds d src" "ahead d' m old src = ahead d m old src"
    by (simp_all add: holds_def ahead_def)
qed

lemma filter_concat_one:
  assumes "distinct js" and "i \<in> set js" and "\<And>j. j \<in> set js \<Longrightarrow> filter P (f j) = (if j = i then ys else [])"
  shows "filter P (concat (map f js)) = ys"
  using assms
proof (induction js)
  case (Cons j js)
  show ?case
  proof (cases "j = i")
    case True
    have "filter P (f k) = []" if "k \<in> set js" for k
      using Cons.prems(1) Cons.prems(3) [of k] True that by auto
    then have "filter P (concat (map f js)) = []" by (auto simp: filter_empty_conv)
    with Cons.prems(3) [of j] True show ?thesis by simp
  next
    case False
    with Cons show ?thesis by simp
  qed
qed simp

lemma indexed_applied:
  assumes "source_ok old" and "apply_replicated_mutation m old = Inr (src, Applied)"
  shows "indexed src x \<longleftrightarrow> x = m \<or> indexed old x" "so_shard_count src = so_shard_count old"
    "mu_shard m < so_shard_count old" "so_watermarks old ! unat (mu_shard m) < mu_seq m"
proof -
  obtain t where t: "hm_get (so_op_index old) (mu_op_id m) = None" "so_watermarks old ! unat (mu_shard m) < mu_seq m"
    "apply_committed_mutation m old = Inr t" "src = record_mutation m t"
    using assms(2) by (cases rule: apply_replicated_cases) auto
  then have c: "so_op_index t = so_op_index old" "so_shard_count t = so_shard_count old" "mu_shard m < so_shard_count old"
    by (auto simp: apply_committed_mutation_ok)
  show "indexed src x \<longleftrightarrow> x = m \<or> indexed old x"
    using t(1) by (auto simp: t(4) c indexed_def record_mutation_def push_mutation_def)
  show "so_shard_count src = so_shard_count old" "mu_shard m < so_shard_count old"
    "so_watermarks old ! unat (mu_shard m) < mu_seq m"
    using t(2) c by (simp_all add: t(4) record_mutation_def push_mutation_def)
qed

text \<open>The record of a mutation is appended.\<close>

lemma appended_ahead:
  assumes "holds d old" and ap: "apply_replicated_mutation m old = Inr (src, Applied)" and "storable src"
    and "dk_logs d' = append_mutation_to_log m (dk_logs d)" and "dk_idempotency d' = dk_idempotency d"
    and "hm_get (dk_files d') latest_path = hm_get (dk_files d) latest_path"
  shows "ahead d' m old src"
proof -
  have h: "source_ok old" "storable old" "archived d old" "latest_is d old" using assms(1) by (auto simp: holds_def)
  note ix = indexed_applied [OF h(1) ap]
  have wire: "wire_record m" using assms(3) ix(1) by (simp add: storable_def)
  have old: "read_shard_log (dk_logs d) i = Inr (shard_log d i)"
      "\<forall>x \<in> set (shard_log d i). wire_record x \<and> mu_shard x = i \<and> indexed old x"
    if "i < so_shard_count old" for i
    using h(3) that by (fastforce simp: archived_def shard_log_def)+
  have new: "read_shard_log (dk_logs d') i = Inr (if i = mu_shard m then shard_log d i @ [m] else shard_log d i)"
    if "i < so_shard_count old" for i
    using read_appended [OF old(1) wire] read_appended_other [of i m "dk_logs d"] old(1) [OF that] that by (auto simp: assms(4))
  then have log: "shard_log d' i = (if i = mu_shard m then shard_log d i @ [m] else shard_log d i)" if "i < so_shard_count old" for i
    using that by (simp add: shard_log_def)
  have idem: "idempotency_list d' = idempotency_list d" using assms(5) by (simp add: idempotency_list_def)
  obtain ms where ms: "idempotency_list d = Inr ms" "\<forall>x \<in> set ms. indexed old x"
    "\<forall>x. indexed old x \<longrightarrow> x \<in> set ms \<or> x \<in> set (shard_log d (mu_shard x))"
    using h(3) by (auto simp: archived_def)
  have "x \<in> set ms \<or> x \<in> set (shard_log d' (mu_shard x))" if "indexed src x" for x
  proof (cases "x = m")
    case True
    with log [OF ix(3)] show ?thesis by simp
  next
    case False
    with that ix(1) have o: "indexed old x" by simp
    then have "covered (so_watermarks old) x" "length (so_watermarks old) = unat (so_shard_count old)"
      using h(1) by (auto simp: indexed_def source_ok_def source_shape_def index_covered_def)
    then have "mu_shard x < so_shard_count old" by (simp add: covered_def word_less_nat_alt)
    from log [OF this] ms(3) o show ?thesis by auto
  qed
  then have "archived d' src"
    using new old(2) ix(1,2) wire ms idem by (auto simp: archived_def)
  moreover have "latest_is d' old" using h(4) assms(6) by (simp add: latest_is_def)
  moreover have "logs_above d' (so_shard_count old) (so_watermarks old) = [m]"
    unfolding logs_above_def
  proof (rule filter_concat_one [OF distinct_shard_ids])
    show "mu_shard m \<in> set (shard_ids (so_shard_count old))" using ix(3) by (simp add: set_shard_ids)
    fix j
    assume "j \<in> set (shard_ids (so_shard_count old))"
    then have j: "j < so_shard_count old" by (simp add: set_shard_ids)
    have "\<not> so_watermarks old ! unat (mu_shard x) < mu_seq x" if "indexed old x" for x
      using h(1) that by (auto simp: indexed_def source_ok_def source_shape_def index_covered_def covered_def not_less)
    then have "filter (\<lambda>x. so_watermarks old ! unat (mu_shard x) < mu_seq x) (shard_log d j) = []"
      using old(2) [OF j] by (auto simp: filter_empty_conv)
    then show "filter (\<lambda>x. so_watermarks old ! unat (mu_shard x) < mu_seq x) (shard_log d' j) = (if j = mu_shard m then [m] else [])"
      using log [OF j] ix(4) by auto
  qed
  moreover have "source_ok src" using apply_replicated_ok [OF h(1) ap] .
  ultimately show ?thesis using h assms(3) ap by (simp add: ahead_def)
qed

text \<open>The snapshot catches up.\<close>

lemma ahead_caught_up:
  assumes "ahead d m old src" and "dk_logs d' = dk_logs d" and "dk_idempotency d' = dk_idempotency d"
    and "latest_is d' src"
  shows "holds d' src"
proof -
  have "shard_log d' = shard_log d" "idempotency_list d' = idempotency_list d"
    using assms(2,3) by (auto simp: shard_log_def idempotency_list_def fun_eq_iff)
  then have "archived d' src = archived d src" using assms(2) by (simp add: archived_def)
  with assms(1,4) show ?thesis by (simp add: ahead_def holds_def)
qed

end
