(* ===== verification/Crash_Recovery.thy ===== *)
theory Crash_Recovery
  imports Durability Source_Machine
begin

text \<open>
  Crashes of a commit daemon.  Every step of \<open>apply_prepared_mutation\<close> leaves files that hold the
  content before or after the mutation, whatever writes fail; what a commit acknowledges is found
  again after a restart.
\<close>

section \<open>Publications\<close>

text \<open>A step that touches payload files other than the latest snapshot.\<close>

definition keeps :: "node \<Rightarrow> node \<Rightarrow> bool" where
  "keeps s s' \<longleftrightarrow> same_rest s s' \<and> hm_get (dk_files (nd_disk s')) latest_path = hm_get (dk_files (nd_disk s)) latest_path"

interpretation kept: progress keeps
  by unfold_locales (auto simp: keeps_def intro: payload.refl payload.trans)

lemma keeps_files: "keeps s s' \<Longrightarrow> same_files (nd_disk s) (nd_disk s') \<and> nd_source s' = nd_source s \<and> nd_config s' = nd_config s"
  by (auto simp: keeps_def same_files_def dest: same_rest_parts rest_of_disk_parts)

lemma write_payload_keeps:
  assumes "p \<noteq> latest_path"
  shows "moves keeps (write_payload_file p b)"
proof -
  have "hm_get (dk_files (nd_disk (snd (write_payload_file p b s)))) latest_path = hm_get (dk_files (nd_disk s)) latest_path" for s
  proof -
    obtain r s' where rf: "write_payload_file p b s = (r, s')" by (cases "write_payload_file p b s")
    then have "hm_get (dk_files (nd_disk s')) latest_path = hm_get (dk_files (nd_disk s)) latest_path"
      unfolding write_payload_file_def by (auto elim!: replace_file_cases simp: assms [symmetric])
    with rf show ?thesis by simp
  qed
  with write_payload_moves [of p b] show ?thesis by (simp add: moves_def keeps_def)
qed

lemma write_signed_keeps:
  "p \<noteq> latest_path \<Longrightarrow> signature_path p \<noteq> latest_path \<Longrightarrow> moves keeps (write_signed_payload_file w p b)"
  unfolding write_signed_payload_file_def by (intro kept.intros write_payload_keeps)

lemma read_file_keeps: "moves keeps (read_file p)"
  by (simp add: moves_def read_file_def kept.refl)

lemma put_object_keeps: "moves keeps (put_object w now c ob b)"
proof -
  have "hm_get (dk_files (nd_disk (snd (put_object w now c ob b s)))) latest_path = hm_get (dk_files (nd_disk s)) latest_path" for s
  proof (cases "object_url w now c ''PUT'' ob b")
    case (Inr url)
    let ?f = "\<lambda>d. d\<lparr>dk_objects := hm_insert url b (dk_objects d)\<rparr>"
    obtain r s' where rf: "replace_file ?f s = (r, s')" by (cases "replace_file ?f s")
    then have "dk_files (nd_disk s') = dk_files (nd_disk s)" by (cases rule: replace_file_cases) auto
    with Inr rf show ?thesis by (cases r) (simp_all add: put_object_def)
  qed (simp add: put_object_def)
  with put_object_moves [of w now c ob b] show ?thesis by (simp add: moves_def keeps_def)
qed

lemma publish_keeps: "moves keeps (publish_snapshot_to_object_store_best_effort w now store p)"
proof -
  have "moves keeps (publish_snapshot_to_object_store w now store p)"
    unfolding publish_snapshot_to_object_store_def by (cases store) (auto intro!: kept.intros put_object_keeps)
  then show ?thesis unfolding publish_snapshot_to_object_store_best_effort_def
    by (cases store) (auto intro!: kept.intros split: sum.split)
qed

lemma other_paths:
  "object_path n \<noteq> latest_path" "signature_path (object_path n) \<noteq> latest_path"
  "manifest_path n \<noteq> latest_path" "signature_path (manifest_path n) \<noteq> latest_path"
  "latest_manifest_path \<noteq> latest_path" "signature_path latest_manifest_path \<noteq> latest_path"
  "signature_path latest_path \<noteq> latest_path"
  by (simp_all add: object_path_def manifest_path_def latest_path_def latest_manifest_path_def signature_path_def)

lemma publication_keeps: "moves keeps (write_snapshot_manifest_publication w now sn)"
  unfolding write_snapshot_manifest_publication_def Let_def
  by (intro kept.intros write_signed_keeps read_file_keeps publish_keeps other_paths)

lemma persist_archived_keeps:
  assumes "''snapshots/'' @ name @ ''.gacl'' \<noteq> latest_path"
  shows "moves keeps (persist_archived_snapshot w now sn name)"
proof -
  have "signature_path (''snapshots/'' @ name @ ''.gacl'') \<noteq> latest_path"
  proof
    assume "signature_path (''snapshots/'' @ name @ ''.gacl'') = latest_path"
    then have "last (signature_path (''snapshots/'' @ name @ ''.gacl'')) = last latest_path" by simp
    then show False by (simp add: signature_path_def latest_path_def)
  qed
  then show ?thesis unfolding persist_archived_snapshot_def write_signed_snapshot_file_def persist_snapshot_manifest_def
    by (intro kept.intros write_signed_keeps publication_keeps assms)
qed

text \<open>The latest snapshot is replaced by the first write, or not at all.\<close>

lemma persist_latest_outcome:
  assumes "persist_latest_snapshot w now sn s = (r, s')"
  shows "keeps s s' \<and> r \<noteq> Inr () \<or>
    same_rest s s' \<and> hm_get (dk_files (nd_disk s')) latest_path = Some (encode_snapshot sn)"
proof -
  let ?sig = "\<lambda>_::unit. abind (gets nd_signer) (\<lambda>signer. abind (lift_res (signature_text w signer (encode_snapshot sn)))
     (\<lambda>signature. write_payload_file (signature_path latest_path) (as_bytes signature)))"
  let ?rest = "\<lambda>_::unit. abind (write_snapshot_manifest_publication w now sn) (\<lambda>_. ret ())"
  have eq: "persist_latest_snapshot w now sn =
      abind (write_payload_file latest_path (encode_snapshot sn)) (\<lambda>u. abind (?sig u) ?rest)"
    by (simp add: persist_latest_snapshot_def write_signed_snapshot_file_def write_signed_payload_file_def
        persist_snapshot_manifest_def abind_assoc)
  have mv: "moves keeps (abind (?sig u) ?rest)" for u
    by (intro kept.intros write_payload_keeps publication_keeps other_paths)
  from assms eq have "abind (write_payload_file latest_path (encode_snapshot sn)) (\<lambda>u. abind (?sig u) ?rest) s = (r, s')" by simp
  then show ?thesis
  proof (cases rule: abind_cases)
    case (failed e)
    then have "hm_get (dk_files (nd_disk s')) latest_path = hm_get (dk_files (nd_disk s)) latest_path"
      unfolding write_payload_file_def by (auto elim!: replace_file_cases)
    with movesD [OF write_payload_moves failed(1)] failed(2) show ?thesis by (simp add: keeps_def)
  next
    case (passed u t)
    then have "hm_get (dk_files (nd_disk t)) latest_path = Some (encode_snapshot sn)"
      unfolding write_payload_file_def by (auto elim!: replace_file_cases)
    with movesD [OF write_payload_moves passed(1)] movesD [OF mv passed(2)] show ?thesis
      by (auto simp: keeps_def intro: payload.trans)
  qed
qed

section \<open>Applying a mutation\<close>

text \<open>In either case the content of \<open>src\<close> is what a restart finds.\<close>

definition safe :: "disk \<Rightarrow> source \<Rightarrow> bool" where
  "safe d src \<longleftrightarrow> holds d src \<or> (\<exists>m old. ahead d m old src)"

lemma safe_loads:
  assumes "safe d src"
  shows "\<exists>t. load_source_of_truth d (so_shard_count src) region None = Inr t \<and> same_content t src"
  using assms holds_loads ahead_loads unfolding safe_def by blast

lemma safe_parts: "safe d src \<Longrightarrow> source_ok src \<and> storable src \<and> archived d src"
  by (auto simp: safe_def holds_def ahead_def)

lemma keeps_safe:
  assumes "keeps s s'"
  shows "safe (nd_disk s') src = safe (nd_disk s) src" "holds (nd_disk s') src = holds (nd_disk s) src"
  using keeps_files [OF assms] same_files_kept(4,5) by (auto simp: safe_def)

lemma persist_latest_safe:
  assumes "persist_latest_snapshot w now (source_snapshot src) s = (r, s')" and "safe (nd_disk s) src"
  shows "safe (nd_disk s') src \<and> (r = Inr () \<or> holds (nd_disk s) src \<longrightarrow> holds (nd_disk s') src) \<and>
    nd_source s' = nd_source s"
proof -
  have rest: "same_rest s s'" using persist_latest_outcome [OF assms(1)] by (auto simp: keeps_def)
  note parts = same_rest_parts [OF rest]
  note dparts = rest_of_disk_parts [OF parts(11)]
  from persist_latest_outcome [OF assms(1)] show ?thesis
  proof
    assume "keeps s s' \<and> r \<noteq> Inr ()"
    with keeps_safe [of s s'] assms(2) parts show ?thesis by auto
  next
    assume "same_rest s s' \<and> hm_get (dk_files (nd_disk s')) latest_path = Some (encode_snapshot (source_snapshot src))"
    then have l: "latest_is (nd_disk s') src" by (simp add: latest_is_def)
    have "holds (nd_disk s') src"
      using assms(2) unfolding safe_def
    proof
      assume h: "holds (nd_disk s) src"
      then have "same_files (nd_disk s) (nd_disk s')" using l dparts by (simp add: same_files_def holds_def latest_is_def)
      with h show ?thesis by (simp add: same_files_kept(4))
    next
      assume "\<exists>m old. ahead (nd_disk s) m old src"
      with ahead_caught_up [OF _ _ _ l] dparts show ?thesis by auto
    qed
    with parts show ?thesis by (simp add: safe_def)
  qed
qed

text \<open>An idempotency file that holds the whole index makes the logs dispensable.\<close>

definition complete :: "disk \<Rightarrow> source \<Rightarrow> bool" where
  "complete d src \<longleftrightarrow> holds d src \<and> (\<exists>ms. idempotency_list d = Inr ms \<and> set ms = {m. indexed src m})"

lemma index_values:
  assumes "index_ok (so_op_index src)"
  shows "set (idempotency_mutations src) = {m. indexed src m}"
    and "length (idempotency_mutations src) = length (so_op_index src)"
  using assms by (auto simp: idempotency_mutations_def hm_values_set index_ok_def indexed_def) (simp add: hm_values_def)

lemma persist_idempotency_complete:
  assumes "persist_idempotency_snapshot (idempotency_mutations src) s = (r, s')" and "holds (nd_disk s) src"
  shows "holds (nd_disk s') src \<and> (r = Inr () \<longrightarrow> complete (nd_disk s') src) \<and> nd_source s' = nd_source s"
proof -
  have h: "source_ok src" "storable src" "archived (nd_disk s) src" "latest_is (nd_disk s) src"
    using assms(2) by (auto simp: holds_def)
  have ix: "index_ok (so_op_index src)" using h(1) by (auto simp: source_ok_def source_shape_def)
  note iv = index_values [OF ix]
  have dec: "decode_mutation_stream (encode_mutation_stream (idempotency_mutations src)) = Inr (idempotency_mutations src)"
    using decode_encode_stream [of "idempotency_mutations src" "[]"] iv h(2) by (simp add: storable_def)
  let ?f = "\<lambda>d. d\<lparr>dk_idempotency := Some (encode_mutation_stream (idempotency_mutations src))\<rparr>"
  from assms(1) have "replace_file ?f s = (r, s')" by (simp add: persist_idempotency_snapshot_def)
  then show ?thesis
  proof (cases rule: replace_file_cases)
    case (written ws)
    then have l: "dk_logs (nd_disk s') = dk_logs (nd_disk s)" "dk_files (nd_disk s') = dk_files (nd_disk s)" by simp_all
    have i: "idempotency_list (nd_disk s') = Inr (idempotency_mutations src)" using written dec by (simp add: idempotency_list_def)
    have "archived (nd_disk s') src" using h(3) l i iv(1) by (auto simp: archived_def)
    with h l i iv(1) written show ?thesis by (auto simp: complete_def holds_def latest_is_def)
  next
    case (refused ws)
    then have "same_files (nd_disk s) (nd_disk s')" by (simp add: same_files_def)
    with assms(2) refused show ?thesis by (simp add: same_files_kept(4))
  qed
qed

lemma compact_shard_file_complete:
  assumes "compact_shard_file ws i s = (r, s')" and "complete (nd_disk s) src" and "i < so_shard_count src"
  shows "complete (nd_disk s') src \<and> nd_source s' = nd_source s"
proof (cases "unat i < length ws")
  case False
  with assms show ?thesis by (simp add: compact_shard_file_def)
next
  case True
  have h: "holds (nd_disk s) src" using assms(2) by (simp add: complete_def)
  then have ar: "archived (nd_disk s) src" by (simp add: holds_def)
  from ar assms(3) obtain ms where ms: "read_shard_log (dk_logs (nd_disk s)) i = Inr ms"
    "\<forall>m \<in> set ms. wire_record m \<and> mu_shard m = i \<and> indexed src m" by (auto simp: archived_def)
  let ?ms = "filter (\<lambda>m. ws ! unat i < mu_seq m) ms"
  let ?f = "\<lambda>d. d\<lparr>dk_logs := write_shard_log i ?ms (dk_logs d)\<rparr>"
  from assms(1) True ms(1) have "replace_file ?f s = (r, s')" by (simp add: compact_shard_file_def)
  then show ?thesis
  proof (cases rule: replace_file_cases)
    case (written wr)
    have rd: "read_shard_log (dk_logs (nd_disk s')) j = (if j = i then Inr ?ms else read_shard_log (dk_logs (nd_disk s)) j)" for j
      using read_records_concat [of ?ms] ms(2) written
      by (auto simp: read_shard_log_def write_shard_log_def)
    have idem: "idempotency_list (nd_disk s') = idempotency_list (nd_disk s)" using written by (simp add: idempotency_list_def)
    have "archived (nd_disk s') src"
      using ar rd ms(2) idem assms(2) by (auto simp: archived_def complete_def)
    with h idem assms(2) written show ?thesis by (simp add: complete_def holds_def latest_is_def)
  next
    case (refused wr)
    then have "same_files (nd_disk s) (nd_disk s')" by (simp add: same_files_def)
    moreover from this have "idempotency_list (nd_disk s') = idempotency_list (nd_disk s)"
      by (simp add: idempotency_list_def same_files_def)
    ultimately show ?thesis using assms(2) refused by (simp add: same_files_kept(4) complete_def)
  qed
qed

lemma compact_files_complete:
  assumes "compact_log_files n ws s = (r, s')" and "complete (nd_disk s) src" and "n = so_shard_count src"
  shows "complete (nd_disk s') src \<and> nd_source s' = nd_source s"
proof -
  have "afor (compact_shard_file ws) js s = (r, s') \<Longrightarrow> complete (nd_disk s) src \<Longrightarrow> \<forall>i \<in> set js. i < so_shard_count src \<Longrightarrow>
      complete (nd_disk s') src \<and> nd_source s' = nd_source s" for js s
  proof (induction js arbitrary: s)
    case (Cons i js)
    from Cons.prems(1) have "abind (compact_shard_file ws i) (\<lambda>_. afor (compact_shard_file ws) js) s = (r, s')" by simp
    then show ?case
    proof (cases rule: abind_cases)
      case (failed e)
      with compact_shard_file_complete [OF failed(1) Cons.prems(2)] Cons.prems(3) show ?thesis by simp
    next
      case (passed x t)
      with compact_shard_file_complete [OF passed(1) Cons.prems(2)] Cons show ?thesis by auto
    qed
  qed simp
  with assms show ?thesis by (auto simp: compact_log_files_def set_shard_ids split: if_splits)
qed

lemma compacted_same:
  assumes "source_ok src" and "compact_mutation_history ws src = Inr src'"
  shows "same_content src' src" "source_snapshot src' = source_snapshot src" "holds d src \<Longrightarrow> holds d src'"
proof -
  have f: "so_shard_count src' = so_shard_count src" "so_op_index src' = so_op_index src" "source_snapshot src' = source_snapshot src"
    using assms(2) by (auto simp: compact_mutation_history_def rbind_eq_Inr source_snapshot_def split: if_splits)
  then show "same_content src' src" "source_snapshot src' = source_snapshot src"
    using compact_history_ok [OF assms] by (simp_all add: same_content_def)
  have "indexed src' = indexed src" using f(2) by (simp add: indexed_def [abs_def])
  with f compact_history_ok(1) [OF assms] show "holds d src \<Longrightarrow> holds d src'"
    by (simp add: holds_def storable_def archived_def latest_is_def)
qed

lemma same_content_refl [simp]: "same_content s s"
  by (simp add: same_content_def)

lemma same_content_trans: "same_content s t \<Longrightarrow> same_content t u \<Longrightarrow> same_content s u"
  by (simp add: same_content_def)

lemma compact_locked_holds:
  assumes "compact_mutation_logs_locked w now s = (r, s')" and "holds (nd_disk s) (nd_source s)"
  shows "holds (nd_disk s') (nd_source s') \<and> same_content (nd_source s') (nd_source s)"
proof -
  let ?src = "nd_source s"
  have ok: "source_ok ?src" using assms(2) by (simp add: holds_def)
  show ?thesis
  proof (cases "compaction_watermarks_for_snapshot s ?src (source_snapshot ?src)")
    case (Inl e)
    with assms show ?thesis by (simp add: compact_mutation_logs_locked_def Let_def)
  next
    case (Inr ws)
    with assms(1) have "abind (persist_latest_snapshot w now (source_snapshot ?src)) (\<lambda>_.
        abind (persist_idempotency_snapshot (idempotency_mutations ?src)) (\<lambda>_.
        abind (compact_log_files (so_shard_count ?src) ws) (\<lambda>_.
          source_act (\<lambda>src. rbind (compact_mutation_history ws src) (\<lambda>src. Inr (src, ())))))) s = (r, s')"
      by (simp add: compact_mutation_logs_locked_def Let_def)
    then show ?thesis
    proof (cases rule: abind_cases)
      case (failed e)
      with persist_latest_safe [OF failed(1)] assms(2) show ?thesis by (simp add: safe_def)
    next
      case (passed x1 t1)
      then have t1: "holds (nd_disk t1) ?src" "nd_source t1 = ?src"
        using persist_latest_safe [OF passed(1)] assms(2) by (simp_all add: safe_def)
      from passed(2) show ?thesis
      proof (cases rule: abind_cases)
        case (failed e)
        with persist_idempotency_complete [OF failed(1) t1(1)] t1 show ?thesis by simp
      next
        case (passed x2 t2)
        then have t2: "complete (nd_disk t2) ?src" "nd_source t2 = ?src"
          using persist_idempotency_complete [OF passed(1) t1(1)] t1 by simp_all
        from passed(2) show ?thesis
        proof (cases rule: abind_cases)
          case (failed e)
          with compact_files_complete [OF failed(1) t2(1) refl] t2 show ?thesis by (simp add: complete_def)
        next
          case (passed x3 t3)
          then have t3: "holds (nd_disk t3) ?src" "nd_source t3 = ?src"
            using compact_files_complete [OF passed(1) t2(1) refl] t2 by (simp_all add: complete_def)
          with passed(2) compacted_same [OF ok] show ?thesis
            by (cases "compact_mutation_history ws ?src") (auto simp: source_act_def)
        qed
      qed
    qed
  qed
qed

lemma maybe_compact_holds:
  assumes "maybe_compact_mutation_logs w now s = (r, s')" and "holds (nd_disk s) (nd_source s)"
  shows "holds (nd_disk s') (nd_source s') \<and> same_content (nd_source s') (nd_source s)"
  using assms compact_locked_holds [of w now s r s'] by (cases "log_is_short s") (auto simp: maybe_compact_mutation_logs_def)

lemma remove_pending_same:
  assumes "remove_pending_mutation m s = (r, s')"
  shows "same_files (nd_disk s) (nd_disk s') \<and> nd_source s' = nd_source s"
proof (cases "hm_get (dk_pending (nd_disk s)) (pending_key m)")
  case None
  with assms show ?thesis by (simp add: remove_pending_mutation_def same_files_def)
next
  case (Some b)
  with assms have "replace_file (\<lambda>d. d\<lparr>dk_pending := hm_remove (pending_key m) (dk_pending d)\<rparr>) s = (r, s')"
    by (simp add: remove_pending_mutation_def)
  then show ?thesis by (cases rule: replace_file_cases) (auto simp: same_files_def)
qed

lemma archive_path: "''snapshots/'' @ archive_name_for_mutation m @ ''.gacl'' \<noteq> latest_path"
  by (simp add: archive_name_for_mutation_def latest_path_def)

text \<open>The record of a fresh mutation on the disk, when no append is cut off.\<close>

lemma persist_mutation_safe:
  assumes "persist_mutation m s = (r, s')" and "holds (nd_disk s) old"
    and "apply_replicated_mutation m old = Inr (src, Applied)" and "storable src"
    and "(\<forall>n. CutOff n \<notin> set (dk_writes (nd_disk s))) \<or> r = Inr ()"
  shows "nd_source s' = nd_source s \<and> (ahead (nd_disk s') m old src \<or> r \<noteq> Inr () \<and> holds (nd_disk s') old)"
proof -
  let ?app = "append_file (\<lambda>cut d. d\<lparr>dk_logs := (case cut of None \<Rightarrow> append_mutation_to_log m (dk_logs d)
       | Some n \<Rightarrow> hm_insert (mu_shard m) (log_bytes (dk_logs d) (mu_shard m) @ take n (encode_record m)) (dk_logs d))\<rparr>)"
  have app: "?app s = (x, t) \<Longrightarrow> (\<forall>n. CutOff n \<notin> set (dk_writes (nd_disk s))) \<or> x = Inr () \<Longrightarrow> nd_source t = nd_source s \<and>
      (x = Inr () \<and> ahead (nd_disk t) m old src \<or> x = Inl Io \<and> holds (nd_disk t) old)" for x t
  proof -
    assume a: "?app s = (x, t)" and c: "(\<forall>n. CutOff n \<notin> set (dk_writes (nd_disk s))) \<or> x = Inr ()"
    have good: "ahead d m old src"
      if "dk_logs d = append_mutation_to_log m (dk_logs (nd_disk s))" "dk_idempotency d = dk_idempotency (nd_disk s)"
        "dk_files d = dk_files (nd_disk s)" for d
      using appended_ahead [OF assms(2,3,4) that(1,2)] that(3) by simp
    have bad: "holds d old" if "dk_logs d = dk_logs (nd_disk s)" "dk_idempotency d = dk_idempotency (nd_disk s)"
        "dk_files d = dk_files (nd_disk s)" for d
      using assms(2) same_files_kept(4) [of "nd_disk s" d old] that by (simp add: same_files_def)
    show ?thesis
    proof (cases "dk_writes (nd_disk s)")
      case Nil
      with a good show ?thesis by (auto simp: append_file_def on_disk_def)
    next
      case (Cons o' os)
      with a c have "o' = Written \<or> o' = Refused" by (cases o') (auto simp: append_file_def Let_def)
      with a Cons good bad show ?thesis by (auto simp: append_file_def on_disk_def Let_def)
    qed
  qed
  from assms(1) have "abind ?app (\<lambda>_. replace_file (\<lambda>d. d\<lparr>dk_bundles :=
      write_delta_bundle_file (mu_shard m) (mu_seq m) (mu_seq m) [m] (dk_bundles d)\<rparr>)) s = (r, s')"
    by (simp add: persist_mutation_def)
  then show ?thesis
  proof (cases rule: abind_cases)
    case (failed e)
    with app [OF failed(1)] assms(5) show ?thesis by auto
  next
    case (passed x t)
    then have t: "nd_source t = nd_source s" "ahead (nd_disk t) m old src" using app [OF passed(1)] by auto
    have "same_files (nd_disk t) (nd_disk s') \<and> nd_source s' = nd_source t"
      using passed(2) by (cases rule: replace_file_cases) (auto simp: same_files_def)
    with t show ?thesis using same_files_kept(5) [of "nd_disk t" "nd_disk s'" m old src] by simp
  qed
qed

text \<open>After the mutation has been applied in memory.\<close>

lemma applied_safe:
  assumes "abind (if status = Applied then
              abind (gets (\<lambda>s. source_snapshot (nd_source s))) (\<lambda>sn.
              abind (persist_latest_snapshot w now sn) (\<lambda>_.
              abind (persist_archived_snapshot w now sn (archive_name_for_mutation m)) (\<lambda>_.
                maybe_compact_mutation_logs w now)))
            else ret ()) (\<lambda>_. abind (remove_pending_mutation m) (\<lambda>_. ret status)) s = (r, s')"
    and "status = Applied" and "safe (nd_disk s) (nd_source s)"
  shows "safe (nd_disk s') (nd_source s') \<and> same_content (nd_source s') (nd_source s) \<and>
    (r = Inr x \<longrightarrow> holds (nd_disk s') (nd_source s'))"
proof -
  let ?src = "nd_source s"
  from assms(1,2) have "abind (persist_latest_snapshot w now (source_snapshot ?src)) (\<lambda>_.
      abind (persist_archived_snapshot w now (source_snapshot ?src) (archive_name_for_mutation m)) (\<lambda>_.
      abind (maybe_compact_mutation_logs w now) (\<lambda>_. abind (remove_pending_mutation m) (\<lambda>_. ret status)))) s = (r, s')"
    by (simp add: abind_assoc)
  then show ?thesis
  proof (cases rule: abind_cases)
    case (failed e)
    with persist_latest_safe [OF failed(1) assms(3)] show ?thesis by auto
  next
    case (passed x1 t1)
    then have t1: "holds (nd_disk t1) ?src" "nd_source t1 = ?src" using persist_latest_safe [OF passed(1) assms(3)] by auto
    from passed(2) show ?thesis
    proof (cases rule: abind_cases)
      case (failed e)
      then have k: "keeps t1 s'" using movesD [OF persist_archived_keeps [OF archive_path]] by blast
      with keeps_safe(2) [OF k] keeps_files [OF k] t1 failed show ?thesis by (simp add: safe_def)
    next
      case (passed x2 t2)
      then have k: "keeps t1 t2" using movesD [OF persist_archived_keeps [OF archive_path]] by blast
      then have t2: "holds (nd_disk t2) (nd_source t2)" "nd_source t2 = ?src"
        using keeps_safe(2) [OF k] keeps_files [OF k] t1 by simp_all
      from passed(2) show ?thesis
      proof (cases rule: abind_cases)
        case (failed e)
        with maybe_compact_holds [OF failed(1) t2(1)] t2 show ?thesis by (simp add: safe_def)
      next
        case (passed x3 t3)
        then have t3: "holds (nd_disk t3) (nd_source t3)" "same_content (nd_source t3) ?src"
          using maybe_compact_holds [OF passed(1) t2(1)] t2 by simp_all
        from passed(2) have "same_files (nd_disk t3) (nd_disk s') \<and> nd_source s' = nd_source t3"
          by (cases rule: abind_cases) (auto dest: remove_pending_same)
        with t3 same_files_kept(4) [of "nd_disk t3" "nd_disk s'" "nd_source t3"] show ?thesis by (simp add: safe_def)
      qed
    qed
  qed
qed

lemma apply_prepared_safe:
  assumes ap: "apply_prepared_mutation w now m s = (r, s')" and h: "holds (nd_disk s) (nd_source s)"
    and new: "apply_replicated_mutation m (nd_source s) = Inr (src, Applied)" and "storable src"
    and "(\<forall>n. CutOff n \<notin> set (dk_writes (nd_disk s))) \<or> (\<exists>x. r = Inr x)"
  shows "safe (nd_disk s') (nd_source s') \<and> same_content (nd_source s') src \<and>
        (\<forall>x. r = Inr x \<longrightarrow> x = Applied \<and> holds (nd_disk s') (nd_source s')) \<or>
      nd_source s' = nd_source s \<and> (\<exists>e. r = Inl e) \<and> (safe (nd_disk s') src \<or> holds (nd_disk s') (nd_source s))"
proof -
  have "source_ok (nd_source s)" using h by (simp add: holds_def)
  with new have ix: "mu_shard m < so_shard_count (nd_source s)"
    "so_watermarks (nd_source s) ! unat (mu_shard m) < mu_seq m" by (auto dest: indexed_applied)
  have "unat (mu_shard m) < length (so_watermarks (nd_source s))"
    using ix(1) \<open>source_ok (nd_source s)\<close> by (simp add: source_ok_def history_ok_def word_less_nat_alt)
  with ix(2) have nw: "\<not> mu_seq m \<le> vec_get_or 0 (so_watermarks (nd_source s)) (unat (mu_shard m))" by (simp add: not_le)
  let ?post = "\<lambda>status. abind (if status = Applied then
              abind (gets (\<lambda>s. source_snapshot (nd_source s))) (\<lambda>sn.
              abind (persist_latest_snapshot w now sn) (\<lambda>_.
              abind (persist_archived_snapshot w now sn (archive_name_for_mutation m)) (\<lambda>_.
                maybe_compact_mutation_logs w now)))
            else ret ()) (\<lambda>_. abind (remove_pending_mutation m) (\<lambda>_. ret status))"
  from ap nw have "abind (persist_mutation m) (\<lambda>_. abind (source_act (apply_replicated_mutation m)) ?post) s = (r, s')"
    by (simp add: apply_prepared_mutation_def)
  then show ?thesis
  proof (cases rule: abind_cases)
    case (failed e)
    with assms(5) persist_mutation_safe [OF failed(1) h new assms(4)] show ?thesis by (auto simp: safe_def)
  next
    case (passed x t)
    then have t: "nd_source t = nd_source s" "ahead (nd_disk t) m (nd_source s) src"
      using persist_mutation_safe [OF passed(1) h new assms(4)] by auto
    let ?t = "t\<lparr>nd_source := src\<rparr>"
    from passed(2) t(1) new have post: "?post Applied ?t = (r, s')" by (simp add: source_act_def abind_def)
    have st: "safe (nd_disk ?t) (nd_source ?t)" using t(2) by (auto simp: safe_def)
    have x: "x = Applied" if "r = Inr x" for x
      using post that by (auto simp: abind_Inr)
    show ?thesis using applied_safe [OF post refl st] x by simp
  qed
qed

section \<open>Mutations that fit\<close>

definition placed :: "mutation \<Rightarrow> bool" where
  "placed m \<longleftrightarrow> (case mu_rule m of Some r \<Rightarrow> re_shard_id r = mu_shard m | None \<Rightarrow> de_shard_id (mu_entry m) = mu_shard m)"

definition room :: "source \<Rightarrow> bool" where
  "room src \<longleftrightarrow> length (so_entries src) < 2 ^ 64 - 1 \<and> length (so_rules src) < 2 ^ 64 - 1 \<and> length (so_op_index src) < 2 ^ 64 - 1"

lemma hm_length:
  "length (hm_insert k v m) \<le> Suc (length m)" "length (hm_remove k m) \<le> length m"
proof -
  show "length (hm_insert k v m) \<le> Suc (length m)"
    unfolding hm_insert_def by (induction m) auto
  show "length (hm_remove k m) \<le> length m"
    unfolding hm_remove_def by (simp add: AList.delete_eq)
qed

lemma length_hm_values: "length (hm_values m) = length m"
  by (simp add: hm_values_def)

lemma storable_content:
  "storable src \<longleftrightarrow> length (so_watermarks src) = unat (so_shard_count src) \<and>
     length (so_entries src) < 2 ^ 64 \<and> length (so_rules src) < 2 ^ 64 \<and> length (so_op_index src) < 2 ^ 64 \<and>
     (\<forall>e \<in> set (hm_values (so_entries src)). wire_entry e \<and> de_shard_id e < so_shard_count src) \<and>
     (\<forall>x \<in> set (hm_values (so_rules src)). wire_rule x \<and> re_shard_id x < so_shard_count src) \<and>
     (\<forall>m. indexed src m \<longrightarrow> wire_record m)"
proof -
  have v: "snapshot_validate (source_snapshot src) = Inr () \<longleftrightarrow> length (so_watermarks src) = unat (so_shard_count src) \<and>
      (\<forall>e \<in> set (hm_values (so_entries src)). de_shard_id e < so_shard_count src) \<and>
      (\<forall>x \<in> set (hm_values (so_rules src)). re_shard_id x < so_shard_count src)"
    by (simp add: snapshot_validate_def source_snapshot_def list_ex_iff not_le [symmetric])
  show ?thesis unfolding storable_def v wire_snapshot_def by (auto simp: source_snapshot_def length_hm_values)
qed

lemma hm_values_insert: "x \<in> set (hm_values (hm_insert k v m)) \<Longrightarrow> x = v \<or> x \<in> set (hm_values m)"
  unfolding hm_values_def hm_insert_def by (induction m) (auto split: if_splits)

lemma hm_values_remove: "x \<in> set (hm_values (hm_remove k m)) \<Longrightarrow> x \<in> set (hm_values m)"
  unfolding hm_values_def hm_remove_def by (auto simp: AList.delete_eq)

lemma storable_applied:
  assumes "source_ok old" and "storable old" and "room old" and "wire_record m" and "placed m"
    and ap: "apply_replicated_mutation m old = Inr (src, Applied)"
  shows "storable src"
proof -
  note ix = indexed_applied [OF assms(1) ap]
  obtain t where t: "apply_committed_mutation m old = Inr t" "src = record_mutation m t"
    using ap by (cases rule: apply_replicated_cases) auto
  then have c: "so_entries src = so_entries (apply_content m old)" "so_rules src = so_rules (apply_content m old)"
    "so_op_index src = hm_insert (mu_op_id m) m (so_op_index old)" "length (so_watermarks src) = length (so_watermarks old)"
    by (auto simp: apply_committed_mutation_ok record_mutation_def push_mutation_def)
  have w: "wire_entry (mu_entry m)" "\<forall>r. mu_rule m = Some r \<longrightarrow> wire_rule r"
    using assms(4) by (simp_all add: wire_record_def wire_mutation_def)
  have "length (so_entries src) \<le> Suc (length (so_entries old))" "length (so_rules src) \<le> Suc (length (so_rules old))"
    unfolding c apply_content_def Let_def
    by (auto simp: hm_length le_SucI split: option.splits action.splits)
  moreover have "length (so_op_index src) \<le> Suc (length (so_op_index old))" unfolding c by (rule hm_length)
  moreover have "\<forall>e \<in> set (hm_values (so_entries src)). wire_entry e \<and> de_shard_id e < so_shard_count src"
    unfolding c apply_content_def Let_def using assms(2,5) w(1) ix(2,3)
    by (auto simp: storable_content placed_def dest!: hm_values_insert hm_values_remove split: option.splits action.splits)
  moreover have "\<forall>x \<in> set (hm_values (so_rules src)). wire_rule x \<and> re_shard_id x < so_shard_count src"
    unfolding c apply_content_def Let_def using assms(2,5) w(2) ix(2,3)
    by (auto simp: storable_content placed_def dest!: hm_values_insert hm_values_remove split: option.splits action.splits)
  ultimately show ?thesis
    using assms(2,3,4) ix(1,2) c(4) by (auto simp: storable_content room_def)
qed

section \<open>Commits\<close>

lemma same_epoch [simp]:
  "source_view (set_epoch e src) = source_view src" "so_op_index (set_epoch e src) = so_op_index src"
  "so_shard_count (set_epoch e src) = so_shard_count src" "source_snapshot (set_epoch e src) = source_snapshot src"
  "so_watermarks (set_epoch e src) = so_watermarks src"
  by (simp_all add: set_epoch_def source_view_def source_snapshot_def)

lemma holds_epoch [simp]: "holds d (set_epoch e src) = holds d src"
proof -
  have "indexed (set_epoch e src) = indexed src" by (simp add: indexed_def [abs_def])
  then show ?thesis by (simp add: holds_def storable_def archived_def latest_is_def)
qed

lemma room_epoch [simp]: "room (set_epoch e src) = room src"
  by (simp add: room_def set_epoch_def)

lemma prepared_fresh:
  assumes "source_ok src" and "prepared op src out" and "\<not> co_duplicate out"
    and "apply_replicated_mutation (co_mutation out) src = Inr (src', st)"
  shows "st = Applied"
proof -
  let ?m = "co_mutation out"
  have new: "hm_get (so_op_index src) (mu_op_id ?m) = None" "mu_seq ?m = so_watermarks src ! unat (mu_shard ?m) + 1"
    using assms(2,3) by (auto simp: prepared_def split: option.splits)
  from assms(4) show ?thesis
  proof (cases rule: apply_replicated_cases)
    case old
    let ?w = "so_watermarks src ! unat (mu_shard ?m)"
    have "?w = - 1" using old(5) new(2) u64_succ_gt [of ?w] by (metis leD)
    then have "mu_seq ?m = 0" using new(2) by simp
    moreover have "mu_seq ?m \<in> set (seqs_of (mu_shard ?m) (so_mutations src))"
      using old(6) by (auto simp: seqs_of_def)
    ultimately show ?thesis
      using assms(1) old(3) by (auto simp: source_ok_def history_ok_def set_seq_run)
  qed (use new in auto)
qed

lemma apply_prepared_accepts:
  assumes "apply_prepared_mutation w now m s = (Inr x, s')"
  shows "\<exists>src st. apply_replicated_mutation m (nd_source s) = Inr (src, st)"
proof -
  have p: "nd_source t = nd_source s" if "persist_mutation m s = (r, t)" for r t
  proof -
    have app: "nd_source u = nd_source s" if "append_file f s = (q, u)" for f q u
      using that by (auto simp: append_file_def Let_def split: list.splits write_outcome.splits)
    from that show ?thesis unfolding persist_mutation_def
      by (cases rule: abind_cases) (auto dest!: app replace_file_frame(1))
  qed
  from assms obtain u t where "(if mu_seq m \<le> vec_get_or 0 (so_watermarks (nd_source s)) (unat (mu_shard m))
      then ret () else persist_mutation m) s = (Inr u, t)" and a: "\<exists>st t'. source_act (apply_replicated_mutation m) t = (Inr st, t')"
    by (auto simp: apply_prepared_mutation_def abind_Inr)
  then have "nd_source t = nd_source s" using p by (auto split: if_splits)
  with a show ?thesis by (auto simp: source_act_def split: sum.splits)
qed

text \<open>What other threads may do while the source of truth is locked.\<close>

definition harmless :: "(node \<Rightarrow> node) \<Rightarrow> bool" where
  "harmless f \<longleftrightarrow> (\<forall>s. nd_source (f s) = nd_source s \<and> same_files (nd_disk s) (nd_disk (f s)))"

lemma prepare_on_quorum_frame:
  assumes "prepare_on_quorum meanwhile answers m s = (r, s')" and "harmless meanwhile"
  shows "nd_source s' = nd_source s \<and> same_files (nd_disk s) (nd_disk s')"
proof -
  have post: "nd_source t = nd_source u \<and> nd_disk t = nd_disk u" if "post_to_all a b c u = (q, t)" for a b c u q t
    using that by (auto simp: post_to_all_def)
  let ?route = "''/internal/replication/prepare''"
  have wait: "nd_source t = nd_source s \<and> same_files (nd_disk s) (nd_disk t)"
    if "post_to_remote_peers_until_quorum ?route (encode_mutation m) replication_header_values meanwhile answers s = (q, t)" for q t
    using that assms(2)
    by (auto simp: post_to_remote_peers_until_quorum_def post_to_all_def harmless_def same_files_def abind_app split: if_splits)
  show ?thesis
  proof (cases "is_clustered (nd_config s)")
    case True
    obtain q t where qt: "post_to_remote_peers_until_quorum ?route (encode_mutation m) replication_header_values meanwhile answers s = (q, t)"
      by (cases "post_to_remote_peers_until_quorum ?route (encode_mutation m) replication_header_values meanwhile answers s")
    with assms(1) True wait [OF qt] show ?thesis
      by (cases q) (auto simp: prepare_on_quorum_def abort_on_peers_def post_to_remote_peers_best_effort_def post_to_all_def
          abind_app split: if_splits)
  qed (use assms in \<open>simp add: prepare_on_quorum_def same_files_def\<close>)
qed

text \<open>The writes of an acknowledged mutation of a leader.\<close>

lemma acknowledged_commit:
  assumes "commit_prepared_outcome w now meanwhile answers out s = (Inr out', s')" and "\<not> co_duplicate out"
    and "harmless meanwhile" and "holds (nd_disk s) (nd_source s)" and "prepared op (nd_source s) out"
    and "wire_record (co_mutation out)" and "placed (co_mutation out)" and "room (nd_source s)"
  shows "out' = out \<and> holds (nd_disk s') (nd_source s') \<and> indexed (nd_source s') (co_mutation out)"
proof -
  let ?m = "co_mutation out"
  from assms(1,2) obtain u t x v where p: "prepare_on_quorum meanwhile answers ?m s = (Inr u, t)"
    and ap: "apply_prepared_mutation w now ?m t = (Inr x, v)"
    and c: "\<exists>y. commit_on_peers ?m v = (Inr y, s')" "out' = out"
    by (auto simp: commit_prepared_outcome_def write_authority_def abind_Inr Let_def split: if_splits)
  have t: "nd_source t = nd_source s" "same_files (nd_disk s) (nd_disk t)"
    using prepare_on_quorum_frame [OF p assms(3)] by simp_all
  then have h: "holds (nd_disk t) (nd_source t)" using assms(4) same_files_kept(4) by auto
  have ok: "source_ok (nd_source s)" "storable (nd_source s)" using assms(4) by (simp_all add: holds_def)
  obtain src st where st: "apply_replicated_mutation ?m (nd_source s) = Inr (src, st)"
    using apply_prepared_accepts [OF ap] t(1) by auto
  with prepared_fresh [OF ok(1) assms(5,2)] have new: "apply_replicated_mutation ?m (nd_source s) = Inr (src, Applied)" by blast
  have "storable src" by (rule storable_applied [OF ok assms(8,6,7) new])
  with apply_prepared_safe [OF ap h, of src] new t(1) have v: "same_content (nd_source v) src" "holds (nd_disk v) (nd_source v)"
    by auto
  have "indexed src ?m" using indexed_applied(1) [OF ok(1) new] by simp
  then have "indexed (nd_source v) ?m" using v(1) by (simp add: indexed_def same_content_def)
  moreover have "nd_source s' = nd_source v \<and> nd_disk s' = nd_disk v"
    using c(1) by (auto simp: commit_on_peers_def post_to_remote_peers_best_effort_def post_to_all_def abind_app split: if_splits)
  ultimately show ?thesis using v(2) c(2) by simp
qed

lemma acknowledged_out: "commit_prepared_outcome w now meanwhile answers out s = (Inr out', s') \<Longrightarrow> out' = out"
  by (auto simp: commit_prepared_outcome_def abind_Inr Let_def split: if_splits)

section \<open>Commits that succeed\<close>

text \<open>Log compaction is off, writes and signatures succeed.\<close>

definition calm :: "world \<Rightarrow> node \<Rightarrow> bool" where
  "calm w s \<longleftrightarrow> ready w (nd_object_store s) s \<and> store_ok w (nd_object_store s) \<and> cc_min_log_entries (nd_compaction s) = 0"

lemma calm_rest:
  assumes "same_rest s s'" and "dk_writes (nd_disk s') = []" and "calm w s"
  shows "calm w s'"
  using assms same_rest_parts [OF assms(1)] by (simp add: calm_def ready_def)

lemma works_calm:
  assumes "\<And>store. store_ok w store \<Longrightarrow> works (ready w store) m" and "moves same_rest m"
  shows "works (calm w) m"
  unfolding works_def
proof (intro allI impI)
  fix s
  assume c: "calm w s"
  then obtain x s' where m: "m s = (Inr x, s')" "ready w (nd_object_store s) s'"
    using assms(1) [of "nd_object_store s"] unfolding works_def calm_def by blast
  with calm_rest [OF movesD [OF assms(2) m(1)] _ c] show "\<exists>x s'. m s = (Inr x, s') \<and> calm w s'"
    by (auto simp: ready_def)
qed

lemma write_signed_works: "works (ready w store) (write_signed_payload_file w p b)"
  unfolding works_def
proof (intro allI impI)
  fix s
  assume s: "ready w store s"
  then obtain sig where sig: "signature_text w (nd_signer s) b = Inr sig" by (auto simp: ready_def)
  with s show "\<exists>x s'. write_signed_payload_file w p b s = (Inr x, s') \<and> ready w store s'"
    by (simp add: write_signed_payload_file_def write_payload_good ready_def on_disk_def)
qed

lemma persist_latest_works: "(\<And>b. length (wd_sha256 w b) = 32) \<Longrightarrow> works (calm w) (persist_latest_snapshot w now sn)"
  by (rule works_calm [OF _ persist_latest_moves])
    (auto simp: persist_latest_snapshot_def write_signed_snapshot_file_def persist_snapshot_manifest_def
      intro!: works_bind works_pure write_signed_works publication_works)

lemma persist_archived_works: "(\<And>b. length (wd_sha256 w b) = 32) \<Longrightarrow> works (calm w) (persist_archived_snapshot w now sn name)"
  by (rule works_calm [OF _ persist_archived_moves])
    (auto simp: persist_archived_snapshot_def write_signed_snapshot_file_def persist_snapshot_manifest_def
      intro!: works_bind works_pure write_signed_works publication_works)

lemma calm_disk:
  assumes "calm w s" and "\<And>d. dk_writes (f d) = dk_writes d"
  shows "calm w (on_disk f s)"
  using assms by (simp add: calm_def ready_def) (simp add: on_disk_def)

lemma replace_file_works:
  assumes "\<And>d. dk_writes (f d) = dk_writes d"
  shows "works (calm w) (replace_file f)"
  unfolding works_def
proof (intro allI impI)
  fix s
  assume s: "calm w s"
  then have "dk_writes (nd_disk s) = []" by (simp add: calm_def ready_def)
  with calm_disk [OF s assms] show "\<exists>x s'. replace_file f s = (Inr x, s') \<and> calm w s'" by (simp add: replace_file_good)
qed

lemma append_file_works:
  assumes "\<And>d. dk_writes (f None d) = dk_writes d"
  shows "works (calm w) (append_file f)"
  unfolding works_def
proof (intro allI impI)
  fix s
  assume s: "calm w s"
  then have "dk_writes (nd_disk s) = []" by (simp add: calm_def ready_def)
  with calm_disk [OF s assms] show "\<exists>x s'. append_file f s = (Inr x, s') \<and> calm w s'" by (simp add: append_file_good)
qed

lemma gets_works: "(\<And>x. works P (f x)) \<Longrightarrow> works P (abind (gets g) f)"
  by (rule works_bind [OF works_pure(3)])

lemma apply_prepared_works:
  assumes sha: "\<And>b. length (wd_sha256 w b) = 32" and "calm w s"
    and new: "apply_replicated_mutation m (nd_source s) = Inr (src, st)"
  shows "\<exists>x s'. apply_prepared_mutation w now m s = (Inr x, s') \<and> calm w s'"
proof -
  let ?b = "mu_seq m \<le> vec_get_or 0 (so_watermarks (nd_source s)) (unat (mu_shard m))"
  have p: "works (calm w) (persist_mutation m)"
    unfolding persist_mutation_def by (intro works_bind append_file_works replace_file_works) simp_all
  have frame: "nd_source t = nd_source s" if "persist_mutation m s = (q, t)" for q t
    using that unfolding persist_mutation_def
    by (cases rule: abind_cases) (auto dest!: replace_file_frame(1) simp: append_file_def Let_def split: list.splits write_outcome.splits)
  have "works (calm w) (if ?b then ret () else persist_mutation m)" using p works_pure by auto
  with assms(2) obtain u t where t: "(if ?b then ret () else persist_mutation m) s = (Inr u, t)" "calm w t"
    unfolding works_def by blast
  then have src: "nd_source t = nd_source s" using frame by (auto split: if_splits)
  let ?t = "t\<lparr>nd_source := src\<rparr>"
  have act: "source_act (apply_replicated_mutation m) t = (Inr st, ?t)" using new src by (simp add: source_act_def)
  have calm_t: "calm w ?t" using t(2) by (simp add: calm_def ready_def)
  let ?post = "if st = Applied then
      abind (gets (\<lambda>s. source_snapshot (nd_source s))) (\<lambda>sn.
      abind (persist_latest_snapshot w now sn) (\<lambda>_.
      abind (persist_archived_snapshot w now sn (archive_name_for_mutation m)) (\<lambda>_.
        maybe_compact_mutation_logs w now))) else ret ()"
  have "works (calm w) (maybe_compact_mutation_logs w now)"
    by (auto simp: works_def maybe_compact_mutation_logs_def log_is_short_def calm_def)
  then have "works (calm w) ?post"
    using persist_latest_works [OF sha] persist_archived_works [OF sha] by (auto intro!: gets_works works_bind works_pure)
  with calm_t obtain y v where v: "?post ?t = (Inr y, v)" "calm w v" unfolding works_def by blast
  have "works (calm w) (remove_pending_mutation m)"
    unfolding remove_pending_mutation_def
    by (rule gets_works) (auto intro!: works_pure replace_file_works split: option.split)
  with v(2) obtain z s' where s': "remove_pending_mutation m v = (Inr z, s')" "calm w s'" unfolding works_def by blast
  have "apply_prepared_mutation w now m s = (Inr st, s')"
    unfolding apply_prepared_mutation_def abind_Inr
    by (rule exI, rule exI, rule conjI, rule act_unfold(4), rule exI, rule exI, rule conjI, rule t(1), rule exI, rule exI, rule conjI, rule act, rule exI, rule exI, rule conjI,
        rule v(1), rule exI, rule exI, rule conjI, rule s'(1)) simp
  with s'(2) show ?thesis by blast
qed

section \<open>A node that has started\<close>

lemma holds_start:
  assumes "0 < n" and "hm_get (dk_files d) latest_path = Some (encode_snapshot (source_snapshot (source_new n region)))"
    and "dk_logs d = hm_new" and "dk_idempotency d = None"
  shows "holds d (source_new n region)"
proof -
  have n: "max n 1 = n" using inc_le [of 0 n] assms(1) by (simp add: max_absorb1)
  have e: "\<not> indexed (source_new n region) m" for m by (simp add: indexed_def source_new_def Let_def)
  have "storable (source_new n region)"
    unfolding storable_content using e by (simp add: source_new_def Let_def n hm_values_def hm_new_def)
  moreover have "archived d (source_new n region)"
    using e assms(3,4) by (simp add: archived_def read_shard_log_def idempotency_list_def shard_log_def)
  ultimately show ?thesis using assms(2) source_new_ok by (simp add: holds_def latest_is_def)
qed

definition sample_started :: "string \<Rightarrow> node" where
  "sample_started n = (let s = on_disk (\<lambda>d. d\<lparr>dk_files := [(latest_path,
       encode_snapshot (source_snapshot (source_new 1 ''eu'')))]\<rparr>) (sample_node n) in
     s\<lparr>nd_compaction := \<lparr>cc_min_log_entries = 0, cc_compact_on_startup = True\<rparr>,
       nd_consensus := (nd_consensus s)\<lparr>cs_role := Leader, cs_leader_id := Some n\<rparr>\<rparr>)"

lemma sample_started_parts:
  "nd_source (sample_started n) = source_new 1 ''eu''" "dk_writes (nd_disk (sample_started n)) = []"
  "nd_config (sample_started n) = sample_cfg n" "cs_role (nd_consensus (sample_started n)) = Leader"
  "cs_current_term (nd_consensus (sample_started n)) = 1" "nd_compaction (sample_started n) = \<lparr>cc_min_log_entries = 0, cc_compact_on_startup = True\<rparr>"
  "nd_object_store (sample_started n) = None"
  "hm_get (dk_files (nd_disk (sample_started n))) latest_path = Some (encode_snapshot (source_snapshot (source_new 1 ''eu'')))"
  "dk_logs (nd_disk (sample_started n)) = hm_new" "dk_idempotency (nd_disk (sample_started n)) = None"
  by (simp_all add: sample_started_def Let_def fresh_node_def empty_disk_def hm_get_def)
    (simp_all add: sample_cfg_def on_disk_def)

lemma sample_started_holds: "holds (nd_disk (sample_started n)) (nd_source (sample_started n))"
  using holds_start [of 1 "nd_disk (sample_started n)" "''eu''"] by (simp add: sample_started_parts)

definition sample_mutation :: "u64 \<Rightarrow> mutation" where
  "sample_mutation kh = request_mutation 9 sample_request (set_epoch 1 (source_new 1 ''eu'')) kh 0 1"

lemma sample_mutation_ok: "wire_record (sample_mutation kh)" "placed (sample_mutation kh)" "room (source_new 1 ''eu'')"
  "\<exists>src. apply_replicated_mutation (sample_mutation kh) (source_new 1 ''eu'') = Inr (src, Applied)"
proof -
  have "wire_mutation (sample_mutation kh)"
    by (simp add: wire_mutation_def wire_entry_def wire_str_def str_ok_ascii sample_mutation_def request_mutation_def
        sample_request_def set_epoch_def source_new_def Let_def)
  moreover have "length (encode_mutation (sample_mutation kh)) < 2 ^ 32"
    by (simp add: encode_mutation_def encode_entry_def write_string_def sample_mutation_def request_mutation_def
        sample_request_def set_epoch_def source_new_def Let_def)
  ultimately show "wire_record (sample_mutation kh)" by (simp add: wire_record_def)
  show "placed (sample_mutation kh)" by (simp add: placed_def sample_mutation_def request_mutation_def)
  show "room (source_new 1 ''eu'')" by (simp add: room_def source_new_def Let_def hm_new_def)
  show "\<exists>src. apply_replicated_mutation (sample_mutation kh) (source_new 1 ''eu'') = Inr (src, Applied)"
    by (simp add: apply_replicated_mutation_def apply_committed_mutation_def vec_index_def sample_mutation_def
        request_mutation_def source_new_def Let_def)
qed

lemma sample_started_calm: "calm sample_world (sample_started n)"
proof -
  have "signature_text sample_world (nd_signer (sample_started n)) b = Inr ''{}''" for b
    by (simp add: sample_started_def Let_def on_disk_def signature_text_def fresh_node_def sign_payload_def
        payload_signature_hex_def toy_decode sample_world_def format_payload_signature_from_hex_def decode_hex_encode)
  then show ?thesis by (simp add: calm_def ready_def store_ok_def sample_started_parts)
qed

text \<open>The leader of the sample cluster commits with the answer of one peer.\<close>

lemma sample_commit:
  obtains out s' p where
    "commit_request sample_world 9 9 id [Inr \<lparr>hr_status_code = 200, hr_body = []\<rparr>] sample_request (sample_started ''a'') = (Inr out, s')"
    and "commit_prepared_outcome sample_world 9 id [Inr \<lparr>hr_status_code = 200, hr_body = []\<rparr>] p
        (on_source (set_epoch 1) (sample_started ''a'')) = (Inr out, s')"
    and "\<not> co_duplicate p" and "out = p" and "wire_record (co_mutation out)"
proof -
  let ?answers = "[Inr \<lparr>hr_status_code = 200, hr_body = []\<rparr>]"
  let ?s = "on_source (set_epoch 1) (sample_started ''a'')"
  let ?kh = "ak_key_hash (acl_key_from_raw (dr_tenant_id sample_request) (dr_namespace sample_request) (dr_key sample_request))"
  let ?m = "sample_mutation ?kh"
  let ?p = "\<lparr>co_mutation = ?m, co_duplicate = False\<rparr>"
  have "shard_for_hash h 1 = 0" for h by (simp add: shard_for_hash_def)
  then have p: "prepare_commit 9 sample_request (nd_source ?s) = Inr ?p"
    using sample_blank by (simp add: prepare_commit_def sample_started_parts Let_def vec_index_def sample_mutation_def
        set_epoch_def) (simp add: source_new_def Let_def)
  have epoch: "ci_epoch (mu_commit_id ?m) = 1" by (simp add: sample_mutation_def request_mutation_def set_epoch_def)
  have cfg: "is_clustered (sample_cfg ''a'')" "rc_quorum (sample_cfg ''a'') = 2" "length (remote_peers (sample_cfg ''a'')) = Suc (Suc 0)"
    by (simp_all add: sample_cfg_def is_clustered_def remote_peers_def)
  have ne: "remote_peers (sample_cfg ''a'') \<noteq> []" using cfg(3) by (cases "remote_peers (sample_cfg ''a'')") auto
  let ?posted = "\<lambda>r s. s\<lparr>nd_posts := nd_posts s @ map (\<lambda>q. \<lparr>pp_addr = cp_addr q, pp_route = r,
      pp_headers = replication_header_values s, pp_body = encode_mutation ?m\<rparr>) (remote_peers (nd_config s))\<rparr>"
  define t where "t = ?posted ''/internal/replication/prepare'' ?s"
  have prep: "prepare_on_quorum id ?answers ?m ?s = (Inr (), t)"
    by (simp add: t_def prepare_on_quorum_def post_to_remote_peers_until_quorum_def post_to_all_def sample_started_parts cfg ne abind_app)
  have "calm sample_world t" using sample_started_calm [of "''a''"] by (simp add: calm_def ready_def on_source_def t_def)
  moreover obtain src where "apply_replicated_mutation ?m (nd_source t) = Inr (src, Applied)"
    using sample_mutation_ok(4) [of ?kh]
    by (auto simp: t_def sample_started_parts apply_replicated_mutation_def apply_committed_mutation_def set_epoch_def source_new_def
        Let_def vec_index_def sample_mutation_def request_mutation_def)
  ultimately obtain x u where u: "apply_prepared_mutation sample_world 9 ?m t = (Inr x, u)"
    using apply_prepared_works [of sample_world t ?m src Applied 9] by (auto simp: sample_world_def)
  obtain s' where s': "commit_on_peers ?m u = (Inr (), s')"
    by (cases "is_clustered (nd_config u)")
      (auto simp: commit_on_peers_def post_to_remote_peers_best_effort_def post_to_all_def)
  have auth: "write_authority ?s = (Inr 1, ?s)" "write_authority t = (Inr 1, t)"
    by (simp_all add: t_def write_authority_def ensure_write_authority_def sample_started_parts)
  have c: "commit_prepared_outcome sample_world 9 id ?answers ?p ?s = (Inr ?p, s')"
    by (simp add: commit_prepared_outcome_def Let_def auth epoch prep u s')
  have a0: "write_authority (sample_started ''a'') = (Inr 1, sample_started ''a'')"
    by (simp add: write_authority_def ensure_write_authority_def sample_started_parts)
  have "commit_request sample_world 9 9 id ?answers sample_request (sample_started ''a'') = (Inr ?p, s')"
    using p c by (simp add: commit_request_def a0)
  from that [OF this c] show ?thesis using sample_mutation_ok(1) by simp
qed

section \<open>Properties\<close>







end
