(* ===== verification/Blocked_Start.thy ===== *)
theory Blocked_Start
  imports Crash_Recovery
begin

text \<open>
  A retry that blocks the next start.  When the record of a mutation has been appended but its
  delta bundle could not be written, the mutation is not applied in memory; the client's retry
  prepares a mutation of the same operation with another commit time, which is appended as well.
  From then on the log has two records of one operation, and loading it is refused.
\<close>

lemma insert_conflict:
  assumes "m \<in> set ms" and "m' \<in> set ms" and "mu_op_id m = mu_op_id m'" and "m \<noteq> m'"
  shows "rfold insert_op_index ms s = Inl InvalidData"
proof -
  have known: "hm_get (so_op_index s) (mu_op_id x) = Some y \<Longrightarrow> x \<in> set ms \<Longrightarrow> x \<noteq> y \<Longrightarrow>
      rfold insert_op_index ms s = Inl InvalidData" for ms s x y
  proof (induction ms arbitrary: s)
    case (Cons a ms)
    show ?case
    proof (cases "insert_op_index a s")
      case (Inl e)
      then show ?thesis by (auto simp: insert_op_index_def split: option.splits if_splits)
    next
      case (Inr t)
      then have "hm_get (so_op_index t) (mu_op_id x) = Some y"
        using Cons.prems(1) by (cases rule: insert_op_index_cases) auto
      moreover have "x \<in> set ms" using Inr Cons.prems by (auto simp: insert_op_index_def split: if_splits)
      ultimately show ?thesis using Inr Cons.IH Cons.prems(3) by simp
    qed
  qed simp
  show ?thesis using assms(1,2)
  proof (induction ms arbitrary: s)
    case (Cons a ms)
    show ?case
    proof (cases "insert_op_index a s")
      case (Inl e)
      then show ?thesis by (auto simp: insert_op_index_def split: option.splits if_splits)
    next
      case (Inr t)
      then have "hm_get (so_op_index t) (mu_op_id a) = Some a"
        by (cases rule: insert_op_index_cases) auto
      then show ?thesis
        using Inr Cons known [of t m a ms] known [of t m' a ms] assms(3,4) by auto
    qed
  qed simp
qed

text \<open>A log with two records of one operation is refused, whatever the snapshot is.\<close>

lemma load_conflict:
  assumes "source_ok src" and "storable src" and "latest_is d src" and "so_shard_count src = n"
    and "\<And>i. i < n \<Longrightarrow> read_shard_log (dk_logs d) i = Inr (f i) \<and> (\<forall>x \<in> set (f i). mu_shard x = i)"
    and "idempotency_list d = Inr ms"
    and "m \<in> set (f (mu_shard m))" and "m' \<in> set (f (mu_shard m'))" and "mu_shard m < n" and "mu_shard m' < n"
    and "mu_op_id m = mu_op_id m'" and "m \<noteq> m'"
  shows "load_source_of_truth d n region None = Inl InvalidData"
proof -
  let ?logs = "concat (map f (shard_ids n))"
  have logs: "load_all_logs (dk_logs d) n = Inr ?logs" using assms(5) by (intro load_all_logs_ok) blast
  have len: "length (so_watermarks src) = unat n" using assms(1,4) by (simp add: source_ok_def history_ok_def)
  have "\<forall>x \<in> set ?logs. mu_shard x < n" using assms(5) by (auto simp: set_shard_ids)
  then have tail: "\<exists>t. tail_of (so_watermarks src) ?logs = Inr t"
    using tail_of_ok [of ?logs "so_watermarks src"] len by (auto simp: word_less_nat_alt)
  have dec: "decode_snapshot (encode_snapshot (source_snapshot src)) = Inr (source_snapshot src)"
    using decode_encode_snapshot [of "source_snapshot src" "[]"] assms(2) by (simp add: storable_def)
  have sn: "sn_shard_count (source_snapshot src) = n" "sn_watermarks (source_snapshot src) = so_watermarks src"
    using assms(4) by (simp_all add: source_snapshot_def)
  have idem: "(case dk_idempotency d of Some b \<Rightarrow> rbind (decode_mutation_stream b) (\<lambda>xs. Inr (xs @ ?logs))
      | None \<Rightarrow> Inr ?logs) = Inr (ms @ ?logs)"
    using assms(6) by (auto simp: idempotency_list_def split: option.splits)
  have "m \<in> set (ms @ ?logs)" "m' \<in> set (ms @ ?logs)" using assms(7-10) by (auto simp: set_shard_ids)
  then have "rfold insert_op_index (ms @ ?logs) s = Inl InvalidData" for s
    using assms(11,12) by (rule insert_conflict)
  with tail dec sn idem logs assms(2,3) show ?thesis
    by (auto simp: load_source_of_truth_def latest_is_def storable_def source_from_snapshot_and_mutations_def)
qed

section \<open>The retry\<close>

text \<open>Without compaction the logs and the idempotency file stay, and the snapshot is the old or the new one.\<close>

lemma publications_frame:
  assumes "abind (persist_latest_snapshot w now (source_snapshot src)) (\<lambda>_.
      abind (persist_archived_snapshot w now (source_snapshot src) (archive_name_for_mutation m)) (\<lambda>_.
      abind (maybe_compact_mutation_logs w now) (\<lambda>_. abind (remove_pending_mutation m) (\<lambda>_. ret st)))) s = (r, s')"
    and "nd_source s = src" and "log_is_short s"
  shows "dk_logs (nd_disk s') = dk_logs (nd_disk s) \<and> dk_idempotency (nd_disk s') = dk_idempotency (nd_disk s) \<and>
    (hm_get (dk_files (nd_disk s')) latest_path = hm_get (dk_files (nd_disk s)) latest_path \<or> latest_is (nd_disk s') src)"
proof -
  have latest: "dk_logs (nd_disk t) = dk_logs (nd_disk s) \<and> dk_idempotency (nd_disk t) = dk_idempotency (nd_disk s) \<and>
      nd_source t = nd_source s \<and> nd_compaction t = nd_compaction s \<and>
      (hm_get (dk_files (nd_disk t)) latest_path = hm_get (dk_files (nd_disk s)) latest_path \<or> latest_is (nd_disk t) src)"
    if "persist_latest_snapshot w now (source_snapshot src) s = (q, t)" for q t
  proof -
    have "same_rest s t" using persist_latest_outcome [OF that] by (auto simp: keeps_def)
    note p = same_rest_parts [OF this]
    moreover note rest_of_disk_parts [OF p(11)]
    moreover have "hm_get (dk_files (nd_disk t)) latest_path = hm_get (dk_files (nd_disk s)) latest_path \<or> latest_is (nd_disk t) src"
      using persist_latest_outcome [OF that] by (auto simp: keeps_def latest_is_def)
    ultimately show ?thesis by simp
  qed
  have kept: "dk_logs (nd_disk v) = dk_logs (nd_disk u) \<and> dk_idempotency (nd_disk v) = dk_idempotency (nd_disk u) \<and>
      hm_get (dk_files (nd_disk v)) latest_path = hm_get (dk_files (nd_disk u)) latest_path \<and> nd_source v = nd_source u \<and>
      nd_compaction v = nd_compaction u"
    if "persist_archived_snapshot w now (source_snapshot src) (archive_name_for_mutation m) u = (q, v)" for q u v
  proof -
    have k: "keeps u v" using movesD [OF persist_archived_keeps [OF archive_path] that] .
    then have "same_rest u v" by (simp add: keeps_def)
    then show ?thesis using keeps_files [OF k] same_rest_parts(6) [of u v] by (simp add: same_files_def)
  qed
  from assms(1) show ?thesis
  proof (cases rule: abind_cases)
    case (failed e)
    with latest [OF failed(1)] show ?thesis by blast
  next
    case (passed x1 t1)
    note l = latest [OF passed(1)]
    from passed(2) show ?thesis
    proof (cases rule: abind_cases)
      case (failed e)
      with kept [OF failed(1)] l show ?thesis by (auto simp: latest_is_def)
    next
      case (passed x2 t2)
      note k = kept [OF passed(1)]
      have "log_is_short t2" using assms(3) l k by (simp add: log_is_short_def)
      with passed(2) have "abind (remove_pending_mutation m) (\<lambda>_. ret st) t2 = (r, s')"
        by (simp add: maybe_compact_mutation_logs_def abind_app)
      then have "same_files (nd_disk t2) (nd_disk s')"
        by (cases rule: abind_cases) (auto dest: remove_pending_same)
      with l k show ?thesis by (auto simp: same_files_def latest_is_def)
    qed
  qed
qed

lemma sample_retry_ok:
  "wire_record (sample_mutation kh\<lparr>mu_committed_at_unix := t\<rparr>)" "placed (sample_mutation kh\<lparr>mu_committed_at_unix := t\<rparr>)"
  "\<exists>src. apply_replicated_mutation (sample_mutation kh\<lparr>mu_committed_at_unix := t\<rparr>) (source_new 1 ''eu'') = Inr (src, Applied)"
proof -
  have "encode_mutation (sample_mutation kh\<lparr>mu_committed_at_unix := t\<rparr>) = encode_mutation (request_mutation t sample_request
      (set_epoch 1 (source_new 1 ''eu'')) kh 0 1)" by (simp add: sample_mutation_def request_mutation_def)
  moreover have "length (encode_mutation (request_mutation t sample_request (set_epoch 1 (source_new 1 ''eu'')) kh 0 1)) < 2 ^ 32"
    by (simp add: encode_mutation_def encode_entry_def write_string_def request_mutation_def
        sample_request_def set_epoch_def source_new_def Let_def)
  ultimately show "wire_record (sample_mutation kh\<lparr>mu_committed_at_unix := t\<rparr>)"
    using sample_mutation_ok(1) [of kh] by (simp add: wire_record_def wire_mutation_def)
  show "placed (sample_mutation kh\<lparr>mu_committed_at_unix := t\<rparr>)" by (simp add: placed_def sample_mutation_def request_mutation_def)
  show "\<exists>src. apply_replicated_mutation (sample_mutation kh\<lparr>mu_committed_at_unix := t\<rparr>) (source_new 1 ''eu'') = Inr (src, Applied)"
    by (simp add: apply_replicated_mutation_def apply_committed_mutation_def vec_index_def sample_mutation_def
        request_mutation_def source_new_def Let_def)
qed

text \<open>C33: When the delta bundle of a mutation cannot be written after its record has been appended, a
  retry of the same operation with another commit time appends a second record; unless a compaction
  removes them, the node then refuses to load its source of truth, whatever the retry returned.\<close>

theorem retried_append_blocks_start:
  assumes "holds (nd_disk s) (nd_source s)" and "dk_writes (nd_disk s) = [Written, Refused]"
    and "apply_replicated_mutation m (nd_source s) = Inr (src, Applied)" and "wire_record m"
    and "apply_replicated_mutation m' (nd_source s) = Inr (src', Applied)" and "wire_record m'" and "placed m'"
    and "mu_op_id m = mu_op_id m'" and "m \<noteq> m'" and "mu_shard m = mu_shard m'" and "room (nd_source s)"
    and "cc_min_log_entries (nd_compaction s) = 0 \<or>
      Suc (length (so_mutations (nd_source s))) < cc_min_log_entries (nd_compaction s)"
    and "apply_prepared_mutation w now m s = (r, t)" and "apply_prepared_mutation w now' m' t = (r', t')"
  shows "r = Inl Io \<and> load_source_of_truth (nd_disk t') (so_shard_count (nd_source s)) region None = Inl InvalidData"
proof -
  let ?old = "nd_source s" and ?n = "so_shard_count (nd_source s)"
  have h: "source_ok ?old" "storable ?old" "archived (nd_disk s) ?old" "latest_is (nd_disk s) ?old"
    using assms(1) by (auto simp: holds_def)
  note ix = indexed_applied [OF h(1) assms(3)] and ix' = indexed_applied [OF h(1) assms(5)]
  have len: "length (so_watermarks ?old) = unat ?n" using h(1) by (simp add: source_ok_def history_ok_def)
  have fresh: "\<not> mu_seq x \<le> vec_get_or 0 (so_watermarks ?old) (unat (mu_shard x))"
    if "mu_shard x < ?n" "so_watermarks ?old ! unat (mu_shard x) < mu_seq x" for x
    using that len by (simp add: word_less_nat_alt not_le)
  have t: "r = Inl Io" "nd_source t = ?old" "dk_writes (nd_disk t) = []" "nd_compaction t = nd_compaction s"
    "dk_logs (nd_disk t) = append_mutation_to_log m (dk_logs (nd_disk s))"
    "dk_idempotency (nd_disk t) = dk_idempotency (nd_disk s)" "dk_files (nd_disk t) = dk_files (nd_disk s)"
    using assms(2,13) fresh [OF ix(3,4)]
    by (auto simp: apply_prepared_mutation_def persist_mutation_def append_file_def replace_file_def on_disk_def abind_app)
  define u where "u = on_disk (\<lambda>d. d\<lparr>dk_logs := append_mutation_to_log m' (dk_logs d),
    dk_bundles := write_delta_bundle_file (mu_shard m') (mu_seq m') (mu_seq m') [m'] (dk_bundles d)\<rparr>) t"
  have "persist_mutation m' t = (Inr (), u)"
    using t(3) by (simp add: persist_mutation_def append_file_def replace_file_def on_disk_def abind_app u_def)
  moreover have u: "nd_source u = ?old" "nd_compaction u = nd_compaction s"
    "dk_logs (nd_disk u) = append_mutation_to_log m' (append_mutation_to_log m (dk_logs (nd_disk s)))"
    "dk_idempotency (nd_disk u) = dk_idempotency (nd_disk s)" "dk_files (nd_disk u) = dk_files (nd_disk s)"
    using t by (simp_all add: u_def on_disk_def)
  ultimately have post: "abind (persist_latest_snapshot w now' (source_snapshot src')) (\<lambda>_.
      abind (persist_archived_snapshot w now' (source_snapshot src') (archive_name_for_mutation m')) (\<lambda>_.
      abind (maybe_compact_mutation_logs w now') (\<lambda>_. abind (remove_pending_mutation m') (\<lambda>_. ret Applied))))
      (u\<lparr>nd_source := src'\<rparr>) = (r', t')"
    using assms(14) fresh [OF ix'(3,4)] assms(5) t(2)
    by (simp add: apply_prepared_mutation_def source_act_def abind_assoc)
  have "length (so_mutations src') = Suc (length (so_mutations ?old))"
    using assms(5) by (cases rule: apply_replicated_cases)
      (auto simp: apply_committed_mutation_ok record_mutation_def push_mutation_def)
  then have "log_is_short (u\<lparr>nd_source := src'\<rparr>)" using assms(12) u(2) by (auto simp: log_is_short_def)
  from publications_frame [OF post _ this]
  have d: "dk_logs (nd_disk t') = append_mutation_to_log m' (append_mutation_to_log m (dk_logs (nd_disk s)))"
    "dk_idempotency (nd_disk t') = dk_idempotency (nd_disk s)" "latest_is (nd_disk t') ?old \<or> latest_is (nd_disk t') src'"
    using h(4) u by (auto simp: latest_is_def)
  have old: "read_shard_log (dk_logs (nd_disk s)) i = Inr (shard_log (nd_disk s) i) \<and> (\<forall>x \<in> set (shard_log (nd_disk s) i). mu_shard x = i)"
    if "i < ?n" for i
    using h(3) that by (fastforce simp: archived_def shard_log_def)
  let ?f = "\<lambda>i. if i = mu_shard m' then shard_log (nd_disk s) i @ [m, m'] else shard_log (nd_disk s) i"
  have logs: "read_shard_log (dk_logs (nd_disk t')) i = Inr (?f i) \<and> (\<forall>x \<in> set (?f i). mu_shard x = i)" if "i < ?n" for i
  proof (cases "i = mu_shard m'")
    case True
    with old [OF that] read_appended [of "dk_logs (nd_disk s)" m] assms(4,10)
      read_appended [of "append_mutation_to_log m (dk_logs (nd_disk s))" m'] assms(6) show ?thesis by (simp add: d(1))
  next
    case False
    with old [OF that] assms(10) show ?thesis by (simp add: d(1) read_appended_other)
  qed
  obtain ms where ms: "idempotency_list (nd_disk t') = Inr ms"
    using h(3) d(2) by (auto simp: archived_def idempotency_list_def)
  have in_f: "m \<in> set (?f (mu_shard m))" "m' \<in> set (?f (mu_shard m'))" using assms(10) by simp_all
  have src': "source_ok src'" "storable src'" "so_shard_count src' = ?n"
    using apply_replicated_ok [OF h(1) assms(5)] storable_applied [OF h(1,2) assms(11,6,7,5)] ix'(2) by simp_all
  note clash = load_conflict [OF _ _ _ _ logs ms in_f ix(3) ix'(3) assms(8,9)]
  from d(3) have "load_source_of_truth (nd_disk t') ?n region None = Inl InvalidData"
    using clash [OF h(1,2)] clash [OF src'(1,2)] src'(3) by blast
  with t(1) show ?thesis by simp
qed

theorem retried_append_blocks_start_witness:
  "let s = on_disk (\<lambda>d. d\<lparr>dk_writes := [Written, Refused]\<rparr>) (sample_started ''a'');
       (r, t) = apply_prepared_mutation sample_world 9 (sample_mutation 5) s;
       (r', t') = apply_prepared_mutation sample_world 9 (sample_mutation 5\<lparr>mu_committed_at_unix := 11\<rparr>) t
   in load_source_of_truth (nd_disk t') 1 ''eu'' None = Inl InvalidData"
proof -
  let ?s = "on_disk (\<lambda>d. d\<lparr>dk_writes := [Written, Refused]\<rparr>) (sample_started ''a'')"
  let ?m = "sample_mutation 5" and ?m' = "sample_mutation 5\<lparr>mu_committed_at_unix := 11\<rparr>"
  have "same_files (nd_disk (sample_started ''a'')) (nd_disk ?s)" by (simp add: same_files_def)
  then have h: "holds (nd_disk ?s) (nd_source ?s)" using sample_started_holds [of "''a''"] same_files_kept(4) by simp
  have s: "nd_source ?s = source_new 1 ''eu''" "cc_min_log_entries (nd_compaction ?s) = 0"
    by (simp_all add: sample_started_parts) (simp add: on_disk_def sample_started_parts)
  obtain src src' where ap: "apply_replicated_mutation ?m (nd_source ?s) = Inr (src, Applied)"
    "apply_replicated_mutation ?m' (nd_source ?s) = Inr (src', Applied)"
    using sample_mutation_ok(4) [of 5] sample_retry_ok(3) [of 11 5] unfolding s by blast
  obtain r t where t: "apply_prepared_mutation sample_world 9 ?m ?s = (r, t)"
    by (cases "apply_prepared_mutation sample_world 9 ?m ?s")
  obtain r' t' where t': "apply_prepared_mutation sample_world 9 ?m' t = (r', t')"
    by (cases "apply_prepared_mutation sample_world 9 ?m' t")
  have ne: "?m \<noteq> ?m'" by (simp add: sample_mutation_def request_mutation_def)
  have "load_source_of_truth (nd_disk t') (so_shard_count (nd_source ?s)) ''eu'' None = Inl InvalidData"
    using retried_append_blocks_start [OF h _ ap(1) sample_mutation_ok(1) ap(2) sample_retry_ok(1,2) _ ne _ _ _ t t']
      sample_mutation_ok(3) s by simp
  moreover have "so_shard_count (nd_source ?s) = 1" unfolding s by (simp add: source_new_def Let_def)
  ultimately show ?thesis using t t' by simp
qed

end

