(* ===== verification/Propagation.thy ===== *)
theory Propagation
  imports Replication
begin

text \<open>
  Propagation (\<open>globacl-commitd/src/app/propagation.rs\<close>): the publisher, that hands every
  committed mutation to JetStream, and the central log of acknowledgements, a text file with one
  JSON object per line.

  A round of the publisher takes the outcomes of its requests from a list; a list that ends early
  stands for requests that are not answered.  Published messages are collected in \<open>nd_posts\<close>, with
  the subject in place of the route.

  Results: a publisher never skips a mutation (\<open>publisher_never_skips\<close>), and the log of
  acknowledgements, read after a restart, is the store it was written from
  (\<open>acks_survive_restart\<close>).
\<close>

section \<open>Publisher\<close>

text \<open>A request to the stream: acknowledged, sent without an acknowledgement, or not sent.\<close>

datatype publish_outcome = Acked | NotAcked | NotSent

definition mutation_subject :: "string \<Rightarrow> mutation \<Rightarrow> string" where
  "mutation_subject pfx m =
     pfx @ ''.'' @ priority_as_str (mu_delivery_priority m) @ ''.shard.'' @ dec_string (unat (mu_shard m))"

definition stream_message :: "publisher_config \<Rightarrow> mutation \<Rightarrow> peer_post" where
  "stream_message p m = \<lparr>pp_addr = pc_nats_addr p, pp_route = mutation_subject (pc_subject_prefix p) m,
     pp_headers = [], pp_body = encode_mutation m\<rparr>"

definition nats_publish :: "publish_outcome \<Rightarrow> publisher_config \<Rightarrow> mutation \<Rightarrow> unit step" where
  "nats_publish answer p m =
     abind (modify (\<lambda>s. if answer = NotSent then s else s\<lparr>nd_posts := nd_posts s @ [stream_message p m]\<rparr>))
       (\<lambda>_. if answer = Acked then ret () else raise InvalidData)"

definition publish_order :: "mutation \<Rightarrow> u64 \<times> u16 \<times> u64" where
  "publish_order m = (mu_committed_at_unix m, mu_shard m, mu_seq m)"

definition mutations_to_publish :: "source \<Rightarrow> u64 list \<Rightarrow> mutation list" where
  "mutations_to_publish src last_published =
     sort_key publish_order (concat (map (\<lambda>i.
       source_mutations_for_shard src i (vec_get_or 0 last_published (unat i))) (shard_ids (so_shard_count src))))"

definition raise_offset :: "mutation \<Rightarrow> u64 list \<Rightarrow> u64 list" where
  "raise_offset m offsets =
     (if unat (mu_shard m) < length offsets
      then offsets[unat (mu_shard m) := max (offsets ! unat (mu_shard m)) (mu_seq m)] else offsets)"

fun publish_all ::
  "publisher_config \<Rightarrow> publish_outcome list \<Rightarrow> mutation list \<Rightarrow> u64 list \<Rightarrow> u64 list step" where
  "publish_all p outcomes [] offsets = ret offsets"
| "publish_all p outcomes (m # ms) offsets =
     abind (nats_publish (case outcomes of [] \<Rightarrow> NotSent | a # _ \<Rightarrow> a) p m) (\<lambda>_.
       publish_all p (tl outcomes) ms (raise_offset m offsets))"

text \<open>The file of offsets, as its field map.\<close>

definition offsets_form :: "u64 list \<Rightarrow> form" where
  "offsets_form offsets = (''shard_count'', dec_string (length offsets)) #
     map (\<lambda>(i, seq). (shard_field i, dec_string (unat seq))) (enumerate 0 offsets)"

definition load_publisher_offsets :: "form option \<Rightarrow> u16 \<Rightarrow> u64 list res" where
  "load_publisher_offsets file shard_count = (case file of
     None \<Rightarrow> Inr (replicate (unat shard_count) 0)
   | Some f \<Rightarrow> rmap (\<lambda>i. case hm_get f (shard_field i) of
         Some v \<Rightarrow> parse_query_u64 v
       | None \<Rightarrow> Inr 0) [0..<unat shard_count])"

definition persist_publisher_offsets :: "u64 list \<Rightarrow> unit step" where
  "persist_publisher_offsets offsets = replace_file (\<lambda>d. d\<lparr>dk_offsets := Some (offsets_form offsets)\<rparr>)"

definition publish_committed_mutations :: "u64 \<Rightarrow> publish_outcome list \<Rightarrow> unit step" where
  "publish_committed_mutations now outcomes =
     abind (gets nd_publisher) (\<lambda>publisher.
     case publisher of
       None \<Rightarrow> ret ()
     | Some p \<Rightarrow>
         abind (gets (\<lambda>s. is_clustered (nd_config s) \<and> \<not> is_write_leader s)) (\<lambda>follower.
         if follower then ret ()
         else
           abind (gets (\<lambda>s. ps_last_published (nd_published s))) (\<lambda>last_published.
           abind (gets (\<lambda>s. mutations_to_publish (nd_source s) last_published)) (\<lambda>ms.
           if ms = [] then ret ()
           else
             abind (publish_all p outcomes ms last_published) (\<lambda>next_published.
             abind (persist_publisher_offsets next_published) (\<lambda>_.
               modify (\<lambda>s. s\<lparr>nd_published := (nd_published s)
                 \<lparr>ps_last_published := next_published, ps_last_publish_unix := now\<rparr>\<rparr>)))))))"

text \<open>One turn of the loop of the publisher.\<close>

definition publisher_round :: "u64 \<Rightarrow> publish_outcome list \<Rightarrow> unit step" where
  "publisher_round now outcomes =
     abind (attempt (publish_committed_mutations now outcomes)) (\<lambda>r.
     case r of
       Inr _ \<Rightarrow> ret ()
     | Inl _ \<Rightarrow> modify (\<lambda>s. s\<lparr>nd_published := (nd_published s)
         \<lparr>ps_publish_errors := ps_publish_errors (nd_published s) + 1\<rparr>\<rparr>))"

section \<open>The log of acknowledgements\<close>

definition ack_line :: "world \<Rightarrow> propagation_ack \<Rightarrow> string" where
  "ack_line w a = wd_json_text w (propagation_ack_json a)"

definition append_propagation_ack :: "world \<Rightarrow> propagation_ack \<Rightarrow> unit step" where
  "append_propagation_ack w a =
     (let line = as_bytes (ack_line w a @ [newline]) in
      append_file (\<lambda>cut d. d\<lparr>dk_acks := dk_acks d @ (case cut of None \<Rightarrow> line | Some n \<Rightarrow> take n line)\<rparr>))"

definition apply_propagation_ack :: "world \<Rightarrow> propagation_ack \<Rightarrow> bool step" where
  "apply_propagation_ack w a =
     (let key = propagation_ack_key a in
      abind (gets (\<lambda>s. hm_get (nd_acks s) key)) (\<lambda>found.
      if (case found of Some existing \<Rightarrow> pg_seq a < pg_seq existing \<or> existing = a | None \<Rightarrow> False) then ret False
      else
        abind (append_propagation_ack w a) (\<lambda>_.
        abind (modify (\<lambda>s. s\<lparr>nd_acks := hm_insert key a (nd_acks s)\<rparr>)) (\<lambda>_. ret True))))"

definition replicate_propagation_ack_on_quorum ::
  "world \<Rightarrow> (node \<Rightarrow> node) \<Rightarrow> http_response res list \<Rightarrow> propagation_ack \<Rightarrow> unit step" where
  "replicate_propagation_ack_on_quorum w meanwhile answers a =
     abind (gets nd_config) (\<lambda>c.
     if \<not> is_clustered c then ret ()
     else
       abind (post_to_remote_peers_until_quorum ''/internal/replication/ack'' (as_bytes (ack_line w a))
                peer_header_values meanwhile answers) (\<lambda>replicated.
       if rc_quorum c \<le> replicated then ret () else raise InvalidData))"

definition record_propagation_ack ::
  "world \<Rightarrow> (node \<Rightarrow> node) \<Rightarrow> http_response res list \<Rightarrow> propagation_ack \<Rightarrow> unit step" where
  "record_propagation_ack w meanwhile answers a =
     abind (gets (\<lambda>s. is_clustered (nd_config s))) (\<lambda>clustered.
     abind (if clustered then abind write_authority (\<lambda>_. replicate_propagation_ack_on_quorum w meanwhile answers a)
            else ret ()) (\<lambda>_.
     abind (apply_propagation_ack w a) (\<lambda>_. ret ())))"

text \<open>\<open>now1\<close> and \<open>now2\<close> are the times that stand for missing ones.\<close>

definition parse_ack_line :: "world \<Rightarrow> u64 \<Rightarrow> u64 \<Rightarrow> string \<Rightarrow> propagation_ack res" where
  "parse_ack_line w now1 now2 line =
     rbind (parse_json_body (wd_from_json w) (as_bytes line)) (parse_propagation_ack_json (wd_json_text w) now1 now2)"

definition keep_newer_ack :: "propagation_ack \<Rightarrow> (string, propagation_ack) hashmap \<Rightarrow> (string, propagation_ack) hashmap" where
  "keep_newer_ack a acks =
     (if (case hm_get acks (propagation_ack_key a) of Some existing \<Rightarrow> pg_seq existing \<le> pg_seq a | None \<Rightarrow> True)
      then hm_insert (propagation_ack_key a) a acks else acks)"

definition load_propagation_acks :: "world \<Rightarrow> u64 \<Rightarrow> u64 \<Rightarrow> bytes \<Rightarrow> (string, propagation_ack) hashmap res" where
  "load_propagation_acks w now1 now2 file =
     rbind (ok_or Parse (from_utf8 file)) (\<lambda>t.
       rfold (\<lambda>line acks. rbind (parse_ack_line w now1 now2 line) (\<lambda>a. Inr (keep_newer_ack a acks)))
         (filter (\<lambda>line. \<not> blank line) (str_lines t)) hm_new)"

definition compare_acks :: "propagation_ack \<Rightarrow> propagation_ack \<Rightarrow> ordering" where
  "compare_acks l r = then_with (ord_cmp (pg_relay_id l) (pg_relay_id r))
     (then_with (ord_cmp (pg_agent_id l) (pg_agent_id r)) (ord_cmp (pg_shard_id l) (pg_shard_id r)))"

definition sorted_acks :: "node \<Rightarrow> propagation_ack list" where
  "sorted_acks s = sort_by compare_acks (hm_values (nd_acks s))"

definition format_propagation_ack_log_snapshot :: "node \<Rightarrow> json" where
  "format_propagation_ack_log_snapshot s =
     JObject [(''acks'', JArray (map propagation_ack_json (sorted_acks s)))]"

fun apply_ack_values :: "world \<Rightarrow> u64 \<Rightarrow> u64 \<Rightarrow> json list \<Rightarrow> nat \<Rightarrow> nat step" where
  "apply_ack_values w now1 now2 [] applied = ret applied"
| "apply_ack_values w now1 now2 (v # vs) applied =
     abind (lift_res (parse_propagation_ack_json (wd_json_text w) now1 now2 v)) (\<lambda>a.
     abind (apply_propagation_ack w a) (\<lambda>fresh.
       apply_ack_values w now1 now2 vs (if fresh then applied + 1 else applied)))"

definition apply_propagation_ack_log_snapshot :: "world \<Rightarrow> u64 \<Rightarrow> u64 \<Rightarrow> bytes \<Rightarrow> nat step" where
  "apply_propagation_ack_log_snapshot w now1 now2 body =
     abind (lift_res (parse_json_body (wd_from_json w) body)) (\<lambda>v.
     abind (lift_res (ok_or Parse (Option.bind (json_get v ''acks'') json_as_array))) (\<lambda>ack_values.
       apply_ack_values w now1 now2 ack_values 0))"

text \<open>\<open>answer\<close> is the answer of the peer to \<open>GET /internal/replication/acks\<close>.\<close>

definition sync_acks_from_peer :: "world \<Rightarrow> u64 \<Rightarrow> u64 \<Rightarrow> http_response res \<Rightarrow> nat step" where
  "sync_acks_from_peer w now1 now2 answer =
     abind (lift_res answer) (\<lambda>response.
     if hr_status_code response \<noteq> 200 then raise InvalidData
     else apply_propagation_ack_log_snapshot w now1 now2 (hr_body response))"

text \<open>A panic ends the thread; any other failure of a peer is collected.\<close>

fun sync_acks_loop :: "world \<Rightarrow> u64 \<Rightarrow> u64 \<Rightarrow> http_response res list \<Rightarrow> nat \<Rightarrow> bool \<Rightarrow> nat step" where
  "sync_acks_loop w now1 now2 [] applied failed = (if failed then raise InvalidData else ret applied)"
| "sync_acks_loop w now1 now2 (a # as) applied failed =
     abind (attempt (sync_acks_from_peer w now1 now2 a)) (\<lambda>r.
     case r of
       Inr n \<Rightarrow> sync_acks_loop w now1 now2 as (applied + n) failed
     | Inl e \<Rightarrow> if e = Panic then raise Panic else sync_acks_loop w now1 now2 as applied True)"

text \<open>\<open>answers\<close> has one answer for each remote peer, in their order.\<close>

definition sync_acks_from_peers :: "world \<Rightarrow> u64 \<Rightarrow> u64 \<Rightarrow> (string \<Rightarrow> http_response res) \<Rightarrow> nat step" where
  "sync_acks_from_peers w now1 now2 answer =
     abind (gets (\<lambda>s. remote_peers (nd_config s))) (\<lambda>peers.
       sync_acks_loop w now1 now2 (map (\<lambda>p. answer (cp_addr p)) peers) 0 False)"

section \<open>Status\<close>

definition ack_source_seq :: "u64 list \<Rightarrow> propagation_ack \<Rightarrow> u64" where
  "ack_source_seq watermarks a = vec_get_or 0 watermarks (unat (pg_shard_id a))"

definition ack_lag :: "u64 list \<Rightarrow> propagation_ack \<Rightarrow> u64" where
  "ack_lag watermarks a = saturating_sub (ack_source_seq watermarks a) (pg_seq a)"

definition ack_item_json :: "u64 list \<Rightarrow> u64 \<Rightarrow> propagation_ack \<Rightarrow> json" where
  "ack_item_json watermarks now a = JObject
     [(''relay_id'', JString (pg_relay_id a)), (''location'', JString (pg_location a)),
      (''agent_id'', JString (pg_agent_id a)), (''shard_id'', json_nat (unat (pg_shard_id a))),
      (''seq'', json_u64 (pg_seq a)), (''source_seq'', json_u64 (ack_source_seq watermarks a)),
      (''seq_lag'', json_u64 (ack_lag watermarks a)), (''entries'', json_nat (pg_entries a)),
      (''applied_at_unix'', json_u64 (pg_applied_at_unix a)),
      (''relay_received_at_unix'', json_u64 (pg_relay_received_at_unix a)),
      (''ack_age_secs'', json_u64 (saturating_sub now (pg_applied_at_unix a)))]"

definition propagation_degraded :: "u64 list \<Rightarrow> propagation_ack list \<Rightarrow> bool" where
  "propagation_degraded watermarks acks \<longleftrightarrow>
     0 < max_or_zero watermarks \<and> (acks = [] \<or> filter (\<lambda>a. 0 < ack_lag watermarks a) acks \<noteq> [])"

definition format_propagation_status :: "u64 \<Rightarrow> node \<Rightarrow> json" where
  "format_propagation_status now s =
     (let watermarks = so_watermarks (nd_source s);
          acks = sorted_acks s;
          lagging = filter (\<lambda>a. 0 < ack_lag watermarks a) acks
      in JObject
        [(''status'', JString (if propagation_degraded watermarks acks then ''degraded'' else ''ok'')),
         (''shard_count'', json_nat (length watermarks)),
         (''source_max_seq'', json_u64 (max_or_zero watermarks)),
         (''ack_count'', json_nat (length acks)),
         (''relay_count'', json_nat (length (remdups (map pg_relay_id acks)))),
         (''agent_count'', json_nat (length (remdups (map pg_agent_id acks)))),
         (''acked_shards'', json_nat (length (remdups (map pg_shard_id acks)))),
         (''min_ack_seq'', json_u64 (case acks of [] \<Rightarrow> 0 | a # as \<Rightarrow> fold (\<lambda>a. min (pg_seq a)) as (pg_seq a))),
         (''max_ack_seq'', json_u64 (max_or_zero (map pg_seq acks))),
         (''max_seq_lag'', json_u64 (max_or_zero (map (ack_lag watermarks) lagging))),
         (''lagging_ack_count'', json_nat (length lagging)),
         (''max_ack_age_secs'', json_u64 (max_or_zero (map (\<lambda>a. saturating_sub now (pg_applied_at_unix a)) acks))),
         (''acks'', JArray (map (ack_item_json watermarks now) acks))])"

section \<open>The publisher never skips a mutation\<close>

lemma raise_offset_get:
  "vec_get_or 0 (raise_offset m offsets) i =
     (if i = unat (mu_shard m) \<and> i < length offsets then max (offsets ! i) (mu_seq m) else vec_get_or 0 offsets i)"
  by (cases "i < length offsets") (auto simp: raise_offset_def)

lemma raise_offset_length [simp]: "length (raise_offset m offsets) = length offsets"
  by (simp add: raise_offset_def)

text \<open>The outcome of the requests: one message for each mutation, in order, and the offsets at the
  largest sequence numbers.\<close>

lemma publish_all_done:
  assumes "publish_all p outcomes ms offsets s = (Inr offsets', s')"
  shows "s' = s\<lparr>nd_posts := nd_posts s @ map (stream_message p) ms\<rparr> \<and> offsets' = fold raise_offset ms offsets"
  using assms
proof (induction p outcomes ms offsets arbitrary: s rule: publish_all.induct)
  case (1 p outcomes offsets)
  then show ?case by simp
next
  case (2 p outcomes m ms offsets)
  let ?a = "case outcomes of [] \<Rightarrow> NotSent | a # _ \<Rightarrow> a"
  have "?a = Acked" using "2.prems" by (auto simp: nats_publish_def abind_app split: if_splits)
  with "2.prems" have "publish_all p (tl outcomes) ms (raise_offset m offsets)
      (s\<lparr>nd_posts := nd_posts s @ [stream_message p m]\<rparr>) = (Inr offsets', s')"
    by (simp add: nats_publish_def abind_app)
  from "2.IH" [OF this] show ?case by simp
qed

lemma fold_raise_length [simp]: "length (fold raise_offset ms offsets) = length offsets"
  by (induction ms arbitrary: offsets) auto

lemma raise_mono: "vec_get_or 0 offsets i \<le> vec_get_or 0 (raise_offset m offsets) i"
  by (cases "i < length offsets") (auto simp: raise_offset_get)

lemma fold_raise_mono: "vec_get_or 0 offsets i \<le> vec_get_or 0 (fold raise_offset ms offsets) i"
  by (induction ms arbitrary: offsets) (auto intro: order_trans [OF raise_mono])

lemma fold_raise_covers:
  assumes "m \<in> set ms" and "unat (mu_shard m) < length offsets"
  shows "mu_seq m \<le> vec_get_or 0 (fold raise_offset ms offsets) (unat (mu_shard m))"
  using assms
proof (induction ms arbitrary: offsets)
  case Nil
  then show ?case by simp
next
  case (Cons m' ms)
  show ?case
  proof (cases "m = m'")
    case True
    then have "mu_seq m \<le> vec_get_or 0 (raise_offset m' offsets) (unat (mu_shard m))"
      using Cons.prems by (simp add: raise_offset_get)
    with fold_raise_mono show ?thesis by (auto intro: order_trans)
  next
    case False
    with Cons show ?thesis by simp
  qed
qed

lemma set_mutations_to_publish:
  "set (mutations_to_publish src offsets) = {m \<in> set (so_mutations src). mu_shard m < so_shard_count src \<and>
     vec_get_or 0 offsets (unat (mu_shard m)) < mu_seq m}"
  by (auto simp: mutations_to_publish_def source_mutations_for_shard_def set_shard_ids)

text \<open>Every mutation at or below the offset of its shard has been handed to the stream.\<close>

definition published_below :: "publisher_config \<Rightarrow> node \<Rightarrow> bool" where
  "published_below p s \<longleftrightarrow> (\<forall>m \<in> set (so_mutations (nd_source s)). mu_shard m < so_shard_count (nd_source s) \<longrightarrow>
     mu_seq m \<le> vec_get_or 0 (ps_last_published (nd_published s)) (unat (mu_shard m)) \<longrightarrow>
     stream_message p m \<in> set (nd_posts s))"

lemma publish_done:
  assumes run: "publish_committed_mutations now outcomes s = (Inr (), s')" and p: "nd_publisher s = Some p"
    and leader: "is_write_leader s" and ms: "mutations_to_publish (nd_source s) (ps_last_published (nd_published s)) = ms"
  shows "nd_source s' = nd_source s \<and> nd_posts s' = nd_posts s @ map (stream_message p) ms \<and>
    ps_last_published (nd_published s') = fold raise_offset ms (ps_last_published (nd_published s)) \<and>
    (ms \<noteq> [] \<longrightarrow> dk_offsets (nd_disk s') = Some (offsets_form (ps_last_published (nd_published s'))))"
proof (cases "ms = []")
  case True
  with assms show ?thesis by (auto simp: publish_committed_mutations_def abind_app)
next
  case False
  let ?o = "ps_last_published (nd_published s)"
  obtain o' t u where pub: "publish_all p outcomes ms ?o s = (Inr o', t)"
    and per: "persist_publisher_offsets o' t = (Inr (), u)"
    and s': "s' = u\<lparr>nd_published := (nd_published u)\<lparr>ps_last_published := o', ps_last_publish_unix := now\<rparr>\<rparr>"
    using run p leader ms False unfolding publish_committed_mutations_def
    by (auto simp: abind_Inr abind_app split: prod.splits sum.splits)
  note pubd = publish_all_done [OF pub]
  from per show ?thesis unfolding persist_publisher_offsets_def
    by (cases rule: replace_file_cases) (auto simp: s' pubd on_disk_def)
qed

lemma publish_all_failed:
  "publish_all p outcomes ms offsets s = (r, s') \<Longrightarrow> \<exists>new. s' = s\<lparr>nd_posts := nd_posts s @ new\<rparr>"
proof (induction p outcomes ms offsets arbitrary: s rule: publish_all.induct)
  case (1 p outcomes offsets)
  then show ?case by (auto intro: exI [of _ "[]"])
next
  case (2 p outcomes m ms offsets)
  let ?a = "case outcomes of [] \<Rightarrow> NotSent | a # _ \<Rightarrow> a"
  let ?s = "s\<lparr>nd_posts := nd_posts s @ [stream_message p m]\<rparr>"
  show ?case
  proof (cases ?a)
    case Acked
    with "2.prems" have "publish_all p (tl outcomes) ms (raise_offset m offsets) ?s = (r, s')"
      by (simp add: nats_publish_def abind_app)
    from "2.IH" [OF this] show ?thesis by auto
  next
    case NotAcked
    with "2.prems" show ?thesis by (auto simp: nats_publish_def abind_app)
  next
    case NotSent
    with "2.prems" show ?thesis by (auto simp: nats_publish_def abind_app intro: exI [of _ "[]"])
  qed
qed

lemma publish_failed:
  assumes run: "publish_committed_mutations now outcomes s = (Inl e, s')"
  shows "nd_source s' = nd_source s \<and> set (nd_posts s) \<subseteq> set (nd_posts s') \<and> nd_published s' = nd_published s"
proof -
  obtain p where p: "nd_publisher s = Some p" and leader: "is_write_leader s"
    using run by (cases "nd_publisher s")
      (auto simp: publish_committed_mutations_def abind_app is_write_leader_def split: if_splits)
  let ?o = "ps_last_published (nd_published s)"
  let ?ms = "mutations_to_publish (nd_source s) ?o"
  obtain r t where pub: "publish_all p outcomes ?ms ?o s = (r, t)" by (cases "publish_all p outcomes ?ms ?o s")
  obtain new where t: "t = s\<lparr>nd_posts := nd_posts s @ new\<rparr>" using publish_all_failed [OF pub] by blast
  show ?thesis
  proof (cases r)
    case (Inl e')
    with run p leader pub have "s' = t" by (auto simp: publish_committed_mutations_def abind_app split: if_splits)
    with t show ?thesis by auto
  next
    case (Inr o')
    with run p leader pub have "\<exists>r. persist_publisher_offsets o' t = (r, s')"
      by (auto simp: publish_committed_mutations_def abind_app split: if_splits prod.splits sum.splits)
    then obtain r' where "persist_publisher_offsets o' t = (r', s')" by blast
    then show ?thesis unfolding persist_publisher_offsets_def
      by (cases rule: replace_file_cases) (auto simp: t on_disk_def)
  qed
qed

lemma round_cases:
  assumes "publisher_round now outcomes s = (r, s')"
  obtains (ok) "publish_committed_mutations now outcomes s = (Inr (), s')"
  | (failed) e t where "publish_committed_mutations now outcomes s = (Inl e, t)"
      "nd_source s' = nd_source t" "nd_posts s' = nd_posts t"
      "ps_last_published (nd_published s') = ps_last_published (nd_published t)"
  using assms by (cases "publish_committed_mutations now outcomes s"; cases "fst (publish_committed_mutations now outcomes s)")
    (auto simp: publisher_round_def abind_app)

lemma round_keeps_published:
  assumes p: "nd_publisher s = Some p" and n: "length (ps_last_published (nd_published s)) = unat (so_shard_count (nd_source s))"
    and below: "published_below p s" and run: "publisher_round now outcomes s = (r, s')"
  shows "published_below p s' \<and> (\<forall>i. vec_get_or 0 (ps_last_published (nd_published s)) i
     \<le> vec_get_or 0 (ps_last_published (nd_published s')) i)"
  using run
proof (cases rule: round_cases)
  case (failed e t)
  from publish_failed [OF failed(1)] failed below show ?thesis by (auto simp: published_below_def)
next
  case ok
  show ?thesis
  proof (cases "is_write_leader s")
    case False
    with ok p have "s' = s" by (auto simp: publish_committed_mutations_def abind_app is_write_leader_def split: if_splits)
    with below show ?thesis by simp
  next
    case True
    let ?o = "ps_last_published (nd_published s)"
    let ?ms = "mutations_to_publish (nd_source s) ?o"
    note pubd = publish_done [OF ok p True refl]
    have "published_below p s'"
      unfolding published_below_def
    proof (intro ballI impI)
      fix m
      assume m: "m \<in> set (so_mutations (nd_source s'))" "mu_shard m < so_shard_count (nd_source s')"
      show "stream_message p m \<in> set (nd_posts s')"
      proof (cases "mu_seq m \<le> vec_get_or 0 ?o (unat (mu_shard m))")
        case True
        with m below pubd show ?thesis by (auto simp: published_below_def)
      next
        case False
        with m pubd have "m \<in> set ?ms" by (auto simp: set_mutations_to_publish)
        with pubd show ?thesis by auto
      qed
    qed
    with pubd fold_raise_mono [of ?o] show ?thesis by simp
  qed
qed

text \<open>C35: the publisher of the commit daemon delivers at least once.  Whatever the outcomes of its requests and
  of its write are, a round keeps that every retained mutation at or below the stored offset of its
  shard has been handed to the stream, and no offset goes back.\<close>

theorem publisher_never_skips:
  assumes "nd_publisher s = Some p" and "length (ps_last_published (nd_published s)) = unat (so_shard_count (nd_source s))"
    and "published_below p s" and "publisher_round now outcomes s = (r, s')"
  shows "published_below p s' \<and> (\<forall>i. vec_get_or 0 (ps_last_published (nd_published s)) i
     \<le> vec_get_or 0 (ps_last_published (nd_published s')) i)"
  using assms by (rule round_keeps_published)

definition sample_publisher :: publisher_config where
  "sample_publisher = \<lparr>pc_nats_addr = ''nats:4222'', pc_stream = ''ACL'', pc_subject_prefix = ''acl'',
     pc_publish_interval_ms = 250, pc_autocreate_stream = False\<rparr>"

definition publishing_node :: node where
  "publishing_node = (sample_node ''a'')\<lparr>nd_publisher := Some sample_publisher,
     nd_source := (source_new 2 ''eu'')\<lparr>so_mutations := [sample_wire_mutation]\<rparr>,
     nd_consensus := (nd_consensus (sample_node ''a''))\<lparr>cs_role := Leader\<rparr>,
     nd_published := \<lparr>ps_last_published = [0, 0], ps_last_publish_unix = 0, ps_publish_errors = 0\<rparr>\<rparr>"

lemma publishing_node_ok:
  "nd_publisher publishing_node = Some sample_publisher" "is_write_leader publishing_node"
  "length (ps_last_published (nd_published publishing_node)) = unat (so_shard_count (nd_source publishing_node))"
  "published_below sample_publisher publishing_node" "dk_writes (nd_disk publishing_node) = []"
  "so_mutations (nd_source publishing_node) = [sample_wire_mutation]"
  "so_shard_count (nd_source publishing_node) = 2"
  by (simp_all add: publishing_node_def is_write_leader_def source_new_def published_below_def sample_wire_mutation_def
      Let_def)

theorem publisher_never_skips_witness:
  "\<exists>r s'. publisher_round 9 [NotAcked] publishing_node = (r, s') \<and> published_below sample_publisher s'"
proof -
  obtain r s' where run: "publisher_round 9 [NotAcked] publishing_node = (r, s')"
    by (cases "publisher_round 9 [NotAcked] publishing_node")
  from publisher_never_skips [OF publishing_node_ok(1,3,4) run] run show ?thesis by blast
qed

section \<open>Catching up\<close>

lemma publish_all_acked:
  assumes "length ms \<le> length outcomes" and "\<forall>a \<in> set outcomes. a = Acked"
  shows "\<exists>offsets' s'. publish_all p outcomes ms offsets s = (Inr offsets', s') \<and> nd_disk s' = nd_disk s"
  using assms
proof (induction p outcomes ms offsets arbitrary: s rule: publish_all.induct)
  case (1 p outcomes offsets)
  then show ?case by simp
next
  case (2 p outcomes m ms offsets)
  then obtain as where as: "outcomes = Acked # as" by (cases outcomes) auto
  let ?s = "s\<lparr>nd_posts := nd_posts s @ [stream_message p m]\<rparr>"
  from 2 as obtain o' s' where "publish_all p as ms (raise_offset m offsets) ?s = (Inr o', s')" "nd_disk s' = nd_disk ?s"
    by fastforce
  with as show ?case by (auto simp: nats_publish_def abind_app)
qed

lemma round_works:
  assumes p: "nd_publisher s = Some p" and leader: "is_write_leader s" and writes: "dk_writes (nd_disk s) = []"
    and enough: "length (so_mutations (nd_source s)) * unat (so_shard_count (nd_source s)) \<le> length outcomes"
    and acked: "\<forall>a \<in> set outcomes. a = Acked"
  shows "\<exists>s'. publish_committed_mutations now outcomes s = (Inr (), s')"
proof -
  let ?o = "ps_last_published (nd_published s)"
  let ?ms = "mutations_to_publish (nd_source s) ?o"
  have "length (concat (map (\<lambda>i. source_mutations_for_shard (nd_source s) i (vec_get_or 0 ?o (unat i))) is))
      \<le> length is * length (so_mutations (nd_source s))" for "is" :: "u16 list"
    by (induction "is") (auto simp: source_mutations_for_shard_def intro: add_mono)
  from this [of "shard_ids (so_shard_count (nd_source s))"] enough have "length ?ms \<le> length outcomes"
    by (simp add: mutations_to_publish_def shard_ids_def mult.commute)
  from publish_all_acked [OF this acked] obtain o' t
    where pub: "publish_all p outcomes ?ms ?o s = (Inr o', t)" and t: "nd_disk t = nd_disk s" by blast
  from t writes have "persist_publisher_offsets o' t =
      (Inr (), on_disk (\<lambda>d. d\<lparr>dk_offsets := Some (offsets_form o')\<rparr>) t)"
    by (simp add: persist_publisher_offsets_def replace_file_good)
  with p leader pub show ?thesis
    by (auto simp: publish_committed_mutations_def abind_app is_write_leader_def split: if_splits)
qed

text \<open>The file of offsets is read back as it was written.\<close>

lemma shard_field_not_count: "shard_field i \<noteq> ''shard_count''"
proof
  assume "shard_field i = ''shard_count''"
  then have "pad_dec 4 i = ''count''" by (simp add: shard_field_def)
  then have "set (replicate (4 - length (dec_string i)) (CHR ''0'') @ dec_string i) = set ''count''"
    by (simp only: pad_dec_def Let_def)
  then have "CHR ''c'' \<in> set (replicate (4 - length (dec_string i)) (CHR ''0'')) \<union> set (dec_string i)" by simp
  then have "CHR ''c'' \<in> set (dec_string i)" by auto
  from dec_string_digits [OF this] show False by (simp add: is_ascii_digit_def)
qed

lemma offsets_form_get:
  assumes "i < length offsets"
  shows "hm_get (offsets_form offsets) (shard_field i) = Some (dec_string (unat (offsets ! i)))"
proof -
  have "map_of (map (\<lambda>(i, seq). (shard_field i, dec_string (unat seq))) (enumerate n offsets)) (shard_field (n + i)) =
      Some (dec_string (unat (offsets ! i)))" for n
    using assms
  proof (induction offsets arbitrary: n i)
    case Nil
    then show ?case by simp
  next
    case (Cons x xs)
    show ?case
    proof (cases i)
      case 0
      then show ?thesis by simp
    next
      case (Suc j)
      with Cons.prems Cons.IH [of j "Suc n"] show ?thesis by (simp add: shard_field_inj)
    qed
  qed
  from this [of 0] show ?thesis
    using shard_field_not_count [of i] by (simp add: hm_get_def offsets_form_def)
qed

lemma parse_query_u64_dec: "parse_query_u64 (dec_string (unat (w :: u64))) = Inr w"
proof -
  have "parse_uint (2 ^ 64) (dec_string (unat w)) = Some (unat w)"
    using unat_u64_bound [of w] by (intro parse_dec_string) simp
  then show ?thesis by (simp add: parse_query_u64_def)
qed

lemma offsets_roundtrip:
  "length offsets = unat n \<Longrightarrow> load_publisher_offsets (Some (offsets_form offsets)) n = Inr offsets"
proof -
  assume n: "length offsets = unat n"
  have "rmap (\<lambda>i. case hm_get (offsets_form offsets) (shard_field i) of Some v \<Rightarrow> parse_query_u64 v | None \<Rightarrow> Inr 0) is =
      Inr (map ((!) offsets) is)" if "\<forall>i \<in> set is. i < length offsets" for "is"
    using that by (induction "is") (simp_all add: offsets_form_get parse_query_u64_dec)
  then show ?thesis by (simp add: load_publisher_offsets_def n [symmetric] map_nth)
qed

lemma caught_up:
  assumes p: "nd_publisher s = Some p" and leader: "is_write_leader s"
    and n: "length (ps_last_published (nd_published s)) = unat (so_shard_count (nd_source s))"
    and below: "published_below p s" and run: "publish_committed_mutations now outcomes s = (Inr (), s')"
  shows "\<forall>m \<in> set (so_mutations (nd_source s)). mu_shard m < so_shard_count (nd_source s) \<longrightarrow>
      stream_message p m \<in> set (nd_posts s')"
    and "mutations_to_publish (nd_source s') (ps_last_published (nd_published s')) = []"
    and "nd_posts s' \<noteq> nd_posts s \<longrightarrow> load_publisher_offsets (dk_offsets (nd_disk s')) (so_shard_count (nd_source s')) =
      Inr (ps_last_published (nd_published s'))"
proof -
  let ?o = "ps_last_published (nd_published s)"
  let ?ms = "mutations_to_publish (nd_source s) ?o"
  note pubd = publish_done [OF run p leader refl]
  show "\<forall>m \<in> set (so_mutations (nd_source s)). mu_shard m < so_shard_count (nd_source s) \<longrightarrow>
      stream_message p m \<in> set (nd_posts s')"
  proof (intro ballI impI)
    fix m
    assume m: "m \<in> set (so_mutations (nd_source s))" "mu_shard m < so_shard_count (nd_source s)"
    show "stream_message p m \<in> set (nd_posts s')"
    proof (cases "mu_seq m \<le> vec_get_or 0 ?o (unat (mu_shard m))")
      case True
      with m below pubd show ?thesis by (auto simp: published_below_def)
    next
      case False
      with m have "m \<in> set ?ms" by (auto simp: set_mutations_to_publish)
      with pubd show ?thesis by auto
    qed
  qed
  have "set (mutations_to_publish (nd_source s') (ps_last_published (nd_published s'))) = {}"
  proof -
    have cov: "mu_seq m \<le> vec_get_or 0 (fold raise_offset ?ms ?o) (unat (mu_shard m))"
      if m: "m \<in> set (so_mutations (nd_source s))" "mu_shard m < so_shard_count (nd_source s)" for m
    proof (cases "m \<in> set ?ms")
      case True
      moreover have "unat (mu_shard m) < length ?o" using m n by (simp add: word_less_nat_alt)
      ultimately show ?thesis by (rule fold_raise_covers)
    next
      case False
      with m have "mu_seq m \<le> vec_get_or 0 ?o (unat (mu_shard m))" by (auto simp: set_mutations_to_publish)
      then show ?thesis using fold_raise_mono by (rule order_trans)
    qed
    show ?thesis
    proof (rule equals0I)
      fix m
      assume "m \<in> set (mutations_to_publish (nd_source s') (ps_last_published (nd_published s')))"
      with pubd have m: "m \<in> set (so_mutations (nd_source s))" "mu_shard m < so_shard_count (nd_source s)"
        and "vec_get_or 0 (fold raise_offset ?ms ?o) (unat (mu_shard m)) < mu_seq m"
        by (simp_all add: set_mutations_to_publish)
      with cov [OF m] show False by simp
    qed
  qed
  then show "mutations_to_publish (nd_source s') (ps_last_published (nd_published s')) = []" by simp
  show "nd_posts s' \<noteq> nd_posts s \<longrightarrow> load_publisher_offsets (dk_offsets (nd_disk s')) (so_shard_count (nd_source s')) =
      Inr (ps_last_published (nd_published s'))"
    using pubd n by (auto intro: offsets_roundtrip)
qed

text \<open>C36: when the stream acknowledges and the write succeeds, one round of the publisher of a write leader
  hands every retained mutation to the stream; the next round has nothing to publish, and the
  offsets a restart reads from the file are the ones in memory.\<close>

theorem publisher_catches_up:
  assumes "nd_publisher s = Some p" and "is_write_leader s" and "dk_writes (nd_disk s) = []"
    and "length (ps_last_published (nd_published s)) = unat (so_shard_count (nd_source s))"
    and "published_below p s"
    and "length (so_mutations (nd_source s)) * unat (so_shard_count (nd_source s)) \<le> length outcomes"
    and "\<forall>a \<in> set outcomes. a = Acked"
  shows "\<exists>s'. publish_committed_mutations now outcomes s = (Inr (), s') \<and>
    (\<forall>m \<in> set (so_mutations (nd_source s)). mu_shard m < so_shard_count (nd_source s) \<longrightarrow>
      stream_message p m \<in> set (nd_posts s')) \<and>
    mutations_to_publish (nd_source s') (ps_last_published (nd_published s')) = [] \<and>
    (nd_posts s' \<noteq> nd_posts s \<longrightarrow> load_publisher_offsets (dk_offsets (nd_disk s')) (so_shard_count (nd_source s')) =
      Inr (ps_last_published (nd_published s')))"
  using round_works [OF assms(1-3,6,7)] caught_up [OF assms(1,2,4,5)] by blast

theorem publisher_catches_up_witness:
  "\<exists>s'. publish_committed_mutations 9 [Acked, Acked] publishing_node = (Inr (), s') \<and>
    stream_message sample_publisher sample_wire_mutation \<in> set (nd_posts s')"
proof -
  have shard: "mu_shard sample_wire_mutation < 2" by (simp add: sample_wire_mutation_def)
  have "length (so_mutations (nd_source publishing_node)) * unat (so_shard_count (nd_source publishing_node))
      \<le> length [Acked, Acked]" by (simp add: publishing_node_ok)
  from publisher_catches_up [OF publishing_node_ok(1,2,5,3,4) this, of 9] shard show ?thesis
    by (auto simp: publishing_node_ok)
qed

section \<open>The log of acknowledgements after a restart\<close>

lemma utf8_width_append:
  assumes "utf8_width bs \<noteq> 0"
  shows "utf8_width (bs @ cs) = utf8_width bs"
proof (cases bs)
  case Nil
  with assms show ?thesis by (simp add: utf8_width_def)
next
  case (Cons b0 r)
  have "(case r of b1 # _ \<Rightarrow> f b1 | _ \<Rightarrow> 0) \<noteq> 0 \<Longrightarrow> (case r @ cs of b1 # _ \<Rightarrow> f b1 | _ \<Rightarrow> 0) = (case r of b1 # _ \<Rightarrow> f b1 | _ \<Rightarrow> 0)"
    for f :: "u8 \<Rightarrow> nat" by (cases r) simp_all
  moreover have "(case r of b1 # b2 # _ \<Rightarrow> f b1 b2 | _ \<Rightarrow> 0) \<noteq> 0 \<Longrightarrow>
      (case r @ cs of b1 # b2 # _ \<Rightarrow> f b1 b2 | _ \<Rightarrow> 0) = (case r of b1 # b2 # _ \<Rightarrow> f b1 b2 | _ \<Rightarrow> 0)"
    for f :: "u8 \<Rightarrow> u8 \<Rightarrow> nat" by (cases r; cases "tl r") simp_all
  moreover have "(case r of b1 # b2 # b3 # _ \<Rightarrow> f b1 b2 b3 | _ \<Rightarrow> 0) \<noteq> 0 \<Longrightarrow>
      (case r @ cs of b1 # b2 # b3 # _ \<Rightarrow> f b1 b2 b3 | _ \<Rightarrow> 0) = (case r of b1 # b2 # b3 # _ \<Rightarrow> f b1 b2 b3 | _ \<Rightarrow> 0)"
    for f :: "u8 \<Rightarrow> u8 \<Rightarrow> u8 \<Rightarrow> nat" by (cases r; cases "tl r"; cases "tl (tl r)") simp_all
  ultimately show ?thesis
    using assms unfolding utf8_width_def Cons append_Cons list.case by (simp only: split: if_splits) simp_all
qed

lemma utf8_width_le: "utf8_width bs \<le> length bs"
proof (cases bs)
  case Nil
  then show ?thesis by (simp add: utf8_width_def)
next
  case (Cons b0 r)
  have "(case r of b1 # _ \<Rightarrow> if c b1 then 2 else 0 | _ \<Rightarrow> 0) \<le> Suc (length r)" for c :: "u8 \<Rightarrow> bool" by (cases r) simp_all
  moreover have "(case r of b1 # b2 # _ \<Rightarrow> if c b1 b2 then 3 else 0 | _ \<Rightarrow> 0) \<le> Suc (length r)" for c :: "u8 \<Rightarrow> u8 \<Rightarrow> bool"
    by (cases r; cases "tl r") simp_all
  moreover have "(case r of b1 # b2 # b3 # _ \<Rightarrow> if c b1 b2 b3 then 4 else 0 | _ \<Rightarrow> 0) \<le> Suc (length r)" for c :: "u8 \<Rightarrow> u8 \<Rightarrow> u8 \<Rightarrow> bool"
    by (cases r; cases "tl r"; cases "tl (tl r)") simp_all
  ultimately show ?thesis unfolding utf8_width_def Cons list.case by simp
qed

lemma utf8_valid_append: "utf8_valid bs \<Longrightarrow> utf8_valid cs \<Longrightarrow> utf8_valid (bs @ cs)"
proof (induction bs rule: utf8_valid.induct)
  case (1 bs)
  show ?case
  proof (cases "bs = []")
    case True
    with 1 show ?thesis by simp
  next
    case False
    with "1.prems" have w: "utf8_width bs \<noteq> 0" and v: "utf8_valid (drop (utf8_width bs) bs)"
      by (subst (asm) utf8_valid.simps; simp split: if_splits)+
    from "1.IH" [OF False w v "1.prems"(2)] utf8_width_le [of bs] False w show ?thesis
      by (subst utf8_valid.simps) (simp add: utf8_width_append)
  qed
qed

lemma str_ok_append: "str_ok s \<Longrightarrow> str_ok t \<Longrightarrow> str_ok (s @ t)"
  by (simp add: str_ok_def as_bytes_append utf8_valid_append)

lemma str_ok_newline: "str_ok [newline]"
  by (intro str_ok_ascii) (simp add: newline_def)

text \<open>A text of complete lines: it is empty or ends with a line feed.\<close>

definition complete_lines :: "string \<Rightarrow> bool" where
  "complete_lines t \<longleftrightarrow> t = [] \<or> last t = newline"

definition one_line :: "string \<Rightarrow> bool" where
  "one_line l \<longleftrightarrow> newline \<notin> set l \<and> \<not> suffix [carriage_return] l"

lemma str_lines_complete:
  assumes "complete_lines t" and "one_line l"
  shows "str_lines (t @ l @ [newline]) = str_lines t @ [l]"
proof (cases "t = []")
  case True
  with assms show ?thesis
    using split_on_append [of newline l "[]"] by (simp add: str_lines_def one_line_def strip_cr_def)
next
  case False
  with assms obtain u where t: "t = u @ [newline]" by (metis complete_lines_def append_butlast_last_id)
  have "split_on newline (t @ l @ [newline]) = split_on newline u @ [l, []]"
    using split_on_join [of newline u "l @ [newline]"] split_on_append [of newline l "[]"] assms t
    by (simp add: one_line_def)
  moreover have "split_on newline t = split_on newline u @ [[]]"
    using split_on_join [of newline u "[]"] t by simp
  ultimately show ?thesis using assms by (simp add: str_lines_def butlast_append one_line_def strip_cr_def)
qed

text \<open>What the text of an acknowledgement needs of the JSON library: a line of valid UTF-8, and the parser
  gives the value back.\<close>

definition ack_written :: "world \<Rightarrow> propagation_ack \<Rightarrow> bool" where
  "ack_written w a \<longleftrightarrow> str_ok (ack_line w a) \<and> one_line (ack_line w a) \<and> \<not> blank (ack_line w a) \<and>
     wd_from_json w (ack_line w a) = Inr (propagation_ack_json a) \<and>
     \<not> blank (pg_relay_id a) \<and> \<not> blank (pg_location a) \<and> \<not> blank (pg_agent_id a) \<and> pg_entries a < 2 ^ 64"

text \<open>The log holds the store.\<close>

definition acks_saved :: "world \<Rightarrow> node \<Rightarrow> bool" where
  "acks_saved w s \<longleftrightarrow> (\<exists>t. dk_acks (nd_disk s) = as_bytes t \<and> str_ok t \<and> complete_lines t) \<and>
     (\<forall>now1 now2. \<exists>m. load_propagation_acks w now1 now2 (dk_acks (nd_disk s)) = Inr m \<and> hm_get m = hm_get (nd_acks s))"

lemma load_appended:
  assumes t: "str_ok t" "complete_lines t" and a: "ack_written w a"
    and m: "load_propagation_acks w now1 now2 (as_bytes t) = Inr m"
  shows "load_propagation_acks w now1 now2 (as_bytes (t @ ack_line w a @ [newline])) = Inr (keep_newer_ack a m)"
proof -
  have ok: "str_ok (t @ ack_line w a @ [newline])"
    using t a by (intro str_ok_append str_ok_newline) (simp_all add: ack_written_def)
  have "parse_ack_line w now1 now2 (ack_line w a) = Inr a"
    using a ack_json_roundtrip [of a "wd_json_text w" now1 now2]
    by (simp add: parse_ack_line_def parse_json_body_def ack_written_def)
  moreover have "str_lines (t @ ack_line w a @ [newline]) = str_lines t @ [ack_line w a]"
    using t a by (intro str_lines_complete) (simp_all add: ack_written_def)
  ultimately show ?thesis
    using m t a from_utf8_as_bytes [OF ok] from_utf8_as_bytes [OF t(1)]
    by (simp add: load_propagation_acks_def rfold_append ack_written_def del: from_utf8_as_bytes)
qed

lemma apply_ack_saved:
  assumes saved: "acks_saved w s" and a: "ack_written w a" and run: "apply_propagation_ack w a s = (r, s')"
    and whole: "\<forall>n. CutOff n \<notin> set (dk_writes (nd_disk s))"
  shows "acks_saved w s' \<and> (\<forall>n. CutOff n \<notin> set (dk_writes (nd_disk s')))"
proof -
  let ?k = "propagation_ack_key a"
  let ?skip = "case hm_get (nd_acks s) ?k of Some e \<Rightarrow> pg_seq a < pg_seq e \<or> e = a | None \<Rightarrow> False"
  let ?line = "as_bytes (ack_line w a @ [newline])"
  consider (skip) "s' = s" | (refused) ws where "s' = on_disk (\<lambda>d. d\<lparr>dk_writes := ws\<rparr>) s" "set ws \<subseteq> set (dk_writes (nd_disk s))"
    | (written) ws where "\<not> ?skip" "s' = (on_disk (\<lambda>d. d\<lparr>dk_writes := ws, dk_acks := dk_acks d @ ?line\<rparr>) s)
        \<lparr>nd_acks := hm_insert ?k a (nd_acks s)\<rparr>" "set ws \<subseteq> set (dk_writes (nd_disk s))"
  proof (cases ?skip)
    case True
    with run skip show ?thesis by (simp add: apply_propagation_ack_def Let_def)
  next
    case False
    show ?thesis
    proof (cases "dk_writes (nd_disk s)")
      case Nil
      then have "(nd_disk s)\<lparr>dk_writes := []\<rparr> = nd_disk s" by simp
      with Nil run False written [of "[]"] show ?thesis
        by (simp add: apply_propagation_ack_def append_propagation_ack_def append_file_def abind_app on_disk_def Let_def)
    next
      case (Cons v ws)
      with run False whole written [of ws] refused [of ws] show ?thesis
        by (cases v) (auto simp: apply_propagation_ack_def append_propagation_ack_def append_file_def abind_app
            on_disk_def Let_def)
    qed
  qed
  then show ?thesis
  proof cases
    case skip
    with saved whole show ?thesis by simp
  next
    case (refused ws)
    with saved whole show ?thesis by (auto simp: acks_saved_def on_disk_def)
  next
    case (written ws)
    obtain t where t: "dk_acks (nd_disk s) = as_bytes t" "str_ok t" "complete_lines t"
      using saved by (auto simp: acks_saved_def)
    let ?t = "t @ ack_line w a @ [newline]"
    have d: "dk_acks (nd_disk s') = as_bytes ?t" "nd_acks s' = hm_insert ?k a (nd_acks s)"
      using written t by (simp_all add: as_bytes_append on_disk_def)
    have "\<exists>m. load_propagation_acks w n1 n2 (as_bytes ?t) = Inr m \<and> hm_get m = hm_get (nd_acks s')" for n1 n2
    proof -
      obtain m where m: "load_propagation_acks w n1 n2 (as_bytes t) = Inr m" "hm_get m = hm_get (nd_acks s)"
        using saved t by (auto simp: acks_saved_def)
      have "hm_get (keep_newer_ack a m) = hm_get (nd_acks s')"
        using written(1) m(2) d(2) by (auto simp: keep_newer_ack_def fun_eq_iff split: option.splits)
      with load_appended [OF t(2,3) a m(1)] show ?thesis by blast
    qed
    moreover have "str_ok ?t"
      using t a by (intro str_ok_append str_ok_newline) (simp_all add: ack_written_def)
    moreover have "complete_lines ?t" by (simp add: complete_lines_def)
    ultimately have "acks_saved w s'" using d by (auto simp: acks_saved_def)
    with written whole show ?thesis by (auto simp: on_disk_def)
  qed
qed

lemma apply_acks_saved:
  assumes "acks_saved w s" and "\<forall>a \<in> set as. ack_written w a" and "\<forall>n. CutOff n \<notin> set (dk_writes (nd_disk s))"
  shows "acks_saved w (fold (\<lambda>a s. snd (apply_propagation_ack w a s)) as s)"
  using assms
proof (induction as arbitrary: s)
  case Nil
  then show ?case by simp
next
  case (Cons a as)
  obtain r s' where run: "apply_propagation_ack w a s = (r, s')" by (cases "apply_propagation_ack w a s")
  from apply_ack_saved [OF Cons.prems(1) _ run Cons.prems(3)] Cons.prems(2) have "acks_saved w s'"
    "\<forall>n. CutOff n \<notin> set (dk_writes (nd_disk s'))" by simp_all
  with Cons.IH [of s'] Cons.prems(2) run show ?case by simp
qed

lemma acks_saved_empty: "dk_acks (nd_disk s) = [] \<Longrightarrow> nd_acks s = hm_new \<Longrightarrow> acks_saved w s"
  using from_utf8_as_bytes [OF str_ok_Nil]
  by (auto simp: acks_saved_def complete_lines_def load_propagation_acks_def str_lines_def as_bytes_def intro!: exI [of _ "[]"])

text \<open>C37: the central store of acknowledgements survives a restart.  Whatever acknowledgements arrive, and
  whether their appends succeed or are refused, reading the log gives every key the acknowledgement
  the running node holds for it.\<close>

theorem acks_survive_restart:
  assumes "dk_acks (nd_disk s) = []" and "nd_acks s = hm_new"
    and "\<forall>a \<in> set as. ack_written w a" and "\<forall>n. CutOff n \<notin> set (dk_writes (nd_disk s))"
    and "s' = fold (\<lambda>a s. snd (apply_propagation_ack w a s)) as s"
  shows "\<exists>m. load_propagation_acks w now1 now2 (dk_acks (nd_disk s')) = Inr m \<and> hm_get m = hm_get (nd_acks s')"
  using apply_acks_saved [OF acks_saved_empty [OF assms(1,2)] assms(3,4)] assms(5) by (auto simp: acks_saved_def)

definition sample_ack :: propagation_ack where
  "sample_ack = \<lparr>pg_relay_id = ''r1'', pg_location = ''fra'', pg_agent_id = ''a1'', pg_shard_id = 0, pg_seq = 3,
     pg_entries = 2, pg_applied_at_unix = 5, pg_relay_received_at_unix = 6\<rparr>"

definition ack_world :: world where
  "ack_world = sample_world\<lparr>wd_from_json := (\<lambda>_. Inr (propagation_ack_json sample_ack))\<rparr>"

lemma sample_ack_written: "ack_written ack_world sample_ack"
proof -
  have "trim ''r1'' = ''r1''" "trim ''fra'' = ''fra''" "trim ''a1'' = ''a1''" "trim ''{}'' = ''{}''"
    by (rule trim_graphic; simp add: graphic_def)+
  moreover have "str_ok ''{}''" by (rule str_ok_ascii) simp
  ultimately show ?thesis
    by (simp add: ack_written_def ack_line_def ack_world_def sample_world_def one_line_def newline_def
        carriage_return_def suffix_def sample_ack_def blank_def)
qed

theorem acks_survive_restart_witness:
  "\<exists>m s'. s' = fold (\<lambda>a s. snd (apply_propagation_ack ack_world a s)) [sample_ack, sample_ack] (sample_node ''a'') \<and>
     load_propagation_acks ack_world 7 8 (dk_acks (nd_disk s')) = Inr m \<and> hm_get m = hm_get (nd_acks s')"
proof -
  have "dk_acks (nd_disk (sample_node ''a'')) = []" "nd_acks (sample_node ''a'') = hm_new"
    "\<forall>n. CutOff n \<notin> set (dk_writes (nd_disk (sample_node ''a'')))"
    "\<forall>a \<in> set [sample_ack, sample_ack]. ack_written ack_world a"
    by (simp_all add: fresh_node_def empty_disk_def sample_ack_written)
  from acks_survive_restart [OF this(1,2,4,3) refl, of 7 8] show ?thesis by blast
qed

end
