(* ===== verification/Peer_Sync.thy ===== *)
theory Peer_Sync
  imports Propagation
begin

text \<open>
  How nodes catch up (\<open>globacl-commitd/src/app/consensus.rs\<close>): a new leader commits what it had
  prepared, a follower fetches from its leader what it misses, and a node that starts loads its
  directory (\<open>run\<close> of \<open>bootstrap.rs\<close>).  The bodies of the endless loops of the threads are steps.

  A request to a peer is answered by a function of its path; each part of a round has its own
  function, since the peer moves on between requests.

  Result: a follower whose term is newer than a mutation it misses cannot catch up
  (\<open>catch_up_refuses_old_terms\<close>).
\<close>

type_synonym answering = "string \<Rightarrow> http_response res"

section \<open>A new leader\<close>

definition restamp :: "u64 \<Rightarrow> mutation \<Rightarrow> mutation" where
  "restamp term m = m\<lparr>mu_commit_id := (mu_commit_id m)\<lparr>ci_epoch := term\<rparr>\<rparr>"

text \<open>\<open>waits n\<close> is what happens while the peers are asked for the \<open>n\<close>th commit, and their answers.\<close>

fun recover_pending ::
  "world \<Rightarrow> u64 \<Rightarrow> (nat \<Rightarrow> (node \<Rightarrow> node) \<times> http_response res list) \<Rightarrow> u64 \<Rightarrow> mutation list \<Rightarrow> nat \<Rightarrow> nat step" where
  "recover_pending w now waits term [] recovered = ret recovered"
| "recover_pending w now waits term (m # ms) recovered =
     abind (gets (\<lambda>s. rc_cluster_id (nd_config s))) (\<lambda>cluster_id.
     if ci_source_region (mu_commit_id m) \<noteq> cluster_id then recover_pending w now waits term ms recovered
     else
       let m = restamp term m in
       abind (gets (\<lambda>s. vec_get (so_watermarks (nd_source s)) (unat (mu_shard m)))) (\<lambda>current.
       abind (lift_res (ok_or InvalidData current)) (\<lambda>current_seq.
       if mu_seq m \<le> current_seq then
         abind (remove_pending_mutation m) (\<lambda>_. recover_pending w now waits term ms recovered)
       else
         let expected_seq = current_seq + 1 in
         if mu_seq m \<noteq> expected_seq then raise (Gap (mu_shard m) expected_seq (mu_seq m))
         else
           abind (commit_prepared_outcome w now (fst (waits recovered)) (snd (waits recovered))
                    \<lparr>co_mutation = m, co_duplicate = False\<rparr>) (\<lambda>_.
             recover_pending w now waits term ms (recovered + 1)))))"

definition recover_pending_mutations_as_leader ::
  "world \<Rightarrow> u64 \<Rightarrow> (nat \<Rightarrow> (node \<Rightarrow> node) \<times> http_response res list) \<Rightarrow> nat step" where
  "recover_pending_mutations_as_leader w now waits =
     abind write_authority (\<lambda>term.
     abind (gets (\<lambda>s. load_pending_mutations (nd_disk s))) (\<lambda>pending.
     abind (lift_res pending) (\<lambda>pending.
       recover_pending w now waits term pending 0)))"

record election_net =
  en_votes :: "http_response res list"
  en_waits :: "nat \<Rightarrow> (node \<Rightarrow> node) \<times> http_response res list"
  en_acks :: "string \<Rightarrow> http_response res"
  en_heartbeats :: "http_response res list"

text \<open>\<open>ms1\<close> to \<open>ms3\<close> are readings of the clock in milliseconds, \<open>now\<close> one in seconds.\<close>

definition start_election :: "world \<Rightarrow> u64 \<Rightarrow> u64 \<Rightarrow> u64 \<Rightarrow> u64 \<Rightarrow> election_net \<Rightarrow> unit step" where
  "start_election w ms1 ms2 ms3 now net =
     abind (run_election (json_body w) ms1 ms2 ms3 (en_votes net)) (\<lambda>won.
     if \<not> won then ret ()
     else
       abind (gets (\<lambda>s. cs_current_term (nd_consensus s))) (\<lambda>term.
       abind (attempt (recover_pending_mutations_as_leader w now (en_waits net))) (\<lambda>r.
       case r of
         Inl e \<Rightarrow> if e = Panic then raise Panic
           else abind (attempt (step_down_to_term ms2 ms3 term None)) (\<lambda>_. ret ())
       | Inr _ \<Rightarrow>
           abind (attempt (sync_acks_from_peers w now now (en_acks net))) (\<lambda>_.
             send_heartbeats (json_body w) ms2 ms3 (en_heartbeats net)))))"

text \<open>One turn of the loop of the consensus thread.\<close>

definition consensus_turn :: "world \<Rightarrow> u64 \<Rightarrow> u64 \<Rightarrow> u64 \<Rightarrow> u64 \<Rightarrow> election_net \<Rightarrow> unit step" where
  "consensus_turn w ms1 ms2 ms3 now net =
     abind (gets nd_consensus) (\<lambda>k.
     if cs_role k = Leader then send_heartbeats (json_body w) ms2 ms3 (en_heartbeats net)
     else if cs_election_deadline_ms k \<le> ms1 then
       abind (attempt (start_election w ms1 ms2 ms3 now net)) (\<lambda>_. ret ())
     else ret ())"

section \<open>A follower\<close>

definition install_snapshot_from_leader :: "world \<Rightarrow> u64 \<Rightarrow> answering \<Rightarrow> unit step" where
  "install_snapshot_from_leader w now answer =
     abind (gets (\<lambda>s. so_shard_count (nd_source s))) (\<lambda>shard_count.
     abind (lift_res (answer ''/v1/snapshot'')) (\<lambda>response.
     if hr_status_code response \<noteq> 200 then raise InvalidData
     else
       abind (lift_res (decode_snapshot (hr_body response))) (\<lambda>sn.
       abind (lift_res (snapshot_validate sn)) (\<lambda>_.
       abind (lift_res (answer ''/internal/replication/idempotency'')) (\<lambda>response.
       if hr_status_code response \<noteq> 200 then raise InvalidData
       else
         abind (lift_res (decode_mutation_stream (hr_body response))) (\<lambda>idempotency.
         abind (gets (\<lambda>s. rc_cluster_id (nd_config s))) (\<lambda>cluster_id.
         abind (lift_res (source_from_snapshot_and_mutations shard_count cluster_id sn idempotency [])) (\<lambda>rebuilt.
         let sn = source_snapshot rebuilt in
         abind (persist_latest_snapshot w now sn) (\<lambda>_.
         abind (persist_idempotency_snapshot (idempotency_mutations rebuilt)) (\<lambda>_.
         abind (compact_log_files (so_shard_count rebuilt) (sn_watermarks sn)) (\<lambda>_.
         abind (lift_res (compact_mutation_history (sn_watermarks sn) rebuilt)) (\<lambda>rebuilt.
           modify (\<lambda>s. s\<lparr>nd_source := rebuilt\<rparr>)))))))))))))"

text \<open>\<open>None\<close> when the leader does not tell.\<close>

definition fetch_compaction_watermarks :: "world \<Rightarrow> answering \<Rightarrow> u64 list option" where
  "fetch_compaction_watermarks w answer = (case answer ''/v1/compaction_watermarks'' of
     Inl _ \<Rightarrow> None
   | Inr response \<Rightarrow>
       if hr_status_code response = 200
       then (case parse_watermarks (json_body w) (hr_body response) of Inl _ \<Rightarrow> None | Inr ws \<Rightarrow> Some ws)
       else None)"

text \<open>Some shard is behind and the leader no longer has what it misses.\<close>

fun needs_snapshot :: "u64 list \<Rightarrow> u64 list \<Rightarrow> u64 list \<Rightarrow> u16 list \<Rightarrow> bool res" where
  "needs_snapshot locals remotes compacted [] = Inr False"
| "needs_snapshot locals remotes compacted (i # is) =
     rbind (vec_index locals (unat i)) (\<lambda>local_seq.
     if local_seq < vec_get_or local_seq remotes (unat i) \<and> local_seq < vec_get_or 0 compacted (unat i)
     then Inr True else needs_snapshot locals remotes compacted is)"

definition mutations_path :: "u16 \<Rightarrow> u64 \<Rightarrow> string" where
  "mutations_path i from_seq = ''/v1/mutations?shard='' @ dec_string (unat i) @ ''&from_seq='' @ dec_string (unat from_seq)"

definition sync_shard ::
  "world \<Rightarrow> u64 \<Rightarrow> u64 \<Rightarrow> u64 \<Rightarrow> string \<Rightarrow> u64 list \<Rightarrow> (u16 \<Rightarrow> answering) \<Rightarrow> u16 \<Rightarrow> unit step" where
  "sync_shard w now ms1 ms2 leader_id remotes answers i =
     abind (gets (\<lambda>s. vec_index (so_watermarks (nd_source s)) (unat i))) (\<lambda>r.
     abind (lift_res r) (\<lambda>local_seq.
     if vec_get_or local_seq remotes (unat i) \<le> local_seq then ret ()
     else
       abind (lift_res (answers i (mutations_path i local_seq))) (\<lambda>response.
       if hr_status_code response = 409 \<or> hr_status_code response = 410
       then install_snapshot_from_leader w now (answers i)
       else if hr_status_code response \<noteq> 200 then raise InvalidData
       else
         abind (lift_res (decode_mutation_stream (hr_body response))) (\<lambda>ms.
           afor (\<lambda>m. abind (commit_replicated_mutation_from_leader w now ms1 ms2 m False leader_id) (\<lambda>_. ret ())) ms))))"

record sync_net =
  sy_first :: answering
  sy_shards :: "u16 \<Rightarrow> answering"
  sy_last :: answering

definition sync_from_leader :: "world \<Rightarrow> u64 \<Rightarrow> u64 \<Rightarrow> u64 \<Rightarrow> sync_net \<Rightarrow> unit step" where
  "sync_from_leader w now ms1 ms2 net =
     abind (gets is_write_leader) (\<lambda>leader.
     if leader then ret ()
     else
       abind (gets current_leader_peer) (\<lambda>peer.
       case peer of
         None \<Rightarrow> ret ()
       | Some (leader_id, leader_addr) \<Rightarrow>
           abind (lift_res (sy_first net ''/v1/watermarks'')) (\<lambda>response.
           if hr_status_code response \<noteq> 200 then raise InvalidData
           else
             abind (lift_res (parse_watermarks (json_body w) (hr_body response))) (\<lambda>remotes.
             let compacted = (case fetch_compaction_watermarks w (sy_first net) of
                   Some ws \<Rightarrow> ws | None \<Rightarrow> replicate (length remotes) 0) in
             abind (gets (\<lambda>s. so_shard_count (nd_source s))) (\<lambda>shard_count.
             abind (gets (\<lambda>s. needs_snapshot (so_watermarks (nd_source s)) remotes compacted (shard_ids shard_count))) (\<lambda>needed.
             abind (lift_res needed) (\<lambda>needed.
             abind (if needed then install_snapshot_from_leader w now (sy_first net) else ret ()) (\<lambda>_.
             abind (afor (sync_shard w now ms1 ms2 leader_id remotes (sy_shards net)) (shard_ids shard_count)) (\<lambda>_.
             abind (sync_acks_from_peer w now now (sy_last net ''/internal/replication/acks'')) (\<lambda>_.
               modify (\<lambda>s. s\<lparr>nd_sync := (nd_sync s)\<lparr>ss_last_peer_sync_unix := now\<rparr>\<rparr>)))))))))))"

text \<open>One turn of the loop of the catch-up thread.\<close>

definition control_sync_turn :: "world \<Rightarrow> u64 \<Rightarrow> u64 \<Rightarrow> u64 \<Rightarrow> sync_net \<Rightarrow> unit step" where
  "control_sync_turn w now ms1 ms2 net =
     abind (attempt (sync_from_leader w now ms1 ms2 net)) (\<lambda>r.
     case r of
       Inr _ \<Rightarrow> ret ()
     | Inl _ \<Rightarrow> modify (\<lambda>s. s\<lparr>nd_sync := (nd_sync s)\<lparr>ss_sync_errors := ss_sync_errors (nd_sync s) + 1\<rparr>\<rparr>))"

text \<open>One turn of the loop of the canary thread.\<close>

definition canary_turn :: "world \<Rightarrow> u64 \<Rightarrow> u64 \<Rightarrow> u64 \<Rightarrow> (node \<Rightarrow> node) \<Rightarrow> http_response res list \<Rightarrow> unit step" where
  "canary_turn w now now0 now' meanwhile answers =
     abind (attempt (commit_canary w now now0 now' meanwhile answers)) (\<lambda>_. ret ())"

section \<open>Start of a node\<close>

text \<open>The configuration from the environment, with the directory it finds; the source of truth and the
  acknowledgements are still empty.  \<open>created\<close> is the outcome of the creation of the stream.\<close>

definition configured_node ::
  "(string \<Rightarrow> string res) \<Rightarrow> env \<Rightarrow> string \<Rightarrow> u16 \<Rightarrow> unit res \<Rightarrow> u64 \<Rightarrow> u64 \<Rightarrow> disk \<Rightarrow> node res" where
  "configured_node read_text ev bind_addr shard_count created ms1 ms2 d =
     rbind (signature_signer_from_env read_text ev) (\<lambda>signer.
     rbind (auth_config_from_env_var ev ''GLOBACL_AUTH_TOKENS'') (\<lambda>auth.
     rbind (object_store_mode ev) (\<lambda>store.
     rbind (replication_config ev bind_addr) (\<lambda>c.
     rbind (peer_token_config ev c) (\<lambda>token.
     rbind (compaction_config ev) (\<lambda>compaction.
     rbind (publisher_config ev) (\<lambda>publisher.
     rbind (case publisher of
              Some p \<Rightarrow> if pc_autocreate_stream p then created else Inr ()
            | None \<Rightarrow> Inr ()) (\<lambda>_.
     rbind (load_consensus_state ms1 ms2 c (dk_consensus d)) (\<lambda>consensus.
     rbind (load_publisher_offsets (dk_offsets d) shard_count) (\<lambda>last_published.
       Inr \<lparr>nd_config = c, nd_compaction = compaction, nd_publisher = publisher, nd_peer_token = token,
            nd_signer = signer, nd_object_store = store, nd_auth = auth,
            nd_source = source_new shard_count (rc_cluster_id c), nd_consensus = consensus, nd_canary = None,
            nd_sync = \<lparr>ss_last_peer_sync_unix = 0, ss_sync_errors = 0\<rparr>,
            nd_published = \<lparr>ps_last_published = last_published, ps_last_publish_unix = 0, ps_publish_errors = 0\<rparr>,
            nd_acks = hm_new, nd_disk = d, nd_posts = []\<rparr>))))))))))"

definition start_node :: "world \<Rightarrow> u64 \<Rightarrow> u16 \<Rightarrow> unit step" where
  "start_node w now shard_count =
     abind (gets nd_object_store) (\<lambda>store.
     abind (restore_snapshot_before_load w now store) (\<lambda>_.
     abind (gets (\<lambda>s. load_source_of_truth (nd_disk s) shard_count (rc_cluster_id (nd_config s))
       (map_option (\<lambda>_. ps_last_published (nd_published s)) (nd_publisher s)))) (\<lambda>loaded.
     abind (lift_res loaded) (\<lambda>src.
     let sn = source_snapshot src in
     abind (write_signed_snapshot_file w latest_path sn) (\<lambda>_.
     abind (write_snapshot_manifest_publication w now sn) (\<lambda>_.
     abind (gets (\<lambda>s. load_propagation_acks w now now (dk_acks (nd_disk s)))) (\<lambda>acks.
     abind (lift_res acks) (\<lambda>acks.
     abind (modify (\<lambda>s. s\<lparr>nd_source := src, nd_acks := acks\<rparr>)) (\<lambda>_.
     abind (gets (\<lambda>s. cc_compact_on_startup (nd_compaction s))) (\<lambda>compact.
     if compact then abind (attempt (compact_mutation_logs w now True)) (\<lambda>_. ret ()) else ret ()))))))))))"

section \<open>Catching up across terms\<close>

text \<open>A mutation of an older term is refused before anything changes.\<close>

lemma old_term_refused:
  assumes "ci_epoch (mu_commit_id m) < cs_current_term (nd_consensus s)"
  shows "commit_replicated_mutation_from_leader w now ms1 ms2 m b leader_id s = (Inl InvalidData, s)"
  using assms
  by (auto simp: commit_replicated_mutation_from_leader_def same_cluster_def ensure_same_cluster_def
      ensure_replication_leader_def abind_app Let_def)

lemma sync_shard_up_to_date:
  assumes "unat i < length (so_watermarks (nd_source s))"
    and "vec_get_or (so_watermarks (nd_source s) ! unat i) remotes (unat i) \<le> so_watermarks (nd_source s) ! unat i"
  shows "sync_shard w now ms1 ms2 leader_id remotes answers i s = (Inr (), s)"
  using assms by (simp add: sync_shard_def)

lemma sync_shard_old_term:
  assumes "unat i < length (so_watermarks (nd_source s))"
    and "so_watermarks (nd_source s) ! unat i < vec_get_or (so_watermarks (nd_source s) ! unat i) remotes (unat i)"
    and "answers i (mutations_path i (so_watermarks (nd_source s) ! unat i)) = Inr \<lparr>hr_status_code = 200, hr_body = b\<rparr>"
    and "decode_mutation_stream b = Inr (m # ms)"
    and "ci_epoch (mu_commit_id m) < cs_current_term (nd_consensus s)"
  shows "sync_shard w now ms1 ms2 leader_id remotes answers i s = (Inl InvalidData, s)"
  using assms old_term_refused [OF assms(5)]
  by (simp add: sync_shard_def abind_app not_le [symmetric])

lemma afor_stops:
  assumes "\<forall>x \<in> set xs. f x s = (Inr (), s)" and "f y s = (Inl e, s)"
  shows "afor f (xs @ y # ys) s = (Inl e, s)"
  using assms by (induction xs) (simp_all add: abind_app)

lemma no_snapshot_needed:
  assumes "\<forall>i \<in> set is. unat i < length locals \<and> vec_get_or 0 compacted (unat i) \<le> locals ! unat i"
  shows "needs_snapshot locals remotes compacted is = Inr False"
  using assms by (induction "is") (auto simp: vec_index_simps)

lemma shard_ids_split:
  assumes "i < n"
  shows "\<exists>is. shard_ids n = shard_ids i @ i # is"
proof -
  have u: "unat i < unat n" using assms by (simp add: word_less_nat_alt)
  have "[0..<unat n] = [0..<unat i] @ unat i # [Suc (unat i)..<unat n]"
    using upt_add_eq_append [of 0 "unat i" "unat n - unat i"] upt_conv_Cons [OF u] u by simp
  then show ?thesis by (simp add: shard_ids_def)
qed

definition known_compacted :: "world \<Rightarrow> sync_net \<Rightarrow> nat \<Rightarrow> u64" where
  "known_compacted w net i = (case fetch_compaction_watermarks w (sy_first net) of
     Some ws \<Rightarrow> vec_get_or 0 ws i | None \<Rightarrow> 0)"

lemma sync_stops:
  assumes follower: "\<not> is_write_leader s" and leader: "current_leader_peer s = Some (leader_id, addr)"
    and ws: "length (so_watermarks (nd_source s)) = unat (so_shard_count (nd_source s))"
    and first: "sy_first net ''/v1/watermarks'' = Inr \<lparr>hr_status_code = 200, hr_body = b\<rparr>"
      "parse_watermarks (json_body w) b = Inr remotes"
    and kept: "\<forall>j < so_shard_count (nd_source s). known_compacted w net (unat j) \<le> so_watermarks (nd_source s) ! unat j"
    and i: "i < so_shard_count (nd_source s)"
    and before: "\<forall>j < i. vec_get_or (so_watermarks (nd_source s) ! unat j) remotes (unat j) \<le> so_watermarks (nd_source s) ! unat j"
    and behind: "so_watermarks (nd_source s) ! unat i < vec_get_or (so_watermarks (nd_source s) ! unat i) remotes (unat i)"
    and stream: "sy_shards net i (mutations_path i (so_watermarks (nd_source s) ! unat i)) = Inr \<lparr>hr_status_code = 200, hr_body = c\<rparr>"
      "decode_mutation_stream c = Inr (m # ms)"
    and old: "ci_epoch (mu_commit_id m) < cs_current_term (nd_consensus s)"
  shows "sync_from_leader w now ms1 ms2 net s = (Inl InvalidData, s)"
proof -
  let ?n = "so_shard_count (nd_source s)"
  let ?compacted = "case fetch_compaction_watermarks w (sy_first net) of
      Some ws \<Rightarrow> ws | None \<Rightarrow> replicate (length remotes) 0"
  have bound: "unat j < length (so_watermarks (nd_source s))" if "j < ?n" for j
    using that ws by (simp add: word_less_nat_alt)
  have "vec_get_or 0 (replicate k 0) j = (0 :: u64)" for k j by (cases "j < k") simp_all
  then have "vec_get_or 0 ?compacted (unat j) = known_compacted w net (unat j)" for j :: u16
    by (simp add: known_compacted_def split: option.split)
  with kept bound have needs: "needs_snapshot (so_watermarks (nd_source s)) remotes ?compacted (shard_ids ?n) = Inr False"
    by (intro no_snapshot_needed) (auto simp: set_shard_ids)
  obtain rest where "is": "shard_ids ?n = shard_ids i @ i # rest" using shard_ids_split [OF i] by blast
  let ?f = "sync_shard w now ms1 ms2 leader_id remotes (sy_shards net)"
  have "?f j s = (Inr (), s)" if "j < i" for j
    using that before i by (intro sync_shard_up_to_date bound) auto
  then have "afor ?f (shard_ids ?n) s = (Inl InvalidData, s)"
    unfolding "is" using sync_shard_old_term [where answers = "sy_shards net", OF bound [OF i] behind stream old]
    by (intro afor_stops) (auto simp: set_shard_ids)
  with needs follower leader first show ?thesis
    by (simp add: sync_from_leader_def abind_app Let_def)
qed

text \<open>C39: a follower cannot catch up across a change of term.  When the first mutation that it misses was
  committed in a term older than its own, and its leader still has the mutation in its history, a round
  of the catch-up fails and leaves the node as it was; so does every later round.\<close>

theorem catch_up_refuses_old_terms:
  assumes "\<not> is_write_leader s" and "current_leader_peer s = Some (leader_id, addr)"
    and "length (so_watermarks (nd_source s)) = unat (so_shard_count (nd_source s))"
    and "sy_first net ''/v1/watermarks'' = Inr \<lparr>hr_status_code = 200, hr_body = b\<rparr>"
    and "parse_watermarks (json_body w) b = Inr remotes"
    and "\<forall>j < so_shard_count (nd_source s). known_compacted w net (unat j) \<le> so_watermarks (nd_source s) ! unat j"
    and "i < so_shard_count (nd_source s)"
    and "\<forall>j < i. vec_get_or (so_watermarks (nd_source s) ! unat j) remotes (unat j) \<le> so_watermarks (nd_source s) ! unat j"
    and "so_watermarks (nd_source s) ! unat i < vec_get_or (so_watermarks (nd_source s) ! unat i) remotes (unat i)"
    and "sy_shards net i (mutations_path i (so_watermarks (nd_source s) ! unat i)) = Inr \<lparr>hr_status_code = 200, hr_body = c\<rparr>"
    and "decode_mutation_stream c = Inr (m # ms)"
    and "ci_epoch (mu_commit_id m) < cs_current_term (nd_consensus s)"
  shows "sync_from_leader w now ms1 ms2 net s = (Inl InvalidData, s)"
  using assms by (rule sync_stops)

definition lagging_node :: node where
  "lagging_node = (sample_node ''b'')\<lparr>nd_consensus := \<lparr>cs_current_term = 2, cs_voted_for = None, cs_role = Follower,
     cs_leader_id = Some ''a'', cs_last_leader_contact_ms = 0, cs_election_deadline_ms = 9\<rparr>\<rparr>"

definition missed_mutation :: mutation where
  "missed_mutation = sample_wire_mutation\<lparr>mu_commit_id := \<lparr>ci_shard_id = 0, ci_seq = 1, ci_epoch = 1, ci_source_region = ''eu''\<rparr>\<rparr>"

definition watermark_world :: world where
  "watermark_world = sample_world\<lparr>wd_from_json := (\<lambda>_. Inr (format_watermarks [1]))\<rparr>"

definition leader_net :: sync_net where
  "leader_net = \<lparr>sy_first = (\<lambda>path. if path = ''/v1/watermarks'' then Inr \<lparr>hr_status_code = 200, hr_body = as_bytes ''{}''\<rparr> else Inl Io),
     sy_shards = (\<lambda>_ _. Inr \<lparr>hr_status_code = 200, hr_body = encode_mutation_stream [missed_mutation]\<rparr>),
     sy_last = (\<lambda>_. Inl Io)\<rparr>"

lemma missed_stream: "decode_mutation_stream (encode_mutation_stream [missed_mutation]) = Inr [missed_mutation]"
proof -
  have "wire_mutation missed_mutation"
    by (simp add: wire_mutation_def missed_mutation_def sample_wire_mutation_def sample_wire_entry_ok wire_str_def
        str_ok_ascii)
  moreover have "length (encode_mutation missed_mutation) < 2 ^ 32"
    by (simp add: encode_mutation_def encode_entry_def write_string_def missed_mutation_def sample_wire_mutation_def
        sample_wire_entry_def)
  ultimately show ?thesis using decode_encode_stream [of "[missed_mutation]" "[]"] by (simp add: wire_record_def)
qed

theorem catch_up_refuses_old_terms_witness:
  "sync_from_leader watermark_world 9 9 9 leader_net lagging_node = (Inl InvalidData, lagging_node)"
proof -
  have t: "trim ''{}'' = ''{}''" by (rule trim_graphic) (simp add: graphic_def)
  have "str_ok ''{}''" by (rule str_ok_ascii) simp
  with t have "json_body watermark_world (as_bytes ''{}'') =
      json_object_to_string_map (wd_json_text watermark_world) (format_watermarks [1])"
    by (simp add: parse_json_fields_def watermark_world_def sample_world_def)
  then have ws: "parse_watermarks (json_body watermark_world) (as_bytes ''{}'') = Inr [1]"
    by (rule watermarks_roundtrip [rotated]) simp
  show ?thesis
    by (rule catch_up_refuses_old_terms [where leader_id = "''a''" and addr = "''h1''" and i = 0 and
          b = "as_bytes ''{}''" and remotes = "[1]" and m = missed_mutation and ms = "[]" and
          c = "encode_mutation_stream [missed_mutation]", OF _ _ _ _ ws _ _ _ _ _ missed_stream])
      (simp_all add: lagging_node_def is_write_leader_def is_clustered_def sample_cfg_def current_leader_peer_def
        peer_addr_def fresh_node_def source_new_def Let_def leader_net_def known_compacted_def
        fetch_compaction_watermarks_def missed_mutation_def)
qed

end
