(* ===== verification/Replies.thy ===== *)
theory Replies
  imports Peer_Sync
begin

text \<open>
  What the requests of a commit daemon share: replies, guards and the forwarding to the leader
  (\<open>globacl-commitd/src/app/config.rs\<close>), the audit log (\<open>storage.rs\<close>), and the bodies of the
  replies (\<open>globacl-core/src/lib/nats.rs\<close> and \<open>routes.rs\<close>).
\<close>

section \<open>Requests and replies\<close>

text \<open>What a request meets: the readings of the clocks, in seconds (those of a rollback apart) and in
  milliseconds, what happens
  while the peers are asked for the \<open>n\<close>th commit of the request, and the answer of the leader.\<close>

record request_env =
  rq_clock :: "nat \<Rightarrow> u64"
  rq_restore :: "nat \<Rightarrow> u64"
  rq_ms :: "nat \<Rightarrow> u64"
  rq_waits :: "nat \<Rightarrow> (node \<Rightarrow> node) \<times> http_response res list"
  rq_leader :: "http_response res"

record reply =
  ry_code :: u16
  ry_type :: string
  ry_body :: bytes

definition http_reply :: "u16 \<Rightarrow> string \<Rightarrow> bytes \<Rightarrow> reply" where
  "http_reply code content_type body = \<lparr>ry_code = code, ry_type = content_type, ry_body = body\<rparr>"

definition json_reply :: "world \<Rightarrow> u16 \<Rightarrow> json \<Rightarrow> reply" where
  "json_reply w code v = http_reply code ''application/json'' (json_bytes w v)"

definition octets :: "bytes \<Rightarrow> reply" where
  "octets body = http_reply 200 ''application/octet-stream'' body"

definition status_json :: "string \<Rightarrow> json" where
  "status_json t = JObject [(''status'', JString t)]"

definition rejected_json :: "string \<Rightarrow> json" where
  "rejected_json reason = JObject [(''status'', JString ''rejected''), (''reason'', JString reason)]"

section \<open>Guards\<close>

text \<open>\<open>None\<close> when the request may go on.\<close>

definition require_peer_token :: "world \<Rightarrow> node \<Rightarrow> http_request \<Rightarrow> reply option" where
  "require_peer_token w s q =
     (if peer_token_accepted (nd_peer_token s) (request_header q PEER_TOKEN_HEADER) then None
      else Some (json_reply w 401 (rejected_json ''invalid_peer_token'')))"

definition require_scope :: "world \<Rightarrow> http_request \<Rightarrow> string \<Rightarrow> (auth_principal \<Rightarrow> reply step) \<Rightarrow> reply step" where
  "require_scope w q scope handler =
     abind (gets (\<lambda>s. auth_require_scope (nd_auth s) q scope)) (\<lambda>r.
     case r of
       Inl failure \<Rightarrow> (case auth_failure_response failure scope of (code, v) \<Rightarrow> ret (json_reply w code v))
     | Inr who \<Rightarrow> handler who)"

definition required_replication_leader :: "http_request \<Rightarrow> string res" where
  "required_replication_leader q = ok_or InvalidData (request_header q LEADER_ID_HEADER)"

section \<open>Forwarding to the leader\<close>

definition current_leader_addr :: "node \<Rightarrow> string option" where
  "current_leader_addr s = map_option snd (current_leader_peer s)"

definition unavailable_json :: "string \<Rightarrow> json" where
  "unavailable_json reason = JObject [(''status'', JString ''unavailable''), (''reason'', JString reason)]"

text \<open>The error text of a failed request is dropped.  Of the headers only the authorization is passed on.\<close>

definition proxy_to_leader :: "world \<Rightarrow> request_env \<Rightarrow> http_request \<Rightarrow> bytes \<Rightarrow> reply step" where
  "proxy_to_leader w e q body =
     abind (gets current_leader_addr) (\<lambda>addr.
     case addr of
       None \<Rightarrow> ret (json_reply w 503 (unavailable_json ''leader_not_configured''))
     | Some leader_addr \<Rightarrow>
         abind (modify (\<lambda>s. s\<lparr>nd_posts := nd_posts s @ [\<lparr>pp_addr = leader_addr, pp_route = hq_path q,
           pp_headers = (case authorization_forward_header q of None \<Rightarrow> [] | Some h \<Rightarrow> [h]), pp_body = body\<rparr>]\<rparr>)) (\<lambda>_.
         case rq_leader e of
           Inr response \<Rightarrow> ret (http_reply (hr_status_code response) ''application/json'' (hr_body response))
         | Inl _ \<Rightarrow> ret (json_reply w 503 (unavailable_json ''leader_proxy_failed''))))"

definition proxy_write_to_leader :: "world \<Rightarrow> request_env \<Rightarrow> http_request \<Rightarrow> reply step" where
  "proxy_write_to_leader w e q = proxy_to_leader w e q (hq_body q)"

definition proxy_get_to_leader :: "world \<Rightarrow> request_env \<Rightarrow> http_request \<Rightarrow> reply step" where
  "proxy_get_to_leader w e q = proxy_to_leader w e q []"

section \<open>Audit\<close>

definition audit_actor :: "auth_principal \<Rightarrow> string \<Rightarrow> string" where
  "audit_actor p fallback =
     (if ap_authenticated p then sanitize_audit_value (ap_identity p) else sanitize_audit_value fallback)"

text \<open>The details are always an object.\<close>

definition audit_record :: "u64 \<Rightarrow> string \<Rightarrow> string \<Rightarrow> (string \<times> json) list \<Rightarrow> json" where
  "audit_record now event outcome details = JObject (fold (\<lambda>(k, v). hm_insert k v) details
     [(''ts'', json_u64 now), (''event'', JString event), (''result'', JString outcome)])"

definition append_audit :: "world \<Rightarrow> u64 \<Rightarrow> string \<Rightarrow> string \<Rightarrow> (string \<times> json) list \<Rightarrow> unit step" where
  "append_audit w now event outcome details =
     (let line = as_bytes (wd_json_text w (audit_record now event outcome details) @ [newline]) in
      append_file (\<lambda>cut d. d\<lparr>dk_audit := dk_audit d @ (case cut of None \<Rightarrow> line | Some n \<Rightarrow> take n line)\<rparr>))"

section \<open>Bodies\<close>

definition format_commit_outcome :: "commit_outcome \<Rightarrow> json" where
  "format_commit_outcome out =
     (let m = co_mutation out in JObject (
        [(''duplicate'', JBool (co_duplicate out)), (''shard_id'', json_nat (unat (mu_shard m))),
         (''seq'', json_u64 (mu_seq m)), (''epoch'', json_u64 (ci_epoch (mu_commit_id m))),
         (''action'', JString (action_as_str (de_action (mu_entry m)))),
         (''key_hash'', json_u64 (de_key_hash (mu_entry m))),
         (''delivery_priority'', JString (priority_as_str (mu_delivery_priority m))),
         (''committed_at_unix'', json_u64 (mu_committed_at_unix m)),
         (''entries_changed'', json_nat (if co_duplicate out then 0 else 1))] @
        (case mu_rule m of
           None \<Rightarrow> []
         | Some r \<Rightarrow> [(''rule_kind'', JString (kind_as_str (re_kind r))), (''pattern'', JString (re_pattern r)),
             (''rule_hash'', json_u64 (re_rule_hash r))])))"

definition format_decision :: "decision \<Rightarrow> json" where
  "format_decision d = (case d of
     Allow \<Rightarrow> JObject [(''decision'', JString ''allow'')]
   | Denied reason_code priority commit_id \<Rightarrow> JObject
       [(''decision'', JString ''deny''), (''reason_code'', JString reason_code),
        (''priority'', json_nat (unat priority)), (''shard_id'', json_nat (unat (ci_shard_id commit_id))),
        (''seq'', json_u64 (ci_seq commit_id)), (''epoch'', json_u64 (ci_epoch commit_id))])"

text \<open>The names below a directory of the payload files.\<close>

definition names_below :: "disk \<Rightarrow> string \<Rightarrow> string \<Rightarrow> string list" where
  "names_below d dir ext = sort (filter (\<lambda>n. CHR ''/'' \<notin> set n \<and> suffix ext n)
     (map (drop (length dir)) (filter (prefix dir) (hm_keys (dk_files d)))))"

definition format_snapshot_list :: "disk \<Rightarrow> json" where
  "format_snapshot_list d =
     (let names = names_below d ''snapshots/'' ''.gacl'';
          manifests = names_below d ''snapshots/manifests/'' ''.manifest''
      in JObject [(''snapshot_count'', json_nat (length names)), (''snapshots'', JArray (map JString names)),
           (''manifest_count'', json_nat (length manifests)), (''manifests'', JArray (map JString manifests))])"

definition health_json :: "node \<Rightarrow> json" where
  "health_json s =
     (let k = nd_consensus s; c = nd_config s in JObject
       [(''status'', JString ''ok''), (''role'', JString (role_as_str (cs_role k))),
        (''node_id'', JString (rc_node_id c)), (''cluster_id'', JString (rc_cluster_id c)),
        (''leader_id'', JString (case cs_leader_id k of Some l \<Rightarrow> l | None \<Rightarrow> [])),
        (''term'', json_u64 (cs_current_term k)),
        (''voted_for'', JString (case cs_voted_for k of Some v \<Rightarrow> v | None \<Rightarrow> [])),
        (''write_authority'', JBool (cs_role k = Leader)), (''quorum'', json_nat (rc_quorum c)),
        (''peer_count'', json_nat (length (rc_peers c))),
        (''shard_count'', json_nat (unat (so_shard_count (nd_source s)))),
        (''entries'', json_nat (hm_len (so_entries (nd_source s)))),
        (''mutations'', json_nat (length (so_mutations (nd_source s)))),
        (''jetstream_publisher'', JBool (nd_publisher s \<noteq> None)),
        (''max_published_seq'', json_u64 (max_or_zero (ps_last_published (nd_published s)))),
        (''central_ack_count'', json_nat (hm_len (nd_acks s))),
        (''last_publish_unix'', json_u64 (ps_last_publish_unix (nd_published s))),
        (''publish_errors'', json_u64 (ps_publish_errors (nd_published s))),
        (''last_peer_sync_unix'', json_u64 (ss_last_peer_sync_unix (nd_sync s))),
        (''sync_errors'', json_u64 (ss_sync_errors (nd_sync s)))])"

end
