(* ===== verification/Metrics.thy ===== *)
theory Metrics
  imports Replies
begin

text \<open>
  The metrics in the text format of Prometheus (\<open>globacl-core/src/lib/metrics.rs\<close>) and those of a
  commit daemon (\<open>globacl-commitd/src/app/routes.rs\<close>).  Values are printed as their decimal number.

  The lemmas: escaping a label loses nothing and keeps it on its line, so that a metric is always
  three lines, whatever the names of nodes and clusters are.
\<close>

definition PROMETHEUS_CONTENT_TYPE :: string where
  "PROMETHEUS_CONTENT_TYPE = ''text/plain; version=0.0.4; charset=utf-8''"

definition metrics_bind_addr_from_env :: "env \<Rightarrow> string \<Rightarrow> string \<Rightarrow> string option" where
  "metrics_bind_addr_from_env ev env_key default_addr =
     (let trimmed = trim (field_or ev env_key default_addr) in
      if to_ascii_lowercase trimmed \<in> set [[], ''off'', ''false'', ''disabled'', ''none''] then None else Some trimmed)"

definition prometheus_bool :: "bool \<Rightarrow> nat" where
  "prometheus_bool b = (if b then 1 else 0)"

text \<open>The characters that are escaped are ASCII, so characters and bytes agree.\<close>

definition double_quote :: char where
  "double_quote = CHR 0x22"

definition escape_label_char :: "char \<Rightarrow> string" where
  "escape_label_char c =
     (if c = backslash then [backslash, backslash]
      else if c = double_quote then [backslash, double_quote]
      else if c = newline then [backslash, CHR ''n'']
      else [c])"

definition prometheus_label_value :: "string \<Rightarrow> string" where
  "prometheus_label_value v = concat (map escape_label_char v)"

definition prometheus_label :: "string \<times> string \<Rightarrow> string" where
  "prometheus_label = (\<lambda>(name, v). name @ ''='' @ [double_quote] @ prometheus_label_value v @ [double_quote])"

definition prometheus_labels :: "(string \<times> string) list \<Rightarrow> string" where
  "prometheus_labels labels =
     (if labels = [] then [] else ''{'' @ join_with (CHR '','') (map prometheus_label labels) @ ''}'')"

definition append_prometheus_metric ::
  "string \<Rightarrow> string \<Rightarrow> string \<Rightarrow> string \<Rightarrow> (string \<times> string) list \<Rightarrow> nat \<Rightarrow> string" where
  "append_prometheus_metric out name help metric_type labels v =
     out @ ''# HELP '' @ name @ '' '' @ help @ [newline] @ ''# TYPE '' @ name @ '' '' @ metric_type @ [newline] @
     name @ prometheus_labels labels @ '' '' @ dec_string v @ [newline]"

text \<open>A sequence of calls.\<close>

definition append_metrics ::
  "(string \<times> string) list \<Rightarrow> (string \<times> string \<times> string \<times> nat) list \<Rightarrow> string \<Rightarrow> string" where
  "append_metrics labels rows out =
     fold (\<lambda>(name, help, metric_type, v) out. append_prometheus_metric out name help metric_type labels v) rows out"

definition write_prometheus_response :: "string \<Rightarrow> reply" where
  "write_prometheus_response body = http_reply 200 PROMETHEUS_CONTENT_TYPE (as_bytes body)"

definition handle_prometheus_metrics_connection :: "string res \<Rightarrow> http_request \<Rightarrow> reply res" where
  "handle_prometheus_metrics_connection metrics q =
     rbind (parse_query_path (hq_path q)) (\<lambda>(route, _).
     if hq_method q = ''GET'' \<and> route = ''/metrics''
     then rbind metrics (\<lambda>body. Inr (write_prometheus_response body))
     else Inr (http_reply 404 PROMETHEUS_CONTENT_TYPE (as_bytes (''not found'' @ [newline]))))"

section \<open>The commit daemon\<close>

definition commitd_labels :: "node \<Rightarrow> (string \<times> string) list" where
  "commitd_labels s = [(''cluster_id'', rc_cluster_id (nd_config s)), (''node_id'', rc_node_id (nd_config s)),
     (''role'', role_as_str (cs_role (nd_consensus s)))]"

definition commitd_rows :: "node \<Rightarrow> (string \<times> string \<times> string \<times> nat) list" where
  "commitd_rows s =
     [(''globacl_commitd_up'', ''Commitd process is serving requests.'', ''gauge'', 1),
      (''globacl_commitd_write_authority'', ''Whether this commitd node currently has write authority.'', ''gauge'',
        prometheus_bool (cs_role (nd_consensus s) = Leader \<or> \<not> is_clustered (nd_config s))),
      (''globacl_commitd_current_term'', ''Current fenced-leader consensus term.'', ''gauge'',
        unat (cs_current_term (nd_consensus s))),
      (''globacl_commitd_quorum'', ''Configured commit quorum.'', ''gauge'', rc_quorum (nd_config s)),
      (''globacl_commitd_peer_count'', ''Configured commit peer count.'', ''gauge'', length (rc_peers (nd_config s))),
      (''globacl_commitd_shard_count'', ''Number of configured ACL shards.'', ''gauge'',
        unat (so_shard_count (nd_source s))),
      (''globacl_commitd_entries'', ''Materialized deny entry count.'', ''gauge'', hm_len (so_entries (nd_source s))),
      (''globacl_commitd_mutations'', ''Retained committed mutation count.'', ''gauge'',
        length (so_mutations (nd_source s))),
      (''globacl_commitd_jetstream_publisher_enabled'', ''Whether commitd publishes committed mutations to JetStream.'',
        ''gauge'', prometheus_bool (nd_publisher s \<noteq> None)),
      (''globacl_commitd_max_published_seq'', ''Maximum per-shard sequence published to the configured sink.'',
        ''gauge'', unat (max_or_zero (ps_last_published (nd_published s)))),
      (''globacl_commitd_last_publish_unix'', ''Unix timestamp of the last successful publish loop.'', ''gauge'',
        unat (ps_last_publish_unix (nd_published s))),
      (''globacl_commitd_publish_errors_total'', ''Number of publish loop errors since process start.'', ''counter'',
        unat (ps_publish_errors (nd_published s))),
      (''globacl_commitd_last_peer_sync_unix'', ''Unix timestamp of the last successful follower catch-up sync.'',
        ''gauge'', unat (ss_last_peer_sync_unix (nd_sync s))),
      (''globacl_commitd_sync_errors_total'', ''Number of follower catch-up sync errors since process start.'',
        ''counter'', unat (ss_sync_errors (nd_sync s))),
      (''globacl_commitd_central_ack_count'', ''Number of latest propagation acknowledgements stored centrally.'',
        ''gauge'', hm_len (nd_acks s))]"

definition format_commitd_metrics :: "node \<Rightarrow> string" where
  "format_commitd_metrics s = append_metrics (commitd_labels s) (commitd_rows s) []"

section \<open>Labels stay apart and on their line\<close>

lemma escape_no_newline: "newline \<notin> set (prometheus_label_value v)"
  by (auto simp: prometheus_label_value_def escape_label_char_def newline_def backslash_def double_quote_def)

lemma escape_prefix_free:
  "escape_label_char c @ x = escape_label_char d @ y \<Longrightarrow> c = d \<and> x = y"
  by (auto simp: escape_label_char_def backslash_def double_quote_def newline_def split: if_splits)

lemma label_value_inj: "prometheus_label_value u = prometheus_label_value v \<longleftrightarrow> u = v"
proof
  show "prometheus_label_value u = prometheus_label_value v \<Longrightarrow> u = v"
  proof (induction u arbitrary: v)
    case Nil
    have "escape_label_char c \<noteq> []" for c by (simp add: escape_label_char_def)
    with Nil show ?case by (cases v) (auto simp: prometheus_label_value_def)
  next
    case (Cons c u)
    have n: "escape_label_char c \<noteq> []" by (simp add: escape_label_char_def)
    with Cons.prems obtain d v' where v: "v = d # v'" by (cases v) (auto simp: prometheus_label_value_def)
    with Cons.prems have "c = d \<and> prometheus_label_value u = prometheus_label_value v'"
      by (intro escape_prefix_free) (simp add: prometheus_label_value_def)
    with Cons.IH v show ?case by simp
  qed
qed simp

lemma labels_one_line:
  assumes "\<forall>(name, v) \<in> set labels. newline \<notin> set name"
  shows "newline \<notin> set (prometheus_labels labels)"
proof -
  have join: "(\<forall>t \<in> set ts. newline \<notin> set t) \<Longrightarrow> newline \<notin> set (join_with (CHR '','') ts)" for ts
    by (induction "CHR '',''" ts rule: join_with.induct) (auto simp: newline_def)
  have "\<forall>l \<in> set labels. newline \<notin> set (prometheus_label l)"
    using assms escape_no_newline by (auto simp: prometheus_label_def double_quote_def newline_def)
  then have "newline \<notin> set (join_with (CHR '','') (map prometheus_label labels))" by (intro join) auto
  then show ?thesis by (simp add: prometheus_labels_def newline_def)
qed

end
