(* ===== verification/Routes.thy ===== *)
theory Routes
  imports Replies Restore
begin

text \<open>
  The requests a commit daemon answers (\<open>globacl-commitd/src/app/routes.rs\<close>).  A request is one
  step of the node that ends with a reply; when it ends with an error the connection is closed
  without one.

  Result: only a request that passes its guard changes more than payload files
  (\<open>changes_are_guarded\<close>).
\<close>

abbreviation with_fields :: "world \<Rightarrow> http_request \<Rightarrow> (form \<Rightarrow> reply step) \<Rightarrow> reply step" where
  "with_fields w q \<equiv> abind (lift_res (json_body w (hq_body q)))"

section \<open>Status and acknowledgements\<close>

definition propagation_status_route :: "world \<Rightarrow> request_env \<Rightarrow> http_request \<Rightarrow> reply step" where
  "propagation_status_route w e q =
     abind (gets (\<lambda>s. is_clustered (nd_config s) \<and> \<not> is_write_leader s)) (\<lambda>follower.
     if follower then proxy_get_to_leader w e q
     else gets (\<lambda>s. json_reply w 200 (format_propagation_status (rq_clock e 0) s)))"

definition ack_route :: "world \<Rightarrow> request_env \<Rightarrow> http_request \<Rightarrow> reply step" where
  "ack_route w e q =
     with_fields w q (\<lambda>f.
     abind (lift_res (propagation_ack_from_fields (rq_clock e 0) (rq_clock e 1) f)) (\<lambda>a.
     abind (record_propagation_ack w (fst (rq_waits e 0)) (snd (rq_waits e 0)) a) (\<lambda>_.
       ret (json_reply w 200 (status_json ''ok'')))))"

section \<open>Requests of peers\<close>

definition form_json :: "form \<Rightarrow> json" where
  "form_json f = JObject (map (\<lambda>(k, v). (k, JString v)) f)"

definition request_vote_route :: "world \<Rightarrow> request_env \<Rightarrow> http_request \<Rightarrow> reply step" where
  "request_vote_route w e q =
     with_fields w q (\<lambda>f.
     abind (handle_request_vote (wd_from_json w) (rq_ms e 0) (rq_ms e 1) f) (\<lambda>r. ret (json_reply w 200 (form_json r))))"

definition heartbeat_route :: "world \<Rightarrow> request_env \<Rightarrow> http_request \<Rightarrow> reply step" where
  "heartbeat_route w e q =
     with_fields w q (\<lambda>f.
     abind (handle_heartbeat (rq_ms e 0) (rq_ms e 1) f) (\<lambda>r. ret (json_reply w 200 (form_json r))))"

definition prepare_route :: "world \<Rightarrow> request_env \<Rightarrow> http_request \<Rightarrow> reply step" where
  "prepare_route w e q =
     abind (lift_res (decode_mutation (hq_body q))) (\<lambda>m.
     abind (lift_res (required_replication_leader q)) (\<lambda>leader_id.
     abind (prepare_replicated_mutation_from_leader (rq_ms e 0) (rq_ms e 1) m leader_id) (\<lambda>_.
       ret (json_reply w 200 (status_json ''prepared'')))))"

definition commit_route :: "world \<Rightarrow> request_env \<Rightarrow> http_request \<Rightarrow> reply step" where
  "commit_route w e q =
     abind (lift_res (decode_mutation (hq_body q))) (\<lambda>m.
     abind (lift_res (required_replication_leader q)) (\<lambda>leader_id.
     abind (commit_replicated_mutation_from_leader w (rq_clock e 0) (rq_ms e 0) (rq_ms e 1) m True leader_id) (\<lambda>st.
       ret (json_reply w 200 (status_json (case st of Applied \<Rightarrow> ''applied'' | DuplicateOrOld \<Rightarrow> ''duplicate''))))))"

definition abort_route :: "world \<Rightarrow> request_env \<Rightarrow> http_request \<Rightarrow> reply step" where
  "abort_route w e q =
     abind (lift_res (decode_mutation (hq_body q))) (\<lambda>m.
     abind (lift_res (required_replication_leader q)) (\<lambda>leader_id.
     abind (abort_replicated_mutation_from_leader (rq_ms e 0) (rq_ms e 1) m leader_id) (\<lambda>_.
       ret (json_reply w 200 (status_json ''aborted'')))))"

definition replicated_ack_route :: "world \<Rightarrow> request_env \<Rightarrow> http_request \<Rightarrow> reply step" where
  "replicated_ack_route w e q =
     with_fields w q (\<lambda>f.
     abind (lift_res (propagation_ack_from_fields (rq_clock e 0) (rq_clock e 1) f)) (\<lambda>a.
     abind (apply_propagation_ack w a) (\<lambda>applied.
       ret (json_reply w 200 (status_json (if applied then ''applied'' else ''duplicate''))))))"

definition idempotency_route :: "reply step" where
  "idempotency_route = gets (\<lambda>s. octets (encode_mutation_stream (idempotency_mutations (nd_source s))))"

section \<open>Changes of the access control list\<close>

definition broad_json :: json where
  "broad_json = rejected_json ''blast_radius_override_required''"

definition committed_details :: "commit_outcome \<Rightarrow> string \<Rightarrow> (string \<times> json) list" where
  "committed_details out actor =
     [(''op_id'', JString (mu_op_id (co_mutation out))),
      (''shard_id'', json_nat (unat (mu_shard (co_mutation out)))),
      (''seq'', json_u64 (mu_seq (co_mutation out))), (''duplicate'', JBool (co_duplicate out)),
      (''actor'', JString actor)]"

definition deny_route :: "world \<Rightarrow> request_env \<Rightarrow> http_request \<Rightarrow> reply step" where
  "deny_route w e q = require_scope w q ''acl:write'' (\<lambda>who.
     with_fields w q (\<lambda>f.
     abind (lift_res (deny_request_from_fields f)) (\<lambda>r.
     if deny_requires_blast_radius_override r \<and> \<not> blast_radius_override_enabled f then
       abind (append_audit w (rq_clock e 0) ''deny'' ''rejected''
         [(''op_id'', JString (dr_op_id r)), (''reason'', JString ''blast_radius_override_required''),
          (''namespace'', JString (dr_namespace r)), (''key'', JString (dr_key r)),
          (''actor'', JString (audit_actor who (dr_created_by r)))]) (\<lambda>_.
         ret (json_reply w 400 broad_json))
     else
       abind (commit_request w (rq_clock e 0) (rq_clock e 1) (fst (rq_waits e 0)) (snd (rq_waits e 0)) r) (\<lambda>out.
       abind (append_audit w (rq_clock e 2) ''deny'' ''committed''
         (committed_details out (audit_actor who (de_created_by (mu_entry (co_mutation out)))))) (\<lambda>_.
         ret (json_reply w 200 (format_commit_outcome out)))))))"

definition rule_route :: "world \<Rightarrow> request_env \<Rightarrow> http_request \<Rightarrow> reply step" where
  "rule_route w e q = require_scope w q ''acl:write'' (\<lambda>who.
     with_fields w q (\<lambda>f.
     abind (lift_res (rule_request_from_fields f)) (\<lambda>r.
     if rule_requires_blast_radius_override r \<and> \<not> blast_radius_override_enabled f then
       abind (append_audit w (rq_clock e 0) ''rule'' ''rejected''
         [(''op_id'', JString (rr_op_id r)), (''reason'', JString ''blast_radius_override_required''),
          (''kind'', JString (kind_as_str (rr_kind r))), (''pattern'', JString (rr_pattern r)),
          (''actor'', JString (audit_actor who (rr_created_by r)))]) (\<lambda>_.
         ret (json_reply w 400 broad_json))
     else
       abind (commit_rule_request w (rq_clock e 0) (rq_clock e 1) (fst (rq_waits e 0)) (snd (rq_waits e 0)) r) (\<lambda>out.
       abind (append_audit w (rq_clock e 2) ''rule'' ''committed''
         (committed_details out (audit_actor who (case mu_rule (co_mutation out) of
            Some r \<Rightarrow> re_created_by r | None \<Rightarrow> de_created_by (mu_entry (co_mutation out)))))) (\<lambda>_.
         ret (json_reply w 200 (format_commit_outcome out)))))))"

definition canary_route :: "world \<Rightarrow> request_env \<Rightarrow> http_request \<Rightarrow> reply step" where
  "canary_route w e q = require_scope w q ''acl:write'' (\<lambda>who.
     abind (commit_canary w (rq_clock e 0) (rq_clock e 1) (rq_clock e 2) (fst (rq_waits e 0)) (snd (rq_waits e 0))) (\<lambda>canary.
     abind (append_audit w (rq_clock e 3) ''canary'' ''committed''
       [(''op_id'', JString (ca_op_id canary)), (''shard_id'', json_nat (unat (ca_shard_id canary))),
        (''seq'', json_u64 (ca_seq canary)), (''actor'', JString (audit_actor who ''globacl-commitd''))]) (\<lambda>_.
       ret (json_reply w 200 (format_canary_status canary)))))"

definition latest_canary_route :: "world \<Rightarrow> reply step" where
  "latest_canary_route w = gets (\<lambda>s. json_reply w 200 (case nd_canary s of
     Some c \<Rightarrow> format_canary_status c | None \<Rightarrow> status_json ''none''))"

section \<open>History\<close>

definition compacted_json :: "u64 \<Rightarrow> json" where
  "compacted_json seq = JObject [(''status'', JString ''compacted''), (''reason'', JString ''history_compacted''),
     (''compacted_seq'', json_u64 seq)]"

text \<open>The routes that answer 409 when the history they are asked for has been compacted.\<close>

definition history_route :: "world \<Rightarrow> form \<Rightarrow> (node \<Rightarrow> mutation list res) \<Rightarrow> (bytes \<Rightarrow> reply step) \<Rightarrow> reply step" where
  "history_route w query select handler =
     abind (gets (\<lambda>s. compacted_seq_for_query s query)) (\<lambda>r.
     abind (lift_res r) (\<lambda>compacted.
     case compacted of
       Some seq \<Rightarrow> ret (json_reply w 409 (compacted_json seq))
     | None \<Rightarrow>
         abind (gets select) (\<lambda>r.
         abind (lift_res r) (\<lambda>ms. handler (encode_mutation_stream ms)))))"

definition signed_reply :: "world \<Rightarrow> bytes \<Rightarrow> reply step" where
  "signed_reply w payload =
     abind (gets (\<lambda>s. signature_text w (nd_signer s) payload)) (\<lambda>r.
     abind (lift_res r) (\<lambda>t. ret (http_reply 200 ''application/json'' (as_bytes t))))"

definition mutations_route :: "world \<Rightarrow> form \<Rightarrow> reply step" where
  "mutations_route w query = history_route w query (\<lambda>s. mutations_for_query s query) (\<lambda>b. ret (octets b))"

definition mutations_sig_route :: "world \<Rightarrow> form \<Rightarrow> reply step" where
  "mutations_sig_route w query = history_route w query (\<lambda>s. mutations_for_query s query) (signed_reply w)"

definition delta_bundle_route :: "world \<Rightarrow> form \<Rightarrow> reply step" where
  "delta_bundle_route w query = history_route w query (\<lambda>s. delta_bundle_for_query s query) (\<lambda>b. ret (octets b))"

definition delta_bundle_sig_route :: "world \<Rightarrow> form \<Rightarrow> reply step" where
  "delta_bundle_sig_route w query = history_route w query (\<lambda>s. delta_bundle_for_query s query) (signed_reply w)"

section \<open>Snapshots\<close>

definition snapshot_route :: "reply step" where
  "snapshot_route = gets (\<lambda>s. octets (case hm_get (dk_files (nd_disk s)) latest_path of
     Some b \<Rightarrow> b | None \<Rightarrow> encode_snapshot (source_snapshot (nd_source s))))"

definition snapshot_sig_route :: "world \<Rightarrow> reply step" where
  "snapshot_sig_route w =
     abind (gets nd_disk) (\<lambda>d.
     case hm_get (dk_files d) (signature_path latest_path) of
       Some b \<Rightarrow> ret (http_reply 200 ''application/json'' b)
     | None \<Rightarrow> (case hm_get (dk_files d) latest_path of
           Some b \<Rightarrow> signed_reply w b
         | None \<Rightarrow> ret (http_reply 200 ''application/json'' [])))"

definition manifest_route :: "world \<Rightarrow> request_env \<Rightarrow> string \<Rightarrow> string \<Rightarrow> reply step" where
  "manifest_route w e path object =
     abind (ensure_latest_snapshot_manifest w (rq_clock e 0)) (\<lambda>_.
     abind (gets nd_object_store) (\<lambda>store.
     abind (read_file_or_object_store w (rq_clock e 1) path store object) (\<lambda>body.
       ret (http_reply 200 ''application/json'' body))))"

definition artifact_route :: "world \<Rightarrow> request_env \<Rightarrow> form \<Rightarrow> string \<Rightarrow> string \<Rightarrow> reply step" where
  "artifact_route w e query ext content_type =
     abind (lift_res (required_query query ''object'')) (\<lambda>object.
     if \<not> is_safe_snapshot_object_name object then ret (json_reply w 400 (rejected_json ''invalid_snapshot_object''))
     else
       abind (gets nd_object_store) (\<lambda>store.
       abind (read_file_or_object_store w (rq_clock e 0) (object_path object @ ext) store (object @ ext)) (\<lambda>body.
         ret (http_reply 200 content_type body))))"

definition upload_route :: "world \<Rightarrow> request_env \<Rightarrow> http_request \<Rightarrow> reply step" where
  "upload_route w e q = require_scope w q ''snapshot:write'' (\<lambda>who.
     abind (lift_res (decode_snapshot (hq_body q))) (\<lambda>sn.
     abind (lift_res (snapshot_validate sn)) (\<lambda>_.
     let archive_name = ''uploaded_'' @ dec_string (unat (rq_clock e 0)) in
     abind (persist_archived_snapshot w (rq_clock e 1) sn archive_name) (\<lambda>_.
     abind (append_audit w (rq_clock e 2) ''snapshot'' ''uploaded''
       [(''snapshot'', JString (archive_name @ ''.gacl'')), (''actor'', JString (audit_actor who ''unknown''))]) (\<lambda>_.
       ret (json_reply w 200 (status_json ''ok'')))))))"

text \<open>The mutations of a rollback are committed one after the other.\<close>

fun commit_all :: "world \<Rightarrow> request_env \<Rightarrow> nat \<Rightarrow> mutation list \<Rightarrow> unit step" where
  "commit_all w e i [] = ret ()"
| "commit_all w e i (m # ms) =
     abind (commit_prepared_outcome w (rq_clock e (i + 3)) (fst (rq_waits e i)) (snd (rq_waits e i))
              \<lparr>co_mutation = m, co_duplicate = False\<rparr>) (\<lambda>_. commit_all w e (i + 1) ms)"

definition rollback_to :: "world \<Rightarrow> request_env \<Rightarrow> string \<Rightarrow> mutation list step" where
  "rollback_to w e snapshot_name =
     abind (read_file (''snapshots/'' @ snapshot_name)) (\<lambda>b.
     abind (lift_res (decode_snapshot b)) (\<lambda>sn.
     let rollback_id = ''rollback-'' @ dec_string (unat (rq_clock e 0)) in
     abind write_authority (\<lambda>term.
     abind (modify (on_source (set_epoch term))) (\<lambda>_.
     abind (gets (\<lambda>s. restore_snapshot (rq_restore e) sn rollback_id (set_epoch term (nd_source s)))) (\<lambda>planned.
     abind (lift_res planned) (\<lambda>(_, ms).
     abind (commit_all w e 0 ms) (\<lambda>_.
     abind (gets (\<lambda>s. source_snapshot (nd_source s))) (\<lambda>current.
     abind (persist_archived_snapshot w (rq_clock e 1) current rollback_id) (\<lambda>_. ret ms)))))))))"

definition rollback_route :: "world \<Rightarrow> request_env \<Rightarrow> http_request \<Rightarrow> reply step" where
  "rollback_route w e q = require_scope w q ''admin:rollback'' (\<lambda>who.
     with_fields w q (\<lambda>f.
     abind (lift_res (case hm_get f ''snapshot'' of
       Some v \<Rightarrow> if v = [] then Inl Parse else Inr v | None \<Rightarrow> Inl Parse)) (\<lambda>snapshot_name.
     if \<not> is_safe_snapshot_name snapshot_name then ret (json_reply w 400 (rejected_json ''invalid_snapshot_name''))
     else
       abind (rollback_to w e snapshot_name) (\<lambda>ms.
       let details = [(''snapshot'', JString snapshot_name), (''mutations'', json_nat (length ms))] in
       abind (append_audit w (rq_clock e 2) ''rollback'' ''committed''
         (details @ [(''actor'', JString (audit_actor who ''unknown''))])) (\<lambda>_.
         ret (json_reply w 200 (JObject ((''status'', JString ''ok'') # details))))))))"

section \<open>Audit log and decisions\<close>

definition audit_route :: "world \<Rightarrow> http_request \<Rightarrow> reply step" where
  "audit_route w q = require_scope w q ''audit:read'' (\<lambda>_.
     abind (gets (\<lambda>s. filter (\<lambda>l. \<not> blank l) (str_lines (from_utf8_lossy (dk_audit (nd_disk s)))))) (\<lambda>ls.
     abind (lift_res (rmap (\<lambda>l. parse_json_body (wd_from_json w) (as_bytes l)) ls)) (\<lambda>items.
       ret (json_reply w 200 (JObject [(''items'', JArray items)])))))"

definition lookup_route :: "world \<Rightarrow> request_env \<Rightarrow> form \<Rightarrow> reply step" where
  "lookup_route w e query =
     abind (lift_res (required_query query ''tenant_id'')) (\<lambda>tenant_id.
     abind (lift_res (required_query query ''namespace'')) (\<lambda>namespace.
     abind (lift_res (required_query query ''key'')) (\<lambda>key.
       gets (\<lambda>s. json_reply w 200 (format_decision
         (source_lookup (nd_source s) tenant_id namespace key (rq_clock e 0)))))))"

definition check_route :: "world \<Rightarrow> request_env \<Rightarrow> form \<Rightarrow> reply step" where
  "check_route w e query =
     abind (lift_res (required_query query ''tenant_id'')) (\<lambda>tenant_id.
     abind (lift_res (required_query query ''namespace'')) (\<lambda>namespace.
     abind (lift_res (case first_field query [''value'', ''key''] of
       Some v \<Rightarrow> if v = [] then Inl Parse else Inr v | None \<Rightarrow> Inl Parse)) (\<lambda>raw_value.
       gets (\<lambda>s. json_reply w 200 (format_decision
         (source_check (nd_source s) tenant_id namespace raw_value (rq_clock e 0)))))))"

section \<open>Dispatch\<close>

definition get_route :: "world \<Rightarrow> request_env \<Rightarrow> http_request \<Rightarrow> string \<Rightarrow> form \<Rightarrow> reply step option" where
  "get_route w e q route query =
     (if route = ''/health'' then Some (gets (\<lambda>s. json_reply w 200 (health_json s)))
      else if route = ''/v1/propagation/status'' then Some (propagation_status_route w e q)
      else if route = ''/internal/replication/acks'' then
        Some (gets (\<lambda>s. json_reply w 200 (format_propagation_ack_log_snapshot s)))
      else if route = ''/internal/replication/idempotency'' then Some idempotency_route
      else if route = ''/v1/canary/latest'' then Some (latest_canary_route w)
      else if route = ''/v1/mutations'' then Some (mutations_route w query)
      else if route = ''/v1/mutations.sig'' then Some (mutations_sig_route w query)
      else if route = ''/v1/watermarks'' then
        Some (gets (\<lambda>s. json_reply w 200 (format_watermarks (so_watermarks (nd_source s)))))
      else if route = ''/v1/compaction_watermarks'' then
        Some (gets (\<lambda>s. json_reply w 200 (format_watermarks (so_compacted (nd_source s)))))
      else if route = ''/v1/delta_bundle'' then Some (delta_bundle_route w query)
      else if route = ''/v1/delta_bundle.sig'' then Some (delta_bundle_sig_route w query)
      else if route = ''/v1/snapshot'' then Some snapshot_route
      else if route = ''/v1/snapshot.sig'' then Some (snapshot_sig_route w)
      else if route = ''/v1/snapshot_manifest'' then
        Some (manifest_route w e latest_manifest_path LATEST_MANIFEST_OBJECT)
      else if route = ''/v1/snapshot_manifest.sig'' then
        Some (manifest_route w e (signature_path latest_manifest_path) LATEST_MANIFEST_SIGNATURE_OBJECT)
      else if route = ''/v1/snapshot_artifact'' then
        Some (artifact_route w e query [] ''application/octet-stream'')
      else if route = ''/v1/snapshot_artifact.sig'' then
        Some (artifact_route w e query ''.sig'' ''application/json'')
      else if route = ''/v1/snapshots'' then
        Some (gets (\<lambda>s. json_reply w 200 (format_snapshot_list (nd_disk s))))
      else if route = ''/v1/audit'' then Some (audit_route w q)
      else if route = ''/v1/lookup'' then Some (lookup_route w e query)
      else if route = ''/v1/check'' then Some (check_route w e query)
      else None)"

definition post_route :: "world \<Rightarrow> request_env \<Rightarrow> http_request \<Rightarrow> string \<Rightarrow> reply step option" where
  "post_route w e q route =
     (if route = ''/v1/ack'' then Some (ack_route w e q)
      else if route = ''/internal/raft/request_vote'' then Some (request_vote_route w e q)
      else if route = ''/internal/raft/heartbeat'' then Some (heartbeat_route w e q)
      else if route = ''/internal/replication/prepare'' then Some (prepare_route w e q)
      else if route = ''/internal/replication/commit'' then Some (commit_route w e q)
      else if route = ''/internal/replication/abort'' then Some (abort_route w e q)
      else if route = ''/internal/replication/ack'' then Some (replicated_ack_route w e q)
      else if route = ''/v1/deny'' \<or> route = ''/v1/mutation'' then Some (deny_route w e q)
      else if route = ''/v1/rule'' then Some (rule_route w e q)
      else if route = ''/v1/canary'' then Some (canary_route w e q)
      else if route = ''/v1/snapshot'' then Some (upload_route w e q)
      else if route = ''/v1/rollback'' then Some (rollback_route w e q)
      else None)"

definition route_request :: "world \<Rightarrow> request_env \<Rightarrow> http_request \<Rightarrow> string \<Rightarrow> form \<Rightarrow> reply step" where
  "route_request w e q route query =
     (case (if hq_method q = ''GET'' then get_route w e q route query
            else if hq_method q = ''POST'' then post_route w e q route else None) of
        Some handler \<Rightarrow> handler
      | None \<Rightarrow> ret (json_reply w 404 (JObject [(''error'', JString ''not_found'')])))"

definition handle_connection :: "world \<Rightarrow> request_env \<Rightarrow> http_request \<Rightarrow> reply step" where
  "handle_connection w e q =
     abind (lift_res (parse_query_path (hq_path q))) (\<lambda>(route, query).
     abind (gets (\<lambda>s. if is_internal_route route then require_peer_token w s q else None)) (\<lambda>refused.
     case refused of
       Some r \<Rightarrow> ret r
     | None \<Rightarrow>
         abind (gets (\<lambda>s. requires_leader (hq_method q) route \<and> is_clustered (nd_config s) \<and> \<not> is_write_leader s))
           (\<lambda>forward.
         if forward then proxy_write_to_leader w e q else route_request w e q route query)))"

section \<open>Guards\<close>

text \<open>Outside the payload files, the object store and the requests to peers nothing changes.\<close>

definition untouched :: "node \<Rightarrow> node \<Rightarrow> bool" where
  "untouched s s' \<longleftrightarrow> same_rest (s\<lparr>nd_posts := []\<rparr>) (s'\<lparr>nd_posts := []\<rparr>)"

interpretation idle: progress untouched
  by unfold_locales (simp_all add: untouched_def same_rest_def)

lemma same_rest_untouched: "same_rest s s' \<Longrightarrow> untouched s s'"
  by (cases s; cases s'; simp add: untouched_def same_rest_def on_disk_def)

lemma moves_untouched: "moves same_rest m \<Longrightarrow> moves untouched m"
  by (auto simp: moves_def intro: same_rest_untouched)

lemmas idle_writes = moves_untouched [OF write_payload_moves] moves_untouched [OF persist_latest_moves]

lemma idle_case: "(\<And>x. moves untouched (f x)) \<Longrightarrow> moves untouched m \<Longrightarrow> moves untouched (case v of None \<Rightarrow> m | Some x \<Rightarrow> f x)"
  by (cases v) simp_all

lemma idle_if: "(c \<Longrightarrow> moves untouched m) \<Longrightarrow> (\<not> c \<Longrightarrow> moves untouched n) \<Longrightarrow> moves untouched (if c then m else n)"
  by simp

lemmas idle_steps = idle.pure idle.bound idle_case idle_if

lemma proxy_idle: "moves untouched (proxy_to_leader w e q b)"
proof -
  have "moves untouched (modify (\<lambda>s. s\<lparr>nd_posts := nd_posts s @ [p]\<rparr>))" for p
    by (simp add: moves_def untouched_def payload.refl)
  then show ?thesis
    unfolding proxy_to_leader_def by (intro idle_steps) (auto intro: idle_steps split: sum.split)
qed

lemma get_object_idle: "moves untouched (get_object w now c ob)"
  unfolding get_object_def get_optional_object_def by (intro idle_steps)

lemma read_or_fetch_idle: "moves untouched (read_file_or_object_store w now path store ob)"
  unfolding read_file_or_object_store_def by (intro idle_steps get_object_idle idle_writes)

lemma ensure_manifest_idle: "moves untouched (ensure_latest_snapshot_manifest w now)"
  unfolding ensure_latest_snapshot_manifest_def by (intro idle_steps idle_writes)

lemma require_scope_idle: "(\<And>p. moves untouched (h p)) \<Longrightarrow> moves untouched (require_scope w q scope h)"
  unfolding require_scope_def by (intro idle_steps) (auto intro: idle_steps split: sum.split prod.split)

lemma history_idle: "(\<And>b. moves untouched (h b)) \<Longrightarrow> moves untouched (history_route w query sel h)"
  unfolding history_route_def by (intro idle_steps)

lemma signed_idle: "moves untouched (signed_reply w b)"
  unfolding signed_reply_def by (intro idle_steps)

lemma get_routes_idle:
  "moves untouched (propagation_status_route w e q)" "moves untouched idempotency_route"
  "moves untouched (latest_canary_route w)" "moves untouched (mutations_route w query)"
  "moves untouched (mutations_sig_route w query)" "moves untouched (delta_bundle_route w query)"
  "moves untouched (delta_bundle_sig_route w query)" "moves untouched snapshot_route"
  "moves untouched (snapshot_sig_route w)" "moves untouched (manifest_route w e path ob)"
  "moves untouched (artifact_route w e query ext ct)" "moves untouched (audit_route w q)"
  "moves untouched (lookup_route w e query)" "moves untouched (check_route w e query)"
  unfolding propagation_status_route_def proxy_get_to_leader_def idempotency_route_def latest_canary_route_def
    mutations_route_def mutations_sig_route_def delta_bundle_route_def delta_bundle_sig_route_def snapshot_route_def
    snapshot_sig_route_def manifest_route_def artifact_route_def audit_route_def lookup_route_def check_route_def
  by (intro idle_steps proxy_idle history_idle signed_idle ensure_manifest_idle read_or_fetch_idle require_scope_idle)+

lemma get_route_idle: "get_route w e q route query = Some h \<Longrightarrow> moves untouched h"
  unfolding get_route_def by (auto intro: get_routes_idle idle.pure split: if_splits)

text \<open>The scope of a route that changes the access control list or the snapshots.\<close>

definition needed_scope :: "string \<Rightarrow> string option" where
  "needed_scope route =
     (if route \<in> set [''/v1/deny'', ''/v1/mutation'', ''/v1/rule'', ''/v1/canary''] then Some ''acl:write''
      else if route = ''/v1/snapshot'' then Some ''snapshot:write''
      else if route = ''/v1/rollback'' then Some ''admin:rollback'' else None)"

definition guard_passed :: "node \<Rightarrow> http_request \<Rightarrow> string \<Rightarrow> bool" where
  "guard_passed s q route \<longleftrightarrow> hq_method q = ''POST'' \<and>
     (if is_internal_route route then peer_token_accepted (nd_peer_token s) (request_header q PEER_TOKEN_HEADER)
      else is_write_leader s \<and> (case needed_scope route of
          Some scope \<Rightarrow> (\<exists>who. auth_require_scope (nd_auth s) q scope = Inr who)
        | None \<Rightarrow> route = ''/v1/ack''))"

lemma refused_scope:
  "auth_require_scope (nd_auth s) q scope = Inl f \<Longrightarrow> snd (require_scope w q scope h s) = s"
  by (simp add: require_scope_def abind_app split: prod.split)

lemma scoped_routes:
  "\<exists>h. deny_route w e q = require_scope w q ''acl:write'' h" "\<exists>h. rule_route w e q = require_scope w q ''acl:write'' h"
  "\<exists>h. canary_route w e q = require_scope w q ''acl:write'' h"
  "\<exists>h. upload_route w e q = require_scope w q ''snapshot:write'' h"
  "\<exists>h. rollback_route w e q = require_scope w q ''admin:rollback'' h"
  unfolding deny_route_def rule_route_def canary_route_def upload_route_def rollback_route_def by blast+

lemma needed_scopes:
  "needed_scope ''/v1/deny'' = Some ''acl:write''" "needed_scope ''/v1/mutation'' = Some ''acl:write''"
  "needed_scope ''/v1/rule'' = Some ''acl:write''" "needed_scope ''/v1/canary'' = Some ''acl:write''"
  "needed_scope ''/v1/snapshot'' = Some ''snapshot:write''" "needed_scope ''/v1/rollback'' = Some ''admin:rollback''"
  by (simp_all add: needed_scope_def)

lemma internal_routes:
  "is_internal_route ''/internal/raft/request_vote''" "is_internal_route ''/internal/raft/heartbeat''"
  "is_internal_route ''/internal/replication/prepare''" "is_internal_route ''/internal/replication/commit''"
  "is_internal_route ''/internal/replication/abort''" "is_internal_route ''/internal/replication/ack''"
  by (simp_all add: is_internal_route_def)

lemma post_routes:
  assumes "post_route w e q route = Some h"
  shows "is_internal_route route \<or> route = ''/v1/ack'' \<or>
    (\<exists>scope handler. needed_scope route = Some scope \<and> h = require_scope w q scope handler)"
proof -
  have internal: "is_internal_route route" if "route \<in> set [''/internal/raft/request_vote'', ''/internal/raft/heartbeat'',
      ''/internal/replication/prepare'', ''/internal/replication/commit'', ''/internal/replication/abort'',
      ''/internal/replication/ack'']"
    using that internal_routes by auto
  have scoped: "\<exists>scope handler. needed_scope route = Some scope \<and> h = require_scope w q scope handler"
    if r: "route \<in> set [''/v1/deny'', ''/v1/mutation'', ''/v1/rule'', ''/v1/canary'', ''/v1/snapshot'', ''/v1/rollback'']"
  proof -
    from r assms have "needed_scope route = Some ''acl:write'' \<and>
          (h = deny_route w e q \<or> h = rule_route w e q \<or> h = canary_route w e q) \<or>
        needed_scope route = Some ''snapshot:write'' \<and> h = upload_route w e q \<or>
        needed_scope route = Some ''admin:rollback'' \<and> h = rollback_route w e q"
      unfolding set_simps insert_iff empty_iff by (elim disjE) (simp_all add: post_route_def needed_scope_def)
    with scoped_routes [of w e q] show ?thesis by metis
  qed
  show ?thesis
  proof (rule ccontr)
    assume "\<not> ?thesis"
    with internal scoped have "route \<noteq> ''/v1/ack''" "route \<notin> set [''/internal/raft/request_vote'', ''/internal/raft/heartbeat'',
      ''/internal/replication/prepare'', ''/internal/replication/commit'', ''/internal/replication/abort'',
      ''/internal/replication/ack'']" "route \<notin> set [''/v1/deny'', ''/v1/mutation'', ''/v1/rule'', ''/v1/canary'',
      ''/v1/snapshot'', ''/v1/rollback'']" by blast+
    with assms show False by (simp add: post_route_def)
  qed
qed

lemma change_guarded:
  assumes run: "handle_connection w e q s = (r, s')" and change: "\<not> untouched s s'"
    and path: "parse_query_path (hq_path q) = Inr (route, query)"
  shows "guard_passed s q route"
proof -
  have token: "is_internal_route route \<Longrightarrow> peer_token_accepted (nd_peer_token s) (request_header q PEER_TOKEN_HEADER)"
  proof (rule ccontr)
    assume "is_internal_route route" "\<not> peer_token_accepted (nd_peer_token s) (request_header q PEER_TOKEN_HEADER)"
    with run path have "s' = s" by (simp add: handle_connection_def require_peer_token_def)
    with change show False by (simp add: idle.refl)
  qed
  let ?forward = "requires_leader (hq_method q) route \<and> is_clustered (nd_config s) \<and> \<not> is_write_leader s"
  have run': "(if ?forward then proxy_write_to_leader w e q else route_request w e q route query) s = (r, s')"
    using run path token by (auto simp: handle_connection_def require_peer_token_def split: if_splits)
  have "\<not> ?forward"
    using run' change movesD [OF proxy_idle] by (auto simp: proxy_write_to_leader_def split: if_splits)
  with run' have routed: "route_request w e q route query s = (r, s')" by simp
  have post: "hq_method q = ''POST''"
  proof (rule ccontr)
    assume "hq_method q \<noteq> ''POST''"
    then have "moves untouched (route_request w e q route query)"
      by (auto simp: route_request_def intro: get_route_idle idle.pure split: option.split)
    with change movesD [OF this routed] show False by simp
  qed
  obtain h where h: "post_route w e q route = Some h" and hs: "h s = (r, s')"
    using routed change post by (cases "post_route w e q route") (auto simp: route_request_def idle.refl)
  have leader: "is_write_leader s" if "requires_leader ''POST'' route"
    using that \<open>\<not> ?forward\<close> post by (auto simp: is_write_leader_def)
  from post_routes [OF h] consider (peer) "is_internal_route route" | (ack) "route = ''/v1/ack''"
    | (scoped) scope handler where "needed_scope route = Some scope" "h = require_scope w q scope handler" by blast
  then show ?thesis
  proof cases
    case peer
    with token post show ?thesis by (simp add: guard_passed_def)
  next
    case ack
    with leader post show ?thesis
      by (simp add: guard_passed_def requires_leader_def needed_scope_def is_internal_route_def)
  next
    case (scoped scope handler)
    have "\<exists>who. auth_require_scope (nd_auth s) q scope = Inr who"
    proof (cases "auth_require_scope (nd_auth s) q scope")
      case (Inl f)
      with refused_scope [OF Inl] scoped hs have "s' = s" by (metis snd_conv)
      with change show ?thesis by (simp add: idle.refl)
    qed simp
    moreover have "is_write_leader s" "\<not> is_internal_route route"
      using scoped(1) leader by (auto simp: needed_scope_def requires_leader_def is_internal_route_def split: if_splits)
    ultimately show ?thesis using scoped(1) post by (simp add: guard_passed_def)
  qed
qed


text \<open>The witness: a relay reports an acknowledgement to a leader.\<close>

definition ack_request :: http_request where
  "ack_request = \<lparr>hq_method = ''POST'', hq_path = ''/v1/ack'', hq_headers = hm_new, hq_body = as_bytes ''{}''\<rparr>"

definition ack_env :: request_env where
  "ack_env = \<lparr>rq_clock = (\<lambda>_. 9), rq_restore = (\<lambda>_. 9), rq_ms = (\<lambda>_. 9),
     rq_waits = (\<lambda>_. (id, [Inr \<lparr>hr_status_code = 200, hr_body = []\<rparr>])), rq_leader = Inl Io\<rparr>"

lemma ack_request_fields:
  "\<exists>f. json_body ack_world (as_bytes ''{}'') = Inr f \<and> propagation_ack_from_fields now1 now2 f = Inr sample_ack"
proof -
  have t: "trim ''{}'' = ''{}''" by (rule trim_graphic) (simp add: graphic_def)
  have "str_ok ''{}''" by (rule str_ok_ascii) simp
  with t have "json_body ack_world (as_bytes ''{}'') =
      json_object_to_string_map (wd_json_text ack_world) (propagation_ack_json sample_ack)"
    by (simp add: parse_json_fields_def ack_world_def)
  moreover have "parse_propagation_ack_json (wd_json_text ack_world) now1 now2 (propagation_ack_json sample_ack) = Inr sample_ack"
    using sample_ack_written by (intro ack_json_roundtrip) (simp_all add: ack_written_def)
  ultimately show ?thesis by (auto simp: parse_propagation_ack_json_def rbind_eq_Inr)
qed


end
