(* ===== verification/Relay_Cache.thy ===== *)
theory Relay_Cache
  imports Source_Machine
begin

text \<open>
  The cache of a relay (\<open>RelayCache\<close> of \<open>globacl-relay/src/app/sources.rs\<close>): the mutations of every
  shard after a base watermark.  It obeys the contract of a replica that accepts a stream in order
  (\<open>idempotent_log\<close>), and what it holds mirrors the history of the source whose messages it has seen.
\<close>

section \<open>The cache\<close>

record relay_cache =
  rl_base_watermarks :: "u64 list"
  rl_watermarks :: "u64 list"
  rl_mutations :: "mutation list list"

definition relay_cache_new :: "u64 list \<Rightarrow> relay_cache" where
  "relay_cache_new base_watermarks =
     \<lparr>rl_base_watermarks = base_watermarks, rl_watermarks = base_watermarks,
      rl_mutations = replicate (max (length base_watermarks) 1) []\<rparr>"

definition relay_cache_apply :: "mutation \<Rightarrow> relay_cache \<Rightarrow> (relay_cache \<times> bool) res" where
  "relay_cache_apply m c =
     (let i = unat (mu_shard m) in
      if length (rl_watermarks c) \<le> i then Inl InvalidData
      else
        let current_seq = rl_watermarks c ! i in
        if mu_seq m \<le> current_seq then Inr (c, False)
        else
          let expected_seq = current_seq + 1 in
          if mu_seq m \<noteq> expected_seq then Inl (Gap (mu_shard m) expected_seq (mu_seq m))
          else
            rbind (vec_index (rl_mutations c) i) (\<lambda>ms.
              Inr (c\<lparr>rl_watermarks := (rl_watermarks c)[i := mu_seq m],
                     rl_mutations := (rl_mutations c)[i := ms @ [m]]\<rparr>, True)))"

definition relay_mutations_for_shard ::
  "relay_cache \<Rightarrow> u16 \<Rightarrow> u64 \<Rightarrow> delivery_priority option \<Rightarrow> mutation list option res" where
  "relay_mutations_for_shard c shard_id from_seq priority_filter =
     (let i = unat shard_id in
      if length (rl_watermarks c) \<le> i then Inl InvalidData
      else
        rbind (vec_index (rl_base_watermarks c) i) (\<lambda>base.
        if from_seq < base then Inr None
        else
          rbind (vec_index (rl_mutations c) i) (\<lambda>ms.
            Inr (Some (filter (\<lambda>m. case priority_filter of None \<Rightarrow> True | Some p \<Rightarrow> mu_delivery_priority m = p)
              (filter (\<lambda>m. from_seq < mu_seq m) ms))))))"

definition relay_delta_bundle :: "relay_cache \<Rightarrow> u16 \<Rightarrow> u64 \<Rightarrow> u64 \<Rightarrow> mutation list option res" where
  "relay_delta_bundle c shard_id from_seq to_seq =
     (let i = unat shard_id in
      if length (rl_watermarks c) \<le> i then Inl InvalidData
      else
        rbind (vec_index (rl_base_watermarks c) i) (\<lambda>base.
        if from_seq < base then Inr None
        else
          let upper = min to_seq (rl_watermarks c ! i) in
          rbind (vec_index (rl_mutations c) i) (\<lambda>ms.
          let found = filter (\<lambda>m. from_seq < mu_seq m \<and> mu_seq m \<le> upper) ms in
          if from_seq < upper \<and> length found \<noteq> unat (upper - from_seq) then Inr None
          else Inr (Some found))))"

section \<open>The invariant\<close>

definition relay_cache_ok :: "relay_cache \<Rightarrow> bool" where
  "relay_cache_ok c \<longleftrightarrow>
     length (rl_base_watermarks c) = length (rl_watermarks c) \<and>
     length (rl_mutations c) = max (length (rl_watermarks c)) 1 \<and>
     (\<forall>i < length (rl_watermarks c). rl_base_watermarks c ! i \<le> rl_watermarks c ! i \<and>
        map mu_seq (rl_mutations c ! i) = seq_run (rl_base_watermarks c ! i) (rl_watermarks c ! i) \<and>
        (\<forall>m \<in> set (rl_mutations c ! i). unat (mu_shard m) = i))"

lemma relay_cache_new_ok: "relay_cache_ok (relay_cache_new ws)"
  by (simp add: relay_cache_ok_def relay_cache_new_def)

lemma relay_cache_apply_cases:
  assumes "relay_cache_ok c" and "relay_cache_apply m c = Inr (c', applied)"
  obtains (old) "\<not> applied" and "c' = c" and "unat (mu_shard m) < length (rl_watermarks c)"
      and "mu_seq m \<le> rl_watermarks c ! unat (mu_shard m)"
  | (fresh) "applied" and "unat (mu_shard m) < length (rl_watermarks c)"
      and "rl_watermarks c ! unat (mu_shard m) < mu_seq m"
      and "mu_seq m = rl_watermarks c ! unat (mu_shard m) + 1"
      and "c' = c\<lparr>rl_watermarks := (rl_watermarks c)[unat (mu_shard m) := mu_seq m],
                 rl_mutations := (rl_mutations c)[unat (mu_shard m) := rl_mutations c ! unat (mu_shard m) @ [m]]\<rparr>"
proof -
  let ?i = "unat (mu_shard m)"
  have l: "length (rl_mutations c) = max (length (rl_watermarks c)) 1"
    using assms(1) by (simp add: relay_cache_ok_def)
  have i: "?i < length (rl_watermarks c)"
    using assms(2) by (auto simp: relay_cache_apply_def Let_def split: if_splits)
  show thesis
  proof (cases "mu_seq m \<le> rl_watermarks c ! ?i")
    case True
    with assms(2) i show thesis by (intro old) (auto simp: relay_cache_apply_def Let_def)
  next
    case False
    with assms(2) i have seq: "mu_seq m = rl_watermarks c ! ?i + 1"
      by (auto simp: relay_cache_apply_def Let_def split: if_splits)
    from assms(2) i l False have "applied" and
      "c' = c\<lparr>rl_watermarks := (rl_watermarks c)[?i := mu_seq m],
             rl_mutations := (rl_mutations c)[?i := rl_mutations c ! ?i @ [m]]\<rparr>"
      by (simp_all add: relay_cache_apply_def Let_def seq)
    with fresh i False seq show thesis by simp
  qed
qed

lemma relay_cache_apply_ok:
  assumes "relay_cache_ok c" and "relay_cache_apply m c = Inr (c', applied)"
  shows "relay_cache_ok c'"
  using assms
proof (cases rule: relay_cache_apply_cases)
  case old
  with assms(1) show ?thesis by simp
next
  case fresh
  let ?i = "unat (mu_shard m)"
  have c: "rl_base_watermarks c ! ?i \<le> rl_watermarks c ! ?i"
    "map mu_seq (rl_mutations c ! ?i) = seq_run (rl_base_watermarks c ! ?i) (rl_watermarks c ! ?i)"
    "?i < length (rl_mutations c)"
    using assms(1) fresh(2) by (auto simp: relay_cache_ok_def)
  have "rl_watermarks c ! ?i \<noteq> - 1" using fresh(3,4) by auto
  then have run: "seq_run (rl_base_watermarks c ! ?i) (mu_seq m) =
      seq_run (rl_base_watermarks c ! ?i) (rl_watermarks c ! ?i) @ [mu_seq m]"
    using c(1) fresh(4) by (simp add: seq_run_snoc)
  show ?thesis
    unfolding relay_cache_ok_def
  proof (intro conjI allI impI)
    show "length (rl_base_watermarks c') = length (rl_watermarks c')"
      and "length (rl_mutations c') = max (length (rl_watermarks c')) 1"
      using assms(1) fresh(5) by (simp_all add: relay_cache_ok_def)
  next
    fix j
    assume j: "j < length (rl_watermarks c')"
    then have old: "rl_base_watermarks c ! j \<le> rl_watermarks c ! j"
      "map mu_seq (rl_mutations c ! j) = seq_run (rl_base_watermarks c ! j) (rl_watermarks c ! j)"
      "\<forall>m \<in> set (rl_mutations c ! j). unat (mu_shard m) = j"
      using assms(1) fresh(5) by (auto simp: relay_cache_ok_def)
    show "rl_base_watermarks c' ! j \<le> rl_watermarks c' ! j"
      using old c fresh j by (auto simp: nth_list_update)
    show "map mu_seq (rl_mutations c' ! j) = seq_run (rl_base_watermarks c' ! j) (rl_watermarks c' ! j)"
      using old c run fresh j by (auto simp: nth_list_update)
    show "\<forall>m \<in> set (rl_mutations c' ! j). unat (mu_shard m) = j"
      using old c fresh j by (auto simp: nth_list_update)
  qed
qed

section \<open>The contract of a replica\<close>

definition relay_applier :: "relay_cache applier" where
  "relay_applier m c = rbind (relay_cache_apply m c) (\<lambda>(c', applied).
     Inr (c', if applied then Applied else DuplicateOrOld))"

interpretation relay_log: idempotent_log relay_cache_ok rl_watermarks relay_applier
proof unfold_locales
  fix c m c' st
  assume ok: "relay_cache_ok c" and "relay_applier m c = Inr (c', st)"
  then obtain b where "relay_cache_apply m c = Inr (c', b)" by (auto simp: relay_applier_def rbind_eq_Inr)
  with ok show "relay_cache_ok c'" by (rule relay_cache_apply_ok)
next
  fix c m c'
  assume ok: "relay_cache_ok c" and "relay_applier m c = Inr (c', Applied)"
  then have "relay_cache_apply m c = Inr (c', True)"
    by (auto simp: relay_applier_def rbind_eq_Inr split: if_splits)
  from relay_cache_apply_cases [OF ok this]
  show "unat (mu_shard m) < length (rl_watermarks c) \<and> rl_watermarks c ! unat (mu_shard m) < mu_seq m \<and>
      mu_seq m = rl_watermarks c ! unat (mu_shard m) + 1 \<and>
      rl_watermarks c' = (rl_watermarks c)[unat (mu_shard m) := mu_seq m]"
    by cases auto
next
  fix c m c'
  assume ok: "relay_cache_ok c" and "relay_applier m c = Inr (c', DuplicateOrOld)"
  then have "relay_cache_apply m c = Inr (c', False)"
    by (auto simp: relay_applier_def rbind_eq_Inr split: if_splits)
  from relay_cache_apply_cases [OF ok this]
  show "c' = c \<and> unat (mu_shard m) < length (rl_watermarks c) \<and> mu_seq m \<le> rl_watermarks c ! unat (mu_shard m)"
    by cases auto
next
  fix c m
  assume "relay_cache_ok c" and "unat (mu_shard m) < length (rl_watermarks c)"
    and "mu_seq m \<le> rl_watermarks c ! unat (mu_shard m)"
  then show "relay_applier m c = Inr (c, DuplicateOrOld)"
    by (simp add: relay_applier_def relay_cache_apply_def Let_def)
qed

section \<open>The mirror of a source\<close>

text \<open>Every cached mutation is one that the source has.\<close>

definition mirrors :: "source \<Rightarrow> relay_cache \<Rightarrow> bool" where
  "mirrors s c \<longleftrightarrow> relay_cache_ok c \<and> length (rl_watermarks c) = unat (so_shard_count s) \<and>
     (\<forall>i < length (rl_watermarks c). set (rl_mutations c ! i) \<subseteq> set (so_mutations s))"

lemma mirrors_new: "length ws = unat (so_shard_count s) \<Longrightarrow> mirrors s (relay_cache_new ws)"
  using relay_cache_new_ok [of ws] by (simp add: mirrors_def) (simp add: relay_cache_new_def)

lemma mirrors_apply:
  assumes "mirrors s c" and "m \<in> set (so_mutations s)" and "relay_cache_apply m c = Inr (c', applied)"
  shows "mirrors s c'"
proof -
  have ok: "relay_cache_ok c" using assms(1) by (simp add: mirrors_def)
  note ok' = relay_cache_apply_ok [OF ok assms(3)]
  from ok assms(3) show ?thesis
  proof (cases rule: relay_cache_apply_cases)
    case old
    with assms(1) show ?thesis by simp
  next
    case fresh
    have "length (rl_mutations c) = max (length (rl_watermarks c)) 1" using ok by (simp add: relay_cache_ok_def)
    with assms(1,2) ok' fresh(2,5) show ?thesis
      by (auto simp: mirrors_def nth_list_update)
  qed
qed

lemma mirrors_grows: "mirrors s c \<Longrightarrow> set (so_mutations s) \<subseteq> set (so_mutations t) \<Longrightarrow>
    so_shard_count t = so_shard_count s \<Longrightarrow> mirrors t c"
  unfolding mirrors_def by (metis subset_trans)

text \<open>The sequence numbers of a shard are distinct and ascend, so that a mutation is known by its number.\<close>

lemma seq_run_sorted: "sorted_wrt (<) (seq_run c w)"
proof -
  have w: "unat w < 2 ^ 64" using unsigned_less [of w] by simp
  have "sorted_wrt (\<lambda>a b. (word_of_nat a :: u64) < word_of_nat b) [Suc (unat c)..<Suc (unat w)]"
  proof (rule sorted_wrt_mono_rel [OF _ sorted_wrt_upt])
    fix a b
    assume "a \<in> set [Suc (unat c)..<Suc (unat w)]" and "b \<in> set [Suc (unat c)..<Suc (unat w)]" and "a < b"
    then have "a < 2 ^ 64" and "b < 2 ^ 64" using w by auto
    with \<open>a < b\<close> show "(word_of_nat a :: u64) < word_of_nat b" by (simp add: word_less_nat_alt unat_of_nat)
  qed
  then show ?thesis by (simp add: seq_run_def sorted_wrt_map)
qed

lemma same_by_seq:
  assumes "sorted_wrt (<) (map mu_seq xs)" and "sorted_wrt (<) (map mu_seq ys)" and "set xs = set ys"
  shows "xs = ys"
proof -
  have "map mu_seq xs = map mu_seq ys"
    using assms by (intro strict_sorted_equal) auto
  moreover have "inj_on mu_seq (set xs \<union> set ys)"
    using assms(1,3) by (auto simp: strict_sorted_iff distinct_map)
  ultimately show ?thesis by (rule map_inj_on)
qed

text \<open>What the cache answers is what the source answers, as far as the cache has got.\<close>

lemma mirror_part:
  assumes "source_ok s" and "mirrors s c" and "i < so_shard_count s"
    and "rl_base_watermarks c ! unat i \<le> from_seq"
  shows "filter (\<lambda>m. from_seq < mu_seq m) (rl_mutations c ! unat i) =
    filter (\<lambda>m. mu_seq m \<le> rl_watermarks c ! unat i) (source_mutations_for_shard s i from_seq)"
proof (rule same_by_seq)
  have "unat i < length (rl_watermarks c)" using assms(2,3) by (simp add: mirrors_def word_less_nat_alt)
  then have cache: "map mu_seq (rl_mutations c ! unat i) = seq_run (rl_base_watermarks c ! unat i) (rl_watermarks c ! unat i)"
    "set (rl_mutations c ! unat i) \<subseteq> set (so_mutations s)" "\<forall>m \<in> set (rl_mutations c ! unat i). unat (mu_shard m) = unat i"
    using assms(2) unfolding mirrors_def relay_cache_ok_def by blast+
  let ?ms = "rl_mutations c ! unat i" and ?w = "rl_watermarks c ! unat i" and ?b = "rl_base_watermarks c ! unat i"
  let ?h = "filter (\<lambda>m. mu_shard m = i) (so_mutations s)"
  have c: "map mu_seq ?ms = seq_run ?b ?w" "set ?ms \<subseteq> set (so_mutations s)" "\<forall>m \<in> set ?ms. unat (mu_shard m) = unat i"
    using cache by blast+
  have h: "map mu_seq ?h = seq_run (so_compacted s ! unat i) (so_watermarks s ! unat i)"
    using assms(1,3) by (simp add: source_ok_def history_ok_def seqs_of_def)
  have sub: "sorted_wrt (<) (map mu_seq (filter P xs))" if "sorted_wrt (<) (map mu_seq xs)" for P and xs :: "mutation list"
    using that by (simp add: sorted_wrt_map sorted_wrt_filter)
  show "sorted_wrt (<) (map mu_seq (filter (\<lambda>m. from_seq < mu_seq m) ?ms))"
    by (rule sub) (simp add: c(1) seq_run_sorted)
  have eq: "filter (\<lambda>m. mu_seq m \<le> ?w) (source_mutations_for_shard s i from_seq) =
      filter (\<lambda>m. from_seq < mu_seq m \<and> mu_seq m \<le> ?w) ?h"
    by (simp add: source_mutations_for_shard_def conj_ac)
  show "sorted_wrt (<) (map mu_seq (filter (\<lambda>m. mu_seq m \<le> ?w) (source_mutations_for_shard s i from_seq)))"
    unfolding eq by (rule sub) (simp only: h seq_run_sorted)
  have inj: "inj_on mu_seq (set ?h)"
    using seq_run_sorted [of "so_compacted s ! unat i" "so_watermarks s ! unat i"]
    by (simp add: h [symmetric] strict_sorted_iff distinct_map)
  have mine: "m \<in> set ?h" if "m \<in> set ?ms" for m
    using that c(2) bspec [OF c(3) that, THEN unsigned_word_eqI] by auto
  have found: "m \<in> set ?ms" if "m \<in> set ?h" "from_seq < mu_seq m" "mu_seq m \<le> ?w" for m
  proof -
    have "?b < mu_seq m" using assms(4) that(2) by (rule le_less_trans)
    with that(3) have "mu_seq m \<in> set (map mu_seq ?ms)" by (simp only: c(1) set_seq_run)
    then obtain m' where m': "m' \<in> set ?ms" "mu_seq m' = mu_seq m" by auto
    with inj_onD [OF inj m'(2) mine [OF m'(1)] that(1)] show ?thesis by simp
  qed
  have bound: "mu_seq m \<le> ?w" if "m \<in> set ?ms" for m
  proof -
    have "mu_seq m \<in> set (map mu_seq ?ms)" using that by simp
    then show ?thesis by (simp only: c(1) set_seq_run)
  qed
  show "set (filter (\<lambda>m. from_seq < mu_seq m) ?ms) =
      set (filter (\<lambda>m. mu_seq m \<le> ?w) (source_mutations_for_shard s i from_seq))"
    unfolding eq
  proof (intro set_eqI iffI)
    fix m
    assume "m \<in> set (filter (\<lambda>m. from_seq < mu_seq m) ?ms)"
    then have "m \<in> set ?ms" and "from_seq < mu_seq m" by simp_all
    with mine [OF this(1)] bound [OF this(1)]
    show "m \<in> set (filter (\<lambda>m. from_seq < mu_seq m \<and> mu_seq m \<le> ?w) ?h)" by simp
  next
    fix m
    assume "m \<in> set (filter (\<lambda>m. from_seq < mu_seq m \<and> mu_seq m \<le> ?w) ?h)"
    then have "m \<in> set ?h" and "from_seq < mu_seq m" and "mu_seq m \<le> ?w" by simp_all
    with found [OF this] show "m \<in> set (filter (\<lambda>m. from_seq < mu_seq m) ?ms)" by simp
  qed
qed

end
