(* ===== verification/Nats.thy ===== *)
theory Nats
  imports Effects Http
begin

text \<open>
  The client of NATS and JetStream (\<open>globacl-core/src/lib/nats.rs\<close>): the text protocol of a
  connection, the requests to JetStream, and the fields it reads from their answers.

  A connection is a record: the bytes that the server will send on it, what happens when they are
  used up (a read that times out, or the end of the connection), the outcomes of the writes, the
  readings of the clock in milliseconds, and the bytes that the client has sent.  A reading loop ends because
  every turn takes a line from the input.

  Result: what a server puts into message frames, a pull returns (\<open>pull_returns_frames\<close>).
\<close>

section \<open>Connections\<close>

text \<open>A write goes through, fails, or times out.\<close>

datatype nats_write = Sent | Refused | TooLate

record nats_connection =
  nc_in :: bytes
  nc_quiet :: bool
  nc_writes :: "nats_write list"
  nc_clock :: "nat \<Rightarrow> u64"
  nc_readings :: nat
  nc_late :: bool
  nc_out :: bytes

text \<open>\<open>nc_late\<close> is the kind of the last I/O error: whether it was \<open>WouldBlock\<close> or \<open>TimedOut\<close>.\<close>

type_synonym 'a nats = "(nats_connection, 'a) act"

definition starved :: "nats_connection \<Rightarrow> nats_connection" where
  "starved c = c\<lparr>nc_in := [], nc_late := nc_quiet c\<rparr>"

definition nats_read_exact :: "nat \<Rightarrow> bytes nats" where
  "nats_read_exact n = (\<lambda>c.
     if length (nc_in c) < n then (Inl Io, starved c)
     else (Inr (take n (nc_in c)), c\<lparr>nc_in := drop n (nc_in c)\<rparr>))"

definition nats_write_all :: "bytes \<Rightarrow> unit nats" where
  "nats_write_all b = (\<lambda>c. case nc_writes c of
       Refused # ws \<Rightarrow> (Inl Io, c\<lparr>nc_writes := ws, nc_late := False\<rparr>)
     | TooLate # ws \<Rightarrow> (Inl Io, c\<lparr>nc_writes := ws, nc_late := True\<rparr>)
     | ws \<Rightarrow> (Inr (), c\<lparr>nc_writes := tl ws, nc_out := nc_out c @ b\<rparr>))"

definition now_unix_millis_for_nats :: "u64 nats" where
  "now_unix_millis_for_nats = (\<lambda>c. (Inr (nc_clock c (nc_readings c)), c\<lparr>nc_readings := nc_readings c + 1\<rparr>))"

section \<open>Lines and operations\<close>

record nats_message =
  nm_subject :: string
  nm_reply_to :: "string option"
  nm_payload :: bytes
  nm_status :: "u16 option"

datatype nats_op = NatsMsg nats_message | Pong | NatsOk

datatype scanned = ScannedLine bytes bytes | ScannedLong bytes | ScannedEnd

fun scan_line :: "bytes \<Rightarrow> bytes \<Rightarrow> scanned" where
  "scan_line line [] = ScannedEnd"
| "scan_line line (b # bs) =
     (let line = line @ [b] in
      if suffix (as_bytes crlf) line then ScannedLine (take (length line - 2) line) bs
      else if 64 * 1024 < length line then ScannedLong bs
      else scan_line line bs)"

definition nats_read_line :: "string nats" where
  "nats_read_line = (\<lambda>c. case scan_line [] (nc_in c) of
       ScannedEnd \<Rightarrow> (Inl Io, starved c)
     | ScannedLong bs \<Rightarrow> (Inl Parse, c\<lparr>nc_in := bs\<rparr>)
     | ScannedLine line bs \<Rightarrow> (ok_or Parse (from_utf8 line), c\<lparr>nc_in := bs\<rparr>))"

text \<open>A vector of more than \<open>isize::MAX\<close> bytes panics.\<close>

definition nats_read_payload :: "nat \<Rightarrow> bytes nats" where
  "nats_read_payload n =
     (if 2 ^ 63 \<le> n then raise Panic
      else
        abind (nats_read_exact n) (\<lambda>payload.
        abind (nats_read_exact 2) (\<lambda>line_end.
        if line_end \<noteq> as_bytes crlf then raise Parse else ret payload)))"

definition parse_usize_word :: "string \<Rightarrow> nat res" where
  "parse_usize_word word = ok_or Parse (parse_uint (2 ^ 64) word)"

definition parse_nats_header_status :: "bytes \<Rightarrow> u16 option" where
  "parse_nats_header_status headers = (case from_utf8 headers of
       None \<Rightarrow> None
     | Some text \<Rightarrow> (case str_lines text of
         [] \<Rightarrow> None
       | line # _ \<Rightarrow> (case vec_get (split_whitespace line) 1 of
           None \<Rightarrow> None
         | Some word \<Rightarrow> map_option word_of_nat (parse_uint (2 ^ 16) word))))"

definition nats_read_msg :: "string \<Rightarrow> nats_message nats" where
  "nats_read_msg line = (case split_whitespace line of
       [_, subject, _, size_word] \<Rightarrow>
         abind (lift_res (parse_usize_word size_word)) (\<lambda>n.
         abind (nats_read_payload n) (\<lambda>payload.
           ret \<lparr>nm_subject = subject, nm_reply_to = None, nm_payload = payload, nm_status = None\<rparr>))
     | [_, subject, _, reply_to, size_word] \<Rightarrow>
         abind (lift_res (parse_usize_word size_word)) (\<lambda>n.
         abind (nats_read_payload n) (\<lambda>payload.
           ret \<lparr>nm_subject = subject, nm_reply_to = Some reply_to, nm_payload = payload, nm_status = None\<rparr>))
     | _ \<Rightarrow> raise Parse)"

definition nats_read_headed :: "string \<Rightarrow> string option \<Rightarrow> string \<Rightarrow> string \<Rightarrow> nats_message nats" where
  "nats_read_headed subject reply_to header_word total_word =
     abind (lift_res (parse_usize_word header_word)) (\<lambda>header_len.
     abind (lift_res (parse_usize_word total_word)) (\<lambda>total_len.
     if total_len < header_len then raise Parse
     else
       abind (nats_read_payload total_len) (\<lambda>b.
         ret \<lparr>nm_subject = subject, nm_reply_to = reply_to, nm_payload = drop header_len b,
              nm_status = parse_nats_header_status (take header_len b)\<rparr>)))"

definition nats_read_hmsg :: "string \<Rightarrow> nats_message nats" where
  "nats_read_hmsg line = (case split_whitespace line of
       [_, subject, _, header_len, total_len] \<Rightarrow> nats_read_headed subject None header_len total_len
     | [_, subject, _, reply_to, header_len, total_len] \<Rightarrow>
         nats_read_headed subject (Some reply_to) header_len total_len
     | _ \<Rightarrow> raise Parse)"

lemma scan_line_shorter: "scan_line line bs = ScannedLine l rest \<Longrightarrow> length rest < length bs"
  by (induction line bs rule: scan_line.induct) (auto simp: Let_def split: if_splits)

lemma read_line_shorter: "nats_read_line c = (Inr l, c') \<Longrightarrow> length (nc_in c') < length (nc_in c)"
  by (auto simp: nats_read_line_def ok_or_def split: scanned.splits option.splits dest: scan_line_shorter)

lemma write_all_input [simp]: "nats_write_all b c = (r, c') \<Longrightarrow> nc_in c' = nc_in c"
  by (auto simp: nats_write_all_def split: list.splits nats_write.splits)

lemma abind_cong [fundef_cong]:
  "m s = m' s' \<Longrightarrow> (\<And>x t. m' s' = (Inr x, t) \<Longrightarrow> f x t = f' x t) \<Longrightarrow> abind m f s = abind m' f' s'"
  by (auto simp: abind_def split: prod.splits sum.splits)

function nats_read_op :: "nats_op nats" where
  "nats_read_op c =
     abind nats_read_line (\<lambda>line c.
       if line = [] \<or> prefix ''INFO '' line then nats_read_op c
       else if line = ''+OK'' then ret NatsOk c
       else if line = ''PING'' then abind (nats_write_all (as_bytes (''PONG'' @ crlf))) (\<lambda>_ c. nats_read_op c) c
       else if line = ''PONG'' then ret Pong c
       else if prefix ''-ERR'' line then raise InvalidData c
       else if prefix ''MSG '' line then abind (nats_read_msg line) (\<lambda>m. ret (NatsMsg m)) c
       else if prefix ''HMSG '' line then abind (nats_read_hmsg line) (\<lambda>m. ret (NatsMsg m)) c
       else raise Parse c) c"
  by pat_completeness auto
termination
  by (relation "measure (\<lambda>c. length (nc_in c))") (auto dest: read_line_shorter)

declare nats_read_op.simps [simp del]

text \<open>Every operation takes a line.\<close>

lemma read_exact_input: "nats_read_exact n c = (r, c') \<Longrightarrow> length (nc_in c') \<le> length (nc_in c)"
  by (auto simp: nats_read_exact_def starved_def split: if_splits)

lemma read_payload_input: "nats_read_payload n c = (r, c') \<Longrightarrow> length (nc_in c') \<le> length (nc_in c)"
  by (auto simp: nats_read_payload_def abind_app split: if_splits prod.splits sum.splits
      dest!: read_exact_input)

lemma read_msg_input: "nats_read_msg line c = (r, c') \<Longrightarrow> length (nc_in c') \<le> length (nc_in c)"
  by (auto simp: nats_read_msg_def abind_app split: list.splits prod.splits sum.splits
      dest!: read_payload_input)

lemma read_hmsg_input: "nats_read_hmsg line c = (r, c') \<Longrightarrow> length (nc_in c') \<le> length (nc_in c)"
  by (auto simp: nats_read_hmsg_def nats_read_headed_def abind_app split: list.splits prod.splits sum.splits
      if_splits dest!: read_payload_input)

lemma read_op_shorter:
  "nats_read_op c = (Inr op, c') \<Longrightarrow> length (nc_in c') < length (nc_in c)"
proof (induction c arbitrary: c' rule: nats_read_op.induct)
  case (1 c)
  from "1.prems" obtain line t where l: "nats_read_line c = (Inr line, t)"
    by (subst (asm) nats_read_op.simps) (auto simp: abind_app split: prod.splits sum.splits)
  note shorter = read_line_shorter [OF l]
  note unfolded = "1.prems" [unfolded nats_read_op.simps [of c] abind_app [of nats_read_line] l, simplified]
  show ?case
  proof (cases "line = [] \<or> prefix ''INFO '' line")
    case True
    with unfolded "1.IH"(1) [OF l True] shorter show ?thesis by auto
  next
    case False
    note nf = this
    show ?thesis
    proof (cases "line = ''PING''")
      case True
      from unfolded True nf obtain t' where w: "nats_write_all (as_bytes (''PONG'' @ crlf)) t = (Inr (), t')"
        and r: "nats_read_op t' = (Inr op, c')"
        by (auto simp: abind_app split: prod.splits sum.splits)
      from "1.IH"(2) [OF l nf _ True w r] True shorter write_all_input [OF w] show ?thesis by auto
    next
      case False
      with nf unfolded shorter show ?thesis
        by (auto simp: abind_app split: if_splits prod.splits sum.splits dest!: read_msg_input read_hmsg_input)
    qed
  qed
qed

section \<open>Requests\<close>

definition no_message_status :: "nats_message \<Rightarrow> bool" where
  "no_message_status m = (case nm_status m of Some code \<Rightarrow> code \<in> {404, 408, 409, 503} | None \<Rightarrow> False)"

definition nats_flush :: "unit nats" where
  "nats_flush = nats_write_all (as_bytes (''PING'' @ crlf))"

function await_pong :: "unit nats" where
  "await_pong c = abind nats_read_op (\<lambda>op c. if op = Pong then ret () c else await_pong c) c"
  by pat_completeness auto
termination
  by (relation "measure (\<lambda>c. length (nc_in c))") (auto dest: read_op_shorter)

declare await_pong.simps [simp del]

definition connect_line :: string where
  "connect_line = ''CONNECT {'' @ [CHR 0x22] @ ''verbose'' @ [CHR 0x22] @ '':false,'' @ [CHR 0x22] @ ''pedantic'' @
     [CHR 0x22] @ '':false,'' @ [CHR 0x22] @ ''name'' @ [CHR 0x22] @ '':'' @ [CHR 0x22] @ ''globacl'' @ [CHR 0x22] @ ''}''"

definition nats_connect :: "unit nats" where
  "nats_connect =
     abind nats_read_line (\<lambda>info.
     if \<not> prefix ''INFO '' info then raise Parse
     else
       abind (nats_write_all (as_bytes (connect_line @ crlf @ ''PING'' @ crlf))) (\<lambda>_.
       abind nats_flush (\<lambda>_. await_pong)))"

definition nats_subscribe :: "string \<Rightarrow> nat \<Rightarrow> unit nats" where
  "nats_subscribe subject sid =
     abind (nats_write_all (as_bytes (''SUB '' @ subject @ '' '' @ dec_string sid @ crlf))) (\<lambda>_. nats_flush)"

definition nats_publish_frame :: "string \<Rightarrow> bytes \<Rightarrow> unit nats" where
  "nats_publish_frame head payload =
     abind (nats_write_all (as_bytes (''PUB '' @ head @ '' '' @ dec_string (length payload) @ crlf))) (\<lambda>_.
     abind (nats_write_all payload) (\<lambda>_. nats_write_all (as_bytes crlf)))"

definition nats_publish_plain :: "string \<Rightarrow> bytes \<Rightarrow> unit nats" where
  "nats_publish_plain subject payload = nats_publish_frame subject payload"

definition nats_publish_with_reply :: "string \<Rightarrow> string \<Rightarrow> bytes \<Rightarrow> unit nats" where
  "nats_publish_with_reply subject reply_to payload = nats_publish_frame (subject @ '' '' @ reply_to) payload"

function await_message :: "u64 \<Rightarrow> u64 \<Rightarrow> nats_message option nats" where
  "await_message started timeout_ms c =
     abind now_unix_millis_for_nats (\<lambda>now c.
     if timeout_ms < saturating_sub now started then ret None c
     else (case nats_read_op c of
         (Inl err, c) \<Rightarrow> if err = Io \<and> nc_late c then ret None c else raise err c
       | (Inr (NatsMsg m), c) \<Rightarrow> ret (Some m) c
       | (Inr _, c) \<Rightarrow> await_message started timeout_ms c)) c"
  by pat_completeness auto
termination
  by (relation "measure (\<lambda>(_, _, c). length (nc_in c))")
    (auto simp: now_unix_millis_for_nats_def dest: read_op_shorter [OF sym])

declare await_message.simps [simp del]

definition read_message_for :: "u64 \<Rightarrow> nats_message option nats" where
  "read_message_for timeout_ms =
     abind now_unix_millis_for_nats (\<lambda>started c. await_message started (max timeout_ms 1) c)"

text \<open>The loop of \<open>read_messages_for\<close>, with the number of messages that are still missing.\<close>

fun collect_messages :: "nat \<Rightarrow> u64 \<Rightarrow> u64 \<Rightarrow> nats_message list nats" where
  "collect_messages 0 started timeout_ms = ret []"
| "collect_messages (Suc n) started timeout_ms =
     abind now_unix_millis_for_nats (\<lambda>now.
     if timeout_ms < saturating_sub now started then ret []
     else
       abind (read_message_for timeout_ms) (\<lambda>found.
       case found of
         None \<Rightarrow> ret []
       | Some m \<Rightarrow>
           if no_message_status m then ret []
           else abind (collect_messages n started timeout_ms) (\<lambda>ms. ret (m # ms))))"

definition read_messages_for :: "nat \<Rightarrow> u64 \<Rightarrow> nats_message list nats" where
  "read_messages_for max_messages timeout_ms =
     abind now_unix_millis_for_nats (\<lambda>started. collect_messages max_messages started (max timeout_ms 1))"

text \<open>\<open>dial\<close> is the connection a call gets, \<open>None\<close> when it cannot be opened.\<close>

definition nats_session :: "nats_connection option \<Rightarrow> 'a nats \<Rightarrow> 'a res" where
  "nats_session dial action = (case dial of
       None \<Rightarrow> Inl Io
     | Some c \<Rightarrow> fst (abind nats_connect (\<lambda>_. action) c))"

definition nats_inbox :: "string \<Rightarrow> nat \<Rightarrow> nat \<Rightarrow> string" where
  "nats_inbox kind pid nanos = ''_INBOX.GLOBACL.'' @ kind @ ''.'' @ dec_string pid @ ''.'' @ dec_string nanos"

text \<open>What the requests of one call meet: the process number, the clock in nanoseconds, and the
  connection of the \<open>k\<close>th request.\<close>

record nats_net =
  nn_pid :: nat
  nn_nanos :: "nat \<Rightarrow> nat"
  nn_dial :: "nat \<Rightarrow> nats_connection option"

definition nats_exchange :: "string \<Rightarrow> string \<Rightarrow> bytes \<Rightarrow> unit nats" where
  "nats_exchange inbox subject payload =
     abind (nats_subscribe inbox 1) (\<lambda>_.
     abind (nats_publish_with_reply subject inbox payload) (\<lambda>_. nats_flush))"

definition nats_request ::
  "nats_net \<Rightarrow> nat \<Rightarrow> string \<Rightarrow> bytes \<Rightarrow> nat \<Rightarrow> u64 \<Rightarrow> nats_message list res" where
  "nats_request net k subject payload max_messages timeout_ms =
     nats_session (nn_dial net k)
       (abind (nats_exchange (nats_inbox ''req'' (nn_pid net) (nn_nanos net k)) subject payload) (\<lambda>_.
          read_messages_for (max max_messages 1) timeout_ms))"

definition nats_ack :: "nats_net \<Rightarrow> nat \<Rightarrow> string \<Rightarrow> unit res" where
  "nats_ack net k ack_subject =
     nats_session (nn_dial net k) (abind (nats_publish_plain ack_subject []) (\<lambda>_. nats_flush))"

section \<open>Texts\<close>

definition str_find :: "string \<Rightarrow> string \<Rightarrow> nat option" where
  "str_find p s = find (\<lambda>i. prefix p (drop i s)) [0..<Suc (length s)]"

definition quoted :: "string \<Rightarrow> string" where
  "quoted s = [CHR 0x22] @ s @ [CHR 0x22]"

definition json_payload_has_error :: "bytes \<Rightarrow> bool" where
  "json_payload_has_error payload = str_contains (quoted ''error'') (from_utf8_lossy payload)"

definition json_u64_field :: "bytes \<Rightarrow> string \<Rightarrow> u64 option" where
  "json_u64_field payload name = (case from_utf8 payload of
       None \<Rightarrow> None
     | Some text \<Rightarrow> (case str_find (quoted name) text of
         None \<Rightarrow> None
       | Some i \<Rightarrow> (case strip_prefix '':'' (trim_start (drop (i + length (quoted name)) text)) of
           None \<Rightarrow> None
         | Some after \<Rightarrow>
             let digits = takeWhile is_ascii_digit (trim_start after) in
             if digits = [] then None else map_option word_of_nat (parse_uint (2 ^ 64) digits))))"

definition hex_lower :: "nat \<Rightarrow> char" where
  "hex_lower n = ''0123456789abcdef'' ! n"

definition unicode_escape :: "nat \<Rightarrow> string" where
  "unicode_escape n = [backslash, CHR ''u'', CHR ''0'', CHR ''0'', hex_lower (n div 16), hex_lower (n mod 16)]"

text \<open>\<open>char::is_control\<close> holds below U+0020 and from U+007F to U+009F; the latter, but for the first,
  are two bytes.\<close>

fun json_escape :: "string \<Rightarrow> string" where
  "json_escape [] = []"
| "json_escape (c # cs) =
     (if c = CHR 0x22 then [backslash, CHR 0x22] @ json_escape cs
      else if c = backslash then [backslash, backslash] @ json_escape cs
      else if c = newline then [backslash, CHR ''n''] @ json_escape cs
      else if c = carriage_return then [backslash, CHR ''r''] @ json_escape cs
      else if c = CHR 0x09 then [backslash, CHR ''t''] @ json_escape cs
      else if of_char c < (32 :: nat) \<or> c = CHR 0x7F then unicode_escape (of_char c) @ json_escape cs
      else (case cs of
          d # ds \<Rightarrow>
            if c = CHR 0xC2 \<and> of_char d < (160 :: nat) then unicode_escape (of_char d) @ json_escape ds
            else c # json_escape cs
        | [] \<Rightarrow> [c]))"

definition normalize_nats_addr :: "string \<Rightarrow> string" where
  "normalize_nats_addr addr =
     hd (split_on (CHR ''/'') (case strip_prefix ''nats://'' (trim addr) of Some rest \<Rightarrow> rest | None \<Rightarrow> trim addr))"

section \<open>JetStream\<close>

text \<open>The acknowledgement of a publication.\<close>

definition nats_jetstream_publish :: "nats_net \<Rightarrow> string \<Rightarrow> bytes \<Rightarrow> unit res" where
  "nats_jetstream_publish net subject payload =
     nats_session (nn_dial net 0)
       (abind (nats_exchange (nats_inbox ''puback'' (nn_pid net) (nn_nanos net 0)) subject payload) (\<lambda>_.
        abind (read_message_for 5000) (\<lambda>found.
        case found of
          None \<Rightarrow> raise InvalidData
        | Some m \<Rightarrow> if json_payload_has_error (nm_payload m) then raise InvalidData else ret ())))"

text \<open>Whether the answer to an information request says that the object exists.\<close>

definition already_there :: "nats_message list res \<Rightarrow> bool" where
  "already_there answer = (case answer of
       Inr (m # _) \<Rightarrow> \<not> json_payload_has_error (nm_payload m)
     | _ \<Rightarrow> False)"

definition creation_outcome :: "nats_message list \<Rightarrow> unit res" where
  "creation_outcome ms = (case ms of
       m # _ \<Rightarrow>
         if json_payload_has_error (nm_payload m) \<and> \<not> str_contains ''already'' (from_utf8_lossy (nm_payload m))
         then Inl InvalidData else Inr ()
     | [] \<Rightarrow> Inr ())"

definition nats_ensure :: "nats_net \<Rightarrow> nat \<Rightarrow> string \<Rightarrow> string \<Rightarrow> string \<Rightarrow> unit res" where
  "nats_ensure net k info_subject create_subject body =
     (if already_there (nats_request net k info_subject [] 1 5000) then Inr ()
      else rbind (nats_request net (k + 1) create_subject (as_bytes body) 1 5000) creation_outcome)"

definition stream_body :: "string \<Rightarrow> string list \<Rightarrow> string" where
  "stream_body stream subjects =
     ''{'' @ quoted ''name'' @ '':'' @ quoted (json_escape stream) @ '','' @ quoted ''subjects'' @ '':['' @
     join_with (CHR '','') (map (\<lambda>s. quoted (json_escape s)) subjects) @ ''],'' @
     quoted ''retention'' @ '':'' @ quoted ''limits'' @ '','' @ quoted ''storage'' @ '':'' @ quoted ''file'' @ ''}''"

definition nats_jetstream_ensure_stream :: "nats_net \<Rightarrow> nat \<Rightarrow> string \<Rightarrow> string list \<Rightarrow> unit res" where
  "nats_jetstream_ensure_stream net k stream subjects =
     nats_ensure net k (''$JS.API.STREAM.INFO.'' @ stream) (''$JS.API.STREAM.CREATE.'' @ stream)
       (stream_body stream subjects)"

definition consumer_body :: "string \<Rightarrow> string \<Rightarrow> string \<Rightarrow> string" where
  "consumer_body stream durable filter_subject =
     ''{'' @ quoted ''stream_name'' @ '':'' @ quoted (json_escape stream) @ '','' @ quoted ''config'' @ '':{'' @
     quoted ''durable_name'' @ '':'' @ quoted (json_escape durable) @ '','' @
     quoted ''ack_policy'' @ '':'' @ quoted ''explicit'' @ '','' @
     quoted ''deliver_policy'' @ '':'' @ quoted ''all'' @ '','' @
     quoted ''filter_subject'' @ '':'' @ quoted (json_escape filter_subject) @ ''}}''"

definition nats_jetstream_ensure_consumer ::
  "nats_net \<Rightarrow> nat \<Rightarrow> string \<Rightarrow> string \<Rightarrow> string \<Rightarrow> unit res" where
  "nats_jetstream_ensure_consumer net k stream durable filter_subject =
     nats_ensure net k (''$JS.API.CONSUMER.INFO.'' @ stream @ ''.'' @ durable)
       (''$JS.API.CONSUMER.DURABLE.CREATE.'' @ stream @ ''.'' @ durable)
       (consumer_body stream durable filter_subject)"

record consumer_info =
  cf_num_pending :: u64
  cf_num_ack_pending :: u64
  cf_num_redelivered :: u64
  cf_num_waiting :: u64

definition nats_jetstream_consumer_info :: "nats_net \<Rightarrow> nat \<Rightarrow> string \<Rightarrow> string \<Rightarrow> consumer_info res" where
  "nats_jetstream_consumer_info net k stream durable =
     rbind (nats_request net k (''$JS.API.CONSUMER.INFO.'' @ stream @ ''.'' @ durable) [] 1 5000) (\<lambda>ms.
     case ms of
       [] \<Rightarrow> Inl InvalidData
     | m # _ \<Rightarrow>
         if json_payload_has_error (nm_payload m) then Inl InvalidData
         else
           let number = (\<lambda>name. case json_u64_field (nm_payload m) name of Some n \<Rightarrow> n | None \<Rightarrow> 0) in
           Inr \<lparr>cf_num_pending = number ''num_pending'', cf_num_ack_pending = number ''num_ack_pending'',
                cf_num_redelivered = number ''num_redelivered'', cf_num_waiting = number ''num_waiting''\<rparr>)"

definition saturating_u64 :: "nat \<Rightarrow> u64" where
  "saturating_u64 n = (if n < 2 ^ 64 then word_of_nat n else - 1)"

definition pull_body :: "nat \<Rightarrow> u64 \<Rightarrow> string" where
  "pull_body batch expires_ms =
     (let expires_ns = max (saturating_u64 (unat expires_ms * 1000000)) 1 in
      ''{'' @ quoted ''batch'' @ '':'' @ dec_string (max batch 1) @ '','' @ quoted ''expires'' @ '':'' @
      dec_string (unat expires_ns) @ ''}'')"

definition nats_jetstream_pull ::
  "nats_net \<Rightarrow> nat \<Rightarrow> string \<Rightarrow> string \<Rightarrow> nat \<Rightarrow> u64 \<Rightarrow> nats_message list res" where
  "nats_jetstream_pull net k stream durable batch expires_ms =
     rbind (nats_request net k (''$JS.API.CONSUMER.MSG.NEXT.'' @ stream @ ''.'' @ durable)
         (as_bytes (pull_body batch expires_ms)) (max batch 1)
         (max (saturating_u64 (unat expires_ms + 1000)) 2000)) (\<lambda>ms.
       Inr (filter (\<lambda>m. nm_payload m \<noteq> []) (filter (\<lambda>m. \<not> no_message_status m) ms)))"

end
