(* ===== verification/Relay.thy ===== *)
theory Relay
  imports Relay_Cache Metrics Nats Routes
begin

text \<open>
  The relay (\<open>globacl-relay/src/app\<close>): it serves the agents of a site, either by passing their
  requests on (\<open>HttpPullSource\<close>) or from a cache that follows the stream of JetStream
  (\<open>JetStreamSource\<close>), and it collects their acknowledgements.

  What a call meets of the network is an argument: the connections to NATS, the answer of the upstream
  to the path of a GET request and to the \<open>k\<close>th POST request, and a reading of the clock.  Locks are left out: an
  operation runs to its end.
\<close>

section \<open>State\<close>

record jetstream_status =
  js_last_pull_unix :: u64
  js_applied_messages :: u64
  js_duplicate_messages :: u64
  js_gap_repairs :: u64
  js_errors :: u64
  js_source_lag_max :: u64
  js_source_lag_sum :: u64
  js_lagging_shards :: nat
  js_consumer_num_pending :: u64
  js_consumer_num_ack_pending :: u64
  js_consumer_num_redelivered :: u64
  js_consumer_num_waiting :: u64

record jetstream_source =
  jt_bootstrap_addr :: string
  jt_nats_addr :: string
  jt_stream :: string
  jt_durable :: string
  jt_batch :: nat
  jt_signature_signer :: signature_signer
  jt_cache :: relay_cache
  jt_status :: jetstream_status

datatype relay_source = HttpPull string | JetStream jetstream_source

record source_health =
  sh_ok :: bool
  sh_details :: string

record ack_forward_status =
  af_last_ack_forward_unix :: u64
  af_ack_forward_errors :: u64

record relay =
  ra_source :: relay_source
  ra_relay_id :: string
  ra_location :: string
  ra_acks :: "(string, propagation_ack) hashmap"
  ra_ack_forward_status :: ack_forward_status
  ra_posts :: "peer_post list"

record relay_env =
  rv_nats :: nats_net
  rv_get :: "nat \<Rightarrow> string \<Rightarrow> http_response res"
  rv_post :: "nat \<Rightarrow> http_response res"
  rv_now :: "nat \<Rightarrow> u64"

type_synonym 'a jetstream = "(jetstream_source, 'a) act"
type_synonym 'a relay_act = "(relay, 'a) act"

text \<open>An error that is only printed; a panic is not an error.\<close>

definition logged :: "('s, unit) act \<Rightarrow> ('s, unit) act" where
  "logged m = abind (attempt m) (\<lambda>r. if r = Inl Panic then raise Panic else ret ())"

definition on_status :: "(jetstream_status \<Rightarrow> jetstream_status) \<Rightarrow> unit jetstream" where
  "on_status f = modify (\<lambda>s. s\<lparr>jt_status := f (jt_status s)\<rparr>)"

section \<open>Following the stream\<close>

definition apply_to_cache :: "mutation \<Rightarrow> bool jetstream" where
  "apply_to_cache m = (\<lambda>s. case relay_cache_apply m (jt_cache s) of
       Inl e \<Rightarrow> (Inl e, s)
     | Inr (c, applied) \<Rightarrow> (Inr applied, s\<lparr>jt_cache := c\<rparr>))"

definition rebuild_cache_from_snapshot :: "(string \<Rightarrow> http_response res) \<Rightarrow> unit jetstream" where
  "rebuild_cache_from_snapshot get =
     abind (lift_res (get ''/v1/snapshot'')) (\<lambda>response.
     if hr_status_code response \<noteq> 200 then raise InvalidData
     else
       abind (lift_res (decode_snapshot (hr_body response))) (\<lambda>sn.
         modify (\<lambda>s. s\<lparr>jt_cache := relay_cache_new (sn_watermarks sn)\<rparr>)))"

definition delta_bundle_query :: "u16 \<Rightarrow> u64 \<Rightarrow> u64 \<Rightarrow> string" where
  "delta_bundle_query shard_id from_seq to_seq =
     ''/v1/delta_bundle?shard='' @ dec_string (unat shard_id) @ ''&from_seq='' @ dec_string (unat from_seq) @
     ''&to_seq='' @ dec_string (unat to_seq)"

definition relay_repair_gap :: "(string \<Rightarrow> http_response res) \<Rightarrow> u16 \<Rightarrow> u64 \<Rightarrow> u64 \<Rightarrow> unit jetstream" where
  "relay_repair_gap get shard_id from_seq to_seq =
     abind (lift_res (get (delta_bundle_query shard_id from_seq to_seq))) (\<lambda>response.
     if hr_status_code response \<noteq> 200 then rebuild_cache_from_snapshot get
     else
       abind (lift_res (decode_mutation_stream (hr_body response))) (\<lambda>ms.
         afor (\<lambda>m. abind (apply_to_cache m) (\<lambda>_. ret ())) ms))"

definition apply_or_repair :: "(string \<Rightarrow> http_response res) \<Rightarrow> mutation \<Rightarrow> bool jetstream" where
  "apply_or_repair get m =
     abind (attempt (apply_to_cache m)) (\<lambda>r.
     case r of
       Inr applied \<Rightarrow> ret applied
     | Inl (Gap shard_id expected_seq received_seq) \<Rightarrow>
         abind (relay_repair_gap get shard_id (saturating_sub expected_seq 1) received_seq) (\<lambda>_.
         abind (on_status (\<lambda>t. t\<lparr>js_gap_repairs := js_gap_repairs t + 1\<rparr>)) (\<lambda>_. apply_to_cache m))
     | Inl e \<Rightarrow> raise e)"

text \<open>The \<open>k\<close>th message of a pull; its acknowledgement is the request after the pull and the acknowledgements
  before it.\<close>

definition pull_message :: "relay_env \<Rightarrow> nat \<times> nats_message \<Rightarrow> unit jetstream" where
  "pull_message e = (\<lambda>(k, message).
     abind (lift_res (decode_mutation (nm_payload message))) (\<lambda>m.
     abind (apply_or_repair (rv_get e k) m) (\<lambda>applied.
     abind (on_status (\<lambda>t. if applied then t\<lparr>js_applied_messages := js_applied_messages t + 1\<rparr>
         else t\<lparr>js_duplicate_messages := js_duplicate_messages t + 1\<rparr>)) (\<lambda>_.
     case nm_reply_to message of
       None \<Rightarrow> ret ()
     | Some reply_to \<Rightarrow> lift_res (nats_ack (rv_nats e) (k + 1) reply_to)))))"

text \<open>The largest lag, their sum, and the number of shards that lag.\<close>

definition saturating_add :: "u64 \<Rightarrow> u64 \<Rightarrow> u64" where
  "saturating_add a b = saturating_u64 (unat a + unat b)"

definition source_lags :: "u64 list \<Rightarrow> u64 list \<Rightarrow> u64 \<times> u64 \<times> nat" where
  "source_lags source_watermarks local_watermarks =
     fold (\<lambda>(shard_id, source_seq) (lag_max, lag_sum, lagging).
         let lag = saturating_sub source_seq (vec_get_or 0 local_watermarks shard_id) in
         if 0 < lag then (max lag_max lag, saturating_add lag_sum lag, lagging + 1)
         else (lag_max, lag_sum, lagging))
       (enumerate 0 source_watermarks) (0, 0, 0)"

definition refresh_source_lag :: "world \<Rightarrow> (string \<Rightarrow> http_response res) \<Rightarrow> unit jetstream" where
  "refresh_source_lag w get =
     abind (lift_res (get ''/v1/watermarks'')) (\<lambda>response.
     if hr_status_code response \<noteq> 200 then raise InvalidData
     else
       abind (lift_res (parse_watermarks (json_body w) (hr_body response))) (\<lambda>source_watermarks.
       abind (gets (\<lambda>s. source_lags source_watermarks (rl_watermarks (jt_cache s)))) (\<lambda>(lag_max, lag_sum, lagging).
         on_status (\<lambda>t. t\<lparr>js_source_lag_max := lag_max, js_source_lag_sum := lag_sum,
           js_lagging_shards := lagging\<rparr>))))"

definition refresh_consumer_lag :: "nats_net \<Rightarrow> unit jetstream" where
  "refresh_consumer_lag net =
     abind (gets (\<lambda>s. nats_jetstream_consumer_info net 0 (jt_stream s) (jt_durable s))) (\<lambda>answer.
     abind (lift_res answer) (\<lambda>info.
       on_status (\<lambda>t. t\<lparr>js_consumer_num_pending := cf_num_pending info,
         js_consumer_num_ack_pending := cf_num_ack_pending info,
         js_consumer_num_redelivered := cf_num_redelivered info, js_consumer_num_waiting := cf_num_waiting info\<rparr>)))"

definition pull_once :: "world \<Rightarrow> relay_env \<Rightarrow> nat jetstream" where
  "pull_once w e =
     abind (gets (\<lambda>s. nats_jetstream_pull (rv_nats e) 0 (jt_stream s) (jt_durable s) (jt_batch s) 1000)) (\<lambda>pulled.
     abind (lift_res pulled) (\<lambda>messages.
     abind (afor (pull_message e) (enumerate 0 messages)) (\<lambda>_.
     abind (on_status (\<lambda>t. if messages = [] then t else t\<lparr>js_last_pull_unix := rv_now e 0\<rparr>)) (\<lambda>_.
     abind (logged (refresh_source_lag w (rv_get e (length messages)))) (\<lambda>_.
       ret (length messages))))))"

text \<open>One turn of the loop.\<close>

definition jetstream_pull_turn :: "world \<Rightarrow> relay_env \<Rightarrow> unit jetstream" where
  "jetstream_pull_turn w e =
     abind (attempt (pull_once w e)) (\<lambda>r.
     case r of
       Inr _ \<Rightarrow> ret ()
     | Inl err \<Rightarrow> if err = Panic then raise Panic else on_status (\<lambda>t. t\<lparr>js_errors := js_errors t + 1\<rparr>))"

section \<open>Answers of the source\<close>

definition local_mutations_for_path :: "string \<Rightarrow> jetstream_source \<Rightarrow> mutation list option res" where
  "local_mutations_for_path path s =
     rbind (parse_query_path path) (\<lambda>(route, query).
     rbind (required_query_u16 query ''shard'') (\<lambda>shard_id.
     rbind (env_parsed (first_field query [''from_seq'', ''from'']) parse_query_u64 0) (\<lambda>from_seq.
     rbind (env_parsed (first_field query [''delivery_priority'', ''channel''])
         (\<lambda>v. rbind (priority_from_name v) (\<lambda>p. Inr (Some p))) None) (\<lambda>priority_filter.
     if route = ''/v1/mutations'' \<or> route = ''/v1/mutations.sig''
     then relay_mutations_for_shard (jt_cache s) shard_id from_seq priority_filter
     else
       rbind (env_parsed (first_field query [''to_seq'', ''to'']) parse_query_u64 (- 1)) (\<lambda>to_seq.
         relay_delta_bundle (jt_cache s) shard_id from_seq to_seq)))))"

definition http_ok :: "bytes \<Rightarrow> http_response" where
  "http_ok body = \<lparr>hr_status_code = 200, hr_body = body\<rparr>"

definition signed_stream_response :: "world \<Rightarrow> jetstream_source \<Rightarrow> mutation list \<Rightarrow> http_response res" where
  "signed_stream_response w s ms =
     rbind (signature_text w (jt_signature_signer s) (encode_mutation_stream ms)) (\<lambda>t. Inr (http_ok (as_bytes t)))"

definition jetstream_get :: "world \<Rightarrow> (string \<Rightarrow> http_response res) \<Rightarrow> string \<Rightarrow> jetstream_source \<Rightarrow> http_response res" where
  "jetstream_get w get path s =
     rbind (parse_query_path path) (\<lambda>(route, _).
     if route = ''/v1/watermarks'' then Inr (http_ok (json_bytes w (format_watermarks (rl_watermarks (jt_cache s)))))
     else if route \<in> {''/v1/mutations'', ''/v1/delta_bundle''} then
       rbind (local_mutations_for_path path s) (\<lambda>found.
       case found of Some ms \<Rightarrow> Inr (http_ok (encode_mutation_stream ms)) | None \<Rightarrow> get path)
     else if route \<in> {''/v1/mutations.sig'', ''/v1/delta_bundle.sig''} then
       rbind (local_mutations_for_path path s) (\<lambda>found.
       case found of Some ms \<Rightarrow> signed_stream_response w s ms | None \<Rightarrow> get path)
     else get path)"

definition http_pull_health :: "world \<Rightarrow> (string \<Rightarrow> http_response res) \<Rightarrow> source_health res" where
  "http_pull_health w get =
     rbind (get ''/health'') (\<lambda>upstream.
       Inr \<lparr>sh_ok = (hr_status_code upstream = 200),
            sh_details = wd_json_text w (JObject [(''http_status'', json_nat (unat (hr_status_code upstream)))])\<rparr>)"

definition jetstream_details :: "u16 \<Rightarrow> jetstream_source \<Rightarrow> json" where
  "jetstream_details bootstrap_status s =
     (let t = jt_status s; c = jt_cache s in JObject
       [(''nats_addr'', JString (jt_nats_addr s)), (''stream'', JString (jt_stream s)),
        (''consumer'', JString (jt_durable s)), (''bootstrap_status'', json_nat (unat bootstrap_status)),
        (''shard_count'', json_nat (length (rl_watermarks c))),
        (''max_cached_seq'', json_u64 (max_or_zero (rl_watermarks c))),
        (''cached_mutations'', json_nat (sum_list (map length (rl_mutations c)))),
        (''source_lag_max'', json_u64 (js_source_lag_max t)), (''source_lag_sum'', json_u64 (js_source_lag_sum t)),
        (''lagging_shards'', json_nat (js_lagging_shards t)),
        (''consumer_num_pending'', json_u64 (js_consumer_num_pending t)),
        (''consumer_num_ack_pending'', json_u64 (js_consumer_num_ack_pending t)),
        (''consumer_num_redelivered'', json_u64 (js_consumer_num_redelivered t)),
        (''consumer_num_waiting'', json_u64 (js_consumer_num_waiting t)),
        (''last_pull_unix'', json_u64 (js_last_pull_unix t)),
        (''applied_messages'', json_u64 (js_applied_messages t)),
        (''duplicate_messages'', json_u64 (js_duplicate_messages t)),
        (''gap_repairs'', json_u64 (js_gap_repairs t)), (''jetstream_errors'', json_u64 (js_errors t))])"

definition jetstream_health :: "world \<Rightarrow> relay_env \<Rightarrow> source_health jetstream" where
  "jetstream_health w e =
     abind (logged (refresh_source_lag w (rv_get e 0))) (\<lambda>_.
     abind (logged (refresh_consumer_lag (rv_nats e))) (\<lambda>_.
     let bootstrap_status = (case rv_get e 0 ''/health'' of Inr response \<Rightarrow> hr_status_code response | Inl _ \<Rightarrow> 503) in
     gets (\<lambda>s. \<lparr>sh_ok = (js_errors (jt_status s) = 0 \<or> 0 < js_last_pull_unix (jt_status s)),
       sh_details = wd_json_text w (jetstream_details bootstrap_status s)\<rparr>)))"

section \<open>The relay\<close>

definition upstream_addr :: "relay_source \<Rightarrow> string" where
  "upstream_addr source = (case source of HttpPull addr \<Rightarrow> addr | JetStream s \<Rightarrow> jt_bootstrap_addr s)"

definition source_kind :: "relay_source \<Rightarrow> string" where
  "source_kind source = (case source of HttpPull _ \<Rightarrow> ''http_pull'' | JetStream _ \<Rightarrow> ''jetstream'')"

definition on_jetstream :: "jetstream_source \<Rightarrow> 'a jetstream \<Rightarrow> 'a relay_act" where
  "on_jetstream s m = (\<lambda>r. case m s of (x, s') \<Rightarrow> (x, r\<lparr>ra_source := JetStream s'\<rparr>))"

definition relay_health :: "world \<Rightarrow> relay_env \<Rightarrow> source_health relay_act" where
  "relay_health w e =
     abind (gets ra_source) (\<lambda>source.
     case source of
       HttpPull _ \<Rightarrow> lift_res (http_pull_health w (rv_get e 0))
     | JetStream s \<Rightarrow> on_jetstream s (jetstream_health w e))"

definition relay_get :: "world \<Rightarrow> relay_env \<Rightarrow> string \<Rightarrow> http_response relay_act" where
  "relay_get w e path =
     abind (gets ra_source) (\<lambda>source.
     lift_res (case source of
       HttpPull _ \<Rightarrow> rv_get e 0 path
     | JetStream s \<Rightarrow> jetstream_get w (rv_get e 0) path s))"

text \<open>Both sources post a body to the upstream, without the headers of the request it came with.\<close>

definition relay_post :: "relay_env \<Rightarrow> nat \<Rightarrow> string \<Rightarrow> bytes \<Rightarrow> http_response relay_act" where
  "relay_post e k path body =
     abind (modify (\<lambda>r. r\<lparr>ra_posts := ra_posts r @ [\<lparr>pp_addr = upstream_addr (ra_source r), pp_route = path,
       pp_headers = [], pp_body = body\<rparr>]\<rparr>)) (\<lambda>_. lift_res (rv_post e k))"

section \<open>Acknowledgements\<close>

definition on_forward_status :: "(ack_forward_status \<Rightarrow> ack_forward_status) \<Rightarrow> unit relay_act" where
  "on_forward_status f = modify (\<lambda>r. r\<lparr>ra_ack_forward_status := f (ra_ack_forward_status r)\<rparr>)"

definition forward_ack :: "world \<Rightarrow> relay_env \<Rightarrow> nat \<Rightarrow> propagation_ack \<Rightarrow> unit relay_act" where
  "forward_ack w e k ack =
     abind (relay_post e k ''/v1/ack'' (as_bytes (ack_line w ack))) (\<lambda>response.
     if hr_status_code response \<noteq> 200 then raise InvalidData
     else on_forward_status (\<lambda>t. t\<lparr>af_last_ack_forward_unix := rv_now e k\<rparr>))"

definition forward_all_acks :: "world \<Rightarrow> relay_env \<Rightarrow> unit relay_act" where
  "forward_all_acks w e =
     abind (gets (\<lambda>r. hm_values (ra_acks r))) (\<lambda>acks.
       afor (\<lambda>(k, ack). forward_ack w e k ack) (enumerate 0 acks))"

definition forward_error_counted :: "unit relay_act \<Rightarrow> unit relay_act" where
  "forward_error_counted m =
     abind (attempt m) (\<lambda>x.
     case x of
       Inr _ \<Rightarrow> ret ()
     | Inl _ \<Rightarrow> on_forward_status (\<lambda>t. t\<lparr>af_ack_forward_errors := af_ack_forward_errors t + 1\<rparr>))"

text \<open>One turn of the loop that forwards.\<close>

definition ack_forward_turn :: "world \<Rightarrow> relay_env \<Rightarrow> unit relay_act" where
  "ack_forward_turn w e = forward_error_counted (forward_all_acks w e)"

text \<open>The readings of the clock: two for the fields that are missing, one for the time of receipt.\<close>

definition relay_ack_from_fields :: "relay_env \<Rightarrow> relay \<Rightarrow> form \<Rightarrow> propagation_ack res" where
  "relay_ack_from_fields e r form =
     (if hm_contains form ''relay_id'' then propagation_ack_from_fields (rv_now e 1) (rv_now e 2) form
      else rbind (pop_ack_from_fields (rv_now e 1) form) (\<lambda>ack.
        Inr (ack_from_pop_ack (ra_relay_id r) (ra_location r) ack (rv_now e 2))))"

definition compare_agent_acks :: "propagation_ack \<Rightarrow> propagation_ack \<Rightarrow> ordering" where
  "compare_agent_acks l r =
     then_with (ord_cmp (pg_agent_id l) (pg_agent_id r)) (ord_cmp (pg_shard_id l) (pg_shard_id r))"

definition relay_ack_json :: "u64 \<Rightarrow> propagation_ack \<Rightarrow> json" where
  "relay_ack_json now a = JObject
     [(''relay_id'', JString (pg_relay_id a)), (''location'', JString (pg_location a)),
      (''agent_id'', JString (pg_agent_id a)), (''shard_id'', json_nat (unat (pg_shard_id a))),
      (''seq'', json_u64 (pg_seq a)), (''entries'', json_nat (pg_entries a)),
      (''applied_at_unix'', json_u64 (pg_applied_at_unix a)),
      (''relay_received_at_unix'', json_u64 (pg_relay_received_at_unix a)),
      (''lag_secs'', json_u64 (saturating_sub now (pg_applied_at_unix a)))]"

definition format_acks :: "u64 \<Rightarrow> relay \<Rightarrow> json" where
  "format_acks now r =
     (let acks = sort_by compare_agent_acks (hm_values (ra_acks r)) in JObject
       [(''relay_id'', JString (ra_relay_id r)), (''location'', JString (ra_location r)),
        (''ack_count'', json_nat (length acks)), (''acks'', JArray (map (relay_ack_json now) acks))])"

section \<open>Requests\<close>

definition content_type_for :: "string \<Rightarrow> string" where
  "content_type_for path =
     (let route = (case split_once (CHR ''?'') path of None \<Rightarrow> path | Some (route, _) \<Rightarrow> route) in
      if route \<in> {''/v1/mutations'', ''/v1/snapshot'', ''/v1/snapshot_artifact'', ''/v1/delta_bundle''}
      then ''application/octet-stream'' else ''application/json'')"

definition json_scalar :: "json \<Rightarrow> bool" where
  "json_scalar v = (case v of JString _ \<Rightarrow> True | JNumber _ \<Rightarrow> True | JBool _ \<Rightarrow> True | _ \<Rightarrow> False)"

definition add_details :: "json \<Rightarrow> (string \<times> json) list \<Rightarrow> (string \<times> json) list" where
  "add_details details body = (case json_as_object details of
       None \<Rightarrow> body
     | Some fs \<Rightarrow>
         fold (\<lambda>(k, v) b. if map_of b k = None \<and> json_scalar v then hm_insert k v b else b) fs body)"

definition relay_health_json :: "world \<Rightarrow> source_health \<Rightarrow> relay \<Rightarrow> json" where
  "relay_health_json w health r =
     (let details = (case parse_json_body (wd_from_json w) (as_bytes (sh_details health)) of
            Inr v \<Rightarrow> v | Inl _ \<Rightarrow> JObject [(''source_parse_error'', JBool True)])
      in JObject (add_details details
        [(''status'', JString (if sh_ok health then ''ok'' else ''degraded'')), (''role'', JString ''relay''),
         (''relay_id'', JString (ra_relay_id r)), (''location'', JString (ra_location r)),
         (''source'', JString (source_kind (ra_source r))),
         (''upstream'', JString (if sh_ok health then ''ok'' else ''bad'')),
         (''upstream_addr'', JString (upstream_addr (ra_source r))),
         (''ack_count'', json_nat (hm_len (ra_acks r))),
         (''last_ack_forward_unix'', json_u64 (af_last_ack_forward_unix (ra_ack_forward_status r))),
         (''ack_forward_errors'', json_u64 (af_ack_forward_errors (ra_ack_forward_status r)))]))"

definition relay_ack_route :: "world \<Rightarrow> relay_env \<Rightarrow> http_request \<Rightarrow> reply relay_act" where
  "relay_ack_route w e q =
     abind (lift_res (json_body w (hq_body q))) (\<lambda>form.
     abind (gets (\<lambda>r. relay_ack_from_fields e r form)) (\<lambda>parsed.
     abind (lift_res parsed) (\<lambda>ack.
     abind (modify (\<lambda>r. r\<lparr>ra_acks := hm_insert (propagation_ack_key ack) ack (ra_acks r)\<rparr>)) (\<lambda>_.
     abind (forward_error_counted (forward_ack w e 0 ack)) (\<lambda>_.
       ret (json_reply w 200 (status_json ''ok'')))))))"

definition relay_handle_connection :: "world \<Rightarrow> relay_env \<Rightarrow> http_request \<Rightarrow> reply relay_act" where
  "relay_handle_connection w e q =
     abind (lift_res (parse_query_path (hq_path q))) (\<lambda>(route, _).
     if hq_method q = ''GET'' then
       (if route = ''/health'' then
          abind (relay_health w e) (\<lambda>health. gets (\<lambda>r. json_reply w 200 (relay_health_json w health r)))
        else if route = ''/metrics'' then ret (json_reply w 404 (JObject [(''error'', JString ''not_found'')]))
        else if route = ''/v1/acks'' then gets (\<lambda>r. json_reply w 200 (format_acks (rv_now e 0) r))
        else
          abind (relay_get w e (hq_path q)) (\<lambda>upstream.
            ret (http_reply (hr_status_code upstream) (content_type_for (hq_path q)) (hr_body upstream))))
     else if hq_method q = ''POST'' then
       (if route = ''/v1/ack'' then relay_ack_route w e q
        else
          abind (relay_post e 0 (hq_path q) (hq_body q)) (\<lambda>upstream.
            ret (http_reply (hr_status_code upstream) ''application/json'' (hr_body upstream))))
     else raise Parse)"

section \<open>Metrics\<close>

definition relay_source_keys :: "string list" where
  "relay_source_keys =
     [''http_status'', ''bootstrap_status'', ''shard_count'', ''max_cached_seq'', ''cached_mutations'',
      ''source_lag_max'', ''source_lag_sum'', ''lagging_shards'', ''consumer_num_pending'',
      ''consumer_num_ack_pending'', ''consumer_num_redelivered'', ''consumer_num_waiting'', ''last_pull_unix'',
      ''applied_messages'', ''duplicate_messages'', ''gap_repairs'', ''jetstream_errors'', ''source_error'']"

definition relay_source_rows :: "form \<Rightarrow> (string \<times> string \<times> string \<times> nat) list" where
  "relay_source_rows fs =
     List.map_filter (\<lambda>key. case hm_get fs key of
         None \<Rightarrow> None
       | Some v \<Rightarrow> map_option (\<lambda>n. (''globacl_relay_source_'' @ key,
           ''Relay source-specific numeric health field.'', ''gauge'', n)) (parse_uint (2 ^ 64) v))
       relay_source_keys"

definition relay_rows :: "source_health \<Rightarrow> relay \<Rightarrow> (string \<times> string \<times> string \<times> nat) list" where
  "relay_rows health r =
     [(''globacl_relay_up'', ''Relay process is serving requests.'', ''gauge'', 1),
      (''globacl_relay_source_up'', ''Whether the relay source is healthy.'', ''gauge'', prometheus_bool (sh_ok health)),
      (''globacl_relay_ack_count'', ''Number of latest local propagation acknowledgements.'', ''gauge'',
        hm_len (ra_acks r)),
      (''globacl_relay_last_ack_forward_unix'', ''Unix timestamp of the last successful upstream ack forward.'',
        ''gauge'', unat (af_last_ack_forward_unix (ra_ack_forward_status r))),
      (''globacl_relay_ack_forward_errors_total'', ''Number of upstream ack-forward errors since process start.'',
        ''counter'', unat (af_ack_forward_errors (ra_ack_forward_status r)))]"

definition format_relay_metrics :: "world \<Rightarrow> relay_env \<Rightarrow> string relay_act" where
  "format_relay_metrics w e =
     abind (attempt (relay_health w e)) (\<lambda>asked.
     let health = (case asked of
         Inr health \<Rightarrow> health
       | Inl _ \<Rightarrow> \<lparr>sh_ok = False, sh_details = wd_json_text w (JObject [(''source_error'', json_nat 1)])\<rparr>)
     in gets (\<lambda>r.
       let labels = [(''relay_id'', ra_relay_id r), (''location'', ra_location r),
             (''source'', source_kind (ra_source r))];
           source_rows = (case json_body w (as_bytes (sh_details health)) of
               Inr fs \<Rightarrow> relay_source_rows fs | Inl _ \<Rightarrow> [])
       in append_metrics labels (relay_rows health r @ source_rows) []))"

section \<open>Start\<close>

definition DEFAULT_SHARD_COUNT :: u16 where
  "DEFAULT_SHARD_COUNT = 4096"

definition sanitize_nats_name :: "string \<Rightarrow> string" where
  "sanitize_nats_name v =
     (let out = map (\<lambda>c. if is_ascii_alphanumeric c \<or> c = CHR ''_'' \<or> c = CHR ''-'' then c else CHR ''_'')
            (filter (\<lambda>c. \<not> utf8_cont (byte_of_char c)) v)
      in if out = [] then ''relay'' else out)"

definition bootstrap_cache :: "world \<Rightarrow> env \<Rightarrow> (string \<Rightarrow> http_response res) \<Rightarrow> relay_cache res" where
  "bootstrap_cache w ev get =
     (let empty_cache = rbind (env_parsed (hm_get ev ''GLOBACL_SHARD_COUNT'') parse_arg_u16 DEFAULT_SHARD_COUNT)
            (\<lambda>shard_count. Inr (relay_cache_new (replicate (unat shard_count) 0)));
          from_watermarks = (case get ''/v1/watermarks'' of
              Inr response \<Rightarrow>
                if hr_status_code response = 200
                then rbind (parse_watermarks (json_body w) (hr_body response)) (\<lambda>ws. Inr (relay_cache_new ws))
                else empty_cache
            | Inl _ \<Rightarrow> empty_cache)
      in case get ''/v1/snapshot'' of
           Inr response \<Rightarrow>
             if hr_status_code response = 200
             then rbind (decode_snapshot (hr_body response)) (\<lambda>sn. Inr (relay_cache_new (sn_watermarks sn)))
             else from_watermarks
         | Inl _ \<Rightarrow> from_watermarks)"

definition jetstream_status_new :: jetstream_status where
  "jetstream_status_new = \<lparr>js_last_pull_unix = 0, js_applied_messages = 0, js_duplicate_messages = 0,
     js_gap_repairs = 0, js_errors = 0, js_source_lag_max = 0, js_source_lag_sum = 0, js_lagging_shards = 0,
     js_consumer_num_pending = 0, js_consumer_num_ack_pending = 0, js_consumer_num_redelivered = 0,
     js_consumer_num_waiting = 0\<rparr>"

definition jetstream_source_new ::
  "world \<Rightarrow> (string \<Rightarrow> string res) \<Rightarrow> env \<Rightarrow> relay_env \<Rightarrow> string \<Rightarrow> string \<Rightarrow> jetstream_source res" where
  "jetstream_source_new w read_text ev e bootstrap_addr relay_id =
     (let nats_addr = (case first_field ev [''GLOBACL_NATS_ADDR'', ''GLOBACL_NATS_URL''] of
            Some addr \<Rightarrow> addr | None \<Rightarrow> ''127.0.0.1:4222'');
          stream = field_or ev ''GLOBACL_NATS_STREAM'' ''GLOBACL'';
          subject_prefix = field_or ev ''GLOBACL_NATS_SUBJECT_PREFIX'' ''globacl'';
          filter_subject = field_or ev ''GLOBACL_NATS_SUBJECT_FILTER'' (subject_prefix @ ''.>'');
          durable = field_or ev ''GLOBACL_NATS_CONSUMER'' (sanitize_nats_name relay_id)
      in
      rbind (env_parsed (hm_get ev ''GLOBACL_NATS_BATCH'') parse_env_usize 128) (\<lambda>batch.
      rbind (if env_bool ev ''GLOBACL_NATS_AUTOCREATE'' True
             then rbind (nats_jetstream_ensure_stream (rv_nats e) 0 stream [filter_subject]) (\<lambda>_.
                    nats_jetstream_ensure_consumer (rv_nats e) 2 stream durable filter_subject)
             else Inr ()) (\<lambda>_.
      rbind (signature_signer_from_env read_text ev) (\<lambda>signer.
      rbind (bootstrap_cache w ev (rv_get e 0)) (\<lambda>cache.
        Inr \<lparr>jt_bootstrap_addr = bootstrap_addr, jt_nats_addr = nats_addr, jt_stream = stream,
             jt_durable = durable, jt_batch = batch, jt_signature_signer = signer, jt_cache = cache,
             jt_status = jetstream_status_new\<rparr>)))))"

definition build_source ::
  "world \<Rightarrow> (string \<Rightarrow> string res) \<Rightarrow> env \<Rightarrow> relay_env \<Rightarrow> string \<Rightarrow> string \<Rightarrow> relay_source res" where
  "build_source w read_text ev e upstream relay_id =
     (let mode = to_ascii_lowercase (trim (field_or ev ''GLOBACL_RELAY_SOURCE'' ''http'')) in
      if mode \<in> {[], ''http'', ''pull'', ''proxy'', ''pull_proxy''} then Inr (HttpPull upstream)
      else if mode \<in> {''jetstream'', ''nats'', ''nats_jetstream''}
      then rbind (jetstream_source_new w read_text ev e upstream relay_id) (\<lambda>s. Inr (JetStream s))
      else Inl Parse)"

text \<open>\<open>run\<close> up to its listeners: the relay, the addresses it binds, and the pause of the forwarding loop.\<close>

definition relay_start ::
  "world \<Rightarrow> (string \<Rightarrow> string res) \<Rightarrow> env \<Rightarrow> relay_env \<Rightarrow> string list \<Rightarrow>
   (relay \<times> string \<times> string option \<times> u64) res" where
  "relay_start w read_text ev e args =
     (let upstream = vec_get_or ''127.0.0.1:7000'' args 1; bind_addr = vec_get_or ''127.0.0.1:7001'' args 2;
          relay_id = vec_get_or ''relay-local'' args 3; location = vec_get_or ''local'' args 4 in
      rbind (build_source w read_text ev e upstream relay_id) (\<lambda>source.
      rbind (env_parsed (hm_get ev ''GLOBACL_ACK_FORWARD_MS'') parse_env_u64 5000) (\<lambda>interval_ms.
        Inr (\<lparr>ra_source = source, ra_relay_id = relay_id, ra_location = location, ra_acks = hm_new,
              ra_ack_forward_status = \<lparr>af_last_ack_forward_unix = 0, af_ack_forward_errors = 0\<rparr>, ra_posts = []\<rparr>,
             bind_addr, metrics_bind_addr_from_env ev ''GLOBACL_RELAY_METRICS_ADDR'' ''127.0.0.1:9101'',
             interval_ms))))"

end
