(* ===== verification/Nats_Frames.thy ===== *)
theory Nats_Frames
  imports Nats
begin

text \<open>
  What a client of NATS gets from a server that sends message frames (\<open>MSG\<close>), between lines that
  carry no message (\<open>+OK\<close>, \<open>PING\<close>, \<open>PONG\<close>, empty lines): the server's side of the protocol is
  written down as the bytes of a list of items.
\<close>

section \<open>The bytes of a server\<close>

datatype served = Idle string | Frame nats_message

definition msg_words :: "nats_message \<Rightarrow> string list" where
  "msg_words m = [''MSG'', nm_subject m, ''1''] @ (case nm_reply_to m of None \<Rightarrow> [] | Some r \<Rightarrow> [r]) @
     [dec_string (length (nm_payload m))]"

definition msg_line :: "nats_message \<Rightarrow> string" where
  "msg_line m = join_with (CHR '' '') (msg_words m)"

definition wire_line :: "string \<Rightarrow> bytes" where
  "wire_line l = as_bytes l @ [13, 10]"

definition served_bytes :: "served \<Rightarrow> bytes" where
  "served_bytes x = (case x of
     Idle l \<Rightarrow> wire_line l
   | Frame m \<Rightarrow> wire_line (msg_line m) @ nm_payload m @ [13, 10])"

definition idle_line :: "string \<Rightarrow> bool" where
  "idle_line l \<longleftrightarrow> l \<in> {[], ''+OK'', ''PING'', ''PONG''}"

definition plain_word :: "string \<Rightarrow> bool" where
  "plain_word w \<longleftrightarrow> w \<noteq> [] \<and> (\<forall>c \<in> set w. graphic c)"

definition short_line :: "string \<Rightarrow> bool" where
  "short_line l \<longleftrightarrow> length l < 65536 \<and> (\<forall>c \<in> set l. graphic c \<or> c = CHR '' '')"

definition plain_message :: "nats_message \<Rightarrow> bool" where
  "plain_message m \<longleftrightarrow> plain_word (nm_subject m) \<and> (\<forall>r \<in> set_option (nm_reply_to m). plain_word r) \<and>
     nm_status m = None \<and> length (nm_payload m) < 2 ^ 63 \<and> length (msg_line m) < 65536"

definition served_ok :: "served \<Rightarrow> bool" where
  "served_ok x = (case x of Idle l \<Rightarrow> idle_line l | Frame m \<Rightarrow> plain_message m)"

fun frames :: "served list \<Rightarrow> nats_message list" where
  "frames [] = []"
| "frames (Idle l # xs) = frames xs"
| "frames (Frame m # xs) = m # frames xs"

lemma frames_member: "m \<in> set (frames xs) \<Longrightarrow> Frame m \<in> set xs"
  by (induction xs rule: frames.induct) auto

text \<open>A connection whose writes go through, that stays open, and whose clock moves by a second at most.\<close>

definition steady :: "nats_connection \<Rightarrow> bool" where
  "steady c \<longleftrightarrow> nc_writes c = [] \<and> nc_quiet c \<and>
     (\<exists>t. \<forall>i. t \<le> unat (nc_clock c i) \<and> unat (nc_clock c i) \<le> t + 1000)"

definition serving :: "nats_connection \<Rightarrow> bytes \<Rightarrow> bool" where
  "serving c b \<longleftrightarrow> steady c \<and> nc_in c = b"

lemma served_bytes_simps [simp]:
  "served_bytes (Idle l) = wire_line l" "served_bytes (Frame m) = wire_line (msg_line m) @ nm_payload m @ [13, 10]"
  by (simp_all add: served_bytes_def)

abbreviation served_all :: "served list \<Rightarrow> bytes" where
  "served_all xs \<equiv> concat (map served_bytes xs)"

section \<open>Lines\<close>

lemma crlf_bytes [simp]: "as_bytes crlf = [13, 10]"
  by (simp add: crlf_def as_bytes_def byte_of_char_def carriage_return_def newline_def)

lemma wire_line_crlf: "as_bytes (l @ crlf) = wire_line l"
  by (simp add: wire_line_def as_bytes_append)

lemma crlf_end: "suffix [13, 10 :: u8] (acc @ [b]) \<longleftrightarrow> b = 10 \<and> suffix [13] acc"
  by (simp add: suffix_snoc)

lemma scan_step:
  "scan_line acc (b # bs) =
     (if b = 10 \<and> suffix [13] acc then ScannedLine (butlast acc) bs
      else if 65536 \<le> length acc then ScannedLong bs
      else scan_line (acc @ [b]) bs)"
  by (simp add: crlf_end Let_def butlast_conv_take)

lemma scan_wire:
  "10 \<notin> set l \<Longrightarrow> length acc + length l < 65536 \<Longrightarrow>
     scan_line acc (l @ 13 # 10 # rest) = ScannedLine (acc @ l) rest"
proof (induction l arbitrary: acc)
  case Nil
  then show ?case by (simp add: scan_step del: scan_line.simps)
next
  case (Cons b l)
  then have "scan_line (acc @ [b]) (l @ 13 # 10 # rest) = ScannedLine ((acc @ [b]) @ l) rest" by simp
  with Cons.prems show ?case by (simp add: scan_step del: scan_line.simps)
qed

lemma short_line_chars: "short_line l \<Longrightarrow> c \<in> set l \<Longrightarrow> graphic c \<or> c = CHR '' ''"
  by (simp add: short_line_def)

lemma short_line_bytes: "short_line l \<Longrightarrow> 10 \<notin> set (as_bytes l)"
  using as_bytes_set [of newline l] short_line_chars [of l newline]
  by (auto simp: newline_def byte_of_char_def graphic_def)

lemma short_line_utf8:
  assumes "short_line l"
  shows "from_utf8 (as_bytes l) = Some l"
proof (rule from_utf8_as_bytes, rule str_ok_ascii, rule ballI)
  fix c
  assume "c \<in> set l"
  from short_line_chars [OF assms this] graphic_ascii [of c] show "of_char c < (128::nat)" by auto
qed

lemma read_wire_line:
  assumes "short_line l" and "nc_in c = wire_line l @ rest"
  shows "nats_read_line c = (Inr l, c\<lparr>nc_in := rest\<rparr>)"
  using scan_wire [OF short_line_bytes [OF assms(1)], of "[]" rest] assms(2) short_line_utf8 [OF assms(1)] assms(1)
  by (simp add: nats_read_line_def wire_line_def short_line_def)

lemma split_words:
  "\<forall>w \<in> set ws. plain_word w \<Longrightarrow> split_whitespace (join_with (CHR '' '') ws) = ws"
proof (induction "CHR '' ''" ws rule: join_with.induct)
  case 1
  show ?case by (simp add: split_whitespace_def split_ws.simps)
next
  case (2 p)
  then show ?case by (simp add: split_whitespace_def split_ws_end plain_word_def)
next
  case (3 p q ps)
  then show ?case by (simp add: split_whitespace_def split_ws_word plain_word_def)
qed

section \<open>Operations\<close>

lemma serving_update [simp]:
  "steady (c\<lparr>nc_in := b\<rparr>) = steady c" "steady (c\<lparr>nc_out := b\<rparr>) = steady c"
  "steady (c\<lparr>nc_readings := n\<rparr>) = steady c"
  by (simp_all add: steady_def)

lemma steady_write: "steady c \<Longrightarrow> nats_write_all b c = (Inr (), c\<lparr>nc_out := nc_out c @ b\<rparr>)"
  by (simp add: steady_def nats_write_all_def)

lemma read_frame_payload:
  assumes "nc_in c = p @ [13, 10] @ rest" and "length p < 2 ^ 63"
  shows "nats_read_payload (length p) c = (Inr p, c\<lparr>nc_in := rest\<rparr>)"
  using assms by (simp add: nats_read_payload_def nats_read_exact_def abind_app)

lemma plain_msg_line:
  assumes "plain_message m"
  shows "short_line (msg_line m)" and "split_whitespace (msg_line m) = msg_words m"
proof -
  have w: "\<forall>w \<in> set (msg_words m). plain_word w"
    using assms by (auto simp: msg_words_def plain_message_def plain_word_def graphic_def split: option.splits
        dest: dec_string_graphic)
  then show "split_whitespace (msg_line m) = msg_words m" unfolding msg_line_def by (rule split_words)
  have "\<forall>w \<in> set ws. plain_word w \<Longrightarrow> \<forall>c \<in> set (join_with (CHR '' '') ws). graphic c \<or> c = CHR '' ''" for ws
    by (induction "CHR '' ''" ws rule: join_with.induct) (auto simp: plain_word_def)
  with w assms show "short_line (msg_line m)" by (simp add: short_line_def msg_line_def plain_message_def)
qed

lemma msg_line_start: "prefix ''MSG '' (msg_line m)"
  by (cases "nm_reply_to m") (simp_all add: msg_line_def msg_words_def prefix_def)

lemma read_frame:
  assumes "plain_message m" and "nc_in c = served_bytes (Frame m) @ rest"
  shows "nats_read_op c = (Inr (NatsMsg m), c\<lparr>nc_in := rest\<rparr>)"
proof -
  define d where "d = c\<lparr>nc_in := nm_payload m @ [13, 10] @ rest\<rparr>"
  have l: "nats_read_line c = (Inr (msg_line m), d)"
    unfolding d_def using assms by (intro read_wire_line plain_msg_line) auto
  have n: "parse_usize_word (dec_string (length (nm_payload m))) = Inr (length (nm_payload m))"
    using assms(1) by (simp add: parse_usize_word_def parse_dec_string plain_message_def)
  have p: "nats_read_payload (length (nm_payload m)) d = (Inr (nm_payload m), c\<lparr>nc_in := rest\<rparr>)"
    using read_frame_payload [of d "nm_payload m" rest] assms(1) by (simp add: d_def plain_message_def)
  have "nats_read_msg (msg_line m) d = (Inr m, c\<lparr>nc_in := rest\<rparr>)"
    using assms(1) n p
    by (cases "nm_reply_to m")
      (simp_all add: nats_read_msg_def plain_msg_line msg_words_def abind_app plain_message_def)
  moreover obtain t where "msg_line m = ''MSG '' @ t" using msg_line_start by (auto simp: prefix_def)
  ultimately show ?thesis by (subst nats_read_op.simps) (simp add: abind_app l)
qed

lemma idle_short: "idle_line l \<Longrightarrow> short_line l"
  by (auto simp: idle_line_def short_line_def graphic_def)

text \<open>One operation, from the items that the server has still to send.\<close>

definition op_result :: "nats_connection \<Rightarrow> served list \<Rightarrow> nats_op res \<times> nats_connection \<Rightarrow> bool" where
  "op_result c xs out = (case dropWhile (\<lambda>x. x = Idle [] \<or> x = Idle ''PING'') xs of
       [] \<Rightarrow> fst out = Inl Io \<and> nc_late (snd out)
     | Idle l # ys \<Rightarrow> fst out \<in> {Inr Pong, Inr NatsOk} \<and> serving (snd out) (served_all ys)
     | Frame m # ys \<Rightarrow> fst out = Inr (NatsMsg m) \<and> serving (snd out) (served_all ys))"

lemma read_op_served:
  assumes "serving c (served_all xs)" and "\<forall>x \<in> set xs. served_ok x"
  shows "op_result c xs (nats_read_op c) \<and> nc_clock (snd (nats_read_op c)) = nc_clock c"
  using assms
proof (induction xs arbitrary: c)
  case Nil
  then have "nats_read_line c = (Inl Io, starved c)" and "nc_quiet c"
    by (simp_all add: serving_def steady_def nats_read_line_def)
  then show ?case by (subst (1 2) nats_read_op.simps) (simp add: abind_app op_result_def starved_def)
next
  case (Cons x xs)
  show ?case
  proof (cases x)
    case (Frame m)
    with Cons.prems have "nats_read_op c = (Inr (NatsMsg m), c\<lparr>nc_in := served_all xs\<rparr>)"
      by (intro read_frame) (auto simp: serving_def served_ok_def)
    with Cons.prems Frame show ?thesis by (simp add: op_result_def serving_def)
  next
    case (Idle l)
    with Cons.prems have i: "idle_line l" by (simp add: served_ok_def)
    define d where "d = c\<lparr>nc_in := served_all xs\<rparr>"
    have d: "serving d (served_all xs)" using Cons.prems by (simp add: serving_def d_def)
    have r: "nats_read_line c = (Inr l, d)"
      unfolding d_def using Cons.prems Idle
      by (intro read_wire_line idle_short i) (simp add: serving_def)
    from i consider (empty) "l = []" | (ping) "l = ''PING''" | (other) "l = ''+OK'' \<or> l = ''PONG''"
      by (auto simp: idle_line_def)
    then show ?thesis
    proof cases
      case empty
      have "nats_read_op c = nats_read_op d"
        using r empty by (subst nats_read_op.simps) (simp add: abind_app)
      with Cons.IH [OF d] Cons.prems Idle empty show ?thesis by (simp add: op_result_def d_def)
    next
      case ping
      define e where "e = d\<lparr>nc_out := nc_out d @ as_bytes (''PONG'' @ crlf)\<rparr>"
      have e: "serving e (served_all xs)" using d by (simp add: serving_def e_def)
      have "nats_write_all (as_bytes (''PONG'' @ crlf)) d = (Inr (), e)"
        unfolding e_def using d by (intro steady_write) (simp add: serving_def)
      with r ping have "nats_read_op c = nats_read_op e"
        by (subst nats_read_op.simps) (simp add: abind_app)
      with Cons.IH [OF e] Cons.prems Idle ping show ?thesis by (simp add: op_result_def d_def e_def)
    next
      case other
      with r have "nats_read_op c \<in> {(Inr Pong, d), (Inr NatsOk, d)}"
        by (subst nats_read_op.simps) (auto simp: abind_app)
      with other Idle d show ?thesis by (auto simp: op_result_def d_def)
    qed
  qed
qed

section \<open>Messages\<close>

text \<open>A reading of the clock of a steady connection is within every timeout of a second and more.\<close>

lemma in_time:
  assumes "steady c" and "1000 \<le> unat timeout_ms"
  shows "\<not> timeout_ms < saturating_sub (nc_clock c i) (nc_clock c j)"
proof -
  from assms(1) obtain t where t: "\<forall>i. t \<le> unat (nc_clock c i) \<and> unat (nc_clock c i) \<le> t + 1000"
    by (auto simp: steady_def)
  have "unat (saturating_sub (nc_clock c i) (nc_clock c j)) \<le> 1000"
    using t [rule_format, of i] t [rule_format, of j]
    by (auto simp: saturating_sub_def word_le_nat_alt unat_sub)
  with assms(2) show ?thesis by (simp add: word_less_nat_alt)
qed

definition message_result :: "served list \<Rightarrow> nats_message option res \<times> nats_connection \<Rightarrow> bool" where
  "message_result xs out = (case frames xs of
       [] \<Rightarrow> fst out = Inr None
     | m # ms \<Rightarrow> fst out = Inr (Some m) \<and> (\<exists>ys. frames ys = ms \<and> length ys < length xs \<and> set ys \<subseteq> set xs \<and>
         serving (snd out) (served_all ys)))"

lemma frames_dropWhile: "frames (dropWhile (\<lambda>x. x = Idle [] \<or> x = Idle ''PING'') xs) = frames xs"
  by (induction xs) (auto split: served.splits)

lemma await_served:
  assumes "serving c (served_all xs)" and "\<forall>x \<in> set xs. served_ok x" and "1000 \<le> unat timeout_ms"
    and "started = nc_clock c j"
  shows "message_result xs (await_message started timeout_ms c) \<and>
    nc_clock (snd (await_message started timeout_ms c)) = nc_clock c"
  using assms
proof (induction xs arbitrary: c rule: length_induct)
  case (1 xs)
  define d where "d = c\<lparr>nc_readings := nc_readings c + 1\<rparr>"
  have d: "serving d (served_all xs)" using "1.prems" by (simp add: serving_def d_def)
  have now: "\<not> timeout_ms < saturating_sub (nc_clock c (nc_readings c)) started"
    using "1.prems" in_time by (simp add: serving_def)
  obtain r e where op: "nats_read_op d = (r, e)" by force
  have res: "op_result d xs (r, e)" and clock: "nc_clock e = nc_clock c"
    using read_op_served [OF d "1.prems"(2)] op by (simp_all add: d_def)
  let ?ys = "dropWhile (\<lambda>x. x = Idle [] \<or> x = Idle ''PING'') xs"
  have sub: "length ?ys \<le> length xs" "set ?ys \<subseteq> set xs"
    by (simp_all add: length_dropWhile_le set_dropWhileD subsetI)
  note step = await_message.simps [of started timeout_ms c] now_unix_millis_for_nats_def abind_app
  show ?case
  proof (cases ?ys)
    case Nil
    with res have "r = Inl Io" "nc_late e" by (simp_all add: op_result_def)
    moreover have "frames xs = []" using frames_dropWhile [of xs] unfolding Nil by simp
    ultimately show ?thesis using now op clock by (simp add: step message_result_def d_def)
  next
    case (Cons y ys)
    then have short: "length ys < length xs" "set ys \<subseteq> set xs" using sub by auto
    show ?thesis
    proof (cases y)
      case (Frame m)
      with Cons res have "r = Inr (NatsMsg m)" "serving e (served_all ys)" by (simp_all add: op_result_def)
      moreover have "frames xs = m # frames ys"
        using Cons Frame frames_dropWhile [of xs] by simp
      ultimately show ?thesis using now op clock short
        by (auto simp: step message_result_def d_def)
    next
      case (Idle l)
      with Cons res have r: "r \<in> {Inr Pong, Inr NatsOk}" and e: "serving e (served_all ys)"
        by (simp_all add: op_result_def)
      have same: "await_message started timeout_ms c = await_message started timeout_ms e"
        using now op r by (subst await_message.simps) (auto simp: now_unix_millis_for_nats_def abind_app d_def)
      have fr: "frames xs = frames ys" using Cons Idle frames_dropWhile [of xs] by simp
      have "message_result ys (await_message started timeout_ms e) \<and>
          nc_clock (snd (await_message started timeout_ms e)) = nc_clock e"
        by (rule "1.IH" [rule_format, OF short(1) e])
          (use short(2) "1.prems"(2,3,4) clock in auto)
      then show ?thesis using same fr clock short
        by (auto simp: message_result_def split: list.splits) (metis less_trans order_trans)
    qed
  qed
qed

lemma collect_served:
  assumes "serving c (served_all xs)" and "\<forall>x \<in> set xs. served_ok x" and "1000 \<le> unat timeout_ms"
    and "started = nc_clock c j"
  shows "fst (collect_messages n started timeout_ms c) = Inr (take n (frames xs))"
  using assms
proof (induction n arbitrary: xs c)
  case 0
  then show ?case by simp
next
  case (Suc n)
  define d where "d = c\<lparr>nc_readings := nc_readings c + 2\<rparr>"
  have d: "serving d (served_all xs)" using Suc.prems by (simp add: serving_def d_def)
  have now: "\<not> timeout_ms < saturating_sub (nc_clock c (nc_readings c)) started"
    using Suc.prems in_time by (simp add: serving_def)
  have m: "max timeout_ms 1 = timeout_ms" using Suc.prems(3) by (simp add: max_def word_le_nat_alt)
  obtain r e where a: "await_message (nc_clock c (nc_readings c + 1)) timeout_ms d = (r, e)" by force
  then have res: "message_result xs (r, e)" and clock: "nc_clock e = nc_clock c"
    using await_served [OF d Suc.prems(2,3), of "nc_clock c (nc_readings c + 1)" "nc_readings c + 1"]
    by (simp_all add: d_def)
  have rm: "read_message_for timeout_ms (c\<lparr>nc_readings := Suc (nc_readings c)\<rparr>) = (r, e)"
    using a m by (simp add: read_message_for_def now_unix_millis_for_nats_def abind_app d_def numeral_2_eq_2)
  show ?case
  proof (cases "frames xs")
    case Nil
    with res rm now show ?thesis
      by (simp add: now_unix_millis_for_nats_def abind_app message_result_def)
  next
    case (Cons x ms)
    with res obtain ys where r: "r = Inr (Some x)" and ys: "frames ys = ms" "set ys \<subseteq> set xs"
      and e: "serving e (served_all ys)" by (auto simp: message_result_def)
    have "\<not> no_message_status x"
    proof -
      have "x \<in> set (frames xs)" using Cons by simp
      from frames_member [OF this] have "plain_message x" using Suc.prems(2) by (auto simp: served_ok_def)
      then show ?thesis by (simp add: plain_message_def no_message_status_def)
    qed
    moreover have "fst (collect_messages n started timeout_ms e) = Inr (take n ms)"
      using Suc.IH [OF e] Suc.prems ys clock by auto
    ultimately show ?thesis using rm now r Cons
      by (cases "collect_messages n started timeout_ms e")
        (simp add: now_unix_millis_for_nats_def abind_app)
  qed
qed

section \<open>A pull\<close>

lemma connect_served:
  assumes "serving c (wire_line info @ wire_line ''PONG'' @ served_all xs)" and "short_line info"
    and "prefix ''INFO '' info"
  shows "\<exists>d. nats_connect c = (Inr (), d) \<and> serving d (served_all xs)"
proof -
  define d where "d = c\<lparr>nc_in := served_all (Idle ''PONG'' # xs)\<rparr>"
  have r: "nats_read_line c = (Inr info, d)"
    unfolding d_def using assms by (intro read_wire_line) (auto simp: serving_def)
  define e where "e = d\<lparr>nc_out := nc_out d @ as_bytes (connect_line @ crlf @ ''PING'' @ crlf)\<rparr>"
  define f where "f = e\<lparr>nc_out := nc_out e @ as_bytes (''PING'' @ crlf)\<rparr>"
  have d: "steady d" and e: "steady e" using assms(1) by (simp_all add: serving_def d_def e_def)
  have f: "serving f (served_all (Idle ''PONG'' # xs))" using d by (simp add: serving_def f_def e_def d_def)
  define g where "g = f\<lparr>nc_in := served_all xs\<rparr>"
  have "nats_read_line f = (Inr ''PONG'', g)"
    unfolding g_def using f by (intro read_wire_line idle_short) (simp_all add: serving_def idle_line_def)
  then have "nats_read_op f = (Inr Pong, g)" by (subst nats_read_op.simps) (simp add: abind_app)
  then have "await_pong f = (Inr (), g)" by (subst await_pong.simps) (simp add: abind_app)
  then have "nats_connect c = (Inr (), g)"
    using r assms(3) steady_write [OF d] steady_write [OF e]
    by (simp add: nats_connect_def nats_flush_def abind_app e_def f_def)
  moreover have "serving g (served_all xs)" using f by (simp add: serving_def g_def)
  ultimately show ?thesis by blast
qed

text \<open>Writes leave the input and the clock as they are.\<close>

definition only_writes :: "unit nats \<Rightarrow> bool" where
  "only_writes m \<longleftrightarrow> (\<forall>c b. serving c b \<longrightarrow> (\<exists>d. m c = (Inr (), d) \<and> serving d b))"

lemma only_writes_write: "only_writes (nats_write_all x)"
  by (auto simp: only_writes_def serving_def steady_write)

lemma only_writes_bind: "only_writes m \<Longrightarrow> only_writes k \<Longrightarrow> only_writes (abind m (\<lambda>_. k))"
  unfolding only_writes_def abind_app by (metis (no_types, lifting) prod.case sum.case(2))

lemma exchange_served: "only_writes (nats_exchange inbox subject payload)"
  unfolding nats_exchange_def nats_subscribe_def nats_publish_with_reply_def nats_publish_frame_def nats_flush_def
  by (intro only_writes_bind only_writes_write)

lemma request_served:
  assumes "nn_dial net k = Some c"
    and "serving c (wire_line info @ wire_line ''PONG'' @ served_all xs)" and "short_line info"
    and "prefix ''INFO '' info" and "\<forall>x \<in> set xs. served_ok x" and "1000 \<le> unat timeout_ms"
  shows "nats_request net k subject payload n timeout_ms = Inr (take (max n 1) (frames xs))"
proof -
  obtain d where d: "nats_connect c = (Inr (), d)" "serving d (served_all xs)"
    using connect_served [OF assms(2-4)] by blast
  obtain e where e: "nats_exchange (nats_inbox ''req'' (nn_pid net) (nn_nanos net k)) subject payload d = (Inr (), e)"
    "serving e (served_all xs)" using exchange_served d(2) unfolding only_writes_def by blast
  define f where "f = e\<lparr>nc_readings := nc_readings e + 1\<rparr>"
  have f: "serving f (served_all xs)" using e by (simp add: serving_def f_def)
  have m: "max timeout_ms 1 = timeout_ms" using assms(6) by (simp add: max_def word_le_nat_alt)
  have "fst (collect_messages (max n 1) (nc_clock e (nc_readings e)) timeout_ms f) = Inr (take (max n 1) (frames xs))"
    by (rule collect_served [OF f assms(5,6), of _ "nc_readings e"]) (simp add: f_def)
  then have "fst (read_messages_for (max n 1) timeout_ms e) = Inr (take (max n 1) (frames xs))"
    using m by (simp add: read_messages_for_def now_unix_millis_for_nats_def abind_app f_def)
  then show ?thesis
    by (simp add: nats_request_def nats_session_def assms(1) d(1) e(1) abind_app)
qed

lemma pull_served:
  assumes "nn_dial net k = Some c"
    and "serving c (wire_line info @ wire_line ''PONG'' @ served_all xs)" and "short_line info"
    and "prefix ''INFO '' info" and "\<forall>x \<in> set xs. served_ok x"
  shows "nats_jetstream_pull net k stream durable batch expires_ms =
    Inr (filter (\<lambda>m. nm_payload m \<noteq> []) (take (max batch 1) (frames xs)))"
proof -
  let ?t = "max (saturating_u64 (unat expires_ms + 1000)) 2000"
  have t: "1000 \<le> unat ?t" by (simp add: max_def word_le_nat_alt)
  have ok: "\<not> no_message_status m" if "m \<in> set (frames xs)" for m
  proof -
    from frames_member [OF that] assms(5) show ?thesis by (auto simp: served_ok_def plain_message_def no_message_status_def)
  qed
  have "filter (\<lambda>m. \<not> no_message_status m) (take (max batch 1) (frames xs)) = take (max batch 1) (frames xs)"
    by (rule filter_True) (auto dest: in_set_takeD ok)
  moreover have "max (max batch 1) 1 = max batch (1 :: nat)" by simp
  ultimately show ?thesis
    unfolding nats_jetstream_pull_def request_served [OF assms t] by (simp del: filter_filter)
qed

text \<open>C25: A pull returns what the server put into its frames, in their order and up to the size of the
  batch: whatever bytes the payloads are, and whatever lines without a message (acknowledgements,
  pings, pongs) stand between them.  Only messages with an empty payload are left out.  The server
  greets, answers the ping, and serves within a second.\<close>

theorem pull_returns_frames:
  assumes "nn_dial net k = Some c"
    and "serving c (wire_line info @ wire_line ''PONG'' @ served_all xs)" and "short_line info"
    and "prefix ''INFO '' info" and "\<forall>x \<in> set xs. served_ok x"
  shows "nats_jetstream_pull net k stream durable batch expires_ms =
    Inr (filter (\<lambda>m. nm_payload m \<noteq> []) (take (max batch 1) (frames xs)))"
  using assms by (rule pull_served)

definition sample_frame :: nats_message where
  "sample_frame = \<lparr>nm_subject = ''a.p0'', nm_reply_to = Some ''ack.1'', nm_payload = [77, 13, 10], nm_status = None\<rparr>"

definition sample_connection :: "bytes \<Rightarrow> nats_connection" where
  "sample_connection b = \<lparr>nc_in = b, nc_quiet = True, nc_writes = [], nc_clock = (\<lambda>_. 0), nc_readings = 0,
     nc_late = False, nc_out = []\<rparr>"

definition sample_net :: "bytes \<Rightarrow> nats_net" where
  "sample_net b = \<lparr>nn_pid = 7, nn_nanos = (\<lambda>_. 0), nn_dial = (\<lambda>_. Some (sample_connection b))\<rparr>"

lemma sample_serving: "serving (sample_connection b) b"
  unfolding serving_def steady_def sample_connection_def by auto

lemma sample_frame_ok: "plain_message sample_frame"
  by (simp add: plain_message_def sample_frame_def plain_word_def graphic_def msg_line_def msg_words_def
      dec_string.simps digit_char_def)

theorem pull_returns_frames_witness:
  "nats_jetstream_pull (sample_net (wire_line ''INFO {}'' @ wire_line ''PONG'' @
       served_all [Idle ''+OK'', Frame sample_frame, Idle ''PING''])) 0 ''S'' ''d'' 10 1000 = Inr [sample_frame]"
  using pull_returns_frames [of "sample_net (wire_line ''INFO {}'' @ wire_line ''PONG'' @
       served_all [Idle ''+OK'', Frame sample_frame, Idle ''PING''])" 0 _ "''INFO {}''"
     "[Idle ''+OK'', Frame sample_frame, Idle ''PING'']" "''S''" "''d''" 10 1000, OF _ sample_serving]
  by (simp add: sample_net_def short_line_def graphic_def served_ok_def idle_line_def sample_frame_ok)
    (simp add: sample_frame_def)

end
