(* ===== verification/Relay_Mirror.thy ===== *)
theory Relay_Mirror
  imports Relay Nats_Frames
begin

text \<open>
  A relay that follows the stream answers as its source does: whatever the order in which messages
  come, however often they are redelivered, whichever of them are lost and repaired, and whatever
  fails in between.

  What is asked of the outside: a message of the stream, a mutation of a delta bundle, is one of the source, and a
  snapshot has the source's number of shards.
\<close>

section \<open>What the relay is told\<close>

definition honest_upstream :: "source \<Rightarrow> (string \<Rightarrow> http_response res) \<Rightarrow> bool" where
  "honest_upstream src get \<longleftrightarrow>
     (\<forall>path response. get path = Inr response \<and> hr_status_code response = 200 \<longrightarrow>
        (\<forall>ms. decode_mutation_stream (hr_body response) = Inr ms \<longrightarrow> set ms \<subseteq> set (so_mutations src)) \<and>
        (\<forall>sn. decode_snapshot (hr_body response) = Inr sn \<longrightarrow>
           length (sn_watermarks sn) = unat (so_shard_count src)))"

definition honest_message :: "source \<Rightarrow> nats_message \<Rightarrow> bool" where
  "honest_message src message \<longleftrightarrow>
     (\<forall>m. decode_mutation (nm_payload message) = Inr m \<longrightarrow> m \<in> set (so_mutations src))"

definition honest_env :: "source \<Rightarrow> relay_env \<Rightarrow> bool" where
  "honest_env src e \<longleftrightarrow> (\<forall>k. honest_upstream src (rv_get e k)) \<and>
     (\<forall>stream durable batch messages.
        nats_jetstream_pull (rv_nats e) 0 stream durable batch 1000 = Inr messages \<longrightarrow>
        (\<forall>message \<in> set messages. honest_message src message))"

section \<open>Every operation keeps the mirror\<close>

definition mirror_step :: "source \<Rightarrow> jetstream_source \<Rightarrow> jetstream_source \<Rightarrow> bool" where
  "mirror_step src s t \<longleftrightarrow> (mirrors src (jt_cache s) \<longrightarrow> mirrors src (jt_cache t))"

interpretation mirror: progress "mirror_step src" for src
  by unfold_locales (auto simp: mirror_step_def)

lemma lifted_mirror:
  "(\<And>x. r = Inr x \<Longrightarrow> moves (mirror_step src) (f x)) \<Longrightarrow> moves (mirror_step src) (abind (lift_res r) f)"
  by (cases r) (auto intro: mirror.intros simp: moves_def abind_app mirror_step_def)

lemma looped_mirror:
  "(\<And>x. x \<in> set xs \<Longrightarrow> moves (mirror_step src) (f x)) \<Longrightarrow> moves (mirror_step src) (afor f xs)"
  by (induction xs) (auto intro: mirror.intros)

lemma logged_mirror: "moves (mirror_step src) m \<Longrightarrow> moves (mirror_step src) (logged m)"
  unfolding logged_def by (intro mirror.intros) (simp_all add: mirror.intros)

lemma status_mirror: "moves (mirror_step src) (on_status f)"
  by (simp add: moves_def on_status_def mirror_step_def)

lemma apply_to_cache_mirror:
  "m \<in> set (so_mutations src) \<Longrightarrow> moves (mirror_step src) (apply_to_cache m)"
  by (auto simp: moves_def mirror_step_def apply_to_cache_def intro: mirrors_apply split: sum.splits)

lemma rebuild_mirror:
  assumes "honest_upstream src get"
  shows "moves (mirror_step src) (rebuild_cache_from_snapshot get)"
  unfolding rebuild_cache_from_snapshot_def
proof (intro lifted_mirror)
  fix response
  assume response: "get ''/v1/snapshot'' = Inr response"
  show "moves (mirror_step src) (if hr_status_code response \<noteq> 200 then raise InvalidData
      else abind (lift_res (decode_snapshot (hr_body response)))
        (\<lambda>sn. modify (\<lambda>s. s\<lparr>jt_cache := relay_cache_new (sn_watermarks sn)\<rparr>)))"
  proof (cases "hr_status_code response = 200")
    case True
    with assms response have "decode_snapshot (hr_body response) = Inr sn \<Longrightarrow>
        length (sn_watermarks sn) = unat (so_shard_count src)" for sn
      unfolding honest_upstream_def by blast
    then have "moves (mirror_step src) (abind (lift_res (decode_snapshot (hr_body response)))
        (\<lambda>sn. modify (\<lambda>s. s\<lparr>jt_cache := relay_cache_new (sn_watermarks sn)\<rparr>)))"
      by (intro lifted_mirror mirror.modified) (simp add: mirror_step_def mirrors_new)
    with True show ?thesis by simp
  next
    case False
    then show ?thesis by (simp add: mirror.intros)
  qed
qed

lemma relay_repair_mirror:
  assumes "honest_upstream src get"
  shows "moves (mirror_step src) (relay_repair_gap get shard_id from_seq to_seq)"
  unfolding relay_repair_gap_def
proof (intro lifted_mirror)
  fix response
  assume response: "get (delta_bundle_query shard_id from_seq to_seq) = Inr response"
  show "moves (mirror_step src) (if hr_status_code response \<noteq> 200 then rebuild_cache_from_snapshot get
      else abind (lift_res (decode_mutation_stream (hr_body response)))
        (\<lambda>ms. afor (\<lambda>m. abind (apply_to_cache m) (\<lambda>_. ret ())) ms))"
  proof (cases "hr_status_code response = 200")
    case True
    with assms response have "decode_mutation_stream (hr_body response) = Inr ms \<Longrightarrow>
        m \<in> set ms \<Longrightarrow> m \<in> set (so_mutations src)" for ms m
      unfolding honest_upstream_def by blast
    then have "moves (mirror_step src) (abind (lift_res (decode_mutation_stream (hr_body response)))
        (\<lambda>ms. afor (\<lambda>m. abind (apply_to_cache m) (\<lambda>_. ret ())) ms))"
      by (intro lifted_mirror looped_mirror mirror.bound apply_to_cache_mirror mirror.pure)
    with True show ?thesis by simp
  next
    case False
    then show ?thesis by (simp add: rebuild_mirror [OF assms])
  qed
qed

lemma apply_or_repair_mirror:
  assumes "honest_upstream src get" and "m \<in> set (so_mutations src)"
  shows "moves (mirror_step src) (apply_or_repair get m)"
  unfolding apply_or_repair_def
proof (rule mirror.bound [OF mirror.attempted [OF apply_to_cache_mirror [OF assms(2)]]])
  fix r
  show "moves (mirror_step src) (case r of
       Inr applied \<Rightarrow> ret applied
     | Inl (Gap shard_id expected_seq received_seq) \<Rightarrow>
         abind (relay_repair_gap get shard_id (saturating_sub expected_seq 1) received_seq) (\<lambda>_.
         abind (on_status (\<lambda>t. t\<lparr>js_gap_repairs := js_gap_repairs t + 1\<rparr>)) (\<lambda>_. apply_to_cache m))
     | Inl e \<Rightarrow> raise e)"
    using relay_repair_mirror [OF assms(1)] status_mirror apply_to_cache_mirror [OF assms(2)]
    by (auto intro!: mirror.bound mirror.pure split: sum.split gerror.split)
qed

lemma pull_message_mirror:
  assumes "honest_upstream src (rv_get e k)" and "honest_message src message"
  shows "moves (mirror_step src) (pull_message e (k, message))"
  unfolding pull_message_def prod.case
proof (intro lifted_mirror mirror.bound status_mirror)
  fix m
  assume "decode_mutation (nm_payload message) = Inr m"
  with assms(2) have "m \<in> set (so_mutations src)" by (simp add: honest_message_def)
  with assms(1) show "moves (mirror_step src) (apply_or_repair (rv_get e k) m)" by (rule apply_or_repair_mirror)
  show "moves (mirror_step src) (case nm_reply_to message of None \<Rightarrow> ret ()
      | Some reply_to \<Rightarrow> lift_res (nats_ack (rv_nats e) (k + 1) reply_to))"
    by (simp add: mirror.pure split: option.split)
qed

lemma source_lag_mirror: "moves (mirror_step src) (refresh_source_lag w get)"
  unfolding refresh_source_lag_def
  by (intro lifted_mirror) (auto intro!: mirror.intros lifted_mirror status_mirror split: prod.split)

lemma consumer_lag_mirror: "moves (mirror_step src) (refresh_consumer_lag net)"
  unfolding refresh_consumer_lag_def by (intro mirror.bound mirror.pure lifted_mirror status_mirror)

lemma pull_once_mirror:
  assumes "honest_env src e"
  shows "moves (mirror_step src) (pull_once w e)"
proof -
  have "moves (mirror_step src) (abind (lift_res (nats_jetstream_pull (rv_nats e) 0 stream durable batch 1000))
      (\<lambda>messages. abind (afor (pull_message e) (enumerate 0 messages)) (\<lambda>_.
         abind (on_status (\<lambda>t. if messages = [] then t else t\<lparr>js_last_pull_unix := rv_now e 0\<rparr>)) (\<lambda>_.
         abind (logged (refresh_source_lag w (rv_get e (length messages)))) (\<lambda>_. ret (length messages))))))"
    for stream durable batch
  proof (intro lifted_mirror mirror.bound status_mirror logged_mirror source_lag_mirror mirror.pure looped_mirror)
    fix messages x
    assume pulled: "nats_jetstream_pull (rv_nats e) 0 stream durable batch 1000 = Inr messages"
      and "x \<in> set (enumerate 0 messages)"
    then obtain k message where x: "x = (k, message)" and "message \<in> set messages"
      by (cases x) (auto simp: in_set_enumerate_eq)
    with assms pulled have "honest_message src message" and "honest_upstream src (rv_get e k)"
      unfolding honest_env_def by blast+
    then show "moves (mirror_step src) (pull_message e x)" unfolding x by (intro pull_message_mirror)
  qed
  then show ?thesis unfolding pull_once_def moves_def by (simp add: abind_app)
qed

lemma pull_turn_mirror: "honest_env src e \<Longrightarrow> moves (mirror_step src) (jetstream_pull_turn w e)"
  unfolding jetstream_pull_turn_def
  by (intro mirror.bound mirror.attempted pull_once_mirror)
    (auto intro: mirror.pure status_mirror split: sum.split)

lemma health_mirror: "moves (mirror_step src) (jetstream_health w e)"
  unfolding jetstream_health_def Let_def
  by (intro mirror.bound mirror.pure logged_mirror source_lag_mirror consumer_lag_mirror)

section \<open>Runs\<close>

text \<open>What a relay goes through after its start: turns of the pulling loop, with whatever they meet, and
  questions about its health.\<close>

inductive follows :: "source \<Rightarrow> jetstream_source \<Rightarrow> bool" for src where
  follows_start: "jt_cache s = relay_cache_new ws \<Longrightarrow> length ws = unat (so_shard_count src) \<Longrightarrow> follows src s"
| follows_pull: "follows src s \<Longrightarrow> honest_env src e \<Longrightarrow> follows src (snd (jetstream_pull_turn w e s))"
| follows_health: "follows src s \<Longrightarrow> follows src (snd (jetstream_health w e s))"

lemma follows_mirrors: "follows src s \<Longrightarrow> mirrors src (jt_cache s)"
proof (induction rule: follows.induct)
  case (follows_start s ws)
  then show ?case by (simp add: mirrors_new)
next
  case (follows_pull s e w)
  with pull_turn_mirror [of src e w] show ?case by (simp add: moves_def mirror_step_def)
next
  case (follows_health s w e)
  with health_mirror [of src w e] show ?case by (simp add: moves_def mirror_step_def)
qed

lemma mirror_answer:
  assumes "source_ok src" and "mirrors src c" and "i < so_shard_count src"
  shows "relay_mutations_for_shard c i from_seq None =
    Inr (if from_seq < rl_base_watermarks c ! unat i then None
         else Some (filter (\<lambda>m. mu_seq m \<le> rl_watermarks c ! unat i) (source_mutations_for_shard src i from_seq)))"
proof -
  have l: "length (rl_watermarks c) = unat (so_shard_count src)"
    "length (rl_base_watermarks c) = length (rl_watermarks c)"
    "length (rl_mutations c) = max (length (rl_watermarks c)) 1"
    using assms(2) by (simp_all add: mirrors_def relay_cache_ok_def)
  have i: "unat i < unat (so_shard_count src)" using assms(3) by (simp add: word_less_nat_alt)
  show ?thesis
    using l i mirror_part [OF assms, of from_seq] by (auto simp: relay_mutations_for_shard_def Let_def)
qed


section \<open>Plain query strings\<close>

lemma percent_loop_plain:
  assumes "\<forall>c \<in> set v. c \<noteq> CHR ''+'' \<and> c \<noteq> CHR ''%''"
  shows "i \<le> length v \<Longrightarrow> percent_loop v i out = Inr (out @ as_bytes (drop i v))"
proof (induction "length v - i" arbitrary: i out)
  case 0
  then show ?case by (simp add: percent_loop.simps as_bytes_def)
next
  case (Suc n)
  then have i: "i < length v" by simp
  then have d: "drop i v = v ! i # drop (i + 1) v" by (simp add: Cons_nth_drop_Suc)
  have "v ! i \<noteq> CHR ''+''" "v ! i \<noteq> CHR ''%''" using assms i by auto
  with i Suc show ?case
    by (subst percent_loop.simps) (simp add: d as_bytes_def)
qed

lemma lossy_valid: "utf8_valid bs \<Longrightarrow> from_utf8_lossy bs = str_of_bytes bs"
proof (induction bs rule: utf8_valid.induct)
  case (1 bs)
  show ?case
  proof (cases "bs = []")
    case True
    then show ?thesis by (simp add: from_utf8_lossy.simps str_of_bytes_def)
  next
    case False
    with "1.prems" have w: "utf8_width bs \<noteq> 0" "utf8_valid (drop (utf8_width bs) bs)"
      by (simp_all add: utf8_valid.simps [of bs] split: if_splits)
    with "1.IH" False have "from_utf8_lossy (drop (utf8_width bs) bs) = str_of_bytes (drop (utf8_width bs) bs)" by blast
    with w False show ?thesis
      by (subst from_utf8_lossy.simps) (simp add: str_of_bytes_def flip: map_append)
  qed
qed

lemma percent_decode_plain:
  "\<forall>c \<in> set v. c \<noteq> CHR ''+'' \<and> c \<noteq> CHR ''%'' \<and> of_char c < (128 :: nat) \<Longrightarrow> percent_decode v = Inr v"
  using str_ok_ascii [of v] by (simp add: percent_decode_def percent_loop_plain lossy_valid str_ok_def)

section \<open>A run\<close>

definition relay_sample_source :: source where
  "relay_sample_source = fst (case apply_replicated_mutation sample_wire_mutation (source_new 4 ''eu'') of
     Inr r \<Rightarrow> r | Inl _ \<Rightarrow> (source_new 4 ''eu'', DuplicateOrOld))"

definition relay_sample_frame :: nats_message where
  "relay_sample_frame = \<lparr>nm_subject = ''globacl.p0.shard.1'', nm_reply_to = Some ''ack.1'',
     nm_payload = encode_mutation sample_wire_mutation, nm_status = None\<rparr>"

definition relay_sample_env :: relay_env where
  "relay_sample_env = \<lparr>rv_nats = sample_net (wire_line ''INFO {}'' @ wire_line ''PONG'' @
       served_all [Frame relay_sample_frame]), rv_get = (\<lambda>_ _. Inl Io), rv_post = (\<lambda>_. Inl Io), rv_now = (\<lambda>_. 5)\<rparr>"

definition relay_sample_start :: jetstream_source where
  "relay_sample_start = \<lparr>jt_bootstrap_addr = ''c'', jt_nats_addr = ''n'', jt_stream = ''G'', jt_durable = ''r'',
     jt_batch = 8, jt_signature_signer = \<lparr>ss_key_id = ''k'', ss_key_version = 1, ss_provider = ExternalCommand ''s''\<rparr>,
     jt_cache = relay_cache_new (replicate 4 0), jt_status = jetstream_status_new\<rparr>"

lemma sample_applied:
  "apply_replicated_mutation sample_wire_mutation (source_new 4 ''eu'') = Inr (relay_sample_source, Applied)"
  "so_mutations relay_sample_source = [sample_wire_mutation]" "so_shard_count relay_sample_source = 4"
  by (simp_all add: relay_sample_source_def apply_replicated_mutation_def sample_wire_mutation_def source_new_def
      apply_committed_mutation_def record_mutation_def apply_content_def push_mutation_def sample_wire_entry_def Let_def
      word_le_nat_alt)

lemma sample_frame_plain: "plain_message relay_sample_frame"
proof -
  have l: "length (nm_payload relay_sample_frame) < 1000"
    by (simp add: relay_sample_frame_def encode_mutation_def sample_wire_mutation_def encode_entry_def
        write_string_def sample_wire_entry_def)
  have "length (dec_string n) \<le> Suc n" for n
  proof (induction n rule: dec_string.induct)
    case (1 n)
    show ?case
    proof (cases "n < 10")
      case False
      with 1 have "length (dec_string (n div 10)) \<le> Suc (n div 10)" by simp
      with False show ?thesis by (subst dec_string.simps) simp
    qed (simp add: dec_string.simps)
  qed
  from this [of "length (nm_payload relay_sample_frame)"] l show ?thesis
    by (simp add: plain_message_def plain_word_def graphic_def msg_line_def msg_words_def)
      (simp add: relay_sample_frame_def)
qed

lemma sample_pulled:
  "nats_jetstream_pull (rv_nats relay_sample_env) 0 stream durable 8 1000 = Inr [relay_sample_frame]"
  "nats_jetstream_pull (rv_nats relay_sample_env) 0 stream durable batch 1000 = Inr messages \<Longrightarrow>
     set messages \<subseteq> {relay_sample_frame}"
proof -
  have info: "short_line ''INFO {}''" "prefix ''INFO '' ''INFO {}''" by (simp_all add: short_line_def graphic_def)
  have ok: "\<forall>x \<in> set [Frame relay_sample_frame]. served_ok x" by (simp add: served_ok_def sample_frame_plain)
  have "nats_jetstream_pull (rv_nats relay_sample_env) 0 stream durable b 1000 =
      Inr (filter (\<lambda>m. nm_payload m \<noteq> []) (take (max b 1) [relay_sample_frame]))" for b
    using pull_served [OF _ sample_serving info ok, of "rv_nats relay_sample_env" 0 stream durable b 1000]
    by (simp add: relay_sample_env_def sample_net_def)
  moreover have "nm_payload relay_sample_frame \<noteq> []"
    by (simp add: relay_sample_frame_def encode_mutation_def MUTATION_MAGIC_def as_bytes_def)
  ultimately show "nats_jetstream_pull (rv_nats relay_sample_env) 0 stream durable 8 1000 = Inr [relay_sample_frame]"
    and "nats_jetstream_pull (rv_nats relay_sample_env) 0 stream durable batch 1000 = Inr messages \<Longrightarrow>
      set messages \<subseteq> {relay_sample_frame}"
    by (auto simp: max_def split: if_splits)
qed

lemma sample_decoded: "decode_mutation (nm_payload relay_sample_frame) = Inr sample_wire_mutation"
  using decode_encode_mutation sample_wire_record_ok by (simp add: relay_sample_frame_def wire_record_def)

lemma sample_honest: "honest_env relay_sample_source relay_sample_env"
  unfolding honest_env_def
proof (intro conjI allI impI ballI)
  show "honest_upstream relay_sample_source (rv_get relay_sample_env k)" for k
    by (simp add: honest_upstream_def relay_sample_env_def)
  fix stream durable batch messages message
  assume "nats_jetstream_pull (rv_nats relay_sample_env) 0 stream durable batch 1000 = Inr messages"
    and "message \<in> set messages"
  with sample_pulled(2) have "message = relay_sample_frame" by blast
  then show "honest_message relay_sample_source message"
    by (simp add: honest_message_def sample_decoded sample_applied)
qed

definition relay_sample_state :: jetstream_source where
  "relay_sample_state = snd (jetstream_pull_turn sample_world relay_sample_env relay_sample_start)"

lemma sample_follows: "follows relay_sample_source relay_sample_state"
  unfolding relay_sample_state_def
proof (intro follows_pull sample_honest, rule follows_start)
  show "jt_cache relay_sample_start = relay_cache_new (replicate 4 0)" by (simp add: relay_sample_start_def)
  show "length (replicate 4 0) = unat (so_shard_count relay_sample_source)" by (simp add: sample_applied)
qed

definition relay_sample_cache :: relay_cache where
  "relay_sample_cache = (relay_cache_new (replicate 4 0))\<lparr>rl_watermarks := [0, 1, 0, 0],
     rl_mutations := [[], [sample_wire_mutation], [], []]\<rparr>"

lemma sample_cached: "relay_cache_apply sample_wire_mutation (relay_cache_new (replicate 4 0)) =
    Inr (relay_sample_cache, True)"
proof -
  have "mu_shard sample_wire_mutation = 1" and "mu_seq sample_wire_mutation = 1"
    by (simp_all add: sample_wire_mutation_def)
  then show ?thesis
    by (simp add: relay_cache_apply_def relay_cache_new_def relay_sample_cache_def numeral_eq_Suc)
qed

lemma sample_cache: "jt_cache relay_sample_state = relay_sample_cache"
proof -
  have start: "jt_batch relay_sample_start = 8" "jt_cache relay_sample_start = relay_cache_new (replicate 4 0)"
    by (simp_all add: relay_sample_start_def)
  have get: "rv_get relay_sample_env k path = Inl Io" for k path by (simp add: relay_sample_env_def)
  have "apply_or_repair (rv_get relay_sample_env 0) sample_wire_mutation relay_sample_start =
      (Inr True, relay_sample_start\<lparr>jt_cache := relay_sample_cache\<rparr>)"
    by (simp add: apply_or_repair_def apply_to_cache_def abind_app start sample_cached)
  then have "jt_cache (snd (pull_message relay_sample_env (0, relay_sample_frame) relay_sample_start)) = relay_sample_cache"
    by (simp add: pull_message_def abind_app sample_decoded on_status_def split: option.split)
  then obtain r t where p: "pull_message relay_sample_env (0, relay_sample_frame) relay_sample_start = (r, t)"
    and t: "jt_cache t = relay_sample_cache" by (metis prod.collapse)
  show ?thesis
    unfolding relay_sample_state_def jetstream_pull_turn_def pull_once_def
    by (cases r) (simp_all add: abind_app start sample_pulled p t on_status_def logged_def refresh_source_lag_def get)
qed

lemma sample_path:
  "parse_query_path ''/v1/mutations?shard=1&from_seq=0'' =
     Inr (''/v1/mutations'', [(''shard'', ''1''), (''from_seq'', ''0'')])"
proof -
  have once: "split_once (CHR ''?'') ''/v1/mutations?shard=1&from_seq=0'' = Some (''/v1/mutations'', ''shard=1&from_seq=0'')"
    "split_once (CHR ''='') ''shard=1'' = Some (''shard'', ''1'')"
    "split_once (CHR ''='') ''from_seq=0'' = Some (''from_seq'', ''0'')"
    by (simp_all add: split_once_def)
  have pairs: "split_on (CHR ''&'') ''shard=1&from_seq=0'' = [''shard=1'', ''from_seq=0'']" by simp
  have plain: "percent_decode ''shard'' = Inr ''shard''" "percent_decode ''1'' = Inr ''1''"
    "percent_decode ''from_seq'' = Inr ''from_seq''" "percent_decode ''0'' = Inr ''0''"
    by (rule percent_decode_plain; simp)+
  show ?thesis
    unfolding parse_query_path_def once option.case prod.case Let_def pairs
    by (simp add: query_pair_def once plain) (simp add: hm_insert_def hm_new_def)
qed

lemma sample_query:
  "required_query_u16 [(''shard'', ''1''), (''from_seq'', ''0'')] ''shard'' = Inr 1"
  "env_parsed (first_field [(''shard'', ''1''), (''from_seq'', ''0'')] [''from_seq'', ''from'']) parse_query_u64 0 = Inr 0"
  "first_field [(''shard'', ''1''), (''from_seq'', ''0'')] [''delivery_priority'', ''channel''] = None"
  by (simp_all add: required_query_u16_def required_query_def parse_arg_u16_def hm_get_def env_parsed_def
      parse_query_u64_def parse_uint_def is_ascii_digit_def)


end
