(* ===== verification/Agent.thy ===== *)
theory Agent
  imports Edge_Properties Metrics
begin

text \<open>
  The agent (\<open>globacl-agent/src/app\<close>): it keeps the active state of an edge up to date with a relay and
  answers lookups from it.  It polls the mutations of every shard, repairs gaps from delta bundles or
  from a snapshot, acknowledges what it has applied, and keeps a snapshot of its state in a file.

  The answers of the relay, the readings of the clock and the outcomes of the writes are arguments.
  Within one poll every path is asked once; the answers to the acknowledgements are counted by the
  posts made so far.  Ed25519 is a parameter.  The estimate of the memory in use (\<open>estimated_bytes\<close>) depends on the layout of
  types and on spare capacities, and is a parameter too.
\<close>

section \<open>State\<close>

definition DELTA_COMPACT_THRESHOLD :: nat where
  "DELTA_COMPACT_THRESHOLD = 1024"

record agent_metrics =
  am_last_sync_unix :: u64
  am_last_successful_poll_unix :: u64
  am_applied_mutations :: u64
  am_repairs :: u64
  am_bundle_repairs :: u64
  am_snapshot_repairs :: u64
  am_last_canary_key :: string
  am_last_canary_seq :: u64
  am_last_canary_seen_unix :: u64

text \<open>The snapshot file and its signature file; a write that fails leaves the file as it was.\<close>

record agent_disk =
  gd_snapshot :: "bytes option"
  gd_signature :: "bytes option"
  gd_writes :: "bool list"

record agent_config =
  gc_relay_addr :: string
  gc_snapshot_path :: string
  gc_poll_interval_ms :: u64
  gc_agent_id :: string
  gc_stale_after_secs :: u64
  gc_signature_verifier :: signature_verifier

record agent =
  ag_agent_id :: string
  ag_relay_addr :: string
  ag_stale_after_secs :: u64
  ag_signature_verifier :: signature_verifier
  ag_state :: active_state
  ag_metrics :: agent_metrics
  ag_disk :: agent_disk
  ag_readings :: nat
  ag_posts :: "peer_post list"

record agent_env =
  ge_get :: "string \<Rightarrow> http_response res"
  ge_post :: "nat \<Rightarrow> http_response res"
  ge_now :: "nat \<Rightarrow> u64"
  ge_ed_verify :: ed_verify

type_synonym 'a agent_act = "(agent, 'a) act"

definition agent_now :: "agent_env \<Rightarrow> u64 agent_act" where
  "agent_now e = (\<lambda>a. (Inr (ge_now e (ag_readings a)), a\<lparr>ag_readings := ag_readings a + 1\<rparr>))"

definition on_metrics :: "(agent_metrics \<Rightarrow> agent_metrics) \<Rightarrow> unit agent_act" where
  "on_metrics f = modify (\<lambda>a. a\<lparr>ag_metrics := f (ag_metrics a)\<rparr>)"

definition write_snapshot_file :: "snapshot \<Rightarrow> (agent_disk, unit) act" where
  "write_snapshot_file sn = (\<lambda>d. case gd_writes d of
       False # ws \<Rightarrow> (Inl Io, d\<lparr>gd_writes := ws\<rparr>)
     | ws \<Rightarrow> (Inr (), d\<lparr>gd_writes := tl ws, gd_snapshot := Some (encode_snapshot sn)\<rparr>))"

definition on_agent_disk :: "(agent_disk, 'a) act \<Rightarrow> 'a agent_act" where
  "on_agent_disk m = (\<lambda>a. case m (ag_disk a) of (r, d) \<Rightarrow> (r, a\<lparr>ag_disk := d\<rparr>))"

section \<open>Signatures\<close>

definition verify_snapshot_signature ::
  "world \<Rightarrow> agent_env \<Rightarrow> signature_verifier \<Rightarrow> bytes \<Rightarrow> bytes \<Rightarrow> unit res" where
  "verify_snapshot_signature w e v payload signature_body =
     verify_payload_signature_with_verifier (json_body w) (ge_ed_verify e) v payload signature_body"

text \<open>A signature that is not there is not asked for.\<close>

definition verify_remote_payload_signature ::
  "world \<Rightarrow> agent_env \<Rightarrow> signature_verifier \<Rightarrow> string \<Rightarrow> bytes \<Rightarrow> unit res" where
  "verify_remote_payload_signature w e v path payload =
     rbind (ge_get e path) (\<lambda>response.
     if hr_status_code response \<noteq> 200 \<or> hr_body response = [] then Inr ()
     else verify_snapshot_signature w e v payload (hr_body response))"

definition verify_required_remote_payload_signature ::
  "world \<Rightarrow> agent_env \<Rightarrow> signature_verifier \<Rightarrow> string \<Rightarrow> bytes \<Rightarrow> unit res" where
  "verify_required_remote_payload_signature w e v path payload =
     rbind (ge_get e path) (\<lambda>response.
     if hr_status_code response \<noteq> 200 \<or> hr_body response = [] then Inl InvalidData
     else verify_snapshot_signature w e v payload (hr_body response))"

definition verify_local_snapshot ::
  "world \<Rightarrow> agent_env \<Rightarrow> signature_verifier \<Rightarrow> bytes \<Rightarrow> bytes option \<Rightarrow> unit res" where
  "verify_local_snapshot w e v payload signature = (case signature of
       None \<Rightarrow> Inr ()
     | Some s \<Rightarrow> verify_snapshot_signature w e v payload s)"

definition DEFAULT_SIGNATURE_PUBLIC_KEY :: string where
  "DEFAULT_SIGNATURE_PUBLIC_KEY = ''d75a980182b10ab7d54bfed3c964073a0ee172f3daa62325af021a68f707511a''"

definition signature_verifier_from_env :: "(string \<Rightarrow> string res) \<Rightarrow> env \<Rightarrow> signature_verifier res" where
  "signature_verifier_from_env read_text ev =
     rbind (env_parsed (hm_get ev ''GLOBACL_SIGNATURE_MIN_KEY_VERSION'') parse_env_u64 0) (\<lambda>min_key_version.
     rbind (env_text_or_file read_text ev ''GLOBACL_SIGNATURE_PUBLIC_KEYS'' ''GLOBACL_SIGNATURE_PUBLIC_KEYS_FILE'')
       (\<lambda>public_keys.
     rbind (case public_keys of Some t \<Rightarrow> parse_signature_public_keys t | None \<Rightarrow> Inr []) (\<lambda>keys.
     rbind (env_text_or_file read_text ev ''GLOBACL_SIGNATURE_PUBLIC_KEY'' ''GLOBACL_SIGNATURE_PUBLIC_KEY_FILE'')
       (\<lambda>explicit_public_key.
     if keys = [] \<or> explicit_public_key \<noteq> None then
       (let key_id = field_or ev ''GLOBACL_SIGNATURE_KEY_ID'' DEFAULT_SIGNATURE_KEY_ID in
        rbind (env_parsed (hm_get ev ''GLOBACL_SIGNATURE_KEY_VERSION'') parse_env_u64 DEFAULT_SIGNATURE_KEY_VERSION)
          (\<lambda>key_version.
        let public_key = (case explicit_public_key of Some k \<Rightarrow> k | None \<Rightarrow> DEFAULT_SIGNATURE_PUBLIC_KEY) in
        if list_ex (\<lambda>k. vk_key_id k = key_id) keys then Inl InvalidData
        else verifier_new (keys @ [\<lparr>vk_key_id = key_id, vk_key_version = key_version,
               vk_public_key_hex = trim public_key\<rparr>]) min_key_version))
     else verifier_new keys min_key_version))))"

section \<open>Snapshots\<close>

definition fetch_snapshot_from_manifest :: "world \<Rightarrow> agent_env \<Rightarrow> signature_verifier \<Rightarrow> snapshot res" where
  "fetch_snapshot_from_manifest w e v =
     rbind (ge_get e ''/v1/snapshot_manifest'') (\<lambda>manifest_response.
     if hr_status_code manifest_response \<noteq> 200 then Inl InvalidData
     else
       rbind (verify_required_remote_payload_signature w e v ''/v1/snapshot_manifest.sig'' (hr_body manifest_response)) (\<lambda>_.
       rbind (decode_snapshot_manifest (json_body w) (hr_body manifest_response)) (\<lambda>manifest.
       rbind (ge_get e (''/v1/snapshot_artifact?object='' @ sm_artifact_object manifest)) (\<lambda>artifact_response.
       if hr_status_code artifact_response \<noteq> 200 then Inl InvalidData
       else
         rbind (verify_required_remote_payload_signature w e v
             (''/v1/snapshot_artifact.sig?object='' @ sm_artifact_object manifest) (hr_body artifact_response)) (\<lambda>_.
         rbind (validate_artifact (wd_sha256 w) manifest (hr_body artifact_response)) (\<lambda>_.
         rbind (decode_snapshot (hr_body artifact_response)) (\<lambda>sn.
         rbind (validate_manifest_snapshot manifest sn) (\<lambda>_. Inr sn))))))))"

definition fetch_legacy_snapshot :: "world \<Rightarrow> agent_env \<Rightarrow> signature_verifier \<Rightarrow> snapshot res" where
  "fetch_legacy_snapshot w e v =
     rbind (ge_get e ''/v1/snapshot'') (\<lambda>response.
     if hr_status_code response \<noteq> 200 then Inl InvalidData
     else
       rbind (verify_remote_payload_signature w e v ''/v1/snapshot.sig'' (hr_body response)) (\<lambda>_.
         decode_snapshot (hr_body response)))"

definition fetch_snapshot :: "world \<Rightarrow> agent_env \<Rightarrow> signature_verifier \<Rightarrow> snapshot res" where
  "fetch_snapshot w e v = (case fetch_snapshot_from_manifest w e v of
       Inr sn \<Rightarrow> Inr sn
     | Inl _ \<Rightarrow> fetch_legacy_snapshot w e v)"

definition load_or_fetch_snapshot :: "world \<Rightarrow> agent_env \<Rightarrow> signature_verifier \<Rightarrow> (agent_disk, snapshot) act" where
  "load_or_fetch_snapshot w e v =
     abind (gets gd_snapshot) (\<lambda>found.
     case found of
       Some b \<Rightarrow>
         abind (gets gd_signature) (\<lambda>signature.
         abind (lift_res (verify_local_snapshot w e v b signature)) (\<lambda>_. lift_res (decode_snapshot b)))
     | None \<Rightarrow>
         abind (lift_res (fetch_snapshot w e v)) (\<lambda>sn.
         abind (write_snapshot_file sn) (\<lambda>_. ret sn)))"

definition agent_metrics_new :: "u64 \<Rightarrow> agent_metrics" where
  "agent_metrics_new started_at = \<lparr>am_last_sync_unix = started_at, am_last_successful_poll_unix = started_at,
     am_applied_mutations = 0, am_repairs = 0, am_bundle_repairs = 0, am_snapshot_repairs = 0,
     am_last_canary_key = [], am_last_canary_seq = 0, am_last_canary_seen_unix = 0\<rparr>"

definition build_app :: "world \<Rightarrow> agent_env \<Rightarrow> agent_config \<Rightarrow> (agent_disk, agent) act" where
  "build_app w e c =
     abind (load_or_fetch_snapshot w e (gc_signature_verifier c)) (\<lambda>sn.
     abind (lift_res (active_from_snapshot sn)) (\<lambda>state.
     gets (\<lambda>d. \<lparr>ag_agent_id = gc_agent_id c, ag_relay_addr = gc_relay_addr c,
       ag_stale_after_secs = gc_stale_after_secs c, ag_signature_verifier = gc_signature_verifier c,
       ag_state = state, ag_metrics = agent_metrics_new (ge_now e 0), ag_disk = d, ag_readings = 1, ag_posts = []\<rparr>)))"

section \<open>Acknowledgements and repairs\<close>

definition send_ack :: "world \<Rightarrow> agent_env \<Rightarrow> u16 \<Rightarrow> u64 \<Rightarrow> nat \<Rightarrow> unit agent_act" where
  "send_ack w e shard_id seq entries =
     abind (agent_now e) (\<lambda>now.
     abind (gets (\<lambda>a. length (ag_posts a))) (\<lambda>k.
     abind (modify (\<lambda>a. a\<lparr>ag_posts := ag_posts a @ [\<lparr>pp_addr = ag_relay_addr a, pp_route = ''/v1/ack'',
       pp_headers = [], pp_body = json_bytes w (pop_ack_json \<lparr>pa_agent_id = ag_agent_id a, pa_shard_id = shard_id,
         pa_seq = seq, pa_entries = entries, pa_applied_at_unix = now\<rparr>)\<rparr>]\<rparr>)) (\<lambda>_.
     abind (lift_res (ge_post e k)) (\<lambda>response.
     if hr_status_code response \<noteq> 200 then raise InvalidData else ret ()))))"

definition ack_targets :: "active_state \<Rightarrow> (u16 \<times> u64 \<times> nat) list" where
  "ack_targets state =
     map (\<lambda>(shard_id, seq). (word_of_nat shard_id, seq, active_entries_len state))
       (filter (\<lambda>(_, seq). 0 < seq) (enumerate 0 (as_watermarks state)))"

definition swap_state :: "active_state \<Rightarrow> unit agent_act" where
  "swap_state state = modify (\<lambda>a. a\<lparr>ag_state := state\<rparr>)"

definition repair_from_snapshot :: "world \<Rightarrow> agent_env \<Rightarrow> unit agent_act" where
  "repair_from_snapshot w e =
     abind (gets (\<lambda>a. fetch_snapshot w e (ag_signature_verifier a))) (\<lambda>fetched.
     abind (lift_res fetched) (\<lambda>sn.
     abind (on_agent_disk (write_snapshot_file sn)) (\<lambda>_.
     abind (lift_res (active_from_snapshot sn)) (\<lambda>state.
     abind (swap_state state) (\<lambda>_.
     abind (afor (\<lambda>(shard_id, seq, entries). send_ack w e shard_id seq entries) (ack_targets state)) (\<lambda>_.
     abind (agent_now e) (\<lambda>now.
       on_metrics (\<lambda>m. m\<lparr>am_last_sync_unix := now, am_last_successful_poll_unix := now,
         am_repairs := am_repairs m + 1, am_snapshot_repairs := am_snapshot_repairs m + 1\<rparr>))))))))"

definition compact_if_large :: "active_state \<Rightarrow> active_state res" where
  "compact_if_large state =
     (if DELTA_COMPACT_THRESHOLD \<le> delta_entries_len state then compact_delta_overlay state else Inr state)"

text \<open>The snapshot is written before the state is swapped.\<close>

definition install_state :: "active_state \<Rightarrow> unit agent_act" where
  "install_state state =
     abind (lift_res (active_snapshot state)) (\<lambda>sn.
     abind (on_agent_disk (write_snapshot_file sn)) (\<lambda>_. swap_state state))"

definition bundle_range :: "u16 \<Rightarrow> u64 \<Rightarrow> u64 \<Rightarrow> string" where
  "bundle_range shard_id from_seq to_seq =
     ''?shard='' @ dec_string (unat shard_id) @ ''&from_seq='' @ dec_string (unat from_seq) @
     ''&to_seq='' @ dec_string (unat to_seq)"

definition install_bundle :: "world \<Rightarrow> agent_env \<Rightarrow> u16 \<Rightarrow> mutation list \<Rightarrow> unit agent_act" where
  "install_bundle w e shard_id ms =
     abind (gets ag_state) (\<lambda>current.
     abind (lift_res (apply_stream active_apply_mutation ms current)) (\<lambda>state.
     abind (lift_res (compact_if_large state)) (\<lambda>state.
     abind (lift_res (vec_index (as_watermarks state) (unat shard_id))) (\<lambda>seq.
     abind (install_state state) (\<lambda>_.
     abind (send_ack w e shard_id seq (active_entries_len state)) (\<lambda>_.
     abind (agent_now e) (\<lambda>now.
       on_metrics (\<lambda>m. m\<lparr>am_last_sync_unix := now, am_last_successful_poll_unix := now,
         am_repairs := am_repairs m + 1, am_bundle_repairs := am_bundle_repairs m + 1\<rparr>))))))))"

definition agent_repair_gap :: "world \<Rightarrow> agent_env \<Rightarrow> u16 \<Rightarrow> u64 \<Rightarrow> u64 \<Rightarrow> unit agent_act" where
  "agent_repair_gap w e shard_id from_seq to_seq =
     (if from_seq \<le> to_seq then
        abind (lift_res (ge_get e (''/v1/delta_bundle'' @ bundle_range shard_id from_seq to_seq))) (\<lambda>response.
        if hr_status_code response = 200 then
          abind (gets ag_signature_verifier) (\<lambda>v.
          abind (lift_res (verify_remote_payload_signature w e v
              (''/v1/delta_bundle.sig'' @ bundle_range shard_id from_seq to_seq) (hr_body response))) (\<lambda>_.
          abind (lift_res (decode_mutation_stream (hr_body response))) (\<lambda>ms.
          if ms \<noteq> [] then install_bundle w e shard_id ms else repair_from_snapshot w e)))
        else repair_from_snapshot w e)
      else repair_from_snapshot w e)"

section \<open>Polling\<close>

definition agent_fetch_watermarks :: "world \<Rightarrow> agent_env \<Rightarrow> u64 list res" where
  "agent_fetch_watermarks w e =
     rbind (ge_get e ''/v1/watermarks'') (\<lambda>response.
     if hr_status_code response \<noteq> 200 then Inl InvalidData
     else parse_watermarks (json_body w) (hr_body response))"

definition apply_polled :: "mutation list \<Rightarrow> active_state \<Rightarrow> (active_state \<times> u64) res" where
  "apply_polled ms state =
     rfold (\<lambda>m (s, applied). rbind (active_apply_mutation m s) (\<lambda>(s', status).
       Inr (s', if status = Applied then applied + 1 else applied))) ms (state, 0)"

text \<open>Whether the poll goes on; it ends early after a repair.\<close>

definition install_polled :: "world \<Rightarrow> agent_env \<Rightarrow> u16 \<Rightarrow> mutation list \<Rightarrow> bool agent_act" where
  "install_polled w e shard_id ms =
     abind (gets ag_state) (\<lambda>current.
     case apply_polled ms current of
       Inl (Gap shard expected_seq received_seq) \<Rightarrow>
         abind (agent_repair_gap w e shard (saturating_sub expected_seq 1) (saturating_sub received_seq 1)) (\<lambda>_.
           ret False)
     | Inl err \<Rightarrow> raise err
     | Inr (state, applied) \<Rightarrow>
         abind (lift_res (compact_if_large state)) (\<lambda>state.
         abind (lift_res (vec_index (as_watermarks state) (unat shard_id))) (\<lambda>ack_seq.
         abind (install_state state) (\<lambda>_.
         abind (agent_now e) (\<lambda>now.
         abind (on_metrics (\<lambda>m. m\<lparr>am_last_sync_unix := now,
           am_applied_mutations := am_applied_mutations m + applied\<rparr>)) (\<lambda>_.
         abind (send_ack w e shard_id ack_seq (active_entries_len state)) (\<lambda>_. ret True)))))))"

definition position_query :: "u16 \<Rightarrow> u64 \<Rightarrow> string" where
  "position_query shard_id from_seq =
     ''?shard='' @ dec_string (unat shard_id) @ ''&from_seq='' @ dec_string (unat from_seq)"

definition poll_shard :: "world \<Rightarrow> agent_env \<Rightarrow> u64 list option \<Rightarrow> u16 \<Rightarrow> bool agent_act" where
  "poll_shard w e remote_watermarks shard_id =
     abind (gets (\<lambda>a. vec_index (as_watermarks (ag_state a)) (unat shard_id))) (\<lambda>position.
     abind (lift_res position) (\<lambda>from_seq.
     if (case remote_watermarks of Some ws \<Rightarrow> vec_get_or from_seq ws (unat shard_id) \<le> from_seq | None \<Rightarrow> False)
     then ret True
     else
       abind (lift_res (ge_get e (''/v1/mutations'' @ position_query shard_id from_seq))) (\<lambda>response.
       if hr_status_code response = 409 \<or> hr_status_code response = 410
       then abind (repair_from_snapshot w e) (\<lambda>_. ret False)
       else if hr_status_code response \<noteq> 200 then raise InvalidData
       else
         abind (gets ag_signature_verifier) (\<lambda>v.
         abind (lift_res (verify_remote_payload_signature w e v
             (''/v1/mutations.sig'' @ position_query shard_id from_seq) (hr_body response))) (\<lambda>_.
         abind (lift_res (decode_mutation_stream (hr_body response))) (\<lambda>ms.
         if ms = [] then ret True else install_polled w e shard_id ms))))))"

fun poll_shards :: "world \<Rightarrow> agent_env \<Rightarrow> u64 list option \<Rightarrow> u16 list \<Rightarrow> bool agent_act" where
  "poll_shards w e remote_watermarks [] = ret True"
| "poll_shards w e remote_watermarks (i # is) =
     abind (poll_shard w e remote_watermarks i) (\<lambda>go_on.
     if go_on then poll_shards w e remote_watermarks is else ret False)"

definition check_canary :: "world \<Rightarrow> agent_env \<Rightarrow> unit agent_act" where
  "check_canary w e =
     abind (lift_res (ge_get e ''/v1/canary/latest'')) (\<lambda>response.
     if hr_status_code response \<noteq> 200 then ret ()
     else
       abind (lift_res (json_body w (hr_body response))) (\<lambda>form.
       if hm_get form ''status'' \<noteq> Some ''ok'' then ret ()
       else (case hm_get form ''key'' of
           None \<Rightarrow> ret ()
         | Some key \<Rightarrow>
             let canary_seq = (case hm_get form ''seq'' of
                 Some v \<Rightarrow> (case parse_uint (2 ^ 64) v of Some n \<Rightarrow> word_of_nat n | None \<Rightarrow> 0)
               | None \<Rightarrow> 0) in
             abind (agent_now e) (\<lambda>now.
             abind (gets (\<lambda>a. active_lookup (ag_state a) ''globacl'' ''canary'' key now)) (\<lambda>looked_up.
             abind (lift_res looked_up) (\<lambda>decision.
             if decision_is_denied decision then
               abind (agent_now e) (\<lambda>seen.
               on_metrics (\<lambda>m. m\<lparr>am_last_canary_key := key, am_last_canary_seq := canary_seq,
                 am_last_canary_seen_unix := seen\<rparr>))
             else ret ()))))))"

definition poll_once :: "world \<Rightarrow> agent_env \<Rightarrow> unit agent_act" where
  "poll_once w e =
     abind (gets (\<lambda>a. as_shard_count (ag_state a))) (\<lambda>shard_count.
     let remote_watermarks = (case agent_fetch_watermarks w e of Inr ws \<Rightarrow> Some ws | Inl _ \<Rightarrow> None) in
     abind (poll_shards w e remote_watermarks (shard_ids shard_count)) (\<lambda>go_on.
     if \<not> go_on then ret ()
     else
       abind (check_canary w e) (\<lambda>_.
       abind (agent_now e) (\<lambda>now. on_metrics (\<lambda>m. m\<lparr>am_last_successful_poll_unix := now\<rparr>)))))"

text \<open>One turn of the loop: an error is printed.\<close>

definition poll_turn :: "world \<Rightarrow> agent_env \<Rightarrow> unit agent_act" where
  "poll_turn w e =
     abind (attempt (poll_once w e)) (\<lambda>r. if r = Inl Panic then raise Panic else ret ())"

section \<open>Health\<close>

record active_stats =
  st_base_entries :: nat
  st_delta_adds :: nat
  st_delta_removes :: nat
  st_base_rules :: nat
  st_delta_rule_adds :: nat
  st_delta_rule_removes :: nat
  st_filter_bits :: nat
  st_filter_hashes :: nat
  st_estimated_bytes :: nat

definition active_stats_of :: "(active_state \<Rightarrow> nat) \<Rightarrow> active_state \<Rightarrow> active_stats" where
  "active_stats_of estimated_bytes s =
     \<lparr>st_base_entries = base_len (as_base s), st_delta_adds = hm_len (as_delta_adds s),
      st_delta_removes = hm_len (as_delta_removes s), st_base_rules = cr_rules_len (as_rule_base s),
      st_delta_rule_adds = hm_len (as_delta_rule_adds s), st_delta_rule_removes = hm_len (as_delta_rule_removes s),
      st_filter_bits = nf_bit_len (ib_filter (as_base s)), st_filter_hashes = NEGATIVE_FILTER_HASHES,
      st_estimated_bytes = estimated_bytes s\<rparr>"

definition agent_poll_lag :: "u64 \<Rightarrow> agent \<Rightarrow> u64" where
  "agent_poll_lag now a = saturating_sub now (am_last_successful_poll_unix (ag_metrics a))"

definition agent_state_lag :: "u64 \<Rightarrow> agent \<Rightarrow> u64" where
  "agent_state_lag now a = saturating_sub now (am_last_sync_unix (ag_metrics a))"

definition agent_stale :: "u64 \<Rightarrow> agent \<Rightarrow> bool" where
  "agent_stale now a \<longleftrightarrow> ag_stale_after_secs a < agent_poll_lag now a"

record agent_health =
  ah_stale :: bool
  ah_stale_after_secs :: u64
  ah_state_lag_secs :: u64
  ah_poll_lag_secs :: u64
  ah_max_seq :: u64
  ah_entries :: nat
  ah_stats :: active_stats
  ah_applied_mutations :: u64
  ah_repairs :: u64
  ah_bundle_repairs :: u64
  ah_snapshot_repairs :: u64
  ah_last_canary_seq :: u64
  ah_last_canary_seen_unix :: u64

definition agent_handle_health :: "(active_state \<Rightarrow> nat) \<Rightarrow> u64 \<Rightarrow> agent \<Rightarrow> agent_health" where
  "agent_handle_health estimated_bytes now a =
     (let m = ag_metrics a in
      \<lparr>ah_stale = agent_stale now a, ah_stale_after_secs = ag_stale_after_secs a,
       ah_state_lag_secs = agent_state_lag now a, ah_poll_lag_secs = agent_poll_lag now a,
       ah_max_seq = max_or_zero (as_watermarks (ag_state a)), ah_entries = active_entries_len (ag_state a),
       ah_stats = active_stats_of estimated_bytes (ag_state a), ah_applied_mutations = am_applied_mutations m,
       ah_repairs = am_repairs m, ah_bundle_repairs = am_bundle_repairs m,
       ah_snapshot_repairs = am_snapshot_repairs m, ah_last_canary_seq = am_last_canary_seq m,
       ah_last_canary_seen_unix = am_last_canary_seen_unix m\<rparr>)"

definition agent_handle_lookup :: "agent \<Rightarrow> string \<Rightarrow> string \<Rightarrow> string \<Rightarrow> u64 \<Rightarrow> decision res" where
  "agent_handle_lookup a tenant_id namespace key now = active_lookup (ag_state a) tenant_id namespace key now"

definition agent_handle_check :: "agent \<Rightarrow> string \<Rightarrow> string \<Rightarrow> string \<Rightarrow> u64 \<Rightarrow> decision res" where
  "agent_handle_check a tenant_id namespace v now = active_check (ag_state a) tenant_id namespace v now"

definition agent_health_json :: "(active_state \<Rightarrow> nat) \<Rightarrow> u64 \<Rightarrow> agent \<Rightarrow> json" where
  "agent_health_json estimated_bytes now a =
     (let s = ag_state a; t = active_stats_of estimated_bytes s; m = ag_metrics a in JObject
       [(''status'', JString (if agent_stale now a then ''stale'' else ''ok'')), (''role'', JString ''agent''),
        (''agent_id'', JString (ag_agent_id a)), (''shard_count'', json_nat (unat (as_shard_count s))),
        (''entries'', json_nat (active_entries_len s)), (''base_entries'', json_nat (st_base_entries t)),
        (''delta_adds'', json_nat (st_delta_adds t)), (''delta_removes'', json_nat (st_delta_removes t)),
        (''base_rules'', json_nat (st_base_rules t)), (''delta_rule_adds'', json_nat (st_delta_rule_adds t)),
        (''delta_rule_removes'', json_nat (st_delta_rule_removes t)),
        (''filter_bits'', json_nat (st_filter_bits t)), (''filter_hashes'', json_nat (st_filter_hashes t)),
        (''estimated_state_bytes'', json_nat (st_estimated_bytes t)),
        (''max_seq'', json_u64 (max_or_zero (as_watermarks s))),
        (''last_sync_unix'', json_u64 (am_last_sync_unix m)),
        (''last_successful_poll_unix'', json_u64 (am_last_successful_poll_unix m)),
        (''state_lag_secs'', json_u64 (agent_state_lag now a)), (''poll_lag_secs'', json_u64 (agent_poll_lag now a)),
        (''stale_after_secs'', json_u64 (ag_stale_after_secs a)), (''stale'', JBool (agent_stale now a)),
        (''applied_mutations'', json_u64 (am_applied_mutations m)), (''repairs'', json_u64 (am_repairs m)),
        (''bundle_repairs'', json_u64 (am_bundle_repairs m)),
        (''snapshot_repairs'', json_u64 (am_snapshot_repairs m)),
        (''last_canary_key'', JString (am_last_canary_key m)), (''last_canary_seq'', json_u64 (am_last_canary_seq m)),
        (''last_canary_seen_unix'', json_u64 (am_last_canary_seen_unix m))])"

section \<open>Requests\<close>

text \<open>\<open>query.get(a).or_else(b).filter(non-empty)\<close>.\<close>

definition agent_check_value :: "form \<Rightarrow> string res" where
  "agent_check_value query = (case first_field query [''value'', ''key''] of
       Some v \<Rightarrow> if v = [] then Inl Parse else Inr v
     | None \<Rightarrow> Inl Parse)"

definition agent_decision_reply :: "world \<Rightarrow> decision res \<Rightarrow> reply res" where
  "agent_decision_reply w decision = rbind decision (\<lambda>d. Inr (json_reply w 200 (format_decision d)))"

definition agent_handle_connection ::
  "world \<Rightarrow> (active_state \<Rightarrow> nat) \<Rightarrow> u64 \<Rightarrow> http_request \<Rightarrow> agent \<Rightarrow> reply res" where
  "agent_handle_connection w estimated_bytes now q a =
     rbind (parse_query_path (hq_path q)) (\<lambda>(route, query).
     if hq_method q = ''GET'' \<and> route = ''/health'' then Inr (json_reply w 200 (agent_health_json estimated_bytes now a))
     else if hq_method q = ''GET'' \<and> route = ''/v1/lookup'' then
       rbind (required_query query ''tenant_id'') (\<lambda>tenant_id.
       rbind (required_query query ''namespace'') (\<lambda>namespace.
       rbind (required_query query ''key'') (\<lambda>key.
         agent_decision_reply w (active_lookup (ag_state a) tenant_id namespace key now))))
     else if hq_method q = ''GET'' \<and> route = ''/v1/check'' then
       rbind (required_query query ''tenant_id'') (\<lambda>tenant_id.
       rbind (required_query query ''namespace'') (\<lambda>namespace.
       rbind (agent_check_value query) (\<lambda>v.
         agent_decision_reply w (active_check (ag_state a) tenant_id namespace v now))))
     else if hq_method q = ''GET'' \<and> route = ''/v1/snapshot'' then
       rbind (active_snapshot (ag_state a)) (\<lambda>sn. Inr (octets (encode_snapshot sn)))
     else Inr (json_reply w 404 (JObject [(''error'', JString ''not_found'')])))"

definition agent_rows ::
  "(active_state \<Rightarrow> nat) \<Rightarrow> u64 \<Rightarrow> agent \<Rightarrow> (string \<times> string \<times> string \<times> nat) list" where
  "agent_rows estimated_bytes now a =
     (let t = active_stats_of estimated_bytes (ag_state a); m = ag_metrics a in
       [
        (''globacl_agent_up'', ''Agent process is serving requests.'', ''gauge'',
          1),
        (''globacl_agent_stale'', ''Whether the agent has exceeded its poll-lag staleness budget.'', ''gauge'',
          if agent_stale now a then 1 else 0),
        (''globacl_agent_shard_count'', ''Number of configured ACL shards.'', ''gauge'',
          unat (as_shard_count (ag_state a))),
        (''globacl_agent_entries'', ''Materialized deny entry count.'', ''gauge'',
          active_entries_len (ag_state a)),
        (''globacl_agent_base_entries'', ''Immutable-base deny entry count.'', ''gauge'',
          st_base_entries t),
        (''globacl_agent_delta_adds'', ''Mutable overlay deny add count.'', ''gauge'',
          st_delta_adds t),
        (''globacl_agent_delta_removes'', ''Mutable overlay deny tombstone count.'', ''gauge'',
          st_delta_removes t),
        (''globacl_agent_base_rules'', ''Immutable-base compiled rule count.'', ''gauge'',
          st_base_rules t),
        (''globacl_agent_delta_rule_adds'', ''Mutable overlay compiled rule add count.'', ''gauge'',
          st_delta_rule_adds t),
        (''globacl_agent_delta_rule_removes'', ''Mutable overlay compiled rule tombstone count.'', ''gauge'',
          st_delta_rule_removes t),
        (''globacl_agent_filter_bits'', ''Negative-filter bit count in the immutable base.'', ''gauge'',
          st_filter_bits t),
        (''globacl_agent_filter_hashes'', ''Negative-filter hash function count.'', ''gauge'',
          st_filter_hashes t),
        (''globacl_agent_estimated_state_bytes'', ''Estimated edge state memory bytes.'', ''gauge'',
          st_estimated_bytes t),
        (''globacl_agent_max_seq'', ''Maximum applied sequence across all shards.'', ''gauge'',
          unat (max_or_zero (as_watermarks (ag_state a)))),
        (''globacl_agent_last_sync_unix'', ''Unix timestamp of the last mutation application or repair.'', ''gauge'',
          unat (am_last_sync_unix m)),
        (''globacl_agent_last_successful_poll_unix'', ''Unix timestamp of the last successful polling loop.'', ''gauge'',
          unat (am_last_successful_poll_unix m)),
        (''globacl_agent_state_lag_secs'', ''Seconds since the last mutation application or repair.'', ''gauge'',
          unat (agent_state_lag now a)),
        (''globacl_agent_poll_lag_secs'', ''Seconds since the last successful polling loop.'', ''gauge'',
          unat (agent_poll_lag now a)),
        (''globacl_agent_stale_after_secs'', ''Configured poll-lag staleness budget in seconds.'', ''gauge'',
          unat (ag_stale_after_secs a)),
        (''globacl_agent_applied_mutations_total'', ''Number of applied mutations since process start.'', ''counter'',
          unat (am_applied_mutations m)),
        (''globacl_agent_repairs_total'', ''Number of repair attempts since process start.'', ''counter'',
          unat (am_repairs m)),
        (''globacl_agent_bundle_repairs_total'', ''Number of delta-bundle repairs since process start.'', ''counter'',
          unat (am_bundle_repairs m)),
        (''globacl_agent_snapshot_repairs_total'', ''Number of snapshot repairs since process start.'', ''counter'',
          unat (am_snapshot_repairs m)),
        (''globacl_agent_last_canary_seq'', ''Last observed synthetic canary sequence.'', ''gauge'',
          unat (am_last_canary_seq m)),
        (''globacl_agent_last_canary_seen_unix'', ''Unix timestamp of the last observed synthetic canary.'', ''gauge'',
          unat (am_last_canary_seen_unix m))])"

definition format_agent_metrics :: "(active_state \<Rightarrow> nat) \<Rightarrow> u64 \<Rightarrow> agent \<Rightarrow> string" where
  "format_agent_metrics estimated_bytes now a =
     append_metrics [(''agent_id'', ag_agent_id a)] (agent_rows estimated_bytes now a) []"

section \<open>Start\<close>

definition agent_config_new ::
  "(string \<Rightarrow> string res) \<Rightarrow> env \<Rightarrow> string \<Rightarrow> string \<Rightarrow> agent_config res" where
  "agent_config_new read_text ev relay_addr snapshot_path =
     rbind (signature_verifier_from_env read_text ev) (\<lambda>v.
       Inr \<lparr>gc_relay_addr = relay_addr, gc_snapshot_path = snapshot_path, gc_poll_interval_ms = 1000,
            gc_agent_id = ''agent-embedded'', gc_stale_after_secs = 60, gc_signature_verifier = v\<rparr>)"

definition default_agent_id :: "string \<Rightarrow> string" where
  "default_agent_id bind_addr = ''agent-'' @
     map (\<lambda>c. if c = CHR '':'' \<or> c = CHR ''.'' then CHR ''-'' else c)
       (filter (\<lambda>c. c \<noteq> CHR ''['' \<and> c \<noteq> CHR '']'') bind_addr)"

text \<open>The arguments of the program: its configuration and the address it binds.\<close>

definition agent_arguments ::
  "(string \<Rightarrow> string res) \<Rightarrow> env \<Rightarrow> string list \<Rightarrow> (agent_config \<times> string \<times> string option) res" where
  "agent_arguments read_text ev args =
     (let relay_addr = vec_get_or ''127.0.0.1:7001'' args 1; bind_addr = vec_get_or ''127.0.0.1:7002'' args 2;
          snapshot_path = vec_get_or ''data/agent/latest.gacl'' args 3 in
      rbind (env_parsed (vec_get args 4) parse_env_u64 1000) (\<lambda>poll_ms.
      let agent_id = vec_get_or (default_agent_id bind_addr) args 5 in
      rbind (env_parsed (vec_get args 6) parse_env_u64 60) (\<lambda>stale_after_secs.
      rbind (agent_config_new read_text ev relay_addr snapshot_path) (\<lambda>c.
        Inr (c\<lparr>gc_poll_interval_ms := poll_ms, gc_agent_id := agent_id, gc_stale_after_secs := stale_after_secs\<rparr>,
             bind_addr, metrics_bind_addr_from_env ev ''GLOBACL_AGENT_METRICS_ADDR'' ''127.0.0.1:9102'')))))"

end
