(* ===== verification/Agent_Restart.thy ===== *)
theory Agent_Restart
  imports Agent
begin

text \<open>
  What an agent keeps on its disk is what it serves: whatever its polls meet (gaps, repairs, failing
  writes, acknowledgements that are not answered), an agent that is started again on the same file
  has the same content and the same watermarks.  And what it takes without a signature.
\<close>

section \<open>Content that the snapshot format can carry\<close>

definition wire_content :: "acl_view \<Rightarrow> bool" where
  "wire_content v \<longleftrightarrow> (\<forall>k e. av_entries v k = Some e \<longrightarrow> wire_entry e) \<and>
     (\<forall>k r. av_rules v k = Some r \<longrightarrow> wire_rule r)"

definition wire_effect :: "mutation \<Rightarrow> bool" where
  "wire_effect m \<longleftrightarrow> wire_entry (mu_entry m) \<and> (\<forall>r. mu_rule m = Some r \<longrightarrow> wire_rule r)"

lemma decoded_mutation_wire: "decode_mutation_from_cursor c = Inr (m, rest) \<Longrightarrow> wire_effect m"
  by (auto simp: decode_mutation_from_cursor_def wire_effect_def rbind_eq_Inr read_mutation_rule_def
      entry.dec_iff rule.dec_iff split: if_splits)

lemma read_n_all:
  assumes "\<And>c x c'. rd c = Inr (x, c') \<Longrightarrow> P x"
  shows "read_n rd n c = Inr (xs, c') \<Longrightarrow> \<forall>x \<in> set xs. P x"
  using assms by (induction n arbitrary: c xs c') (fastforce simp: rbind_eq_Inr)+

lemma decoded_stream_wire:
  assumes "decode_mutation_stream b = Inr ms" and "m \<in> set ms"
  shows "wire_effect m"
proof -
  from assms(1) obtain n c c' where "read_n decode_record n c = Inr (ms, c')"
    by (auto simp: decode_mutation_stream_def rbind_eq_Inr)
  moreover have "decode_record c = Inr (x, c') \<Longrightarrow> wire_effect x" for c x c'
    by (auto simp: decode_record_def decode_mutation_def rbind_eq_Inr dest: decoded_mutation_wire)
  ultimately show ?thesis using read_n_all [of decode_record wire_effect] assms(2) by blast
qed

lemma wire_content_apply: "wire_content v \<Longrightarrow> wire_effect m \<Longrightarrow> wire_content (view_apply m v)"
  by (auto simp: wire_content_def wire_effect_def view_apply_def Let_def split: option.splits action.splits if_splits)

section \<open>Loading\<close>

definition distinct_rules :: "snapshot \<Rightarrow> bool" where
  "distinct_rules sn \<longleftrightarrow> inj_on rule_key_of {r \<in> set (sn_rules sn). re_action r \<noteq> Delete}"

definition loads_as :: "snapshot \<Rightarrow> acl_view \<Rightarrow> bool" where
  "loads_as sn v \<longleftrightarrow> (\<forall>s. active_from_snapshot sn = Inr s \<longrightarrow> active_ok s \<and> active_view s = v)"

lemma load_ok:
  assumes "active_from_snapshot sn = Inr s" and "distinct_rules sn"
  shows "active_ok s" and "wire_snapshot sn \<Longrightarrow> wire_content (active_view s)" and "loads_as sn (active_view s)"
proof -
  from active_from_snapshot_with [OF assms(1)] have
    w: "active_with (sn_shard_count sn) (sn_watermarks sn) (sn_entries sn) (sn_rules sn) = Inr s"
    "length (sn_watermarks sn) = unat (sn_shard_count sn)" by auto
  note ok = active_with_ok [OF w assms(2) [unfolded distinct_rules_def]]
  show "active_ok s" by (rule ok(1))
  with assms(1) show "loads_as sn (active_view s)" by (auto simp: loads_as_def)
  show "wire_content (active_view s)" if "wire_snapshot sn"
    using that ok(3,4) by (auto simp: wire_content_def wire_snapshot_def dest: newest_key)
qed

text \<open>The snapshot of a state can be written and read, and gives back the content.\<close>

definition fits :: "active_state \<Rightarrow> bool" where
  "fits s \<longleftrightarrow> (\<forall>sn. active_snapshot s = Inr sn \<longrightarrow> length (sn_entries sn) < 2 ^ 64 \<and> length (sn_rules sn) < 2 ^ 64)"

lemma own_snapshot:
  assumes "active_ok s" and "active_snapshot s = Inr sn"
  shows "loads_as sn (active_view s)" and "fits s \<Longrightarrow> wire_content (active_view s) \<Longrightarrow> wire_snapshot sn"
proof -
  from materialized_entries_ok [OF assms(1)] obtain es where es: "materialized_entries s = Inr es"
    "distinct (map acl_key_of es)" "entry_map es = av_entries (active_view s)" by blast
  with assms(2) have sn: "sn = \<lparr>sn_shard_count = as_shard_count s, sn_watermarks = as_watermarks s,
      sn_entries = es, sn_rules = materialized_rules s\<rparr>" by (simp add: active_snapshot_def)
  note rules = materialized_rules_ok [OF assms(1)]
  have entry: "e \<in> set es \<longleftrightarrow> av_entries (active_view s) (acl_key_of e) = Some e" for e
    using entry_map_Some [OF es(2), of "acl_key_of e" e] es(3) by simp
  have len: "length (as_watermarks s) = unat (as_shard_count s)" using assms(1) by (simp add: active_ok_def)
  show "loads_as sn (active_view s)"
    unfolding loads_as_def
  proof (intro allI impI)
    fix t
    assume t: "active_from_snapshot sn = Inr t"
    from active_from_snapshot_with [OF this] have
      w: "active_with (as_shard_count s) (as_watermarks s) es (materialized_rules s) = Inr t" by (simp add: sn)
    have "inj_on rule_key_of {r \<in> set (materialized_rules s). re_action r \<noteq> Delete}"
      using rules(1) by (rule inj_on_subset) auto
    note ok = active_with_ok [OF w len this]
    have "av_entries (active_view t) k = av_entries (active_view s) k" for k
      using ok(3) newest_distinct [OF es(2), of k] es(3) by simp
    moreover have "av_rules (active_view t) k = av_rules (active_view s) k" for k
    proof -
      have "av_rules (active_view t) k = Some r \<longleftrightarrow> av_rules (active_view s) k = Some r" for r
        using ok(4) [of k r] rules(2,3) view_rules_key [OF assms(1), of k r] by blast
      then show ?thesis by (metis option.exhaust)
    qed
    ultimately show "active_ok t \<and> active_view t = active_view s"
      using ok(1,5) active_replica.view_watermarks [OF assms(1)] active_replica.view_watermarks [OF ok(1)]
      by (auto intro: acl_view.equality simp: fun_eq_iff)
  qed
  show "wire_snapshot sn" if "fits s" and "wire_content (active_view s)"
    unfolding wire_snapshot_def
    using that assms(2) entry rules(2) len by (auto simp: fits_def wire_content_def sn)
qed

section \<open>The invariant of an agent\<close>

definition agent_ok :: "agent \<Rightarrow> bool" where
  "agent_ok a \<longleftrightarrow> active_ok (ag_state a) \<and> wire_content (active_view (ag_state a)) \<and>
     (fits (ag_state a) \<longrightarrow> (\<exists>b sn. gd_snapshot (ag_disk a) = Some b \<and> decode_snapshot b = Inr sn \<and>
        loads_as sn (active_view (ag_state a))))"

definition keeps_agent :: "agent \<Rightarrow> agent \<Rightarrow> bool" where
  "keeps_agent a b \<longleftrightarrow> (agent_ok a \<longrightarrow> agent_ok b)"

interpretation agent: progress keeps_agent
  by unfold_locales (auto simp: keeps_agent_def)

text \<open>What is asked of the outside: the rules of a snapshot have different keys.\<close>

definition rules_distinct :: "agent_env \<Rightarrow> bool" where
  "rules_distinct e \<longleftrightarrow> (\<forall>path response sn. ge_get e path = Inr response \<longrightarrow>
     decode_snapshot (hr_body response) = Inr sn \<longrightarrow> distinct_rules sn)"

text \<open>Steps that leave the state and the file alone.\<close>

lemma core_keeps:
  assumes "\<And>a. ag_state (snd (m a)) = ag_state a \<and> gd_snapshot (ag_disk (snd (m a))) = gd_snapshot (ag_disk a)"
  shows "moves keeps_agent m"
  using assms by (simp add: moves_def keeps_agent_def agent_ok_def)

lemma clock_keeps: "moves keeps_agent (agent_now e)"
  by (rule core_keeps) (simp add: agent_now_def)

lemma metrics_keeps: "moves keeps_agent (on_metrics f)"
  by (rule core_keeps) (simp add: on_metrics_def)

lemma lifted_keeps:
  "(\<And>x. r = Inr x \<Longrightarrow> moves keeps_agent (f x)) \<Longrightarrow> moves keeps_agent (abind (lift_res r) f)"
  by (cases r) (auto intro: agent.intros simp: moves_def abind_app keeps_agent_def)

lemma if_keeps: "(c \<Longrightarrow> moves keeps_agent m) \<Longrightarrow> (\<not> c \<Longrightarrow> moves keeps_agent n) \<Longrightarrow> moves keeps_agent (if c then m else n)"
  by simp

text \<open>What is read of the state is known to be well-formed.\<close>

lemma read_keeps:
  "(\<And>a. agent_ok a \<Longrightarrow> moves keeps_agent (g (f a))) \<Longrightarrow> moves keeps_agent (abind (gets f) g)"
  by (simp add: moves_def keeps_agent_def)

lemma ack_keeps: "moves keeps_agent (send_ack w e shard_id seq entries)"
  unfolding send_ack_def
  by (intro agent.bound clock_keeps agent.pure if_keeps) (rule core_keeps, simp)

lemma install_keeps:
  assumes "active_ok state" and "wire_content (active_view state)"
  shows "moves keeps_agent (install_state state)"
  unfolding install_state_def
proof (rule lifted_keeps)
  fix sn
  assume sn: "active_snapshot state = Inr sn"
  note own = own_snapshot [OF assms(1) sn]
  have "decode_snapshot (encode_snapshot sn) = Inr sn" if "fits state"
    using own(2) [OF that assms(2)] decode_encode_snapshot [of sn "[]"] by simp
  with own(1) assms show "moves keeps_agent (abind (on_agent_disk (write_snapshot_file sn)) (\<lambda>_. swap_state state))"
    by (auto simp: moves_def keeps_agent_def abind_app on_agent_disk_def write_snapshot_file_def swap_state_def
        agent_ok_def split: list.split bool.split)
qed

lemma fetched_from:
  assumes "fetch_snapshot w e v = Inr sn"
  shows "\<exists>path response. ge_get e path = Inr response \<and> decode_snapshot (hr_body response) = Inr sn"
  using assms
  by (fastforce simp: fetch_snapshot_def fetch_snapshot_from_manifest_def fetch_legacy_snapshot_def rbind_eq_Inr
      split: sum.splits if_splits)

lemma replace_keeps:
  assumes "wire_snapshot sn" and "distinct_rules sn" and "\<And>state. moves keeps_agent (f state)"
  shows "moves keeps_agent (abind (on_agent_disk (write_snapshot_file sn)) (\<lambda>_.
    abind (lift_res (active_from_snapshot sn)) (\<lambda>state. abind (swap_state state) (\<lambda>_. f state))))"
  unfolding moves_def keeps_agent_def
proof (intro allI impI)
  fix a
  assume a: "agent_ok a"
  let ?m = "\<lambda>_. abind (lift_res (active_from_snapshot sn)) (\<lambda>state. abind (swap_state state) (\<lambda>_. f state))"
  have again: "decode_snapshot (encode_snapshot sn) = Inr sn"
    using assms(1) decode_encode_snapshot [of sn "[]"] by simp
  obtain r d where wr: "write_snapshot_file sn (ag_disk a) = (r, d)" by force
  show "agent_ok (snd (abind (on_agent_disk (write_snapshot_file sn)) ?m a))"
  proof (cases r)
    case (Inl err)
    with wr have "gd_snapshot d = gd_snapshot (ag_disk a)"
      by (auto simp: write_snapshot_file_def split: list.splits bool.splits)
    with Inl wr a show ?thesis by (simp add: abind_app on_agent_disk_def agent_ok_def)
  next
    case (Inr u)
    with wr have d: "gd_snapshot d = Some (encode_snapshot sn)"
      by (auto simp: write_snapshot_file_def split: list.splits bool.splits)
    show ?thesis
    proof (cases "active_from_snapshot sn")
      case (Inl err)
      then have "loads_as sn (active_view (ag_state a))" by (simp add: loads_as_def)
      with Inl Inr wr a d again show ?thesis
        by (auto simp: abind_app on_agent_disk_def agent_ok_def)
    next
      case inner: (Inr state)
      let ?b = "a\<lparr>ag_disk := d, ag_state := state\<rparr>"
      have "agent_ok ?b"
        using load_ok [OF inner assms(2)] assms(1) d again by (simp add: agent_ok_def)
      moreover have "snd (abind (on_agent_disk (write_snapshot_file sn)) ?m a) = snd (f state ?b)"
        using Inr inner wr by (simp add: abind_app on_agent_disk_def swap_state_def)
      ultimately show ?thesis using assms(3) by (simp add: moves_def keeps_agent_def)
    qed
  qed
qed

lemma repair_snapshot_keeps:
  assumes "rules_distinct e"
  shows "moves keeps_agent (repair_from_snapshot w e)"
  unfolding repair_from_snapshot_def
proof (intro read_keeps lifted_keeps)
  fix a sn
  assume "fetch_snapshot w e (ag_signature_verifier a) = Inr sn"
  from fetched_from [OF this] assms have "wire_snapshot sn" "distinct_rules sn"
    unfolding rules_distinct_def by (blast dest: decode_snapshot_wire)+
  then show "moves keeps_agent (abind (on_agent_disk (write_snapshot_file sn)) (\<lambda>_.
     abind (lift_res (active_from_snapshot sn)) (\<lambda>state.
     abind (swap_state state) (\<lambda>_.
     abind (afor (\<lambda>(shard_id, seq, entries). send_ack w e shard_id seq entries) (ack_targets state)) (\<lambda>_.
     abind (agent_now e) (\<lambda>now.
       on_metrics (\<lambda>m. m\<lparr>am_last_sync_unix := now, am_last_successful_poll_unix := now,
         am_repairs := am_repairs m + 1, am_snapshot_repairs := am_snapshot_repairs m + 1\<rparr>)))))))"
    by (rule replace_keeps)
      (auto intro!: agent.bound agent.looped ack_keeps clock_keeps metrics_keeps split: prod.split)
qed

text \<open>Applying decoded mutations keeps a state well-formed.\<close>

definition good_state :: "active_state \<Rightarrow> bool" where
  "good_state s \<longleftrightarrow> active_ok s \<and> wire_content (active_view s)"

lemma good_apply:
  assumes "good_state s" and "wire_effect m" and "active_apply_mutation m s = Inr (s', status)"
  shows "good_state s'"
proof -
  have ok: "active_ok s" using assms(1) by (simp add: good_state_def)
  have "active_view s' = active_view s \<or> active_view s' = view_apply m (active_view s)"
    using active_replica.view_outcome [OF ok assms(3)] by auto
  with assms(1,2) wire_content_apply active_replica.inv_step [OF ok assms(3)] show ?thesis
    by (auto simp: good_state_def)
qed

lemma good_stream:
  assumes "good_state s" and "\<forall>m \<in> set ms. wire_effect m" and "apply_stream active_apply_mutation ms s = Inr s'"
  shows "good_state s'"
  using assms by (induction ms arbitrary: s) (auto simp: rbind_eq_Inr dest: good_apply)

lemma polled_stream:
  "apply_polled ms s = Inr (s', n) \<Longrightarrow> apply_stream active_apply_mutation ms s = Inr s'"
proof -
  have "rfold (\<lambda>m (s, applied). rbind (active_apply_mutation m s) (\<lambda>(s', status).
       Inr (s', if status = Applied then applied + 1 else applied))) ms (s, k) = Inr (s', n) \<Longrightarrow>
     apply_stream active_apply_mutation ms s = Inr s'" for k
    by (induction ms arbitrary: s k) (auto simp: rbind_eq_Inr)
  then show "apply_polled ms s = Inr (s', n) \<Longrightarrow> apply_stream active_apply_mutation ms s = Inr s'"
    unfolding apply_polled_def by blast
qed

lemma good_compact: "good_state s \<Longrightarrow> compact_if_large s = Inr s' \<Longrightarrow> good_state s'"
  using compact_ok [of s s'] by (auto simp: good_state_def compact_if_large_def split: if_splits)

lemma good_install: "good_state s \<Longrightarrow> moves keeps_agent (install_state s)"
  by (simp add: good_state_def install_keeps)

lemma good_current: "agent_ok a \<Longrightarrow> good_state (ag_state a)"
  by (simp add: agent_ok_def good_state_def)

lemmas agent_steps = agent.pure agent.bound clock_keeps metrics_keeps ack_keeps

lemma install_bundle_keeps:
  assumes "\<forall>m \<in> set ms. wire_effect m"
  shows "moves keeps_agent (install_bundle w e shard_id ms)"
  unfolding install_bundle_def
proof (intro read_keeps lifted_keeps)
  fix a state state' seq
  assume "agent_ok a" and "apply_stream active_apply_mutation ms (ag_state a) = Inr state"
    and "compact_if_large state = Inr state'"
  then have "good_state state'" using good_current good_stream assms good_compact by blast
  then show "moves keeps_agent (abind (install_state state') (\<lambda>_.
     abind (send_ack w e shard_id seq (active_entries_len state')) (\<lambda>_.
     abind (agent_now e) (\<lambda>now.
       on_metrics (\<lambda>m. m\<lparr>am_last_sync_unix := now, am_last_successful_poll_unix := now,
         am_repairs := am_repairs m + 1, am_bundle_repairs := am_bundle_repairs m + 1\<rparr>)))))"
    by (intro agent_steps good_install)
qed

lemma repair_gap_keeps:
  assumes "rules_distinct e"
  shows "moves keeps_agent (agent_repair_gap w e shard_id from_seq to_seq)"
  unfolding agent_repair_gap_def
  by (intro if_keeps lifted_keeps read_keeps repair_snapshot_keeps [OF assms] install_bundle_keeps)
    (auto dest: decoded_stream_wire)

lemma install_polled_keeps:
  assumes "rules_distinct e" and "\<forall>m \<in> set ms. wire_effect m"
  shows "moves keeps_agent (install_polled w e shard_id ms)"
  unfolding install_polled_def
proof (rule read_keeps)
  fix a
  assume a: "agent_ok a"
  have "moves keeps_agent (abind (lift_res (compact_if_large state)) (\<lambda>state.
         abind (lift_res (vec_index (as_watermarks state) (unat shard_id))) (\<lambda>ack_seq.
         abind (install_state state) (\<lambda>_.
         abind (agent_now e) (\<lambda>now.
         abind (on_metrics (\<lambda>m. m\<lparr>am_last_sync_unix := now,
           am_applied_mutations := am_applied_mutations m + applied\<rparr>)) (\<lambda>_.
         abind (send_ack w e shard_id ack_seq (active_entries_len state)) (\<lambda>_. ret True)))))))"
    if "apply_polled ms (ag_state a) = Inr (state, applied)" for state applied
  proof (intro lifted_keeps agent_steps good_install)
    fix state'
    assume "compact_if_large state = Inr state'"
    with good_stream [OF good_current [OF a] assms(2) polled_stream [OF that]] show "good_state state'"
      by (rule good_compact)
  qed
  then show "moves keeps_agent (case apply_polled ms (ag_state a) of
       Inl (Gap shard expected_seq received_seq) \<Rightarrow>
         abind (agent_repair_gap w e shard (saturating_sub expected_seq 1) (saturating_sub received_seq 1)) (\<lambda>_.
           ret False)
     | Inl err \<Rightarrow> raise err
     | Inr (state, applied) \<Rightarrow>
         abind (lift_res (compact_if_large state)) (\<lambda>state.
         abind (lift_res (vec_index (as_watermarks state) (unat shard_id))) (\<lambda>ack_seq.
         abind (install_state state) (\<lambda>_.
         abind (agent_now e) (\<lambda>now.
         abind (on_metrics (\<lambda>m. m\<lparr>am_last_sync_unix := now,
           am_applied_mutations := am_applied_mutations m + applied\<rparr>)) (\<lambda>_.
         abind (send_ack w e shard_id ack_seq (active_entries_len state)) (\<lambda>_. ret True)))))))"
    using repair_gap_keeps [OF assms(1)]
    by (auto intro!: agent.pure agent.bound split: sum.split gerror.split prod.split)
qed

lemma poll_shard_keeps:
  assumes "rules_distinct e"
  shows "moves keeps_agent (poll_shard w e remote_watermarks shard_id)"
  unfolding poll_shard_def
  by (intro read_keeps lifted_keeps if_keeps agent.pure agent.bound repair_snapshot_keeps [OF assms]
      install_polled_keeps [OF assms]) (auto dest: decoded_stream_wire)

lemma poll_shards_keeps:
  assumes "rules_distinct e"
  shows "moves keeps_agent (poll_shards w e remote_watermarks is)"
proof (induction "is")
  case Nil
  show ?case unfolding poll_shards.simps by (rule agent.pure)
next
  case (Cons i "is")
  then show ?case
    unfolding poll_shards.simps by (intro agent.bound if_keeps poll_shard_keeps [OF assms] agent.pure)
qed

lemma canary_keeps: "moves keeps_agent (check_canary w e)"
  unfolding check_canary_def Let_def
  by (intro lifted_keeps if_keeps agent.pure)
    (auto intro!: agent_steps lifted_keeps split: option.split)

lemma poll_once_keeps:
  assumes "rules_distinct e"
  shows "moves keeps_agent (poll_once w e)"
  unfolding poll_once_def Let_def
  by (intro read_keeps agent.bound if_keeps agent.pure poll_shards_keeps [OF assms] canary_keeps clock_keeps metrics_keeps)

lemma poll_turn_keeps: "rules_distinct e \<Longrightarrow> moves keeps_agent (poll_turn w e)"
  unfolding poll_turn_def by (intro agent.bound agent.attempted poll_once_keeps if_keeps agent.pure)

section \<open>Runs\<close>

inductive agent_run :: "agent \<Rightarrow> bool" where
  agent_started: "build_app w e c d = (Inr a, d') \<Longrightarrow> rules_distinct e \<Longrightarrow>
    \<forall>b sn. gd_snapshot d = Some b \<longrightarrow> decode_snapshot b = Inr sn \<longrightarrow> distinct_rules sn \<Longrightarrow> agent_run a"
| agent_polled: "agent_run a \<Longrightarrow> rules_distinct e \<Longrightarrow> agent_run (snd (poll_turn w e a))"

lemma built_ok:
  assumes "build_app w e c d = (Inr a, d')" and "rules_distinct e"
    and "\<forall>b sn. gd_snapshot d = Some b \<longrightarrow> decode_snapshot b = Inr sn \<longrightarrow> distinct_rules sn"
  shows "agent_ok a"
proof -
  from assms(1) obtain sn state d1 where l: "load_or_fetch_snapshot w e (gc_signature_verifier c) d = (Inr sn, d1)"
    and st: "active_from_snapshot sn = Inr state" and a: "ag_state a = state" "ag_disk a = d1"
    by (auto simp: build_app_def abind_Inr)
  have "\<exists>b. gd_snapshot d1 = Some b \<and> decode_snapshot b = Inr sn \<and> wire_snapshot sn \<and> distinct_rules sn"
  proof (cases "gd_snapshot d")
    case None
    with l obtain u where f: "fetch_snapshot w e (gc_signature_verifier c) = Inr sn"
      and wr: "write_snapshot_file sn d = (Inr u, d1)"
      by (auto simp: load_or_fetch_snapshot_def abind_Inr)
    from fetched_from [OF f] assms(2) have sn: "wire_snapshot sn" "distinct_rules sn"
      unfolding rules_distinct_def by (blast dest: decode_snapshot_wire)+
    from wr have "gd_snapshot d1 = Some (encode_snapshot sn)"
      by (auto simp: write_snapshot_file_def split: list.splits bool.splits)
    with sn decode_encode_snapshot [OF sn(1), of "[]"] show ?thesis by simp
  next
    case (Some b)
    with l have "d1 = d" and "decode_snapshot b = Inr sn"
      by (auto simp: load_or_fetch_snapshot_def abind_app split: sum.splits)
    with Some assms(3) decode_snapshot_wire show ?thesis by blast
  qed
  then obtain b where b: "gd_snapshot d1 = Some b" "decode_snapshot b = Inr sn" "wire_snapshot sn" "distinct_rules sn"
    by blast
  with load_ok [OF st b(4)] a show ?thesis by (auto simp: agent_ok_def)
qed

lemma run_ok: "agent_run a \<Longrightarrow> agent_ok a"
proof (induction rule: agent_run.induct)
  case (agent_started w e c d a d')
  then show ?case by (rule built_ok)
next
  case (agent_polled a e w)
  then show ?case using poll_turn_keeps [of e w] by (simp add: moves_def keeps_agent_def)
qed

lemma rebuilt_view:
  assumes "agent_ok a" and "fits (ag_state a)" and "gd_snapshot d = gd_snapshot (ag_disk a)"
    and "build_app w e c d = (Inr b, d')"
  shows "active_ok (ag_state b) \<and> active_view (ag_state b) = active_view (ag_state a)"
proof -
  from assms(1-3) obtain f sn where f: "gd_snapshot d = Some f" "decode_snapshot f = Inr sn"
    "loads_as sn (active_view (ag_state a))" by (auto simp: agent_ok_def)
  with assms(4) have "active_from_snapshot sn = Inr (ag_state b)"
    by (auto simp: build_app_def load_or_fetch_snapshot_def abind_app split: sum.splits)
  with f(3) show ?thesis by (auto simp: loads_as_def)
qed


section \<open>A run\<close>

definition down_env :: agent_env where
  "down_env = \<lparr>ge_get = (\<lambda>_. Inl Io), ge_post = (\<lambda>_. Inl Io), ge_now = (\<lambda>_. 7), ge_ed_verify = (\<lambda>_ _ _. Inr False)\<rparr>"

definition sample_agent_config :: agent_config where
  "sample_agent_config = \<lparr>gc_relay_addr = ''r'', gc_snapshot_path = ''s'', gc_poll_interval_ms = 1000,
     gc_agent_id = ''a'', gc_stale_after_secs = 60, gc_signature_verifier = \<lparr>sv_keys = [], sv_min_key_version = 0\<rparr>\<rparr>"

definition sample_agent_disk :: agent_disk where
  "sample_agent_disk = \<lparr>gd_snapshot = Some (encode_snapshot sample_wire_snapshot), gd_signature = None, gd_writes = []\<rparr>"

lemma sample_loaded: "\<exists>s. active_from_snapshot sample_wire_snapshot = Inr s"
proof -
  have "snapshot_validate sample_wire_snapshot = Inr ()"
    by (simp add: snapshot_validate_ok sample_wire_snapshot_def sample_wire_entry_def)
  moreover have "\<exists>s. active_with 2 [0, 1] [sample_wire_entry] [] = Inr s" by (rule active_with_total) simp_all
  ultimately show ?thesis by (simp add: active_from_snapshot_def) (simp add: sample_wire_snapshot_def)
qed

lemma sample_decoded_snapshot: "decode_snapshot (encode_snapshot sample_wire_snapshot) = Inr sample_wire_snapshot"
  using decode_encode_snapshot [of sample_wire_snapshot "[]"]
  by (simp add: wire_snapshot_def sample_wire_snapshot_def sample_wire_entry_ok)

lemma sample_rules: "distinct_rules sample_wire_snapshot"
  by (simp add: distinct_rules_def sample_wire_snapshot_def)

lemma sample_fits:
  assumes "active_from_snapshot sample_wire_snapshot = Inr s"
  shows "fits s"
  unfolding fits_def
proof (intro allI impI)
  fix sn
  assume sn: "active_snapshot s = Inr sn"
  from active_from_snapshot_with [OF assms] have w: "active_with 2 [0, 1] [sample_wire_entry] [] = Inr s"
    by (simp add: sample_wire_snapshot_def)
  note ok = active_with_ok [OF w, simplified]
  from materialized_entries_ok [OF ok(1)] obtain es where es: "materialized_entries s = Inr es"
    "distinct (map acl_key_of es)" "entry_map es = av_entries (active_view s)" by blast
  have "e = sample_wire_entry" if "e \<in> set es" for e
  proof -
    have "newest [sample_wire_entry] (acl_key_of e) = Some e"
      using entry_map_Some [OF es(2), of "acl_key_of e" e] that es(3) ok(3) by simp
    from newest_key [OF this] show ?thesis by simp
  qed
  then have "set es \<subseteq> {sample_wire_entry}" by blast
  then have "card (set es) \<le> 1" by (metis card_mono card.empty card_insert_disjoint empty_iff finite.emptyI finite_insert One_nat_def)
  moreover have "distinct es" using es(2) by (simp add: distinct_map)
  ultimately have "length es \<le> 1" by (simp add: distinct_card)
  moreover have "materialized_rules s = []"
  proof -
    have "r \<notin> set (materialized_rules s)" for r
      using materialized_rules_ok(2) [OF ok(1), of r] ok(4) [of "rule_key_of r" r] by simp
    then show ?thesis by (cases "materialized_rules s") auto
  qed
  ultimately show "length (sn_entries sn) < 2 ^ 64 \<and> length (sn_rules sn) < 2 ^ 64"
    using sn es(1) by (auto simp: active_snapshot_def)
qed


section \<open>Signatures that are not there\<close>


definition unsigned_env :: agent_env where
  "unsigned_env = down_env\<lparr>ge_get := (\<lambda>path. Inr (if path = ''/v1/snapshot''
     then \<lparr>hr_status_code = 200, hr_body = encode_snapshot sample_wire_snapshot\<rparr>
     else \<lparr>hr_status_code = 404, hr_body = []\<rparr>))\<rparr>"


end
