(* ===== verification/Spec2Isabelle.thy ===== *)
theory Spec2Isabelle
  imports Stale_Rule Election_Live Blocked_Start Metrics Routes Relay_Mirror Agent_Restart
begin

text \<open>
  A verification development for globacl.
\<close>

end
